(* ===== verification/Prelude.thy ===== *)
theory Prelude imports Complex_Main "HOL-Library.Multiset" "HOL-Library.Product_Lexorder" begin

text \<open>
  Shared vocabulary of the development: instants and durations, results with
  Python exceptions as values, slices and adjacent pairs of lists, and the
  short-circuiting loops that may raise.

  A timezone-aware \<open>datetime\<close> is its number of microseconds since the Unix
  epoch (Python's \<open>datetime\<close> has exactly that resolution, and its comparisons
  and differences of aware values are those of the instants). A \<open>timedelta\<close> is
  a number of microseconds. Python floats are read as exact reals throughout:
  rounding is not modelled.
\<close>

section \<open>Instants and durations\<close>

type_synonym instant = int

definition total_seconds :: "int \<Rightarrow> real" where
  "total_seconds d = of_int d / 1000000"

definition seconds :: "int \<Rightarrow> int" where
  "seconds n = n * 1000000"

lemma total_seconds_0 [simp]: "total_seconds 0 = 0"
  by (simp add: total_seconds_def)

lemma total_seconds_pos [simp]: "0 < total_seconds d \<longleftrightarrow> 0 < d"
  by (simp add: total_seconds_def)

lemma total_seconds_nonneg [simp]: "0 \<le> total_seconds d \<longleftrightarrow> 0 \<le> d"
  by (simp add: total_seconds_def zero_le_divide_iff)

lemma total_seconds_le0 [simp]: "total_seconds d \<le> 0 \<longleftrightarrow> d \<le> 0"
  using total_seconds_pos [of d] by linarith

lemma total_seconds_mono: "d \<le> e \<Longrightarrow> total_seconds d \<le> total_seconds e"
  by (simp add: total_seconds_def divide_right_mono)

lemma total_seconds_le_iff: "total_seconds d \<le> total_seconds e \<longleftrightarrow> d \<le> e"
  by (simp add: total_seconds_def divide_le_cancel)

lemma total_seconds_add: "total_seconds (d + e) = total_seconds d + total_seconds e"
  by (simp add: total_seconds_def add_divide_distrib)

lemma total_seconds_seconds [simp]: "total_seconds (seconds n) = of_int n"
  by (simp add: total_seconds_def seconds_def)

section \<open>Exceptions as values\<close>

text \<open>
  \<open>TypeError\<close> is what Python raises where a comparison meets \<open>None\<close>,
  \<open>IndexError\<close> where a subscript leaves its list;
  \<open>ValueError\<close> carries the message of an explicit \<open>raise\<close>.
\<close>

datatype py_error =
    TypeError
  | ValueError string
  | OverflowError
  | IndexError
  | ZeroDivisionError
  | AttributeError
  | KeyError
  | RuntimeError string

type_synonym 'a result = "py_error + 'a"

definition res_bind :: "'a result \<Rightarrow> ('a \<Rightarrow> 'b result) \<Rightarrow> 'b result" where
  "res_bind r f = (case r of Inl e \<Rightarrow> Inl e | Inr a \<Rightarrow> f a)"

lemma res_bind_simps [simp]:
  "res_bind (Inl e) f = Inl e"
  "res_bind (Inr a) f = f a"
  by (simp_all add: res_bind_def)

text \<open>\<open>any(f(x) for x in xs)\<close>: stops at the first true element or the first exception.\<close>

fun any_res :: "('a \<Rightarrow> bool result) \<Rightarrow> 'a list \<Rightarrow> bool result" where
  "any_res f [] = Inr False"
| "any_res f (x # xs) = res_bind (f x) (\<lambda>b. if b then Inr True else any_res f xs)"

text \<open>\<open>[x for x in xs if f(x)]\<close>: the first exception ends the comprehension.\<close>

fun filter_res :: "('a \<Rightarrow> bool result) \<Rightarrow> 'a list \<Rightarrow> 'a list result" where
  "filter_res f [] = Inr []"
| "filter_res f (x # xs) =
     res_bind (f x) (\<lambda>b. res_bind (filter_res f xs) (\<lambda>ys. Inr (if b then x # ys else ys)))"

lemma any_res_Inr:
  "(\<And>x. x \<in> set xs \<Longrightarrow> f x = Inr (p x)) \<Longrightarrow> any_res f xs = Inr (\<exists>x \<in> set xs. p x)"
  by (induction xs) auto

lemma filter_res_Inr:
  "(\<And>x. x \<in> set xs \<Longrightarrow> f x = Inr (p x)) \<Longrightarrow> filter_res f xs = Inr (filter p xs)"
  by (induction xs) auto

lemma filter_res_mem:
  "filter_res f xs = Inr ys \<Longrightarrow> y \<in> set ys \<Longrightarrow> y \<in> set xs \<and> f y = Inr True"
proof (induction xs arbitrary: ys)
  case Nil
  then show ?case by simp
next
  case (Cons x xs)
  from Cons.prems(1) obtain b zs where "f x = Inr b" "filter_res f xs = Inr zs"
    and "ys = (if b then x # zs else zs)"
    by (auto simp: res_bind_def split: sum.splits)
  with Cons show ?case by (auto split: if_splits)
qed

lemma any_res_False:
  "any_res f xs = Inr False \<Longrightarrow> x \<in> set xs \<Longrightarrow> f x = Inr False"
  by (induction xs) (auto simp: res_bind_def split: sum.splits if_splits)

lemma find_SomeD: "List.find p xs = Some x \<Longrightarrow> x \<in> set xs \<and> p x"
  by (induction xs) (auto split: if_splits)

section \<open>Slices, adjacent pairs, paths\<close>

text \<open>\<open>xs[a:b]\<close> for \<open>0 \<le> a\<close> and \<open>0 \<le> b\<close>.\<close>

definition slice :: "'a list \<Rightarrow> nat \<Rightarrow> nat \<Rightarrow> 'a list" where
  "slice xs a b = take (b - a) (drop a xs)"

text \<open>\<open>zip(xs, xs[1:])\<close>.\<close>

definition pairs :: "'a list \<Rightarrow> ('a \<times> 'a) list" where
  "pairs xs = zip xs (tl xs)"

lemma pairs_simps [simp]:
  "pairs [] = []" "pairs [x] = []" "pairs (x # y # zs) = (x, y) # pairs (y # zs)"
  by (simp_all add: pairs_def)

lemma length_pairs [simp]: "length (pairs xs) = length xs - 1"
  by (simp add: pairs_def)

lemma nth_pairs: "Suc i < length xs \<Longrightarrow> pairs xs ! i = (xs ! i, xs ! Suc i)"
  by (cases xs) (auto simp: pairs_def)

lemma pairs_mem_nth:
  "(a, b) \<in> set (pairs xs) \<longleftrightarrow> (\<exists>i. Suc i < length xs \<and> a = xs ! i \<and> b = xs ! Suc i)"
proof
  assume "(a, b) \<in> set (pairs xs)"
  then obtain i where "i < length (pairs xs)" "pairs xs ! i = (a, b)"
    by (auto simp: in_set_conv_nth)
  then show "\<exists>i. Suc i < length xs \<and> a = xs ! i \<and> b = xs ! Suc i"
    by (intro exI [of _ i]) (auto simp: nth_pairs)
next
  assume "\<exists>i. Suc i < length xs \<and> a = xs ! i \<and> b = xs ! Suc i"
  then obtain i where "Suc i < length xs" "a = xs ! i" "b = xs ! Suc i" by blast
  then have "i < length (pairs xs)" "pairs xs ! i = (a, b)" by (auto simp: nth_pairs)
  then show "(a, b) \<in> set (pairs xs)" by (metis nth_mem)
qed

lemma pairs_append_single:
  "xs \<noteq> [] \<Longrightarrow> pairs (xs @ [y]) = pairs xs @ [(last xs, y)]"
proof (induction xs)
  case (Cons x xs)
  then show ?case by (cases xs) auto
qed simp

lemma length_slice [simp]: "length (slice xs a b) = min (b - a) (length xs - a)"
  by (simp add: slice_def min.commute)

lemma nth_slice: "i < b - a \<Longrightarrow> b \<le> length xs \<Longrightarrow> slice xs a b ! i = xs ! (a + i)"
  by (simp add: slice_def)

lemma slice_Suc:
  "a \<le> b \<Longrightarrow> b < length xs \<Longrightarrow> slice xs a (Suc b) = slice xs a b @ [xs ! b]"
  by (simp add: slice_def take_Suc_conv_app_nth Suc_diff_le)

lemma slice_Cons:
  "a < b \<Longrightarrow> a < length xs \<Longrightarrow> slice xs a b = xs ! a # slice xs (Suc a) b"
  by (simp add: slice_def Cons_nth_drop_Suc [symmetric] Suc_diff_Suc [symmetric])

lemma hd_slice: "a < b \<Longrightarrow> b \<le> length xs \<Longrightarrow> hd (slice xs a b) = xs ! a"
  by (simp add: slice_Cons)

lemma last_slice: "a \<le> b \<Longrightarrow> b < length xs \<Longrightarrow> last (slice xs a (Suc b)) = xs ! b"
  by (simp add: slice_Suc)

lemma slice_Nil_iff: "slice xs a b = [] \<longleftrightarrow> b \<le> a \<or> length xs \<le> a"
  by (auto simp: slice_def)

lemma set_slice_subset: "set (slice xs a b) \<subseteq> set xs"
  by (auto simp: slice_def dest: in_set_takeD in_set_dropD)

text \<open>\<open>sum(d(a, b) for a, b in zip(xs, xs[1:]))\<close>.\<close>

definition path_sum :: "('a \<Rightarrow> 'a \<Rightarrow> real) \<Rightarrow> 'a list \<Rightarrow> real" where
  "path_sum d xs = sum_list (map (\<lambda>(a, b). d a b) (pairs xs))"

lemma path_sum_simps [simp]:
  "path_sum d [] = 0" "path_sum d [x] = 0"
  "path_sum d (x # y # zs) = d x y + path_sum d (y # zs)"
  by (simp_all add: path_sum_def)

lemma path_sum_snoc:
  "xs \<noteq> [] \<Longrightarrow> path_sum d (xs @ [y]) = path_sum d xs + d (last xs) y"
  by (simp add: path_sum_def pairs_append_single)

section \<open>Stable sorting\<close>

lemma mset_filter_split: "mset (filter (\<lambda>x. \<not> P x) xs) + mset (filter P xs) = mset xs"
  by (induction xs) auto

lemma sort_key_permutation_unique:
  fixes f :: "'a \<Rightarrow> 'k::linorder"
  assumes "mset xs = mset ys" and "distinct (map f xs)"
  shows "sort_key f xs = sort_key f ys"
  by (rule sort_key_inj_key_eq) (use assms in \<open>auto simp: distinct_map\<close>)

section \<open>Places in a queue\<close>

text \<open>How many stand before \<open>x\<close>.\<close>

definition place_in :: "'a \<Rightarrow> 'a list \<Rightarrow> nat" where
  "place_in x xs = length (takeWhile (\<lambda>y. y \<noteq> x) xs)"

lemma place_in_filter: "P x \<Longrightarrow> place_in x (filter P xs) \<le> place_in x xs"
  by (induction xs) (auto simp: place_in_def)

lemma place_in_tl: "x \<in> set (tl xs) \<Longrightarrow> distinct xs \<Longrightarrow> place_in x (tl xs) < place_in x xs"
  by (cases xs) (auto simp: place_in_def)

lemma place_in_append: "x \<in> set xs \<Longrightarrow> place_in x (xs @ ys) = place_in x xs"
  by (induction xs) (auto simp: place_in_def)

lemma place_in_less: "x \<in> set xs \<Longrightarrow> place_in x xs < length xs"
  by (induction xs) (auto simp: place_in_def)

lemma place_in_zero: "x \<in> set xs \<Longrightarrow> place_in x xs = 0 \<longleftrightarrow> hd xs = x"
  by (cases xs) (auto simp: place_in_def)

end
