(* ===== verification/DetectorTypes.thy ===== *)
theory DetectorTypes imports Prelude begin

text \<open>
  The data of \<open>app/detector/core.py\<close>: points, parameters, stays, trips and durable
  overrides, the great-circle distance, and the point filter.

  Everything downstream of the distance is parametrised by it (\<open>dst\<close>), so the
  algorithms can be run on concrete points; the code's own \<open>_dist\<close> is
  \<open>point_dist\<close>, built on \<open>haversine_m\<close>. What the detector's correctness
  needs of a distance is the locale \<open>geo_distance\<close>, interpreted on \<open>point_dist\<close>.
\<close>

section \<open>Data\<close>

record point =
  pt_t :: instant
  pt_lat :: real
  pt_lon :: real
  pt_accuracy_m :: "real option"
  pt_velocity_kmh :: "real option"
  pt_id :: "int option"
  pt_trigger :: "string option"

record params =
  max_accuracy_m :: real
  max_speed_ms :: real
  stay_radius_m :: real
  stay_min_duration_s :: real
  min_trip_distance_m :: real
  gap_flag_threshold_s :: real
  walk_max_speed_ms :: real
  walk_leg_max_speed_ms :: real
  arrival_triggers :: "string list"
  arrival_min_duration_s :: real

definition default_params :: params where
  "default_params = \<lparr>
     max_accuracy_m = 100, max_speed_ms = 60, stay_radius_m = 150,
     stay_min_duration_s = 300, min_trip_distance_m = 300, gap_flag_threshold_s = 600,
     walk_max_speed_ms = 2, walk_leg_max_speed_ms = 3,
     arrival_triggers = [''c'', ''v''], arrival_min_duration_s = 60\<rparr>"

record stay =
  st_started_at :: instant
  st_ended_at :: instant
  st_lat :: real
  st_lon :: real
  first_idx :: nat
  last_idx :: nat
  point_count :: nat
  provisional :: bool

record trip =
  tr_started_at :: instant
  tr_ended_at :: instant
  start_lat :: real
  start_lon :: real
  end_lat :: real
  end_lon :: real
  distance_m :: real
  has_gap :: bool
  tr_points :: "point list"

datatype override_kind = Suppress | Force | Discard

record override =
  ov_kind :: override_kind
  range_start :: "instant option"
  range_end :: "instant option"
  ov_point_id :: "int option"

section \<open>Distance\<close>

definition EARTH_RADIUS_M :: real where
  "EARTH_RADIUS_M = 6371000"

definition radians :: "real \<Rightarrow> real" where
  "radians x = x * pi / 180"

definition haversine_a :: "real \<Rightarrow> real \<Rightarrow> real \<Rightarrow> real \<Rightarrow> real" where
  "haversine_a lat1 lon1 lat2 lon2 =
     (let phi1 = radians lat1; phi2 = radians lat2;
          dphi = radians (lat2 - lat1); dlmb = radians (lon2 - lon1)
      in (sin (dphi / 2))\<^sup>2 + cos phi1 * cos phi2 * (sin (dlmb / 2))\<^sup>2)"

definition haversine_m :: "real \<Rightarrow> real \<Rightarrow> real \<Rightarrow> real \<Rightarrow> real" where
  "haversine_m lat1 lon1 lat2 lon2 =
     2 * EARTH_RADIUS_M * arcsin (sqrt (haversine_a lat1 lon1 lat2 lon2))"

definition point_dist :: "point \<Rightarrow> point \<Rightarrow> real" where
  "point_dist a b = haversine_m (pt_lat a) (pt_lon a) (pt_lat b) (pt_lon b)"

text \<open>
  In exact arithmetic the argument of the square root is in \<open>[0, 1]\<close> for all
  coordinates, so neither \<open>math.sqrt\<close> nor \<open>math.asin\<close> leaves its domain.
\<close>

lemma sin_half_sq: "(sin (x / 2))\<^sup>2 = (1 - cos x) / 2" for x :: real
  using cos_double_sin [of "x / 2"] by (simp add: field_simps)

lemma haversine_a_alt:
  "haversine_a lat1 lon1 lat2 lon2 =
     (1 - (sin (radians lat1) * sin (radians lat2)
        + cos (radians lat1) * cos (radians lat2) * cos (radians (lon2 - lon1)))) / 2"
proof -
  have "radians (lat2 - lat1) = radians lat2 - radians lat1"
    by (simp add: radians_def left_diff_distrib diff_divide_distrib)
  then have "cos (radians (lat2 - lat1)) =
      cos (radians lat1) * cos (radians lat2) + sin (radians lat1) * sin (radians lat2)"
    by (simp add: cos_diff mult.commute)
  then show ?thesis
    unfolding haversine_a_def Let_def sin_half_sq by (simp add: algebra_simps diff_divide_distrib add_divide_distrib)
qed

lemma unit_vectors_inner:
  fixes p q c :: real
  assumes "\<bar>c\<bar> \<le> 1"
  shows "\<bar>sin p * sin q + cos p * cos q * c\<bar> \<le> 1"
proof -
  have "\<bar>sin p * sin q + cos p * cos q * c\<bar> \<le> \<bar>sin p\<bar> * \<bar>sin q\<bar> + \<bar>cos p\<bar> * \<bar>cos q\<bar> * \<bar>c\<bar>"
    by (metis abs_mult abs_triangle_ineq)
  also have "\<dots> \<le> \<bar>sin p\<bar> * \<bar>sin q\<bar> + \<bar>cos p\<bar> * \<bar>cos q\<bar>"
    using assms by (simp add: mult_left_le)
  also have "\<dots> \<le> ((sin p)\<^sup>2 + (sin q)\<^sup>2) / 2 + ((cos p)\<^sup>2 + (cos q)\<^sup>2) / 2"
  proof -
    have "\<And>x y :: real. \<bar>x\<bar> * \<bar>y\<bar> \<le> (x\<^sup>2 + y\<^sup>2) / 2"
      using sum_squares_bound [of "\<bar>_\<bar>" "\<bar>_\<bar>"] by (simp add: field_simps)
    then show ?thesis by (meson add_mono)
  qed
  also have "\<dots> = 1"
    using sin_cos_squared_add [of p] sin_cos_squared_add [of q] by argo
  finally show ?thesis .
qed

lemma haversine_a_range:
  "0 \<le> haversine_a lat1 lon1 lat2 lon2 \<and> haversine_a lat1 lon1 lat2 lon2 \<le> 1"
  using unit_vectors_inner [of "cos (radians (lon2 - lon1))" "radians lat1" "radians lat2"]
  by (simp add: haversine_a_alt abs_le_iff)

lemma haversine_sym: "haversine_m lat1 lon1 lat2 lon2 = haversine_m lat2 lon2 lat1 lon1"
proof -
  have "radians (lon1 - lon2) = - radians (lon2 - lon1)"
    by (simp add: radians_def left_diff_distrib diff_divide_distrib)
  then show ?thesis by (simp add: haversine_m_def haversine_a_alt mult.commute mult.left_commute)
qed

lemma haversine_self [simp]: "haversine_m lat lon lat lon = 0"
  by (simp add: haversine_m_def haversine_a_def radians_def)

lemma haversine_nonneg: "0 \<le> haversine_m lat1 lon1 lat2 lon2"
proof -
  have "0 \<le> arcsin (sqrt (haversine_a lat1 lon1 lat2 lon2))"
    using haversine_a_range by (intro arcsin_nonneg) auto
  then show ?thesis by (simp add: haversine_m_def EARTH_RADIUS_M_def)
qed

locale geo_distance =
  fixes dst :: "point \<Rightarrow> point \<Rightarrow> real"
  assumes dist_nonneg [simp]: "0 \<le> dst a b"
    and dist_self [simp]: "dst a a = 0"
    and dist_sym: "dst a b = dst b a"
begin

lemma path_nonneg [simp]: "0 \<le> path_sum dst ps"
  by (auto simp: path_sum_def intro!: sum_list_nonneg)

lemma path_slice_mono:
  assumes "a \<le> b" "b \<le> c" "c < length ps"
  shows "path_sum dst (slice ps a (Suc b)) \<le> path_sum dst (slice ps a (Suc c))"
  using assms(2,3)
proof (induction c rule: dec_induct)
  case base
  then show ?case by simp
next
  case (step c)
  have "path_sum dst (slice ps a (Suc (Suc c)))
      = path_sum dst (slice ps a (Suc c)) + dst (ps ! c) (ps ! Suc c)"
    using step assms(1) by (simp add: slice_Suc [of a "Suc c"] path_sum_snoc slice_Nil_iff last_slice)
  also have "\<dots> \<ge> path_sum dst (slice ps a (Suc b))" using step by (simp add: add_increasing2)
  finally show ?case .
qed

end

interpretation hav: geo_distance point_dist
  by unfold_locales (auto simp: point_dist_def haversine_nonneg intro: haversine_sym)

section \<open>The accuracy and teleport gates\<close>

text \<open>
  The loop over the points sorted by time; \<open>kept\<close> is the list of points kept so far,
  newest first, so \<open>kept[-1]\<close> is its head.
\<close>

fun filter_loop ::
  "(point \<Rightarrow> point \<Rightarrow> real) \<Rightarrow> params \<Rightarrow> int list \<Rightarrow> point list \<Rightarrow> point list \<Rightarrow> point list" where
  "filter_loop dst ps pinned kept [] = rev kept"
| "filter_loop dst ps pinned kept (p # rest) =
     (if (case pt_id p of None \<Rightarrow> False | Some i \<Rightarrow> i \<in> set pinned)
      then filter_loop dst ps pinned (p # kept) rest
      else if (case pt_accuracy_m p of None \<Rightarrow> False | Some acc \<Rightarrow> acc > max_accuracy_m ps)
      then filter_loop dst ps pinned kept rest
      else (case kept of
          [] \<Rightarrow> filter_loop dst ps pinned [p] rest
        | q # _ \<Rightarrow>
            (let dt = total_seconds (pt_t p - pt_t q)
             in if dt \<le> 0 then filter_loop dst ps pinned kept rest
                else if dst q p / dt > max_speed_ms ps then filter_loop dst ps pinned kept rest
                else filter_loop dst ps pinned (p # kept) rest)))"

definition filter_points ::
  "(point \<Rightarrow> point \<Rightarrow> real) \<Rightarrow> params \<Rightarrow> int list \<Rightarrow> point list \<Rightarrow> point list" where
  "filter_points dst ps pinned points = filter_loop dst ps pinned [] (sort_key pt_t points)"

definition is_pinned :: "int list \<Rightarrow> point \<Rightarrow> bool" where
  "is_pinned pinned p = (case pt_id p of None \<Rightarrow> False | Some i \<Rightarrow> i \<in> set pinned)"

definition accurate :: "params \<Rightarrow> point \<Rightarrow> bool" where
  "accurate ps p = (case pt_accuracy_m p of None \<Rightarrow> True | Some acc \<Rightarrow> acc \<le> max_accuracy_m ps)"

text \<open>What the gates promise of a kept point and its kept predecessor.\<close>

definition plausible_step ::
  "(point \<Rightarrow> point \<Rightarrow> real) \<Rightarrow> params \<Rightarrow> point \<Rightarrow> point \<Rightarrow> bool" where
  "plausible_step dst ps a b \<longleftrightarrow>
     pt_t a < pt_t b \<and> dst a b / total_seconds (pt_t b - pt_t a) \<le> max_speed_ms ps"

lemma filter_loop_induct_step:
  "filter_loop dst ps pinned kept (p # rest) =
     (if is_pinned pinned p \<or>
         (accurate ps p \<and> (kept = [] \<or> plausible_step dst ps (hd kept) p))
      then filter_loop dst ps pinned (p # kept) rest
      else filter_loop dst ps pinned kept rest)"
  by (cases kept)
     (auto simp: is_pinned_def accurate_def plausible_step_def Let_def not_le
       split: option.splits)

lemma filter_loop_sorted:
  "sorted (map pt_t (rev kept @ rest)) \<Longrightarrow>
     sorted (map pt_t (filter_loop dst ps pinned kept rest))"
proof (induction rest arbitrary: kept)
  case Nil
  then show ?case by simp
next
  case (Cons p rest)
  have "sorted (map pt_t (rev (p # kept) @ rest))" "sorted (map pt_t (rev kept @ rest))"
    using Cons.prems by (auto simp: sorted_append)
  with Cons.IH show ?case by (simp only: filter_loop_induct_step split: if_splits) blast
qed

lemma filter_loop_set: "set (filter_loop dst ps pinned kept rest) \<subseteq> set kept \<union> set rest"
proof (induction rest arbitrary: kept)
  case (Cons p rest)
  show ?case
    using Cons.IH [of "p # kept"] Cons.IH [of kept]
    by (auto simp only: filter_loop_induct_step split: if_splits) auto
qed simp

lemma filter_loop_keeps: "set kept \<subseteq> set (filter_loop dst ps pinned kept rest)"
proof (induction rest arbitrary: kept)
  case (Cons p rest)
  show ?case
    using Cons.IH [of "p # kept"] Cons.IH [of kept]
    by (simp only: filter_loop_induct_step split: if_splits) auto
qed simp

lemma filter_loop_pinned:
  "p \<in> set rest \<Longrightarrow> is_pinned pinned p \<Longrightarrow> p \<in> set (filter_loop dst ps pinned kept rest)"
proof (induction rest arbitrary: kept)
  case (Cons q rest)
  then show ?case
    using filter_loop_keeps [of "q # kept" dst ps pinned rest]
    by (simp only: filter_loop_induct_step split: if_splits) auto
qed simp

lemma filter_loop_accurate:
  "\<forall>q \<in> set kept. is_pinned pinned q \<or> accurate ps q \<Longrightarrow>
     p \<in> set (filter_loop dst ps pinned kept rest) \<Longrightarrow> is_pinned pinned p \<or> accurate ps p"
proof (induction rest arbitrary: kept)
  case (Cons q rest)
  show ?case
    using Cons.prems Cons.IH [of kept] Cons.IH [of "q # kept"]
    by (auto simp only: filter_loop_induct_step list.set ball_simps split: if_splits)
qed auto

lemma filter_loop_steps:
  "\<forall>(a, b) \<in> set (pairs (rev kept)). is_pinned pinned b \<or> plausible_step dst ps a b \<Longrightarrow>
     (a, b) \<in> set (pairs (filter_loop dst ps pinned kept rest)) \<Longrightarrow>
     is_pinned pinned b \<or> plausible_step dst ps a b"
proof (induction rest arbitrary: kept)
  case Nil
  then show ?case by auto
next
  case (Cons p rest)
  show ?case
  proof (cases "is_pinned pinned p \<or>
      (accurate ps p \<and> (kept = [] \<or> plausible_step dst ps (hd kept) p))")
    case True
    have "\<forall>(a, b) \<in> set (pairs (rev (p # kept))). is_pinned pinned b \<or> plausible_step dst ps a b"
      using True Cons.prems(1)
      by (cases "kept = []") (auto simp: pairs_append_single last_rev)
    with Cons True show ?thesis by (simp only: filter_loop_induct_step if_True)
  next
    case False
    with Cons show ?thesis by (simp only: filter_loop_induct_step if_False)
  qed
qed

lemma filter_points_set: "set (filter_points dst ps pinned points) \<subseteq> set points"
  using filter_loop_set [of dst ps pinned "[]" "sort_key pt_t points"]
  by (simp add: filter_points_def)

lemma filter_points_sorted: "sorted (map pt_t (filter_points dst ps pinned points))"
  by (simp add: filter_points_def filter_loop_sorted)

end
