(* ===== verification/DetectorStays.thy ===== *)
theory DetectorStays imports DetectorTypes begin

text \<open>
  Stay detection of \<open>app/detector/core.py\<close>: the two passes that produce index ranges
  (\<open>_stationary_ranges\<close>, \<open>_on_foot_ranges\<close> with \<open>_last_walking_point\<close>), their
  union, and the jitter merge. The contract both passes share with
  \<open>_union_ranges\<close> is the locale \<open>range_pass\<close>, interpreted on both.

  Loops over indices are functions whose measure is the distance to the end of the
  list; \<open>ranges.append\<close> becomes consing in front of the ranges the rest of the
  loop appends.
\<close>

abbreviation elapsed :: "point list \<Rightarrow> nat \<Rightarrow> nat \<Rightarrow> real" where
  "elapsed pts i j \<equiv> total_seconds (pt_t (pts ! j) - pt_t (pts ! i))"

abbreviation leg :: "(point \<Rightarrow> point \<Rightarrow> real) \<Rightarrow> point list \<Rightarrow> nat \<Rightarrow> real" where
  "leg dst pts j \<equiv> dst (pts ! (j - 1)) (pts ! j)"

section \<open>Stationary ranges\<close>

text \<open>The inner loop: the first \<open>j\<close> outside the anchor's radius.\<close>

function radius_run :: "(point \<Rightarrow> point \<Rightarrow> real) \<Rightarrow> params \<Rightarrow> point list \<Rightarrow> nat \<Rightarrow> nat \<Rightarrow> nat" where
  "radius_run dst ps pts i j =
     (if j < length pts \<and> dst (pts ! j) (pts ! i) \<le> stay_radius_m ps
      then radius_run dst ps pts i (Suc j) else j)"
  by pat_completeness auto
termination by (relation "measure (\<lambda>(_, _, pts, _, j). length pts - j)") auto

declare radius_run.simps [simp del]

lemma radius_run_bounds:
  "j \<le> radius_run dst ps pts i j \<and> (j \<le> length pts \<longrightarrow> radius_run dst ps pts i j \<le> length pts)"
proof (induction dst ps pts i j rule: radius_run.induct)
  case (1 dst ps pts i j)
  then show ?case
    by (cases "j < length pts \<and> dst (pts ! j) (pts ! i) \<le> stay_radius_m ps")
       (auto simp: radius_run.simps [of dst ps pts i j])
qed

lemma radius_run_within:
  "j \<le> k \<Longrightarrow> k < radius_run dst ps pts i j \<Longrightarrow> dst (pts ! k) (pts ! i) \<le> stay_radius_m ps"
proof (induction dst ps pts i j rule: radius_run.induct)
  case (1 dst ps pts i j)
  show ?case
  proof (cases "j < length pts \<and> dst (pts ! j) (pts ! i) \<le> stay_radius_m ps")
    case True
    with 1 show ?thesis
      by (cases "j = k") (auto simp: radius_run.simps [of dst ps pts i j])
  next
    case False
    with 1 show ?thesis by (auto simp: radius_run.simps [of dst ps pts i j])
  qed
qed

lemma radius_run_stops:
  "radius_run dst ps pts i j < length pts \<Longrightarrow>
     stay_radius_m ps < dst (pts ! radius_run dst ps pts i j) (pts ! i)"
proof (induction dst ps pts i j rule: radius_run.induct)
  case (1 dst ps pts i j)
  show ?case
  proof (cases "j < length pts \<and> dst (pts ! j) (pts ! i) \<le> stay_radius_m ps")
    case True
    with 1 show ?thesis by (simp add: radius_run.simps [of dst ps pts i j])
  next
    case False
    then have "radius_run dst ps pts i j = j" by (simp only: radius_run.simps [of dst ps pts i j] if_False)
    with False 1(2) show ?thesis by auto
  qed
qed

function stationary_from ::
  "(point \<Rightarrow> point \<Rightarrow> real) \<Rightarrow> params \<Rightarrow> point list \<Rightarrow> nat \<Rightarrow> (nat \<times> nat) list" where
  "stationary_from dst ps pts i =
     (if i < length pts
      then (let j = radius_run dst ps pts i (Suc i)
            in if elapsed pts i (j - 1) \<ge> stay_min_duration_s ps
               then (i, j - 1) # stationary_from dst ps pts j
               else stationary_from dst ps pts (Suc i))
      else [])"
  by pat_completeness auto
termination
  by (relation "measure (\<lambda>(_, _, pts, i). length pts - i)")
     (use radius_run_bounds in \<open>auto intro!: diff_less_mono2 simp: Suc_le_lessD\<close>)

declare stationary_from.simps [simp del]

definition stationary_ranges ::
  "(point \<Rightarrow> point \<Rightarrow> real) \<Rightarrow> params \<Rightarrow> point list \<Rightarrow> (nat \<times> nat) list" where
  "stationary_ranges dst ps pts = stationary_from dst ps pts 0"

section \<open>On-foot ranges\<close>

text \<open>The window's inner loop: drop whole legs while the rest still spans the minimum.\<close>

function slide_window ::
  "(point \<Rightarrow> point \<Rightarrow> real) \<Rightarrow> params \<Rightarrow> point list \<Rightarrow> nat \<Rightarrow> nat \<Rightarrow> real \<Rightarrow> nat \<times> real" where
  "slide_window dst ps pts j oldest path =
     (if Suc oldest < j \<and> elapsed pts (Suc oldest) j \<ge> stay_min_duration_s ps
      then slide_window dst ps pts j (Suc oldest)
             (path - dst (pts ! oldest) (pts ! Suc oldest))
      else (oldest, path))"
  by pat_completeness auto
termination by (relation "measure (\<lambda>(_, _, _, j, oldest, _). j - oldest)") auto

declare slide_window.simps [simp del]

text \<open>The \<open>while j < n\<close> loop; returns the \<open>j\<close> it stops at.\<close>

function walk_span ::
  "(point \<Rightarrow> point \<Rightarrow> real) \<Rightarrow> params \<Rightarrow> point list \<Rightarrow> nat \<Rightarrow> nat \<Rightarrow> real \<Rightarrow> nat" where
  "walk_span dst ps pts j oldest path =
     (if j < length pts
      then (let dt = elapsed pts (j - 1) j
            in if dt \<le> 0 then j
               else (case slide_window dst ps pts j oldest (path + leg dst pts j) of
                   (oldest', path') \<Rightarrow>
                     if leg dst pts j / dt > walk_max_speed_ms ps
                        \<and> (leg dst pts j / dt > walk_leg_max_speed_ms ps
                           \<or> path' / elapsed pts oldest' j > walk_max_speed_ms ps)
                     then j
                     else walk_span dst ps pts (Suc j) oldest' path'))
      else j)"
  by pat_completeness auto
termination by (relation "measure (\<lambda>(_, _, pts, j, _, _). length pts - j)") auto

declare walk_span.simps [simp del]

fun last_walking_point ::
  "(point \<Rightarrow> point \<Rightarrow> real) \<Rightarrow> params \<Rightarrow> point list \<Rightarrow> nat \<Rightarrow> nat \<Rightarrow> nat" where
  "last_walking_point dst ps pts fst_i 0 = 0"
| "last_walking_point dst ps pts fst_i (Suc m) =
     (if Suc m > fst_i
      then (if dst (pts ! m) (pts ! Suc m) / elapsed pts m (Suc m) \<le> walk_max_speed_ms ps
            then Suc m
            else last_walking_point dst ps pts fst_i m)
      else Suc m)"

function on_foot_from ::
  "(point \<Rightarrow> point \<Rightarrow> real) \<Rightarrow> params \<Rightarrow> point list \<Rightarrow> nat \<Rightarrow> (nat \<times> nat) list" where
  "on_foot_from dst ps pts i =
     (if Suc i < length pts
      then (let j = walk_span dst ps pts (Suc i) i 0;
                e = last_walking_point dst ps pts i (j - 1);
                rest = on_foot_from dst ps pts (max j (Suc i))
            in if elapsed pts i e \<ge> stay_min_duration_s ps then (i, e) # rest else rest)
      else [])"
  by pat_completeness auto
termination by (relation "measure (\<lambda>(_, _, pts, i). length pts - i)") auto

declare on_foot_from.simps [simp del]

definition on_foot_ranges ::
  "(point \<Rightarrow> point \<Rightarrow> real) \<Rightarrow> params \<Rightarrow> point list \<Rightarrow> (nat \<times> nat) list" where
  "on_foot_ranges dst ps pts = on_foot_from dst ps pts 0"

section \<open>Union, stays, jitter merge\<close>

text \<open>One iteration over \<open>merged\<close>, kept newest first.\<close>

fun union_step :: "(nat \<times> nat) list \<Rightarrow> nat \<times> nat \<Rightarrow> (nat \<times> nat) list" where
  "union_step [] r = [r]"
| "union_step ((a, b) # m) (f, l) =
     (if f \<le> b then (a, max b l) # m else (f, l) # (a, b) # m)"

definition union_ranges :: "(nat \<times> nat) list \<Rightarrow> (nat \<times> nat) list" where
  "union_ranges rs = rev (foldl union_step [] (sort rs))"

definition mean :: "real list \<Rightarrow> real" where
  "mean xs = sum_list xs / of_nat (length xs)"

definition build_stay :: "point list \<Rightarrow> nat \<Rightarrow> nat \<Rightarrow> stay" where
  "build_stay pts a b =
     (let cluster = slice pts a (Suc b)
      in \<lparr>st_started_at = pt_t (hd cluster), st_ended_at = pt_t (last cluster),
          st_lat = mean (map pt_lat cluster), st_lon = mean (map pt_lon cluster),
          first_idx = a, last_idx = b, point_count = length cluster, provisional = False\<rparr>)"

text \<open>The distance travelled from the end of one stay to the start of the next.\<close>

definition between_m :: "(point \<Rightarrow> point \<Rightarrow> real) \<Rightarrow> point list \<Rightarrow> stay \<Rightarrow> stay \<Rightarrow> real" where
  "between_m dst pts a b = path_sum dst (slice pts (last_idx a) (Suc (first_idx b)))"

definition join_stays :: "stay \<Rightarrow> stay \<Rightarrow> stay" where
  "join_stays a b =
     (let total = real (point_count a + point_count b)
      in \<lparr>st_started_at = st_started_at a, st_ended_at = st_ended_at b,
          st_lat = (st_lat a * real (point_count a) + st_lat b * real (point_count b)) / total,
          st_lon = (st_lon a * real (point_count a) + st_lon b * real (point_count b)) / total,
          first_idx = first_idx a, last_idx = last_idx b,
          point_count = point_count a + point_count b, provisional = False\<rparr>)"

text \<open>\<open>merged[-1]\<close> is the first argument; the rest of \<open>merged\<close> is already emitted.\<close>

fun merge_splits_from ::
  "(point \<Rightarrow> point \<Rightarrow> real) \<Rightarrow> params \<Rightarrow> point list \<Rightarrow> stay \<Rightarrow> stay list \<Rightarrow> stay list" where
  "merge_splits_from dst ps pts prev [] = [prev]"
| "merge_splits_from dst ps pts prev (s # ss) =
     (if between_m dst pts prev s \<le> stay_radius_m ps
      then merge_splits_from dst ps pts (join_stays prev s) ss
      else prev # merge_splits_from dst ps pts s ss)"

definition merge_boundary_splits ::
  "(point \<Rightarrow> point \<Rightarrow> real) \<Rightarrow> point list \<Rightarrow> stay list \<Rightarrow> params \<Rightarrow> stay list" where
  "merge_boundary_splits dst pts stays ps =
     (case stays of [] \<Rightarrow> [] | s # ss \<Rightarrow> merge_splits_from dst ps pts s ss)"

definition find_stays ::
  "(point \<Rightarrow> point \<Rightarrow> real) \<Rightarrow> point list \<Rightarrow> params \<Rightarrow> stay list" where
  "find_stays dst pts ps =
     (let ranges = stationary_ranges dst ps pts @ on_foot_ranges dst ps pts;
          stays = map (\<lambda>(a, b). build_stay pts a b) (union_ranges ranges)
      in merge_boundary_splits dst pts stays ps)"

section \<open>The contract of a range pass\<close>

text \<open>
  Both passes return index ranges inside the list, in order, without a shared
  index, each spanning at least the minimum dwell.
\<close>

definition separated :: "(nat \<times> nat) list \<Rightarrow> bool" where
  "separated rs \<longleftrightarrow> sorted_wrt (\<lambda>r s. snd r < fst s) rs"

definition covered :: "(nat \<times> nat) list \<Rightarrow> nat set" where
  "covered rs = (\<Union>(a, b) \<in> set rs. {a..b})"

lemma separated_simps [simp]:
  "separated []"
  "separated (r # rs) \<longleftrightarrow> (\<forall>s \<in> set rs. snd r < fst s) \<and> separated rs"
  by (auto simp: separated_def)

lemma covered_simps [simp]:
  "covered [] = {}" "covered (r # rs) = {fst r..snd r} \<union> covered rs"
  "covered (rs @ qs) = covered rs \<union> covered qs" "covered (rev rs) = covered rs"
  by (auto simp: covered_def)

lemma covered_set: "set rs = set qs \<Longrightarrow> covered rs = covered qs"
  by (simp add: covered_def)

locale range_pass =
  fixes pass :: "point list \<Rightarrow> (nat \<times> nat) list" and dwell :: real
  assumes pass_bounds: "(a, b) \<in> set (pass pts) \<Longrightarrow> a \<le> b \<and> b < length pts"
    and pass_dwell: "(a, b) \<in> set (pass pts) \<Longrightarrow> dwell \<le> elapsed pts a b"
    and pass_separated: "separated (pass pts)"
begin

lemma pass_distinct: "distinct (pass pts)"
proof -
  have "distinct rs" if "separated rs" "\<forall>r \<in> set rs. fst r \<le> snd r" for rs :: "(nat \<times> nat) list"
    using that by (induction rs) (auto simp: not_less)
  then show ?thesis using pass_separated pass_bounds by (metis prod.collapse)
qed

lemma pass_covered: "covered (pass pts) \<subseteq> {..<length pts}"
  using pass_bounds by (fastforce simp: covered_def)

end

subsection \<open>Stationary ranges\<close>

lemma stationary_from_mem:
  "(a, b) \<in> set (stationary_from dst ps pts i) \<Longrightarrow>
     i \<le> a \<and> a < length pts \<and> b = radius_run dst ps pts a (Suc a) - 1
     \<and> stay_min_duration_s ps \<le> elapsed pts a b"
proof (induction dst ps pts i rule: stationary_from.induct)
  case (1 dst ps pts i)
  let ?j = "radius_run dst ps pts i (Suc i)"
  have j: "Suc i \<le> ?j" using radius_run_bounds by blast
  show ?case
  proof (cases "i < length pts")
    case False
    with 1 show ?thesis by (simp add: stationary_from.simps [of dst ps pts i])
  next
    case True
    show ?thesis
    proof (cases "stay_min_duration_s ps \<le> elapsed pts i (?j - 1)")
      case dwell: True
      with "1.prems" True have "(a, b) = (i, ?j - 1) \<or> (a, b) \<in> set (stationary_from dst ps pts ?j)"
        by (simp add: stationary_from.simps [of dst ps pts i] Let_def)
      then show ?thesis using "1.IH"(1) [OF True refl dwell] True dwell j by auto
    next
      case False
      with "1.prems" True have "(a, b) \<in> set (stationary_from dst ps pts (Suc i))"
        by (simp add: stationary_from.simps [of dst ps pts i] Let_def)
      then have "Suc i \<le> a \<and> a < length pts \<and> b = radius_run dst ps pts a (Suc a) - 1
          \<and> stay_min_duration_s ps \<le> elapsed pts a b"
        by (rule "1.IH"(2) [OF True refl False])
      then show ?thesis by (elim conjE, intro conjI) (rule Suc_leD, assumption+)
    qed
  qed
qed

lemma stationary_from_separated: "separated (stationary_from dst ps pts i)"
proof (induction dst ps pts i rule: stationary_from.induct)
  case (1 dst ps pts i)
  let ?j = "radius_run dst ps pts i (Suc i)"
  have j: "Suc i \<le> ?j" using radius_run_bounds by blast
  have "\<forall>s \<in> set (stationary_from dst ps pts ?j). ?j - 1 < fst s"
    using stationary_from_mem [of _ _ dst ps pts ?j] j by fastforce
  with 1 show ?case
    by (simp add: stationary_from.simps [of dst ps pts i] Let_def)
qed

lemma stationary_ranges_mem:
  assumes "(a, b) \<in> set (stationary_ranges dst ps pts)"
  shows "a \<le> b \<and> b < length pts \<and> stay_min_duration_s ps \<le> elapsed pts a b
    \<and> (\<forall>k. a < k \<and> k \<le> b \<longrightarrow> dst (pts ! k) (pts ! a) \<le> stay_radius_m ps)
    \<and> (Suc b < length pts \<longrightarrow> stay_radius_m ps < dst (pts ! Suc b) (pts ! a))"
proof -
  let ?j = "radius_run dst ps pts a (Suc a)"
  from stationary_from_mem [of a b dst ps pts 0] assms
  have m: "a < length pts" "b = ?j - 1" "stay_min_duration_s ps \<le> elapsed pts a b"
    by (auto simp: stationary_ranges_def)
  have j: "Suc a \<le> ?j" "?j \<le> length pts"
    using radius_run_bounds [of "Suc a" dst ps pts a] m(1) by auto
  have "\<forall>k. a < k \<and> k \<le> b \<longrightarrow> dst (pts ! k) (pts ! a) \<le> stay_radius_m ps"
    using radius_run_within [of "Suc a" _ dst ps pts a] m(2) j by auto
  moreover have "Suc b < length pts \<longrightarrow> stay_radius_m ps < dst (pts ! Suc b) (pts ! a)"
    using radius_run_stops [of dst ps pts a "Suc a"] m(2) j by auto
  ultimately show ?thesis using m j by auto
qed

interpretation parked: range_pass "stationary_ranges dst ps" "stay_min_duration_s ps" for dst ps
  by unfold_locales
     (use stationary_ranges_mem stationary_from_separated in \<open>auto simp: stationary_ranges_def\<close>)

subsection \<open>On-foot ranges\<close>

lemma walk_span_unfold:
  assumes "slide_window dst ps pts j oldest (path + leg dst pts j) = (o', p')"
  shows "walk_span dst ps pts j oldest path =
    (if j < length pts \<and> 0 < elapsed pts (j - 1) j
        \<and> (leg dst pts j / elapsed pts (j - 1) j \<le> walk_max_speed_ms ps
           \<or> leg dst pts j / elapsed pts (j - 1) j \<le> walk_leg_max_speed_ms ps
             \<and> p' / elapsed pts o' j \<le> walk_max_speed_ms ps)
     then walk_span dst ps pts (Suc j) o' p' else j)"
  by (subst walk_span.simps) (use assms in \<open>auto simp: Let_def not_le not_less\<close>)

lemma walk_span_bounds:
  "j \<le> walk_span dst ps pts j oldest path
   \<and> (j \<le> length pts \<longrightarrow> walk_span dst ps pts j oldest path \<le> length pts)"
proof (induction dst ps pts j oldest path rule: walk_span.induct)
  case (1 dst ps pts j oldest path)
  obtain o' p' where s: "slide_window dst ps pts j oldest (path + leg dst pts j) = (o', p')"
    by fastforce
  show ?case
  proof (cases "walk_span dst ps pts j oldest path = j")
    case False
    with walk_span_unfold [OF s] have eq: "walk_span dst ps pts j oldest path
        = walk_span dst ps pts (Suc j) o' p'" and j: "j < length pts"
      and pos: "\<not> elapsed pts (j - 1) j \<le> 0"
      and go: "\<not> (walk_max_speed_ms ps < leg dst pts j / elapsed pts (j - 1) j \<and>
        (walk_leg_max_speed_ms ps < leg dst pts j / elapsed pts (j - 1) j \<or>
         walk_max_speed_ms ps < p' / elapsed pts o' j))"
      by (auto split: if_splits)
    from "1.IH" [OF j refl pos s [symmetric] go] show ?thesis by (auto simp: eq j Suc_le_eq)
  qed simp
qed

lemma last_walking_point_bounds:
  "f \<le> l \<Longrightarrow> f \<le> last_walking_point dst ps pts f l \<and> last_walking_point dst ps pts f l \<le> l"
  by (induction l) (auto simp: le_Suc_eq)

lemma last_walking_point_pace:
  "f < last_walking_point dst ps pts f l \<Longrightarrow>
     dst (pts ! (last_walking_point dst ps pts f l - 1)) (pts ! last_walking_point dst ps pts f l)
       / elapsed pts (last_walking_point dst ps pts f l - 1) (last_walking_point dst ps pts f l)
     \<le> walk_max_speed_ms ps"
  by (induction l) (auto split: if_splits)

lemma on_foot_from_mem:
  "(a, b) \<in> set (on_foot_from dst ps pts i) \<Longrightarrow>
     i \<le> a \<and> Suc a < length pts
     \<and> b = last_walking_point dst ps pts a (walk_span dst ps pts (Suc a) a 0 - 1)
     \<and> stay_min_duration_s ps \<le> elapsed pts a b"
proof (induction dst ps pts i rule: on_foot_from.induct)
  case (1 dst ps pts i)
  let ?j = "walk_span dst ps pts (Suc i) i 0"
  let ?e = "last_walking_point dst ps pts i (?j - 1)"
  show ?case
  proof (cases "Suc i < length pts")
    case False
    with 1 show ?thesis by (simp add: on_foot_from.simps [of dst ps pts i])
  next
    case True
    with "1.prems" have
      "(a, b) = (i, ?e) \<and> stay_min_duration_s ps \<le> elapsed pts i ?e
       \<or> (a, b) \<in> set (on_foot_from dst ps pts (max ?j (Suc i)))"
      by (simp add: on_foot_from.simps [of dst ps pts i] Let_def split: if_splits)
    then show ?thesis using "1.IH" [OF True refl refl] True by auto
  qed
qed

lemma on_foot_range_bounds:
  assumes "(a, b) \<in> set (on_foot_from dst ps pts i)"
  shows "a \<le> b \<and> b < walk_span dst ps pts (Suc a) a 0 \<and> b < length pts"
proof -
  let ?j = "walk_span dst ps pts (Suc a) a 0"
  from on_foot_from_mem [OF assms] have m: "Suc a < length pts"
    "b = last_walking_point dst ps pts a (?j - 1)" by auto
  have j: "Suc a \<le> ?j" "?j \<le> length pts"
    using walk_span_bounds [of "Suc a" dst ps pts a 0] m(1) by auto
  then have "a \<le> b \<and> b \<le> ?j - 1"
    unfolding m(2) by (intro last_walking_point_bounds) simp
  with j show ?thesis by auto
qed

lemma on_foot_from_start: "r \<in> set (on_foot_from dst ps pts i) \<Longrightarrow> i \<le> fst r"
  using on_foot_from_mem [of "fst r" "snd r" dst ps pts i] by simp

lemma on_foot_from_separated: "separated (on_foot_from dst ps pts i)"
proof (induction dst ps pts i rule: on_foot_from.induct)
  case (1 dst ps pts i)
  let ?j = "walk_span dst ps pts (Suc i) i 0"
  let ?e = "last_walking_point dst ps pts i (?j - 1)"
  let ?rest = "on_foot_from dst ps pts (max ?j (Suc i))"
  have "Suc i \<le> ?j" using walk_span_bounds by blast
  then have "?e < ?j" using last_walking_point_bounds [of i "?j - 1" dst ps pts] by linarith
  then have "\<forall>s \<in> set ?rest. ?e < fst s"
    using on_foot_from_start [of _ dst ps pts "max ?j (Suc i)"] by (meson less_le_trans max.cobounded1)
  moreover have "on_foot_from dst ps pts i \<in> {[], ?rest, (i, ?e) # ?rest}"
    by (simp add: on_foot_from.simps [of dst ps pts i] Let_def)
  moreover have "Suc i < length pts \<Longrightarrow> separated ?rest" using 1 by blast
  moreover have "\<not> Suc i < length pts \<Longrightarrow> on_foot_from dst ps pts i = []"
    by (simp add: on_foot_from.simps [of dst ps pts i])
  ultimately show ?case by (cases "Suc i < length pts") (elim insertE, simp_all)
qed

interpretation walking: range_pass "on_foot_ranges dst ps" "stay_min_duration_s ps" for dst ps
proof unfold_locales
  fix a b pts
  assume "(a, b) \<in> set (on_foot_ranges dst ps pts)"
  then have m: "(a, b) \<in> set (on_foot_from dst ps pts 0)" by (simp add: on_foot_ranges_def)
  from on_foot_range_bounds [OF m] show "a \<le> b \<and> b < length pts" by (elim conjE, intro conjI)
  from on_foot_from_mem [OF m] show "stay_min_duration_s ps \<le> elapsed pts a b" by (elim conjE)
qed (simp add: on_foot_ranges_def on_foot_from_separated)

section \<open>The sliding window against its description\<close>

text \<open>
  The description: the window at \<open>j\<close> starts at the newest point at least the minimum
  duration older than \<open>j\<close>, and never before the span's start \<open>i\<close>; its average speed
  is the length of the path from there divided by the time. \<open>walk_ref\<close> recomputes it for
  every \<open>j\<close>, where the code maintains \<open>oldest\<close> and \<open>path\<close> incrementally.
\<close>

definition window_start :: "params \<Rightarrow> point list \<Rightarrow> nat \<Rightarrow> nat \<Rightarrow> nat" where
  "window_start ps pts i j =
     last (filter (\<lambda>k. k = i \<or> stay_min_duration_s ps \<le> elapsed pts k j) [i..<j])"

definition window_speed ::
  "(point \<Rightarrow> point \<Rightarrow> real) \<Rightarrow> params \<Rightarrow> point list \<Rightarrow> nat \<Rightarrow> nat \<Rightarrow> real" where
  "window_speed dst ps pts i j =
     path_sum dst (slice pts (window_start ps pts i j) (Suc j)) / elapsed pts (window_start ps pts i j) j"

definition walking_step ::
  "(point \<Rightarrow> point \<Rightarrow> real) \<Rightarrow> params \<Rightarrow> point list \<Rightarrow> nat \<Rightarrow> nat \<Rightarrow> bool" where
  "walking_step dst ps pts i j \<longleftrightarrow>
     0 < elapsed pts (j - 1) j \<and>
     (leg dst pts j / elapsed pts (j - 1) j \<le> walk_max_speed_ms ps
      \<or> leg dst pts j / elapsed pts (j - 1) j \<le> walk_leg_max_speed_ms ps
        \<and> window_speed dst ps pts i j \<le> walk_max_speed_ms ps)"

function walk_ref ::
  "(point \<Rightarrow> point \<Rightarrow> real) \<Rightarrow> params \<Rightarrow> point list \<Rightarrow> nat \<Rightarrow> nat \<Rightarrow> nat" where
  "walk_ref dst ps pts i j =
     (if j < length pts \<and> walking_step dst ps pts i j then walk_ref dst ps pts i (Suc j) else j)"
  by pat_completeness auto
termination by (relation "measure (\<lambda>(_, _, pts, _, j). length pts - j)") auto

declare walk_ref.simps [simp del]

lemma slide_window_result:
  assumes "oldest < j" "j < length pts" "path = path_sum dst (slice pts oldest (Suc j))"
    and "slide_window dst ps pts j oldest path = (o', p')"
  shows "oldest \<le> o' \<and> o' < j \<and> p' = path_sum dst (slice pts o' (Suc j))
    \<and> (o' = oldest \<or> stay_min_duration_s ps \<le> elapsed pts o' j)
    \<and> \<not> (Suc o' < j \<and> stay_min_duration_s ps \<le> elapsed pts (Suc o') j)"
  using assms
proof (induction dst ps pts j oldest path rule: slide_window.induct)
  case (1 dst ps pts j oldest path)
  show ?case
  proof (cases "Suc oldest < j \<and> stay_min_duration_s ps \<le> elapsed pts (Suc oldest) j")
    case False
    then have "slide_window dst ps pts j oldest path = (oldest, path)"
      by (simp only: slide_window.simps [of dst ps pts j oldest] if_False)
    with False "1.prems" show ?thesis by auto
  next
    case True
    have "slice pts oldest (Suc j) = pts ! oldest # pts ! Suc oldest # slice pts (Suc (Suc oldest)) (Suc j)"
      using "1.prems" True by (simp add: slice_Cons)
    moreover have "slice pts (Suc oldest) (Suc j) = pts ! Suc oldest # slice pts (Suc (Suc oldest)) (Suc j)"
      using "1.prems" True by (simp add: slice_Cons)
    ultimately have "path - dst (pts ! oldest) (pts ! Suc oldest)
        = path_sum dst (slice pts (Suc oldest) (Suc j))"
      using "1.prems"(3) by simp
    moreover have "slide_window dst ps pts j (Suc oldest) (path - dst (pts ! oldest) (pts ! Suc oldest)) = (o', p')"
      using True "1.prems"(4) by (simp add: slide_window.simps [of dst ps pts j oldest])
    ultimately show ?thesis using "1.IH" True "1.prems"(2) by force
  qed
qed

lemma sorted_elapsed:
  assumes "sorted (map pt_t pts)" "a \<le> b" "b \<le> c" "c < length pts"
  shows "elapsed pts a b \<le> elapsed pts a c" "elapsed pts b c \<le> elapsed pts a c"
    and "0 \<le> elapsed pts a c"
proof -
  have "pt_t (pts ! b) \<le> pt_t (pts ! c)" "pt_t (pts ! a) \<le> pt_t (pts ! b)"
    using assms by (simp_all add: sorted_iff_nth_mono)
  then show "elapsed pts a b \<le> elapsed pts a c" "elapsed pts b c \<le> elapsed pts a c"
    "0 \<le> elapsed pts a c"
    by (simp_all add: total_seconds_le_iff)
qed

lemma window_start_eq:
  assumes sorted: "sorted (map pt_t pts)" and "i \<le> w" "w < j" "j < length pts"
    and old: "w = i \<or> stay_min_duration_s ps \<le> elapsed pts w j"
    and newest: "\<not> (Suc w < j \<and> stay_min_duration_s ps \<le> elapsed pts (Suc w) j)"
  shows "window_start ps pts i j = w"
proof -
  have split: "[i..<j] = [i..<w] @ w # [Suc w..<j]"
    using assms by (metis le_add_diff_inverse less_imp_le upt_add_eq_append upt_conv_Cons)
  have "\<not> (k = i \<or> stay_min_duration_s ps \<le> elapsed pts k j)" if "k \<in> set [Suc w..<j]" for k
  proof -
    from that have "elapsed pts k j \<le> elapsed pts (Suc w) j"
      using assms by (intro sorted_elapsed(2)) auto
    with that newest \<open>i \<le> w\<close> show ?thesis by auto
  qed
  then have "filter (\<lambda>k. k = i \<or> stay_min_duration_s ps \<le> elapsed pts k j) [Suc w..<j] = []"
    by (simp add: filter_empty_conv)
  then show ?thesis unfolding window_start_def split using old by simp
qed

lemma walk_span_walk_ref_gen:
  assumes "sorted (map pt_t pts)"
  shows "i \<le> oldest \<Longrightarrow> oldest < j \<Longrightarrow> path = path_sum dst (slice pts oldest j) \<Longrightarrow>
     oldest = i \<or> stay_min_duration_s ps \<le> elapsed pts oldest (j - 1) \<Longrightarrow>
     walk_span dst ps pts j oldest path = walk_ref dst ps pts i j"
  using assms
proof (induction dst ps pts j oldest path rule: walk_span.induct)
  case (1 dst ps pts j oldest path)
  obtain o' p' where s: "slide_window dst ps pts j oldest (path + leg dst pts j) = (o', p')"
    by fastforce
  show ?case
  proof (cases "j < length pts \<and> 0 < elapsed pts (j - 1) j")
    case False
    then show ?thesis
      by (auto simp: walk_span_unfold [OF s] walk_ref.simps [of dst ps pts i j] walking_step_def)
  next
    case True
    then have j: "j < length pts" and pos: "0 < elapsed pts (j - 1) j" by blast+
    have "path + leg dst pts j = path_sum dst (slice pts oldest (Suc j))"
      using "1.prems"(2,3) j last_slice [of oldest "j - 1" pts]
      by (simp add: slice_Suc path_sum_snoc slice_Nil_iff)
    note r = slide_window_result [OF "1.prems"(2) j this s]
    have "oldest = i \<or> stay_min_duration_s ps \<le> elapsed pts oldest j"
      using "1.prems"(2,4,5) sorted_elapsed(1) [of pts oldest "j - 1" j] j by fastforce
    with r have w: "window_start ps pts i j = o'"
      using "1.prems"(1,5) j by (intro window_start_eq) auto
    then have speed: "window_speed dst ps pts i j = p' / elapsed pts o' j"
      using r by (simp add: window_speed_def)
    show ?thesis
    proof (cases "walking_step dst ps pts i j")
      case False
      with pos show ?thesis
        by (auto simp: walk_span_unfold [OF s] walk_ref.simps [of dst ps pts i j]
            walking_step_def speed)
    next
      case step: True
      have go: "\<not> (walk_max_speed_ms ps < leg dst pts j / elapsed pts (j - 1) j \<and>
        (walk_leg_max_speed_ms ps < leg dst pts j / elapsed pts (j - 1) j \<or>
         walk_max_speed_ms ps < p' / elapsed pts o' j))"
        and npos: "\<not> elapsed pts (j - 1) j \<le> 0"
        using step by (auto simp: walking_step_def speed)
      have "walk_span dst ps pts (Suc j) o' p' = walk_ref dst ps pts i (Suc j)"
        using r "1.prems" w \<open>oldest = i \<or> stay_min_duration_s ps \<le> elapsed pts oldest j\<close>
        by (intro "1.IH" [OF j refl npos s [symmetric] go]) auto
      with step j go npos show ?thesis
        by (auto simp: walk_span_unfold [OF s] walk_ref.simps [of dst ps pts i j])
    qed
  qed
qed

lemma walk_span_walk_ref:
  "sorted (map pt_t pts) \<Longrightarrow> Suc i < length pts \<Longrightarrow>
     walk_span dst ps pts (Suc i) i 0 = walk_ref dst ps pts i (Suc i)"
  by (rule walk_span_walk_ref_gen) (auto simp: slice_Cons [of i "Suc i"] slice_Nil_iff slice_def [of pts "Suc i" "Suc i"])

lemma walk_ref_steps:
  "j \<le> k \<Longrightarrow> k < walk_ref dst ps pts i j \<Longrightarrow> walking_step dst ps pts i k"
proof (induction dst ps pts i j rule: walk_ref.induct)
  case (1 dst ps pts i j)
  show ?case
  proof (cases "j < length pts \<and> walking_step dst ps pts i j")
    case True
    with 1 show ?thesis
      by (cases "j = k") (auto simp: walk_ref.simps [of dst ps pts i j])
  next
    case False
    then have "walk_ref dst ps pts i j = j"
      by (simp only: walk_ref.simps [of dst ps pts i j] if_False)
    with 1 show ?thesis by simp
  qed
qed

end
