(* ===== verification/DetectorFind.thy ===== *)
theory DetectorFind imports DetectorStays begin

text \<open>
  What \<open>find_stays\<close> promises, from the contract of the two passes: the union covers
  exactly the indices the passes cover, in separated ranges; the jitter merge joins
  neighbours until the path between any two is longer than the stay radius; every
  stay is well formed and dwells at least the minimum.
\<close>

section \<open>Union of ranges\<close>

definition nonempty_ranges :: "(nat \<times> nat) list \<Rightarrow> bool" where
  "nonempty_ranges rs \<longleftrightarrow> (\<forall>(a, b) \<in> set rs. a \<le> b)"

lemma nonempty_ranges_simps [simp]:
  "nonempty_ranges []" "nonempty_ranges (r # rs) \<longleftrightarrow> fst r \<le> snd r \<and> nonempty_ranges rs"
  by (auto simp: nonempty_ranges_def)

text \<open>The loop invariant: \<open>merged\<close>, newest first.\<close>

definition union_inv :: "(nat \<times> nat) list \<Rightarrow> bool" where
  "union_inv m \<longleftrightarrow> sorted_wrt (\<lambda>r s. snd s < fst r) m \<and> nonempty_ranges m"

lemma union_inv_simps [simp]:
  "union_inv []"
  "union_inv (r # m) \<longleftrightarrow> (\<forall>s \<in> set m. snd s < fst r) \<and> fst r \<le> snd r \<and> union_inv m"
  by (auto simp: union_inv_def)

lemma union_step_inv:
  assumes "union_inv m" "f \<le> l" "m \<noteq> [] \<Longrightarrow> fst (hd m) \<le> f"
  shows "union_inv (union_step m (f, l))
    \<and> covered (union_step m (f, l)) = covered m \<union> {f..l}
    \<and> fst (hd (union_step m (f, l))) \<le> f \<and> union_step m (f, l) \<noteq> []"
proof (cases m)
  case Nil
  with assms show ?thesis by (simp add: covered_def)
next
  case (Cons r m')
  obtain a b where r: "r = (a, b)" by fastforce
  have "{a..max b l} = {a..b} \<union> {f..l}" if "f \<le> b"
    using that assms Cons r by auto
  with assms Cons r show ?thesis by (auto simp: max_def)
qed

lemma union_step_starts:
  "\<forall>q \<in> set (union_step m (f, l)). (\<exists>r \<in> set m. fst q = fst r \<and> snd r \<le> snd q) \<or> fst q = f \<and> snd q = l"
  by (cases m; force split: if_splits)

lemma foldl_union_inv:
  assumes "union_inv m" "sorted rs" "nonempty_ranges rs"
    and "\<And>r. r \<in> set rs \<Longrightarrow> m \<noteq> [] \<Longrightarrow> fst (hd m) \<le> fst r"
  shows "union_inv (foldl union_step m rs) \<and> covered (foldl union_step m rs) = covered m \<union> covered rs
    \<and> (\<forall>q \<in> set (foldl union_step m rs).
         \<exists>r \<in> set m \<union> set rs. fst q = fst r \<and> snd r \<le> snd q)"
  using assms
proof (induction rs arbitrary: m)
  case Nil
  then show ?case by auto
next
  case (Cons x rs)
  obtain f l where x: "x = (f, l)" by fastforce
  have step: "union_inv (union_step m x) \<and> covered (union_step m x) = covered m \<union> {f..l}
      \<and> fst (hd (union_step m x)) \<le> f \<and> union_step m x \<noteq> []"
    unfolding x
  proof (rule union_step_inv)
    show "union_inv m" by (rule Cons.prems(1))
    show "f \<le> l" using Cons.prems(3) x by simp
    show "fst (hd m) \<le> f" if "m \<noteq> []" using Cons.prems(4) [of x] that x by simp
  qed
  have "f \<le> fst r" if "r \<in> set rs" for r
  proof -
    have "(f, l) \<le> r" using that Cons.prems(2) x by simp
    then show ?thesis by (cases r) auto
  qed
  then have IH: "union_inv (foldl union_step (union_step m x) rs)
      \<and> covered (foldl union_step (union_step m x) rs) = covered (union_step m x) \<union> covered rs
      \<and> (\<forall>q \<in> set (foldl union_step (union_step m x) rs).
         \<exists>r \<in> set (union_step m x) \<union> set rs. fst q = fst r \<and> snd r \<le> snd q)"
    using Cons.prems step by (intro Cons.IH) (auto intro: order_trans)
  have "\<exists>r \<in> set m \<union> set (x # rs). fst q = fst r \<and> snd r \<le> snd q"
    if "q \<in> set (foldl union_step (union_step m x) rs)" for q
  proof -
    from IH that obtain r where r: "r \<in> set (union_step m x) \<union> set rs"
      "fst q = fst r" "snd r \<le> snd q" by blast
    show ?thesis
    proof (cases "r \<in> set rs")
      case False
      with r(1) have "(\<exists>s \<in> set m. fst r = fst s \<and> snd s \<le> snd r) \<or> fst r = f \<and> snd r = l"
        using union_step_starts [of m f l] x by blast
      with r x show ?thesis by (auto intro: order_trans)
    qed (use r in auto)
  qed
  with IH step x show ?case by auto
qed

lemma union_ranges_spec:
  assumes "nonempty_ranges rs"
  shows "separated (union_ranges rs) \<and> covered (union_ranges rs) = covered rs
    \<and> nonempty_ranges (union_ranges rs)
    \<and> (\<forall>q \<in> set (union_ranges rs). \<exists>r \<in> set rs. fst q = fst r \<and> snd r \<le> snd q)"
proof -
  have ne: "nonempty_ranges (sort rs)" using assms by (simp add: nonempty_ranges_def)
  have cov: "covered (sort rs) = covered rs" by (rule covered_set) simp
  from foldl_union_inv [of "[]" "sort rs"] ne
  have "union_inv (foldl union_step [] (sort rs))"
    "covered (foldl union_step [] (sort rs)) = covered rs"
    "\<forall>q \<in> set (foldl union_step [] (sort rs)). \<exists>r \<in> set rs. fst q = fst r \<and> snd r \<le> snd q"
    by (auto simp: cov)
  then show ?thesis
    by (auto simp: union_ranges_def separated_def sorted_wrt_rev union_inv_def nonempty_ranges_def)
qed

section \<open>The two passes together\<close>

text \<open>
  What the client of the passes, the union inside \<open>find_stays\<close>, gets from two passes
  that honour the contract with the same dwell.
\<close>

locale two_passes = A: range_pass pass1 dwell + B: range_pass pass2 dwell for pass1 pass2 dwell
begin

lemma both_nonempty: "nonempty_ranges (pass1 pts @ pass2 pts)"
  using A.pass_bounds B.pass_bounds by (fastforce simp: nonempty_ranges_def)

lemma both_bounds: "(a, b) \<in> set (pass1 pts @ pass2 pts) \<Longrightarrow> b < length pts"
  using A.pass_bounds B.pass_bounds by fastforce

lemma union_bounds:
  assumes "(a, b) \<in> set (union_ranges (pass1 pts @ pass2 pts))"
  shows "a \<le> b \<and> b < length pts"
proof -
  note spec = union_ranges_spec [OF both_nonempty [of pts]]
  have "a \<le> b" using spec assms by (auto simp: nonempty_ranges_def)
  then have "b \<in> covered (union_ranges (pass1 pts @ pass2 pts))"
    using assms by (force simp: covered_def)
  then have "b \<in> covered (pass1 pts @ pass2 pts)" using spec by simp
  then show ?thesis using \<open>a \<le> b\<close> A.pass_covered B.pass_covered by fastforce
qed

lemma union_dwell:
  assumes "sorted (map pt_t pts)" "(a, b) \<in> set (union_ranges (pass1 pts @ pass2 pts))"
  shows "dwell \<le> elapsed pts a b"
proof -
  note spec = union_ranges_spec [OF both_nonempty [of pts]]
  from spec assms(2) obtain b' where b': "(a, b') \<in> set (pass1 pts @ pass2 pts)" "b' \<le> b"
    by fastforce
  have "dwell \<le> elapsed pts a b'"
    using b'(1) A.pass_dwell B.pass_dwell by auto
  also have "\<dots> \<le> elapsed pts a b"
    using b' A.pass_bounds B.pass_bounds union_bounds [OF assms(2)] assms(1)
    by (intro sorted_elapsed(1)) auto
  finally show ?thesis .
qed

end

interpretation both: two_passes "stationary_ranges dst ps" "on_foot_ranges dst ps" "stay_min_duration_s ps"
  for dst ps
  by unfold_locales

section \<open>Well-formed stays\<close>

definition stay_ok :: "point list \<Rightarrow> stay \<Rightarrow> bool" where
  "stay_ok pts s \<longleftrightarrow>
     first_idx s \<le> last_idx s \<and> last_idx s < length pts
     \<and> st_started_at s = pt_t (pts ! first_idx s) \<and> st_ended_at s = pt_t (pts ! last_idx s)
     \<and> 0 < point_count s \<and> point_count s \<le> Suc (last_idx s) - first_idx s"

definition in_order :: "stay list \<Rightarrow> bool" where
  "in_order ss \<longleftrightarrow> sorted_wrt (\<lambda>a b. last_idx a < first_idx b) ss"

lemma in_order_simps [simp]:
  "in_order []"
  "in_order (s # ss) \<longleftrightarrow> (\<forall>q \<in> set ss. last_idx s < first_idx q) \<and> in_order ss"
  by (auto simp: in_order_def)

definition dwells :: "params \<Rightarrow> stay \<Rightarrow> bool" where
  "dwells ps s \<longleftrightarrow> stay_min_duration_s ps \<le> total_seconds (st_ended_at s - st_started_at s)"

definition idxs :: "stay \<Rightarrow> nat set" where
  "idxs s = {first_idx s..last_idx s}"

lemma build_stay_fields [simp]:
  "first_idx (build_stay pts a b) = a" "last_idx (build_stay pts a b) = b"
  "provisional (build_stay pts a b) = False"
  by (simp_all add: build_stay_def Let_def)

lemma build_stay_times [simp]:
  assumes "a \<le> b" "b < length pts"
  shows "st_started_at (build_stay pts a b) = pt_t (pts ! a)"
    "st_ended_at (build_stay pts a b) = pt_t (pts ! b)"
    "point_count (build_stay pts a b) = Suc b - a"
  using assms by (auto simp: build_stay_def Let_def hd_slice last_slice)

lemma build_stay_ok: "a \<le> b \<Longrightarrow> b < length pts \<Longrightarrow> stay_ok pts (build_stay pts a b)"
  by (simp add: stay_ok_def)

lemma join_stays_fields [simp]:
  "first_idx (join_stays a b) = first_idx a" "last_idx (join_stays a b) = last_idx b"
  "st_started_at (join_stays a b) = st_started_at a" "st_ended_at (join_stays a b) = st_ended_at b"
  "point_count (join_stays a b) = point_count a + point_count b"
  "provisional (join_stays a b) = False"
  by (simp_all add: join_stays_def Let_def)

lemma join_stays_ok:
  "stay_ok pts a \<Longrightarrow> stay_ok pts b \<Longrightarrow> last_idx a < first_idx b \<Longrightarrow> stay_ok pts (join_stays a b)"
  by (auto simp: stay_ok_def)

lemma join_stays_dwells:
  assumes "sorted (map pt_t pts)" "stay_ok pts a" "stay_ok pts b" "last_idx a < first_idx b" "dwells ps a"
  shows "dwells ps (join_stays a b)"
proof -
  have "pt_t (pts ! last_idx a) \<le> pt_t (pts ! last_idx b)"
    using assms sorted_nth_mono [of "map pt_t pts" "last_idx a" "last_idx b"]
    by (auto simp: stay_ok_def)
  then have "total_seconds (st_ended_at a - st_started_at a)
      \<le> total_seconds (st_ended_at b - st_started_at a)"
    using assms by (intro total_seconds_mono) (simp add: stay_ok_def)
  with assms(5) show ?thesis by (simp add: dwells_def)
qed

section \<open>The jitter merge\<close>

lemma merge_splits_from_first:
  "\<exists>s ss. merge_splits_from dst ps pts prev rest = s # ss \<and> first_idx s = first_idx prev"
  by (induction rest arbitrary: prev) (auto simp del: join_stays_fields, metis join_stays_fields(1))

lemma merge_splits_from_spec:
  fixes dst ps pts
  defines "P \<equiv> \<lambda>prev rest.
    in_order (merge_splits_from dst ps pts prev rest)
    \<and> (\<forall>s \<in> set (merge_splits_from dst ps pts prev rest).
         stay_ok pts s \<and> dwells ps s \<and> first_idx prev \<le> first_idx s)
    \<and> (\<forall>s \<in> set (prev # rest). \<exists>q \<in> set (merge_splits_from dst ps pts prev rest). idxs s \<subseteq> idxs q)
    \<and> (\<forall>(a, b) \<in> set (pairs (merge_splits_from dst ps pts prev rest)).
         stay_radius_m ps < between_m dst pts a b)"
  assumes "sorted (map pt_t pts)" "in_order (prev # rest)"
    and "\<forall>s \<in> set (prev # rest). stay_ok pts s \<and> dwells ps s"
  shows "P prev rest"
  using assms(3,4) unfolding P_def
proof (induction rest arbitrary: prev)
  case Nil
  then show ?case by auto
next
  case (Cons s ss)
  show ?case
  proof (cases "between_m dst pts prev s \<le> stay_radius_m ps")
    case True
    let ?j = "join_stays prev s"
    have lt: "last_idx prev < first_idx s" using Cons.prems by simp
    have "in_order (?j # ss)" using Cons.prems by auto
    moreover have "\<forall>q \<in> set (?j # ss). stay_ok pts q \<and> dwells ps q"
      using Cons.prems lt assms(2) by (auto intro: join_stays_ok join_stays_dwells)
    moreover have "idxs prev \<subseteq> idxs ?j" "idxs s \<subseteq> idxs ?j"
      using Cons.prems lt by (auto simp: idxs_def stay_ok_def)
    ultimately have IH: "P ?j ss" unfolding P_def by (intro Cons.IH)
    have "\<exists>q \<in> set (merge_splits_from dst ps pts ?j ss). idxs r \<subseteq> idxs q"
      if "r \<in> set (prev # s # ss)" for r
    proof -
      from IH [unfolded P_def] obtain q where q: "q \<in> set (merge_splits_from dst ps pts ?j ss)" "idxs ?j \<subseteq> idxs q"
        by (meson list.set_intros(1))
      from that consider "r \<in> {prev, s}" | "r \<in> set ss" by auto
      then show ?thesis
      proof cases
        case 1
        then show ?thesis using q \<open>idxs prev \<subseteq> idxs ?j\<close> \<open>idxs s \<subseteq> idxs ?j\<close> by blast
      next
        case 2
        then show ?thesis using IH unfolding P_def by (meson list.set_intros(2))
      qed
    qed
    with IH show ?thesis unfolding P_def merge_splits_from.simps if_P [OF True] by simp
  next
    case False
    let ?m = "merge_splits_from dst ps pts s ss"
    have IH: "P s ss" unfolding P_def using Cons.prems by (intro Cons.IH) auto
    have lt: "last_idx prev < first_idx s" and le: "first_idx prev \<le> last_idx prev"
      using Cons.prems by (auto simp: stay_ok_def)
    obtain h t where ht: "?m = h # t" "first_idx h = first_idx s"
      using merge_splits_from_first by blast
    have gap: "stay_radius_m ps < between_m dst pts prev h"
      using False by (simp add: between_m_def ht(2))
    have after: "\<forall>q \<in> set ?m. last_idx prev < first_idx q \<and> first_idx prev \<le> first_idx q"
    proof
      fix q
      assume "q \<in> set ?m"
      with IH have "first_idx s \<le> first_idx q" unfolding P_def by blast
      with lt le show "last_idx prev < first_idx q \<and> first_idx prev \<le> first_idx q" by simp
    qed
    have out: "merge_splits_from dst ps pts prev (s # ss) = prev # ?m" using False by simp
    have p: "pairs (prev # ?m) = (prev, h) # pairs ?m" by (simp add: ht)
    show ?thesis
      unfolding out p
    proof (intro conjI)
      show "in_order (prev # ?m)" using IH after unfolding P_def by auto
      show "\<forall>q \<in> set (prev # ?m). stay_ok pts q \<and> dwells ps q \<and> first_idx prev \<le> first_idx q"
        using IH after Cons.prems(2) unfolding P_def by simp
      show "\<forall>q \<in> set (prev # s # ss). \<exists>r \<in> set (prev # ?m). idxs q \<subseteq> idxs r"
        using IH unfolding P_def by (auto 4 3)
      show "\<forall>(a, b) \<in> set ((prev, h) # pairs ?m). stay_radius_m ps < between_m dst pts a b"
        using IH gap unfolding P_def by simp
    qed
  qed
qed

section \<open>find_stays\<close>

definition stays_ok :: "(point \<Rightarrow> point \<Rightarrow> real) \<Rightarrow> params \<Rightarrow> point list \<Rightarrow> stay list \<Rightarrow> bool" where
  "stays_ok dst ps pts ss \<longleftrightarrow>
     in_order ss \<and> (\<forall>s \<in> set ss. stay_ok pts s \<and> dwells ps s)
     \<and> (\<forall>(a, b) \<in> set (pairs ss). stay_radius_m ps < between_m dst pts a b)"

lemma built_stays:
  fixes dst ps pts
  defines "rs \<equiv> union_ranges (stationary_ranges dst ps pts @ on_foot_ranges dst ps pts)"
  assumes "sorted (map pt_t pts)"
  shows "in_order (map (\<lambda>(a, b). build_stay pts a b) rs)
    \<and> (\<forall>s \<in> set (map (\<lambda>(a, b). build_stay pts a b) rs). stay_ok pts s \<and> dwells ps s)"
proof -
  have "separated rs"
    using union_ranges_spec [OF both.both_nonempty] by (simp add: rs_def)
  then have "in_order (map (\<lambda>(a, b). build_stay pts a b) rs)"
    by (induction rs) (auto simp: rs_def)
  moreover have "stay_ok pts (build_stay pts a b) \<and> dwells ps (build_stay pts a b)"
    if "(a, b) \<in> set rs" for a b
    using both.union_bounds [of a b dst ps pts] both.union_dwell [of pts a b dst ps] assms(2) that
    by (simp add: rs_def build_stay_ok dwells_def)
  ultimately show ?thesis by auto
qed

lemma find_stays_ok:
  assumes "sorted (map pt_t pts)"
  shows "stays_ok dst ps pts (find_stays dst pts ps)"
proof -
  let ?rs = "union_ranges (stationary_ranges dst ps pts @ on_foot_ranges dst ps pts)"
  show ?thesis
  proof (cases "map (\<lambda>(a, b). build_stay pts a b) ?rs")
    case Nil
    then show ?thesis by (simp add: find_stays_def merge_boundary_splits_def stays_ok_def)
  next
    case (Cons s ss)
    with built_stays [OF assms, of dst ps] merge_splits_from_spec [OF assms, of s ss ps dst]
    show ?thesis by (simp add: find_stays_def merge_boundary_splits_def stays_ok_def)
  qed
qed

text \<open>Every index either pass reports ends up inside some stay.\<close>

lemma find_stays_covers:
  assumes "sorted (map pt_t pts)"
    and "k \<in> covered (stationary_ranges dst ps pts) \<union> covered (on_foot_ranges dst ps pts)"
  shows "\<exists>s \<in> set (find_stays dst pts ps). k \<in> idxs s"
proof -
  let ?rs = "union_ranges (stationary_ranges dst ps pts @ on_foot_ranges dst ps pts)"
  have "k \<in> covered ?rs"
    using union_ranges_spec [OF both.both_nonempty [of dst ps pts]] assms(2) by simp
  then obtain a b where ab: "(a, b) \<in> set ?rs" "a \<le> k" "k \<le> b" by (auto simp: covered_def)
  then have mem: "build_stay pts a b \<in> set (map (\<lambda>(a, b). build_stay pts a b) ?rs)"
    and k: "k \<in> idxs (build_stay pts a b)"
    by (force simp: idxs_def)+
  show ?thesis
  proof (cases "map (\<lambda>(a, b). build_stay pts a b) ?rs")
    case Nil
    with mem show ?thesis by simp
  next
    case (Cons s ss)
    with built_stays [OF assms(1), of dst ps] merge_splits_from_spec [OF assms(1), of s ss ps dst]
    have "\<exists>q \<in> set (merge_splits_from dst ps pts s ss). idxs (build_stay pts a b) \<subseteq> idxs q"
      using mem unfolding Cons by blast
    then show ?thesis using Cons k by (auto simp: find_stays_def merge_boundary_splits_def)
  qed
qed

end
