(* ===== verification/DetectorTrips.thy ===== *)
theory DetectorTrips imports DetectorFind begin

text \<open>
  The rest of \<open>app/detector/core.py\<close>: the provisional arrival stay, merge and split
  overrides, trip assembly, durable deletions, and \<open>detect\<close>, which composes the whole
  pipeline. A suppress override without a range makes the code compare \<open>None\<close> with a
  datetime, and an empty segment makes it subscript an empty list: both are error
  values here, and \<open>detect_total\<close> shows when neither happens.
\<close>

section \<open>Trailing arrival\<close>

definition arrival_start ::
  "(point \<Rightarrow> point \<Rightarrow> real) \<Rightarrow> params \<Rightarrow> point list \<Rightarrow> nat \<Rightarrow> nat option" where
  "arrival_start dst ps pts start =
     List.find (\<lambda>i. dst (pts ! i) (last pts) \<le> stay_radius_m ps
                  \<and> list_all (\<lambda>j. dst (pts ! i) (pts ! j) \<le> stay_radius_m ps) [Suc i..<length pts])
       [start..<length pts - 1]"

definition has_arrival_trigger :: "params \<Rightarrow> point list \<Rightarrow> bool" where
  "has_arrival_trigger ps qs =
     list_ex (\<lambda>p. case pt_trigger p of None \<Rightarrow> False | Some t \<Rightarrow> List.member (arrival_triggers ps) t) qs"

definition trailing_arrival_stay ::
  "(point \<Rightarrow> point \<Rightarrow> real) \<Rightarrow> point list \<Rightarrow> stay list \<Rightarrow> params \<Rightarrow> stay option" where
  "trailing_arrival_stay dst pts stays ps =
     (let n = length pts;
          start = (if stays = [] then 0 else Suc (last_idx (last stays)))
      in if arrival_triggers ps = [] \<or> n - start < 2 then None
         else case arrival_start dst ps pts start of
             None \<Rightarrow> None
           | Some i \<Rightarrow>
               (let span = total_seconds (pt_t (last pts) - pt_t (pts ! i))
                in if \<not> (arrival_min_duration_s ps \<le> span \<and> span < stay_min_duration_s ps) then None
                   else if \<not> has_arrival_trigger ps (drop i pts) then None
                   else if stays \<noteq> []
                     \<and> path_sum dst (slice pts (last_idx (last stays)) (Suc i)) \<le> stay_radius_m ps
                   then None
                   else Some ((build_stay pts i (n - 1))\<lparr>provisional := True\<rparr>)))"

section \<open>Merge and split overrides\<close>

text \<open>\<open>o.range_start <= s.ended_at and s.started_at <= o.range_end\<close>.\<close>

definition range_overlaps :: "override \<Rightarrow> instant \<Rightarrow> instant \<Rightarrow> bool result" where
  "range_overlaps ov from_t to_t =
     (case range_start ov of
        None \<Rightarrow> Inl TypeError
      | Some a \<Rightarrow>
          if a \<le> to_t
          then (case range_end ov of None \<Rightarrow> Inl TypeError | Some b \<Rightarrow> Inr (from_t \<le> b))
          else Inr False)"

definition suppressed :: "override list \<Rightarrow> instant \<Rightarrow> instant \<Rightarrow> bool result" where
  "suppressed suppress from_t to_t = any_res (\<lambda>ov. range_overlaps ov from_t to_t) suppress"

fun index_of_point :: "point list \<Rightarrow> int option \<Rightarrow> nat option" where
  "index_of_point [] i = None"
| "index_of_point (p # pts) i =
     (if pt_id p = i then Some 0 else map_option Suc (index_of_point pts i))"

definition forced_stay :: "point \<Rightarrow> nat \<Rightarrow> stay" where
  "forced_stay p i =
     \<lparr>st_started_at = pt_t p, st_ended_at = pt_t p, st_lat = pt_lat p, st_lon = pt_lon p,
      first_idx = i, last_idx = i, point_count = 1, provisional = False\<rparr>"

definition force_step ::
  "point list \<Rightarrow> override list \<Rightarrow> stay list \<Rightarrow> override \<Rightarrow> stay list result" where
  "force_step pts suppress kept ov =
     (case index_of_point pts (ov_point_id ov) of
        None \<Rightarrow> Inr kept
      | Some i \<Rightarrow>
          res_bind (suppressed suppress (pt_t (pts ! i)) (pt_t (pts ! i))) (\<lambda>b.
            if b then Inr kept
            else if list_ex (\<lambda>s. first_idx s \<le> i \<and> i \<le> last_idx s) kept then Inr kept
            else Inr (kept @ [forced_stay (pts ! i) i])))"

fun force_loop ::
  "point list \<Rightarrow> override list \<Rightarrow> stay list \<Rightarrow> override list \<Rightarrow> stay list result" where
  "force_loop pts suppress kept [] = Inr kept"
| "force_loop pts suppress kept (ov # ovs) =
     res_bind (force_step pts suppress kept ov) (\<lambda>kept'. force_loop pts suppress kept' ovs)"

definition apply_overrides :: "point list \<Rightarrow> stay list \<Rightarrow> override list \<Rightarrow> stay list result" where
  "apply_overrides pts stays overrides =
     (let suppress = filter (\<lambda>ov. ov_kind ov = Suppress) overrides;
          force = filter (\<lambda>ov. ov_kind ov = Force) overrides
      in res_bind (filter_res (\<lambda>s. map_sum id Not (suppressed suppress (st_started_at s) (st_ended_at s))) stays)
           (\<lambda>kept. res_bind (force_loop pts suppress kept force)
             (\<lambda>kept'. Inr (sort_key first_idx kept'))))"

section \<open>Trips\<close>

definition gap_in :: "params \<Rightarrow> point list \<Rightarrow> bool" where
  "gap_in ps seg = list_ex (\<lambda>(a, b). total_seconds (pt_t b - pt_t a) > gap_flag_threshold_s ps) (pairs seg)"

definition make_trip :: "params \<Rightarrow> point list \<Rightarrow> real \<Rightarrow> trip" where
  "make_trip ps seg distance =
     \<lparr>tr_started_at = pt_t (hd seg), tr_ended_at = pt_t (last seg),
      start_lat = pt_lat (hd seg), start_lon = pt_lon (hd seg),
      end_lat = pt_lat (last seg), end_lon = pt_lon (last seg),
      distance_m = distance, has_gap = gap_in ps seg, tr_points = seg\<rparr>"

fun assemble_loop ::
  "(point \<Rightarrow> point \<Rightarrow> real) \<Rightarrow> params \<Rightarrow> point list \<Rightarrow> (stay \<times> stay) list \<Rightarrow> trip list result" where
  "assemble_loop dst ps pts [] = Inr []"
| "assemble_loop dst ps pts ((orig, dest) # rest) =
     (let seg = slice pts (last_idx orig) (Suc (first_idx dest));
          distance = path_sum dst seg
      in if distance < min_trip_distance_m ps then assemble_loop dst ps pts rest
         else if seg = [] then Inl IndexError
         else res_bind (assemble_loop dst ps pts rest) (\<lambda>ts. Inr (make_trip ps seg distance # ts)))"

definition assemble_trips ::
  "(point \<Rightarrow> point \<Rightarrow> real) \<Rightarrow> point list \<Rightarrow> stay list \<Rightarrow> params \<Rightarrow> trip list result" where
  "assemble_trips dst pts stays ps = assemble_loop dst ps pts (pairs stays)"

text \<open>The range is present: the caller keeps only overrides with both ends.\<close>

definition discard_matches :: "trip \<Rightarrow> instant \<Rightarrow> instant \<Rightarrow> bool" where
  "discard_matches tr a b =
     (let overlap_s = total_seconds (min (tr_ended_at tr) b - max (tr_started_at tr) a);
          trip_duration_s = total_seconds (tr_ended_at tr - tr_started_at tr);
          override_duration_s = total_seconds (b - a)
      in overlap_s \<ge> 0.5 * trip_duration_s \<and> overlap_s \<ge> 0.5 * override_duration_s)"

lemma discard_matches_negated:
  "\<not> discard_matches tr a b \<longleftrightarrow>
     2 * (min (tr_ended_at tr) b - max (tr_started_at tr) a) < tr_ended_at tr - tr_started_at tr
     \<or> 2 * (min (tr_ended_at tr) b - max (tr_started_at tr) a) < b - a"
proof -
  have half: "total_seconds x \<ge> 0.5 * total_seconds y \<longleftrightarrow> y \<le> 2 * x" for x y
  proof -
    have "total_seconds x \<ge> 0.5 * total_seconds y \<longleftrightarrow> real_of_int y \<le> 2 * real_of_int x"
      unfolding total_seconds_def by (simp add: field_simps)
    also have "\<dots> \<longleftrightarrow> real_of_int y \<le> real_of_int (2 * x)" by simp
    finally show ?thesis by (simp only: of_int_le_iff)
  qed
  show ?thesis unfolding discard_matches_def Let_def half not_le [symmetric] de_Morgan_conj ..
qed

definition discard_ranges :: "override list \<Rightarrow> (instant \<times> instant) list" where
  "discard_ranges overrides =
     List.map_filter (\<lambda>ov. if ov_kind ov = Discard
        then (case (range_start ov, range_end ov) of (Some a, Some b) \<Rightarrow> Some (a, b) | _ \<Rightarrow> None)
        else None) overrides"

definition apply_discard_overrides :: "trip list \<Rightarrow> override list \<Rightarrow> trip list" where
  "apply_discard_overrides trips overrides =
     filter (\<lambda>tr. \<not> list_ex (\<lambda>(a, b). discard_matches tr a b) (discard_ranges overrides)) trips"

section \<open>The pipeline\<close>

definition pinned_ids :: "override list \<Rightarrow> int list" where
  "pinned_ids overrides =
     List.map_filter (\<lambda>ov. if ov_kind ov = Force then ov_point_id ov else None) overrides"

definition detect ::
  "(point \<Rightarrow> point \<Rightarrow> real) \<Rightarrow> point list \<Rightarrow> params \<Rightarrow> override list \<Rightarrow> (stay list \<times> trip list) result" where
  "detect dst points ps overrides =
     (let pts = filter_points dst ps (pinned_ids overrides) points;
          found = find_stays dst pts ps;
          stays = (case trailing_arrival_stay dst pts found ps of None \<Rightarrow> found | Some a \<Rightarrow> found @ [a])
      in res_bind (if overrides = [] then Inr stays else apply_overrides pts stays overrides)
           (\<lambda>stays'. res_bind (assemble_trips dst pts stays' ps)
             (\<lambda>trips. Inr (stays', apply_discard_overrides trips overrides))))"

text \<open>The code's own distance.\<close>

definition detect_haversine ::
  "point list \<Rightarrow> params \<Rightarrow> override list \<Rightarrow> (stay list \<times> trip list) result" where
  "detect_haversine = detect point_dist"

section \<open>Facts about the stages\<close>

lemma arrival_in_order:
  assumes "trailing_arrival_stay dst pts stays ps = Some a"
    and "in_order stays" "\<forall>s \<in> set stays. stay_ok pts s"
  shows "in_order (stays @ [a]) \<and> stay_ok pts a \<and> provisional a
    \<and> last_idx a = length pts - 1
    \<and> arrival_min_duration_s ps \<le> total_seconds (st_ended_at a - st_started_at a)
    \<and> total_seconds (st_ended_at a - st_started_at a) < stay_min_duration_s ps
    \<and> has_arrival_trigger ps (drop (first_idx a) pts)
    \<and> (stays \<noteq> [] \<longrightarrow> stay_radius_m ps < between_m dst pts (last stays) a)"
proof -
  let ?start = "if stays = [] then 0 else Suc (last_idx (last stays))"
  from assms(1) obtain i where i: "arrival_start dst ps pts ?start = Some i"
    and a: "a = (build_stay pts i (length pts - 1))\<lparr>provisional := True\<rparr>"
    and span: "arrival_min_duration_s ps \<le> total_seconds (pt_t (last pts) - pt_t (pts ! i))"
      "total_seconds (pt_t (last pts) - pt_t (pts ! i)) < stay_min_duration_s ps"
    and trig: "has_arrival_trigger ps (drop i pts)"
    and away: "stays \<noteq> [] \<longrightarrow>
      stay_radius_m ps < path_sum dst (slice pts (last_idx (last stays)) (Suc i))"
    by (auto simp: trailing_arrival_stay_def Let_def not_le split: if_splits option.splits)
  from i have mem: "i \<in> set [?start..<length pts - 1]"
    unfolding arrival_start_def by (blast dest: find_SomeD)
  then have lt: "i < length pts - 1" and ge: "?start \<le> i" by auto
  then have ne: "pts \<noteq> []" by auto
  then have last: "last pts = pts ! (length pts - 1)" by (rule last_conv_nth)
  have b: "st_started_at a = pt_t (pts ! i)" "st_ended_at a = pt_t (last pts)"
    "first_idx a = i" "last_idx a = length pts - 1" "point_count a = length pts - i"
    using lt by (auto simp: a last)
  have "last_idx s < i" if "s \<in> set stays" for s
  proof -
    have "last_idx s \<le> last_idx (last stays)"
      using that assms(2,3)
    proof (induction stays)
      case (Cons x xs)
      show ?case
      proof (cases "xs = []")
        case False
        then have "last xs \<in> set xs" by simp
        with Cons.prems(2,3) have "last_idx x < last_idx (last xs)" by (force simp: stay_ok_def)
        with Cons False show ?thesis by auto
      qed (use Cons.prems in simp)
    qed simp
    with that ge show ?thesis by (cases "stays = []") auto
  qed
  then have "in_order (stays @ [a])"
    using assms(2) by (auto simp: in_order_def sorted_wrt_append b)
  moreover have "stay_ok pts a" using b lt by (simp add: stay_ok_def last) arith
  moreover have "provisional a" by (simp add: a)
  ultimately show ?thesis
    using b span trig away by (simp add: between_m_def)
qed

text \<open>Suppress overrides carry a range: migration data the runner loads always does.\<close>

definition overrides_ok :: "override list \<Rightarrow> bool" where
  "overrides_ok overrides \<longleftrightarrow>
     (\<forall>ov \<in> set overrides. ov_kind ov = Suppress \<longrightarrow> range_start ov \<noteq> None \<and> range_end ov \<noteq> None)"

definition overlaps_range :: "override \<Rightarrow> instant \<Rightarrow> instant \<Rightarrow> bool" where
  "overlaps_range ov from_t to_t \<longleftrightarrow>
     (\<exists>a b. range_start ov = Some a \<and> range_end ov = Some b \<and> a \<le> to_t \<and> from_t \<le> b)"

lemma range_overlaps_iff:
  "range_overlaps ov f t = Inr b \<Longrightarrow> range_end ov \<noteq> None \<Longrightarrow> b = overlaps_range ov f t"
  by (auto simp: range_overlaps_def overlaps_range_def split: option.splits if_splits)

lemma suppressed_ok:
  assumes "overrides_ok ovs"
  shows "suppressed (filter (\<lambda>ov. ov_kind ov = Suppress) ovs) f t
    = Inr (\<exists>ov \<in> set ovs. ov_kind ov = Suppress \<and> overlaps_range ov f t)"
proof -
  have "suppressed (filter (\<lambda>ov. ov_kind ov = Suppress) ovs) f t
      = Inr (\<exists>ov \<in> set (filter (\<lambda>ov. ov_kind ov = Suppress) ovs). overlaps_range ov f t)"
    unfolding suppressed_def
    by (rule any_res_Inr) (use assms in \<open>auto simp: overrides_ok_def range_overlaps_def overlaps_range_def\<close>)
  then show ?thesis by (auto simp: conj_commute)
qed

lemma index_of_point_Some:
  "index_of_point pts i = Some k \<Longrightarrow> k < length pts \<and> pt_id (pts ! k) = i"
  by (induction pts arbitrary: k) (auto split: if_splits)

lemma index_of_point_None: "index_of_point pts i = None \<longleftrightarrow> (\<forall>p \<in> set pts. pt_id p \<noteq> i)"
  by (induction pts) auto

subsection \<open>Overrides\<close>

definition apart :: "stay list \<Rightarrow> bool" where
  "apart ss \<longleftrightarrow> sorted_wrt (\<lambda>a b. last_idx a < first_idx b \<or> last_idx b < first_idx a) ss"

lemma in_order_apart: "in_order ss \<Longrightarrow> apart ss"
  unfolding in_order_def apart_def by (rule sorted_wrt_mono_rel) auto

lemma insort_in_order:
  assumes "in_order ss" "\<forall>q \<in> set (s # ss). first_idx q \<le> last_idx q"
    and "\<forall>q \<in> set ss. last_idx s < first_idx q \<or> last_idx q < first_idx s"
  shows "in_order (insort_key first_idx s ss)"
  using assms
proof (induction ss)
  case (Cons q ss)
  then show ?case by (cases "first_idx s \<le> first_idx q") (fastforce simp: set_insort_key)+
qed simp

lemma sort_in_order:
  "apart ss \<Longrightarrow> \<forall>q \<in> set ss. first_idx q \<le> last_idx q \<Longrightarrow> in_order (sort_key first_idx ss)"
proof (induction ss)
  case (Cons s ss)
  then have "in_order (sort_key first_idx ss)" by (simp add: apart_def)
  with Cons.prems show ?case by (auto simp: apart_def intro!: insort_in_order)
qed simp

lemma forced_stay_ok: "i < length pts \<Longrightarrow> stay_ok pts (forced_stay (pts ! i) i)"
  by (simp add: stay_ok_def forced_stay_def)

text \<open>What holds of the kept stays while the force loop runs.\<close>

definition free_of_suppress :: "override list \<Rightarrow> stay \<Rightarrow> bool" where
  "free_of_suppress ovs s \<longleftrightarrow>
     (\<forall>ov \<in> set ovs. ov_kind ov = Suppress \<longrightarrow> \<not> overlaps_range ov (st_started_at s) (st_ended_at s))"

definition kept_ok :: "point list \<Rightarrow> override list \<Rightarrow> stay list \<Rightarrow> bool" where
  "kept_ok pts ovs kept \<longleftrightarrow> apart kept \<and> (\<forall>s \<in> set kept. stay_ok pts s \<and> free_of_suppress ovs s)"

text \<open>A split point is honoured: a merge over it wins, or some stay holds it.\<close>

definition split_honoured :: "point list \<Rightarrow> override list \<Rightarrow> stay list \<Rightarrow> override \<Rightarrow> bool" where
  "split_honoured pts ovs stays ov \<longleftrightarrow>
     (\<forall>i. index_of_point pts (ov_point_id ov) = Some i \<longrightarrow>
        (\<exists>q \<in> set ovs. ov_kind q = Suppress \<and> overlaps_range q (pt_t (pts ! i)) (pt_t (pts ! i)))
        \<or> (\<exists>s \<in> set stays. i \<in> idxs s))"

lemma force_step_spec:
  assumes ok: "overrides_ok ovs" and kept: "kept_ok pts ovs kept"
  shows "\<exists>kept'. force_step pts (filter (\<lambda>ov. ov_kind ov = Suppress) ovs) kept f = Inr kept'
    \<and> kept_ok pts ovs kept' \<and> set kept \<subseteq> set kept' \<and> split_honoured pts ovs kept' f"
proof (cases "index_of_point pts (ov_point_id f)")
  case None
  with kept show ?thesis by (simp add: force_step_def split_honoured_def)
next
  case (Some i)
  then have i: "i < length pts" by (simp add: index_of_point_Some)
  let ?s = "forced_stay (pts ! i) i"
  show ?thesis
  proof (cases "(\<exists>q \<in> set ovs. ov_kind q = Suppress \<and> overlaps_range q (pt_t (pts ! i)) (pt_t (pts ! i)))
      \<or> (\<exists>s \<in> set kept. i \<in> idxs s)")
    case True
    then have "force_step pts (filter (\<lambda>ov. ov_kind ov = Suppress) ovs) kept f = Inr kept"
      by (auto simp: force_step_def Some suppressed_ok [OF ok] list_ex_iff idxs_def)
    with True Some kept show ?thesis by (auto simp: split_honoured_def)
  next
    case False
    then have "force_step pts (filter (\<lambda>ov. ov_kind ov = Suppress) ovs) kept f = Inr (kept @ [?s])"
      by (auto simp: force_step_def Some suppressed_ok [OF ok] list_ex_iff idxs_def)
    moreover have "kept_ok pts ovs (kept @ [?s])"
      using kept False i forced_stay_ok [OF i]
      by (auto simp: kept_ok_def apart_def sorted_wrt_append free_of_suppress_def idxs_def forced_stay_def)
    moreover have "split_honoured pts ovs (kept @ [?s]) f"
      using Some by (auto simp: split_honoured_def idxs_def forced_stay_def)
    ultimately show ?thesis by auto
  qed
qed

lemma split_honoured_mono:
  "split_honoured pts ovs stays f \<Longrightarrow> set stays \<subseteq> set stays' \<Longrightarrow> split_honoured pts ovs stays' f"
  by (auto simp: split_honoured_def)

lemma force_loop_spec:
  assumes ok: "overrides_ok ovs"
  shows "kept_ok pts ovs kept \<Longrightarrow>
    \<exists>kept'. force_loop pts (filter (\<lambda>ov. ov_kind ov = Suppress) ovs) kept fs = Inr kept'
      \<and> kept_ok pts ovs kept' \<and> set kept \<subseteq> set kept' \<and> (\<forall>f \<in> set fs. split_honoured pts ovs kept' f)"
proof (induction fs arbitrary: kept)
  case (Cons f fs)
  from force_step_spec [OF ok Cons.prems] obtain k where k:
    "force_step pts (filter (\<lambda>ov. ov_kind ov = Suppress) ovs) kept f = Inr k"
    "kept_ok pts ovs k" "set kept \<subseteq> set k" "split_honoured pts ovs k f" by blast
  from Cons.IH [OF k(2)] obtain k' where
    "force_loop pts (filter (\<lambda>ov. ov_kind ov = Suppress) ovs) k fs = Inr k'"
    "kept_ok pts ovs k'" "set k \<subseteq> set k'" "\<forall>f \<in> set fs. split_honoured pts ovs k' f" by blast
  with k show ?case by (auto intro: split_honoured_mono)
qed auto

lemma apply_overrides_spec:
  assumes ok: "overrides_ok ovs" and "in_order stays" "\<forall>s \<in> set stays. stay_ok pts s"
  shows "\<exists>out. apply_overrides pts stays ovs = Inr out \<and> in_order out
    \<and> (\<forall>s \<in> set out. stay_ok pts s \<and> free_of_suppress ovs s)
    \<and> (\<forall>s \<in> set stays. free_of_suppress ovs s \<longrightarrow> s \<in> set out)
    \<and> (\<forall>f \<in> set ovs. ov_kind f = Force \<longrightarrow> split_honoured pts ovs out f)"
proof -
  let ?sup = "filter (\<lambda>ov. ov_kind ov = Suppress) ovs"
  let ?kept = "filter (free_of_suppress ovs) stays"
  have f: "filter_res (\<lambda>s. map_sum id Not (suppressed ?sup (st_started_at s) (st_ended_at s))) stays
      = Inr ?kept"
    by (rule filter_res_Inr) (auto simp: suppressed_ok [OF ok] free_of_suppress_def)
  have "apart ?kept"
    using in_order_apart [OF assms(2)] by (simp add: apart_def sorted_wrt_filter)
  with assms(3) have "kept_ok pts ovs ?kept" by (simp add: kept_ok_def)
  from force_loop_spec [OF ok this, of "filter (\<lambda>ov. ov_kind ov = Force) ovs"] obtain k where k:
    "force_loop pts ?sup ?kept (filter (\<lambda>ov. ov_kind ov = Force) ovs) = Inr k"
    "kept_ok pts ovs k" "set ?kept \<subseteq> set k"
    "\<forall>f \<in> set (filter (\<lambda>ov. ov_kind ov = Force) ovs). split_honoured pts ovs k f" by blast
  have "apply_overrides pts stays ovs = Inr (sort_key first_idx k)"
    by (simp add: apply_overrides_def f k(1))
  moreover have "in_order (sort_key first_idx k)"
    using k(2) by (intro sort_in_order) (auto simp: kept_ok_def stay_ok_def)
  ultimately show ?thesis
    using k by (auto simp: kept_ok_def intro: split_honoured_mono)
qed

subsection \<open>Trips\<close>

lemma assemble_loop_eq:
  "\<forall>(a, b) \<in> set prs. last_idx a < Suc (first_idx b) \<and> last_idx a < length pts \<Longrightarrow>
   assemble_loop dst ps pts prs
   = Inr (map (\<lambda>(a, b). make_trip ps (slice pts (last_idx a) (Suc (first_idx b))) (between_m dst pts a b))
       (filter (\<lambda>(a, b). min_trip_distance_m ps \<le> between_m dst pts a b) prs))"
  by (induction prs) (auto simp: Let_def between_m_def slice_Nil_iff)

lemma pairs_in_order:
  assumes "in_order ss" "(a, b) \<in> set (pairs ss)"
  shows "last_idx a < first_idx b \<and> a \<in> set ss \<and> b \<in> set ss"
proof -
  from assms(2) obtain i where "Suc i < length ss" "a = ss ! i" "b = ss ! Suc i"
    by (auto simp: pairs_mem_nth)
  with assms(1) show ?thesis by (auto simp: in_order_def sorted_wrt_iff_nth_less)
qed

lemma make_trip_times:
  assumes "stay_ok pts a" "stay_ok pts b" "last_idx a < first_idx b"
  shows "tr_started_at (make_trip ps (slice pts (last_idx a) (Suc (first_idx b))) d) = st_ended_at a"
    "tr_ended_at (make_trip ps (slice pts (last_idx a) (Suc (first_idx b))) d) = st_started_at b"
  using assms by (auto simp: make_trip_def stay_ok_def hd_slice last_slice)

lemma pairs_time_order:
  assumes "sorted (map pt_t pts)" "in_order ss" "\<forall>s \<in> set ss. stay_ok pts s"
  shows "sorted_wrt (\<lambda>(a, b) (c, d). st_started_at b \<le> st_ended_at c) (pairs ss)"
  unfolding sorted_wrt_iff_nth_less
proof (intro allI impI)
  fix i j
  assume ij: "i < j" "j < length (pairs ss)"
  then have len: "Suc j < length ss" by simp
  have "first_idx (ss ! Suc i) \<le> last_idx (ss ! j)"
  proof (cases "Suc i = j")
    case True
    with assms(3) len show ?thesis by (auto simp: stay_ok_def)
  next
    case False
    with ij len assms(2) have "last_idx (ss ! Suc i) < first_idx (ss ! j)"
      by (simp add: in_order_def sorted_wrt_iff_nth_less)
    moreover have "stay_ok pts (ss ! Suc i)" "stay_ok pts (ss ! j)" using assms(3) len ij by auto
    ultimately show ?thesis by (auto simp: stay_ok_def)
  qed
  moreover have "stay_ok pts (ss ! Suc i)" "stay_ok pts (ss ! j)" using assms(3) len ij by auto
  ultimately have "st_started_at (ss ! Suc i) \<le> st_ended_at (ss ! j)"
    using assms(1) sorted_nth_mono [of "map pt_t pts" "first_idx (ss ! Suc i)" "last_idx (ss ! j)"]
    by (auto simp: stay_ok_def)
  with ij len show "(case pairs ss ! i of (a, b) \<Rightarrow> \<lambda>(c, d). st_started_at b \<le> st_ended_at c) (pairs ss ! j)"
    by (simp add: nth_pairs)
qed

end
