(* ===== verification/Detector.thy ===== *)
theory Detector imports DetectorTrips begin

text \<open>
  The properties of the trip detector (\<open>app/detector/core.py\<close>), for \<open>detect\<close> as the
  runner calls it and for the stages a user of the library relies on. The concrete
  track of the witnesses is a drive between two parking places on a line, with
  \<open>flat_dist\<close> as the distance.
\<close>

section \<open>A run of detect\<close>

lemma detect_stages:
  fixes dst ps points ovs
  assumes ok: "overrides_ok ovs"
  defines "pts \<equiv> filter_points dst ps (pinned_ids ovs) points"
  shows "\<exists>stays. in_order stays \<and> (\<forall>s \<in> set stays. stay_ok pts s)
    \<and> (ovs \<noteq> [] \<longrightarrow> (\<forall>s \<in> set stays. free_of_suppress ovs s)
         \<and> (\<forall>f \<in> set ovs. ov_kind f = Force \<longrightarrow> split_honoured pts ovs stays f))
    \<and> detect dst points ps ovs
      = Inr (stays, apply_discard_overrides
          (map (\<lambda>(a, b). make_trip ps (slice pts (last_idx a) (Suc (first_idx b))) (between_m dst pts a b))
            (filter (\<lambda>(a, b). min_trip_distance_m ps \<le> between_m dst pts a b) (pairs stays))) ovs)"
proof -
  have srt: "sorted (map pt_t pts)" by (simp add: pts_def filter_points_sorted)
  let ?found = "find_stays dst pts ps"
  let ?all = "case trailing_arrival_stay dst pts ?found ps of None \<Rightarrow> ?found | Some a \<Rightarrow> ?found @ [a]"
  have found: "in_order ?found" "\<forall>s \<in> set ?found. stay_ok pts s"
    using find_stays_ok [OF srt, of dst ps] by (auto simp: stays_ok_def)
  have all: "in_order ?all \<and> (\<forall>s \<in> set ?all. stay_ok pts s)"
    using found arrival_in_order [OF _ found] by (auto split: option.splits)
  obtain stays where stays: "in_order stays" "\<forall>s \<in> set stays. stay_ok pts s"
    and ov: "(if ovs = [] then Inr ?all else apply_overrides pts ?all ovs) = Inr stays"
    and rest: "ovs \<noteq> [] \<longrightarrow> (\<forall>s \<in> set stays. free_of_suppress ovs s)
         \<and> (\<forall>f \<in> set ovs. ov_kind f = Force \<longrightarrow> split_honoured pts ovs stays f)"
    using all apply_overrides_spec [OF ok, of ?all pts] by (cases "ovs = []") auto
  have "\<forall>(a, b) \<in> set (pairs stays). last_idx a < Suc (first_idx b) \<and> last_idx a < length pts"
    using pairs_in_order [OF stays(1)] stays(2) by (fastforce simp: stay_ok_def)
  note trips = assemble_loop_eq [OF this, of dst ps, folded assemble_trips_def]
  show ?thesis
    using stays rest ov trips
    by (intro exI [of _ stays]) (simp add: detect_def Let_def pts_def [symmetric])
qed

lemma detect_stages_of:
  fixes dst ps points ovs
  assumes "overrides_ok ovs" "detect dst points ps ovs = Inr (stays, trips)"
  defines "pts \<equiv> filter_points dst ps (pinned_ids ovs) points"
  shows "in_order stays" "\<forall>s \<in> set stays. stay_ok pts s"
    "ovs \<noteq> [] \<Longrightarrow> \<forall>s \<in> set stays. free_of_suppress ovs s"
    "\<forall>f \<in> set ovs. ov_kind f = Force \<longrightarrow> split_honoured pts ovs stays f"
    "trips = apply_discard_overrides
          (map (\<lambda>(a, b). make_trip ps (slice pts (last_idx a) (Suc (first_idx b))) (between_m dst pts a b))
            (filter (\<lambda>(a, b). min_trip_distance_m ps \<le> between_m dst pts a b) (pairs stays))) ovs"
  using detect_stages [OF assms(1), of dst ps points] assms(2) by (auto simp: pts_def)

section \<open>The concrete track\<close>

definition flat_dist :: "point \<Rightarrow> point \<Rightarrow> real" where
  "flat_dist a b = \<bar>pt_lat a - pt_lat b\<bar>"

definition fix_at :: "int \<Rightarrow> real \<Rightarrow> int \<Rightarrow> point" where
  "fix_at sec metres i =
     \<lparr>pt_t = seconds sec, pt_lat = metres, pt_lon = 0, pt_accuracy_m = None,
      pt_velocity_kmh = None, pt_id = Some i, pt_trigger = None\<rparr>"

text \<open>Parked for ten minutes, 4 km in two legs, parked again.\<close>

definition track :: "point list" where
  "track = [fix_at 0 0 1, fix_at 600 0 2, fix_at 720 2000 3, fix_at 840 4000 4, fix_at 1440 4000 5]"

interpretation flat: geo_distance flat_dist
  by unfold_locales (auto simp: flat_dist_def)

text \<open>What the pipeline returns on the track: two stays and the drive between them.\<close>

definition track_stays :: "stay list" where
  "track_stays =
     [\<lparr>st_started_at = 0, st_ended_at = 600000000, st_lat = 0, st_lon = 0,
       first_idx = 0, last_idx = 1, point_count = 2, provisional = False\<rparr>,
      \<lparr>st_started_at = 840000000, st_ended_at = 1440000000, st_lat = 4000, st_lon = 0,
       first_idx = 3, last_idx = 4, point_count = 2, provisional = False\<rparr>]"

definition track_trip :: trip where
  "track_trip =
     \<lparr>tr_started_at = 600000000, tr_ended_at = 840000000, start_lat = 0, start_lon = 0,
      end_lat = 4000, end_lon = 0, distance_m = 4000, has_gap = False,
      tr_points = [fix_at 600 0 2, fix_at 720 2000 3, fix_at 840 4000 4]\<rparr>"

lemma detect_track: "detect flat_dist track default_params [] = Inr (track_stays, [track_trip])"
  by code_simp

definition merge_all :: override where
  "merge_all = \<lparr>ov_kind = Suppress, range_start = Some 0, range_end = Some 1, ov_point_id = None\<rparr>"

definition split_at_3 :: override where
  "split_at_3 = \<lparr>ov_kind = Force, range_start = None, range_end = None, ov_point_id = Some 3\<rparr>"

definition delete_drive :: override where
  "delete_drive =
     \<lparr>ov_kind = Discard, range_start = Some 600000000, range_end = Some 900000000, ov_point_id = None\<rparr>"

lemma detect_track_split:
  "case detect flat_dist track default_params [split_at_3] of
     Inl _ \<Rightarrow> False
   | Inr (stays, trips) \<Rightarrow> length stays = 3 \<and> map distance_m trips = [2000, 2000]"
  by code_simp

section \<open>Properties\<close>



text \<open>
  C2. Every trip \<open>detect\<close> returns lies between two consecutive stays of the same result:
  it starts when the first ends and ends when the second starts, its distance is the
  length of the path over its own points and at least the configured minimum, and its
  gap flag says whether two adjacent points of it are further apart than the threshold.
\<close>

theorem detect_trips_between_stays:
  assumes "overrides_ok ovs" "detect dst points ps ovs = Inr (stays, trips)" "tr \<in> set trips"
  shows "\<exists>a b. (a, b) \<in> set (pairs stays)
    \<and> tr_started_at tr = st_ended_at a \<and> tr_ended_at tr = st_started_at b
    \<and> distance_m tr = path_sum dst (tr_points tr) \<and> min_trip_distance_m ps \<le> distance_m tr
    \<and> has_gap tr = gap_in ps (tr_points tr)"
proof -
  let ?pts = "filter_points dst ps (pinned_ids ovs) points"
  note st = detect_stages_of [OF assms(1,2)]
  from assms(3) st(5) obtain a b where ab: "(a, b) \<in> set (pairs stays)"
    "min_trip_distance_m ps \<le> between_m dst ?pts a b"
    "tr = make_trip ps (slice ?pts (last_idx a) (Suc (first_idx b))) (between_m dst ?pts a b)"
    by (auto simp: apply_discard_overrides_def)
  have ord: "last_idx a < first_idx b" "a \<in> set stays" "b \<in> set stays"
    using pairs_in_order [OF st(1) ab(1)] by auto
  with st(2) have "stay_ok ?pts a" "stay_ok ?pts b" by auto
  from make_trip_times [OF this ord(1)] ab show ?thesis
    by (intro exI [of _ a] exI [of _ b]) (simp add: make_trip_def between_m_def)
qed

theorem detect_trips_between_stays_witness:
  "\<exists>a b. (a, b) \<in> set (pairs track_stays)
    \<and> tr_started_at track_trip = st_ended_at a \<and> tr_ended_at track_trip = st_started_at b
    \<and> distance_m track_trip = path_sum flat_dist (tr_points track_trip)
    \<and> min_trip_distance_m default_params \<le> distance_m track_trip
    \<and> has_gap track_trip = gap_in default_params (tr_points track_trip)"
  by (rule detect_trips_between_stays [OF _ detect_track]) (simp_all add: overrides_ok_def)

text \<open>
  The trips \<open>detect\<close> returns are in chronological order and do not overlap: each ends
  no later than every later one starts.
\<close>

theorem detect_trips_disjoint:
  assumes "overrides_ok ovs" "detect dst points ps ovs = Inr (stays, trips)"
  shows "sorted_wrt (\<lambda>x y. tr_ended_at x \<le> tr_started_at y) trips"
proof -
  let ?pts = "filter_points dst ps (pinned_ids ovs) points"
  let ?mk = "\<lambda>(a, b). make_trip ps (slice ?pts (last_idx a) (Suc (first_idx b))) (between_m dst ?pts a b)"
  note st = detect_stages_of [OF assms]
  have times: "tr_started_at (?mk (a, b)) = st_ended_at a \<and> tr_ended_at (?mk (a, b)) = st_started_at b"
    if "(a, b) \<in> set (pairs stays)" for a b
    using make_trip_times [of ?pts a b] pairs_in_order [OF st(1) that] st(2) by auto
  have "sorted_wrt (\<lambda>(a, b) (c, d). st_started_at b \<le> st_ended_at c) (pairs stays)"
    by (rule pairs_time_order [OF filter_points_sorted st(1,2)])
  then have "sorted_wrt (\<lambda>x y. tr_ended_at (?mk x) \<le> tr_started_at (?mk y)) (pairs stays)"
    by (rule sorted_wrt_mono_rel [rotated]) (use times in auto)
  then show ?thesis
    unfolding st(5) apply_discard_overrides_def by (intro sorted_wrt_filter) (simp add: sorted_wrt_map sorted_wrt_filter)
qed

theorem detect_trips_disjoint_witness:
  "case detect flat_dist track default_params [split_at_3] of
     Inl _ \<Rightarrow> False
   | Inr (stays, trips) \<Rightarrow> length trips = 2 \<and> sorted_wrt (\<lambda>x y. tr_ended_at x \<le> tr_started_at y) trips"
proof -
  have ok: "overrides_ok [split_at_3]" by (simp add: overrides_ok_def split_at_3_def)
  obtain stays trips where r: "detect flat_dist track default_params [split_at_3] = Inr (stays, trips)"
    using detect_stages [OF ok, of flat_dist default_params track] by blast
  have "length (map distance_m trips) = 2" using detect_track_split by (simp add: r)
  then show ?thesis using detect_trips_disjoint [OF ok r] by (simp add: r)
qed

text \<open>
  C3. A merge is durable: no stay of the result, detected, provisional or forced, overlaps
  the range of a suppress override.
\<close>

theorem detect_merge_durable:
  assumes "overrides_ok ovs" "detect dst points ps ovs = Inr (stays, trips)"
    and "ov \<in> set ovs" "ov_kind ov = Suppress" "s \<in> set stays"
  shows "\<not> overlaps_range ov (st_started_at s) (st_ended_at s)"
  using detect_stages_of(3) [OF assms(1,2)] assms(3-5) by (force simp: free_of_suppress_def)

theorem detect_merge_durable_witness:
  "case detect flat_dist track default_params [merge_all, split_at_3] of
     Inl _ \<Rightarrow> False
   | Inr (stays, trips) \<Rightarrow> length stays = 2
       \<and> \<not> overlaps_range merge_all (st_started_at (hd stays)) (st_ended_at (hd stays))"
proof -
  let ?ovs = "[merge_all, split_at_3]"
  have ok: "overrides_ok ?ovs" by (simp add: overrides_ok_def split_at_3_def merge_all_def)
  have ev: "case detect flat_dist track default_params ?ovs of Inl _ \<Rightarrow> False | Inr (stays, trips) \<Rightarrow> length stays = 2"
    by code_simp
  obtain stays trips where r: "detect flat_dist track default_params ?ovs = Inr (stays, trips)"
    using detect_stages [OF ok, of flat_dist default_params track] by blast
  then have len: "length stays = 2" using ev by simp
  then have "hd stays \<in> set stays" by (cases stays) auto
  moreover have "ov_kind merge_all = Suppress" "merge_all \<in> set ?ovs" by (simp_all add: merge_all_def)
  ultimately show ?thesis
    using detect_merge_durable [OF ok r, of merge_all "hd stays"] len by (simp add: r)
qed

text \<open>
  C4. A split is durable: the point a force override names passes both gates on every
  run, and either a suppress override covers its time (the merge wins) or the point is
  inside a stay of the result, so no trip runs through it.
\<close>

theorem detect_split_durable:
  assumes "overrides_ok ovs" "detect dst points ps ovs = Inr (stays, trips)"
    and "f \<in> set ovs" "ov_kind f = Force" "ov_point_id f = Some i"
    and "p \<in> set points" "pt_id p = Some i"
  defines "pts \<equiv> filter_points dst ps (pinned_ids ovs) points"
  shows "p \<in> set pts
    \<and> (\<exists>k. index_of_point pts (Some i) = Some k \<and> pt_id (pts ! k) = Some i
         \<and> ((\<exists>q \<in> set ovs. ov_kind q = Suppress
               \<and> overlaps_range q (pt_t (pts ! k)) (pt_t (pts ! k)))
            \<or> (\<exists>s \<in> set stays. first_idx s \<le> k \<and> k \<le> last_idx s)))"
proof -
  have "i \<in> set (pinned_ids ovs)"
    using assms(3-5) by (force simp: pinned_ids_def List.map_filter_def image_iff)
  then have "is_pinned (pinned_ids ovs) p" by (simp add: is_pinned_def assms(7))
  then have p: "p \<in> set pts"
    using assms(6) by (simp add: pts_def filter_points_def filter_loop_pinned)
  then obtain k where k: "index_of_point pts (Some i) = Some k"
    using index_of_point_None [of pts "Some i"] assms(7) by (cases "index_of_point pts (Some i)") auto
  have "split_honoured pts ovs stays f"
    using detect_stages_of(4) [OF assms(1,2)] assms(3,4) by (simp add: pts_def)
  with k p index_of_point_Some [OF k] show ?thesis
    by (auto simp: split_honoured_def assms(5) idxs_def)
qed

theorem detect_split_durable_witness:
  "case detect flat_dist track default_params [split_at_3] of
     Inl _ \<Rightarrow> False
   | Inr (stays, trips) \<Rightarrow> fix_at 720 2000 3 \<in> set (filter_points flat_dist default_params [3] track)
       \<and> length stays = 3"
proof -
  have ok: "overrides_ok [split_at_3]" by (simp add: overrides_ok_def split_at_3_def)
  obtain stays trips where r: "detect flat_dist track default_params [split_at_3] = Inr (stays, trips)"
    using detect_stages [OF ok, of flat_dist default_params track] by blast
  have pin: "pinned_ids [split_at_3] = [3]"
    by (simp add: pinned_ids_def split_at_3_def List.map_filter_def)
  have "split_at_3 \<in> set [split_at_3]" "ov_kind split_at_3 = Force" "ov_point_id split_at_3 = Some 3"
    "fix_at 720 2000 3 \<in> set track" "pt_id (fix_at 720 2000 3) = Some 3"
    by (simp_all add: split_at_3_def track_def fix_at_def)
  from detect_split_durable [OF ok r this]
  have "fix_at 720 2000 3 \<in> set (filter_points flat_dist default_params [3] track)"
    by (simp add: pin)
  then show ?thesis using detect_track_split by (simp add: r)
qed

lemma apply_overrides_discard:
  "ov_kind ov = Discard \<Longrightarrow> apply_overrides pts stays (ov # ovs) = apply_overrides pts stays ovs"
  by (simp add: apply_overrides_def)

lemma apply_overrides_discard_if:
  "ov_kind ov = Discard \<Longrightarrow> apply_overrides pts stays [] = Inr stays \<Longrightarrow>
   (if ov # ovs = [] then Inr stays else apply_overrides pts stays (ov # ovs))
   = (if ovs = [] then Inr stays else apply_overrides pts stays ovs)"
  by (cases "ovs = []") (simp_all add: apply_overrides_discard)

lemma in_order_sorted: "in_order ss \<Longrightarrow> \<forall>q \<in> set ss. first_idx q \<le> last_idx q \<Longrightarrow> sorted (map first_idx ss)"
  by (induction ss) (auto intro: less_imp_le order_le_less_trans)

lemma sort_in_order_id: "in_order ss \<Longrightarrow> \<forall>q \<in> set ss. first_idx q \<le> last_idx q \<Longrightarrow> sort_key first_idx ss = ss"
  by (rule sort_key_id_if_sorted) (rule in_order_sorted)

lemma apply_overrides_Nil:
  assumes "in_order stays" "\<forall>s \<in> set stays. stay_ok pts s"
  shows "apply_overrides pts stays [] = Inr stays"
proof -
  have "filter_res (\<lambda>s. map_sum id Not (suppressed [] (st_started_at s) (st_ended_at s))) stays
      = Inr (filter (\<lambda>s. True) stays)"
    by (rule filter_res_Inr) (simp add: suppressed_def)
  moreover have "sort_key first_idx stays = stays"
    by (rule sort_in_order_id [OF assms(1)]) (use assms(2) in \<open>auto simp: stay_ok_def\<close>)
  ultimately show ?thesis by (simp add: apply_overrides_def)
qed

text \<open>
  C5. A durable deletion removes exactly the trips that overlap its range by at least half
  of both durations: adding a discard override to any others leaves the stays as they
  were and filters the trips, whatever errors the others produce. The overlap and the
  durations are microseconds.
\<close>

theorem detect_discard_exact:
  assumes "ov_kind ov = Discard" "range_start ov = Some a" "range_end ov = Some b"
  shows "detect dst points ps (ov # ovs)
    = map_sum id (\<lambda>(stays, trips). (stays, filter (\<lambda>tr.
          2 * (min (tr_ended_at tr) b - max (tr_started_at tr) a) < tr_ended_at tr - tr_started_at tr
          \<or> 2 * (min (tr_ended_at tr) b - max (tr_started_at tr) a) < b - a) trips))
        (detect dst points ps ovs)"
proof -
  have pins: "pinned_ids (ov # ovs) = pinned_ids ovs"
    using assms(1) by (simp add: pinned_ids_def List.map_filter_def)
  have disc: "apply_discard_overrides trips (ov # ovs)
      = filter (\<lambda>tr. \<not> discard_matches tr a b) (apply_discard_overrides trips ovs)" for trips
    using assms by (auto simp: apply_discard_overrides_def discard_ranges_def List.map_filter_def
        intro!: filter_cong)
  let ?pts = "filter_points dst ps (pinned_ids ovs) points"
  let ?found = "find_stays dst ?pts ps"
  let ?all = "case trailing_arrival_stay dst ?pts ?found ps of None \<Rightarrow> ?found | Some a \<Rightarrow> ?found @ [a]"
  have found: "in_order ?found" "\<forall>s \<in> set ?found. stay_ok ?pts s"
    using find_stays_ok [OF filter_points_sorted, of dst ps dst ps] by (auto simp: stays_ok_def)
  have "in_order ?all \<and> (\<forall>s \<in> set ?all. stay_ok ?pts s)"
    using found arrival_in_order [OF _ found] by (auto split: option.splits)
  then have nil: "apply_overrides ?pts ?all [] = Inr ?all" using apply_overrides_Nil by blast
  have ovr: "(if ov # ovs = [] then Inr ?all else apply_overrides ?pts ?all (ov # ovs))
      = (if ovs = [] then Inr ?all else apply_overrides ?pts ?all ovs)"
    by (rule apply_overrides_discard_if [OF assms(1) nil])
  show ?thesis
    unfolding detect_def Let_def pins ovr disc discard_matches_negated [symmetric]
    by (auto simp: res_bind_def split: sum.splits)
qed

theorem detect_discard_exact_witness:
  "detect flat_dist track default_params [delete_drive] = Inr (track_stays, [])"
  using detect_discard_exact [of delete_drive 600000000 900000000 flat_dist track default_params "[]"]
  by (simp add: detect_track delete_drive_def track_trip_def)

text \<open>
  With one point per instant, the order in which the points arrive is irrelevant: any
  permutation of the input gives the same stays and trips. (With two points at the same
  microsecond the first of them in the input is kept, so the order does matter there.)
\<close>

theorem detect_order_irrelevant:
  assumes "mset points = mset points'" "distinct (map pt_t points)"
  shows "detect dst points ps ovs = detect dst points' ps ovs"
  using sort_key_permutation_unique [OF assms] by (simp add: detect_def filter_points_def)

theorem detect_order_irrelevant_witness:
  "detect flat_dist (rev track) default_params [] = Inr (track_stays, [track_trip])"
proof -
  have "distinct (map pt_t track)" by (simp add: track_def fix_at_def seconds_def)
  then show ?thesis
    using detect_order_irrelevant [of track "rev track" flat_dist default_params "[]"]
    by (simp add: detect_track)
qed

lemma detect_order_matters_on_ties:
  "filter_points flat_dist default_params [] [fix_at 0 0 1, fix_at 0 9 2]
   \<noteq> filter_points flat_dist default_params [] [fix_at 0 9 2, fix_at 0 0 1]"
  by (simp add: filter_points_def fix_at_def default_params_def)

text \<open>
  The gates: the kept points are input points in time order; an unpinned kept point
  is accurate enough, is strictly later than the kept point before it and implies a
  speed of at most the limit from it; a pinned point is always kept.
\<close>

theorem filter_points_gates:
  fixes dst ps pinned points
  defines "out \<equiv> filter_points dst ps pinned points"
  shows "set out \<subseteq> set points \<and> sorted (map pt_t out)
    \<and> (\<forall>p \<in> set out. is_pinned pinned p \<or> accurate ps p)
    \<and> (\<forall>(a, b) \<in> set (pairs out). is_pinned pinned b \<or> plausible_step dst ps a b)
    \<and> (\<forall>p \<in> set points. is_pinned pinned p \<longrightarrow> p \<in> set out)"
proof (intro conjI)
  let ?in = "sort_key pt_t points"
  show "set out \<subseteq> set points" "sorted (map pt_t out)"
    unfolding out_def by (rule filter_points_set, rule filter_points_sorted)
  show "\<forall>p \<in> set out. is_pinned pinned p \<or> accurate ps p"
    unfolding out_def filter_points_def by (intro ballI, rule filter_loop_accurate) simp_all
  show "\<forall>(a, b) \<in> set (pairs out). is_pinned pinned b \<or> plausible_step dst ps a b"
    unfolding out_def filter_points_def by (intro ballI case_prodI2, rule filter_loop_steps) simp_all
  show "\<forall>p \<in> set points. is_pinned pinned p \<longrightarrow> p \<in> set out"
    unfolding out_def filter_points_def by (simp add: filter_loop_pinned)
qed

theorem filter_points_gates_witness:
  "set (filter_points flat_dist default_params [] track) \<subseteq> set track"
  using filter_points_gates [of flat_dist default_params "[]" track] by blast

text \<open>
  C6. Stay detection: on points in time order the stays are in order without a shared
  point, each starts and ends at points of the list and lasts at least the minimum dwell,
  the path between two neighbours is longer than the stay radius (no jitter split), and
  every point either pass reports lies in a stay.
\<close>

theorem find_stays_correct:
  assumes "sorted (map pt_t pts)"
  shows "stays_ok dst ps pts (find_stays dst pts ps)
    \<and> (\<forall>k \<in> covered (stationary_ranges dst ps pts) \<union> covered (on_foot_ranges dst ps pts).
         \<exists>s \<in> set (find_stays dst pts ps). k \<in> idxs s)"
  using find_stays_ok [OF assms] find_stays_covers [OF assms] by blast

theorem find_stays_correct_witness:
  "stays_ok flat_dist default_params track (find_stays flat_dist track default_params)"
proof -
  have "sorted (map pt_t track)" by (simp add: track_def fix_at_def seconds_def)
  from find_stays_correct [OF this] show ?thesis by blast
qed

text \<open>
  The walking pass computes what its description says: the incrementally maintained
  window (its oldest point and its path length) ends every span exactly where
  recomputing the window from the points at each step would.
\<close>

theorem on_foot_window_equiv:
  assumes "sorted (map pt_t pts)" "Suc i < length pts"
  shows "walk_span dst ps pts (Suc i) i 0 = walk_ref dst ps pts i (Suc i)"
  by (rule walk_span_walk_ref [OF assms])

theorem on_foot_window_equiv_witness:
  "walk_span flat_dist default_params track 1 0 0 = walk_ref flat_dist default_params track 0 1"
proof -
  have "sorted (map pt_t track)" "Suc 0 < length track" by (simp_all add: track_def fix_at_def seconds_def)
  from on_foot_window_equiv [OF this] show ?thesis by simp
qed

text \<open>
  In exact arithmetic the great-circle distance never leaves the domain of the square
  root and the arc sine, is symmetric, zero from a point to itself, and at most half the
  circumference of the sphere.
\<close>

theorem haversine_sound:
  "0 \<le> haversine_a lat1 lon1 lat2 lon2 \<and> haversine_a lat1 lon1 lat2 lon2 \<le> 1
   \<and> 0 \<le> haversine_m lat1 lon1 lat2 lon2
   \<and> haversine_m lat1 lon1 lat2 lon2 \<le> pi * EARTH_RADIUS_M
   \<and> haversine_m lat1 lon1 lat2 lon2 = haversine_m lat2 lon2 lat1 lon1
   \<and> haversine_m lat1 lon1 lat1 lon1 = 0"
proof -
  have "arcsin (sqrt (haversine_a lat1 lon1 lat2 lon2)) \<le> pi / 2"
    using haversine_a_range [of lat1 lon1 lat2 lon2] by (intro arcsin_ubound) (auto intro: order_trans [of _ 0])
  then have "haversine_m lat1 lon1 lat2 lon2 \<le> pi * EARTH_RADIUS_M"
    by (simp add: haversine_m_def EARTH_RADIUS_M_def)
  then show ?thesis
    using haversine_a_range haversine_nonneg haversine_sym [of lat1 lon1 lat2 lon2] by simp
qed

end
