(* ===== verification/Reconcile.thy ===== *)
theory Reconcile imports Prelude begin

text \<open>
  \<open>app/detector/reconcile.py\<close>: matching newly detected trips to the stored ones by time
  overlap, so that ids, tags and expenses survive a reprocess. Trips are referred to by
  index, as in the code; \<open>candidates.sort(key=..., reverse=True)\<close> keeps equal overlaps in
  their original order, so it is a stable sort by the negated overlap.
\<close>

record existing_trip =
  ex_id :: int
  ex_started_at :: instant
  ex_ended_at :: instant
  ex_category :: string
  ex_tag_source :: "string option"

record reconcile_plan =
  rp_matches :: "(int \<times> nat) list"
  rp_inserts :: "nat list"
  rp_deletes :: "existing_trip list"
  rp_kept :: "existing_trip list"

definition overlap_s :: "instant \<Rightarrow> instant \<Rightarrow> instant \<Rightarrow> instant \<Rightarrow> real" where
  "overlap_s a_start a_end b_start b_end =
     max 0 (total_seconds (min a_end b_end - max a_start b_start))"

definition pair_overlap :: "existing_trip list \<Rightarrow> (instant \<times> instant) list \<Rightarrow> nat \<Rightarrow> nat \<Rightarrow> real" where
  "pair_overlap existing new_trips ei ni =
     overlap_s (ex_started_at (existing ! ei)) (ex_ended_at (existing ! ei))
       (fst (new_trips ! ni)) (snd (new_trips ! ni))"

definition qualifies :: "existing_trip list \<Rightarrow> (instant \<times> instant) list \<Rightarrow> nat \<Rightarrow> nat \<Rightarrow> bool" where
  "qualifies existing new_trips ei ni =
     (let ov = pair_overlap existing new_trips ei ni;
          e_dur = total_seconds (ex_ended_at (existing ! ei) - ex_started_at (existing ! ei));
          n_dur = total_seconds (snd (new_trips ! ni) - fst (new_trips ! ni));
          shorter = max (min e_dur n_dur) 1
      in ov > 0 \<and> ov \<ge> 0.5 * shorter)"

definition candidates ::
  "existing_trip list \<Rightarrow> (instant \<times> instant) list \<Rightarrow> (real \<times> nat \<times> nat) list" where
  "candidates existing new_trips =
     concat (map (\<lambda>ei. map (\<lambda>ni. (pair_overlap existing new_trips ei ni, ei, ni))
                        (filter (qualifies existing new_trips ei) [0..<length new_trips]))
               [0..<length existing])"

text \<open>The loop over the sorted candidates; the state is the two sets and \<open>matches\<close>.\<close>

fun greedy ::
  "(real \<times> nat \<times> nat) list \<Rightarrow> nat set \<Rightarrow> nat set \<Rightarrow> (nat \<times> nat) list \<times> nat set \<times> nat set" where
  "greedy [] me mn = ([], me, mn)"
| "greedy ((_, ei, ni) # cs) me mn =
     (if ei \<in> me \<or> ni \<in> mn then greedy cs me mn
      else (case greedy cs (insert ei me) (insert ni mn) of
          (ms, me', mn') \<Rightarrow> ((ei, ni) # ms, me', mn')))"

definition sorted_candidates ::
  "existing_trip list \<Rightarrow> (instant \<times> instant) list \<Rightarrow> (real \<times> nat \<times> nat) list" where
  "sorted_candidates existing new_trips = sort_key (\<lambda>c. - fst c) (candidates existing new_trips)"

definition plan_reconcile ::
  "existing_trip list \<Rightarrow> (instant \<times> instant) list \<Rightarrow> instant option \<Rightarrow> reconcile_plan" where
  "plan_reconcile existing new_trips open_tail_from =
     (case greedy (sorted_candidates existing new_trips) {} {} of
        (ms, matched_existing, matched_new) \<Rightarrow>
          (let left = map (\<lambda>ei. existing ! ei)
                 (filter (\<lambda>ei. ei \<notin> matched_existing) [0..<length existing]);
               waits = (\<lambda>e. case open_tail_from of None \<Rightarrow> False | Some u \<Rightarrow> ex_started_at e \<ge> u)
           in \<lparr>rp_matches = map (\<lambda>(ei, ni). (ex_id (existing ! ei), ni)) ms,
               rp_inserts = filter (\<lambda>ni. ni \<notin> matched_new) [0..<length new_trips],
               rp_deletes = filter (\<lambda>e. \<not> waits e) left,
               rp_kept = filter waits left\<rparr>))"

text \<open>The matching by index, for the statements.\<close>

definition matching :: "existing_trip list \<Rightarrow> (instant \<times> instant) list \<Rightarrow> (nat \<times> nat) list" where
  "matching existing new_trips = fst (greedy (sorted_candidates existing new_trips) {} {})"

section \<open>The greedy loop\<close>

lemma greedy_state:
  "greedy cs me mn = (ms, me', mn') \<Longrightarrow> me' = me \<union> fst ` set ms \<and> mn' = mn \<union> snd ` set ms"
  by (induction cs me mn arbitrary: ms me' mn' rule: greedy.induct)
     (auto split: if_splits prod.splits)

lemma greedy_one_to_one:
  "greedy cs me mn = (ms, me', mn') \<Longrightarrow>
     distinct (map fst ms) \<and> distinct (map snd ms)
     \<and> fst ` set ms \<inter> me = {} \<and> snd ` set ms \<inter> mn = {}
     \<and> (\<forall>(e, n) \<in> set ms. \<exists>ov. (ov, e, n) \<in> set cs)"
proof (induction cs me mn arbitrary: ms me' mn' rule: greedy.induct)
  case (2 x ei ni cs me mn)
  show ?case
  proof (cases "ei \<in> me \<or> ni \<in> mn")
    case True
    with 2(3) have g: "greedy cs me mn = (ms, me', mn')" by simp
    from 2(1) [OF True g] show ?thesis by auto
  next
    case False
    obtain ms' where g: "greedy cs (insert ei me) (insert ni mn) = (ms', me', mn')"
      and ms: "ms = (ei, ni) # ms'"
      using 2(3) False by (auto split: prod.splits)
    from 2(2) [OF False g] have
      "distinct (map fst ms')" "distinct (map snd ms')" "fst ` set ms' \<inter> insert ei me = {}"
      "snd ` set ms' \<inter> insert ni mn = {}" "\<forall>(e, n) \<in> set ms'. \<exists>ov. (ov, e, n) \<in> set cs"
      by blast+
    with False show ?thesis unfolding ms by auto
  qed
qed simp

text \<open>A candidate is passed over only for one with at least its overlap.\<close>

lemma greedy_stable:
  "greedy cs me mn = (ms, me', mn') \<Longrightarrow> sorted (map (\<lambda>c. - fst c) cs) \<Longrightarrow>
     (ov, e, n) \<in> set cs \<Longrightarrow>
     e \<in> me \<or> n \<in> mn
     \<or> (\<exists>e' n' ov'. (e', n') \<in> set ms \<and> (e' = e \<or> n' = n) \<and> (ov', e', n') \<in> set cs \<and> ov \<le> ov')"
proof (induction cs me mn arbitrary: ms me' mn' rule: greedy.induct)
  case (2 x ei ni cs me mn)
  have srt: "sorted (map (\<lambda>c. - fst c) cs)" "\<forall>c \<in> set cs. fst c \<le> x" using 2(4) by auto
  show ?case
  proof (cases "ei \<in> me \<or> ni \<in> mn")
    case True
    with 2(3) have g: "greedy cs me mn = (ms, me', mn')" by simp
    from True 2(5) consider "e \<in> me \<or> n \<in> mn" | "(ov, e, n) \<in> set cs" by auto
    then show ?thesis
    proof cases
      case 2
      from "2.IH"(1) [OF True g srt(1) this] show ?thesis by auto
    qed (elim disjE, simp_all)
  next
    case False
    obtain ms' where g: "greedy cs (insert ei me) (insert ni mn) = (ms', me', mn')"
      and ms: "ms = (ei, ni) # ms'"
      using 2(3) False by (auto split: prod.splits)
    show ?thesis
    proof (cases "e = ei \<or> n = ni")
      case True
      have "ov \<le> x" using 2(5) srt(2) by auto
      with True show ?thesis unfolding ms by (intro disjI2 exI [of _ ei] exI [of _ ni] exI [of _ x]) auto
    next
      case ne: False
      then have "(ov, e, n) \<in> set cs" using 2(5) by auto
      from 2(2) [OF False g srt(1) this] ne show ?thesis unfolding ms by auto
    qed
  qed
qed simp

section \<open>Candidates\<close>

lemma candidates_mem:
  "(ov, ei, ni) \<in> set (candidates existing new_trips) \<longleftrightarrow>
     ei < length existing \<and> ni < length new_trips \<and> qualifies existing new_trips ei ni
     \<and> ov = pair_overlap existing new_trips ei ni"
  by (auto simp: candidates_def)

lemma matching_facts:
  fixes existing new_trips
  defines "ms \<equiv> matching existing new_trips"
  shows "distinct (map fst ms) \<and> distinct (map snd ms)
    \<and> (\<forall>(e, n) \<in> set ms. e < length existing \<and> n < length new_trips \<and> qualifies existing new_trips e n)
    \<and> (\<forall>e < length existing. \<forall>n < length new_trips. qualifies existing new_trips e n \<longrightarrow>
         (\<exists>(e', n') \<in> set ms. (e' = e \<or> n' = n)
            \<and> pair_overlap existing new_trips e n \<le> pair_overlap existing new_trips e' n'))"
proof -
  let ?cs = "sorted_candidates existing new_trips"
  have set_cs: "set ?cs = set (candidates existing new_trips)" by (simp add: sorted_candidates_def)
  have srt: "sorted (map (\<lambda>c. - fst c) ?cs)" by (simp add: sorted_candidates_def)
  obtain me mn where g: "greedy ?cs {} {} = (ms, me, mn)"
    by (cases "greedy ?cs {} {}") (auto simp: ms_def matching_def)
  note one = greedy_one_to_one [OF g]
  have "\<forall>(e, n) \<in> set ms. e < length existing \<and> n < length new_trips \<and> qualifies existing new_trips e n"
  proof (clarify)
    fix e n
    assume "(e, n) \<in> set ms"
    with one obtain ov where "(ov, e, n) \<in> set ?cs" by blast
    then show "e < length existing \<and> n < length new_trips \<and> qualifies existing new_trips e n"
      by (simp add: set_cs candidates_mem)
  qed
  moreover have stable: "\<exists>(e', n') \<in> set ms. (e' = e \<or> n' = n)
      \<and> pair_overlap existing new_trips e n \<le> pair_overlap existing new_trips e' n'"
    if "e < length existing" "n < length new_trips" "qualifies existing new_trips e n" for e n
  proof -
    have "(pair_overlap existing new_trips e n, e, n) \<in> set ?cs"
      using that by (simp add: set_cs candidates_mem)
    from greedy_stable [OF g srt this] obtain e' n' ov' where
      m: "(e', n') \<in> set ms" "e' = e \<or> n' = n" "(ov', e', n') \<in> set ?cs"
      "pair_overlap existing new_trips e n \<le> ov'"
      unfolding empty_iff simp_thms by (elim exE conjE)
    then have "pair_overlap existing new_trips e n \<le> pair_overlap existing new_trips e' n'"
      by (simp add: set_cs candidates_mem)
    with m(1,2) show ?thesis by (intro bexI [of _ "(e', n')"]) simp_all
  qed
  moreover have "distinct (map fst ms)" "distinct (map snd ms)" using one by simp_all
  ultimately show ?thesis by (intro conjI allI impI) (assumption | rule stable)+
qed

lemma plan_reconcile_fields:
  "rp_matches (plan_reconcile existing new_trips u)
     = map (\<lambda>(ei, ni). (ex_id (existing ! ei), ni)) (matching existing new_trips)"
  "rp_inserts (plan_reconcile existing new_trips u)
     = filter (\<lambda>ni. ni \<notin> snd ` set (matching existing new_trips)) [0..<length new_trips]"
  "rp_deletes (plan_reconcile existing new_trips u)
     = filter (\<lambda>e. \<not> (case u of None \<Rightarrow> False | Some v \<Rightarrow> ex_started_at e \<ge> v))
         (map (\<lambda>ei. existing ! ei)
           (filter (\<lambda>ei. ei \<notin> fst ` set (matching existing new_trips)) [0..<length existing]))"
  "rp_kept (plan_reconcile existing new_trips u)
     = filter (\<lambda>e. case u of None \<Rightarrow> False | Some v \<Rightarrow> ex_started_at e \<ge> v)
         (map (\<lambda>ei. existing ! ei)
           (filter (\<lambda>ei. ei \<notin> fst ` set (matching existing new_trips)) [0..<length existing]))"
  using greedy_state [of "sorted_candidates existing new_trips" "{}" "{}"]
  by (auto simp: plan_reconcile_def matching_def Let_def split: prod.splits intro!: filter_cong)

section \<open>Properties\<close>

definition morning :: existing_trip where
  "morning = \<lparr>ex_id = 7, ex_started_at = seconds 0, ex_ended_at = seconds 600,
     ex_category = ''business'', ex_tag_source = Some ''human''\<rparr>"

definition evening :: existing_trip where
  "evening = \<lparr>ex_id = 8, ex_started_at = seconds 1000, ex_ended_at = seconds 1600,
     ex_category = ''personal'', ex_tag_source = None\<rparr>"

text \<open>
  C15. Reconciliation is a stable one-to-one matching: no stored trip and no new trip is used
  twice, every matched pair qualifies (a positive overlap of at least half the shorter
  trip), and a qualifying pair is left apart only if one of its trips went to a partner
  with at least as much overlap.
\<close>

theorem reconcile_stable_matching:
  fixes existing new_trips
  defines "ms \<equiv> matching existing new_trips"
  shows "distinct (map fst ms) \<and> distinct (map snd ms)
    \<and> (\<forall>(e, n) \<in> set ms. e < length existing \<and> n < length new_trips \<and> qualifies existing new_trips e n)
    \<and> (\<forall>e < length existing. \<forall>n < length new_trips. qualifies existing new_trips e n \<longrightarrow>
         (\<exists>(e', n') \<in> set ms. (e' = e \<or> n' = n)
            \<and> pair_overlap existing new_trips e n \<le> pair_overlap existing new_trips e' n'))
    \<and> rp_matches (plan_reconcile existing new_trips u) = map (\<lambda>(ei, ni). (ex_id (existing ! ei), ni)) ms"
  using matching_facts [of existing new_trips] by (simp add: ms_def plan_reconcile_fields)

theorem reconcile_stable_matching_witness:
  "rp_matches (plan_reconcile [morning, evening] [(seconds 1100, seconds 1700), (seconds 10, seconds 590)] None)
     = [(7, 1), (8, 0)]
   \<and> distinct (map fst (matching [morning, evening] [(seconds 1100, seconds 1700), (seconds 10, seconds 590)]))"
proof
  show "rp_matches (plan_reconcile [morning, evening] [(seconds 1100, seconds 1700), (seconds 10, seconds 590)] None)
     = [(7, 1), (8, 0)]"
    by code_simp
qed (use reconcile_stable_matching in blast)

text \<open>
  No trip is lost or duplicated: every index of the new trips is matched or inserted and
  never both; the stored trips are those matched, deleted or kept, each once; and a trip
  is kept only when a tail is open and it starts at or after it.
\<close>

theorem reconcile_partition:
  fixes existing new_trips u
  defines "p \<equiv> plan_reconcile existing new_trips u"
  shows "mset (map snd (rp_matches p) @ rp_inserts p) = mset [0..<length new_trips]
    \<and> mset (map (\<lambda>(e, n). existing ! e) (matching existing new_trips) @ rp_deletes p @ rp_kept p)
        = mset existing
    \<and> (\<forall>e \<in> set (rp_kept p). \<exists>v. u = Some v \<and> v \<le> ex_started_at e)
    \<and> (\<forall>e \<in> set (rp_deletes p). \<forall>v. u = Some v \<longrightarrow> ex_started_at e < v)"
proof -
  let ?ms = "matching existing new_trips"
  note facts = matching_facts [of existing new_trips]
  have split: "mset (map f ms @ filter (\<lambda>i. i \<notin> f ` set ms) [0..<k]) = mset [0..<k]"
    if "distinct (map f ms)" "f ` set ms \<subseteq> {..<k}" for f :: "nat \<times> nat \<Rightarrow> nat" and ms k
    by (rule set_eq_iff_mset_eq_distinct [THEN iffD1])
       (use that in \<open>auto simp: distinct_map inj_on_def\<close>)
  have new: "mset (map snd ?ms @ filter (\<lambda>i. i \<notin> snd ` set ?ms) [0..<length new_trips])
      = mset [0..<length new_trips]"
    by (rule split) (use facts in auto)
  have old: "mset (map fst ?ms @ filter (\<lambda>i. i \<notin> fst ` set ?ms) [0..<length existing])
      = mset [0..<length existing]"
    by (rule split) (use facts in auto)
  let ?left = "map ((!) existing) (filter (\<lambda>ei. ei \<notin> fst ` set ?ms) [0..<length existing])"
  have "mset (map ((!) existing) (map fst ?ms @ filter (\<lambda>i. i \<notin> fst ` set ?ms) [0..<length existing]))
      = mset (map ((!) existing) [0..<length existing])"
    using old by (metis mset_map)
  then have "mset (map (\<lambda>(e, n). existing ! e) ?ms) + mset ?left = mset existing"
    by (simp add: map_nth case_prod_unfold comp_def)
  moreover have "mset ?left = mset (rp_deletes p) + mset (rp_kept p)"
    by (simp only: p_def plan_reconcile_fields) (rule mset_filter_split [symmetric])
  moreover have "map snd (rp_matches p) = map snd ?ms"
    by (simp add: p_def plan_reconcile_fields case_prod_unfold comp_def)
  moreover have "rp_inserts p = filter (\<lambda>i. i \<notin> snd ` set ?ms) [0..<length new_trips]"
    by (simp add: p_def plan_reconcile_fields)
  ultimately have "mset (map snd (rp_matches p) @ rp_inserts p) = mset [0..<length new_trips]
    \<and> mset (map (\<lambda>(e, n). existing ! e) ?ms @ rp_deletes p @ rp_kept p) = mset existing"
    using new by (simp only: mset_append)
  then show ?thesis by (auto simp: p_def plan_reconcile_fields split: option.splits)
qed

lemma own_span_overlap:
  assumes "e < length existing" "n < length existing"
    and "sorted_wrt (\<lambda>x y. ex_ended_at x \<le> ex_started_at y) existing"
  defines "spans \<equiv> map (\<lambda>x. (ex_started_at x, ex_ended_at x)) existing"
  shows "e \<noteq> n \<Longrightarrow> pair_overlap existing spans e n = 0"
    "pair_overlap existing spans e e = max 0 (total_seconds (ex_ended_at (existing ! e) - ex_started_at (existing ! e)))"
proof -
  show "pair_overlap existing spans e e
      = max 0 (total_seconds (ex_ended_at (existing ! e) - ex_started_at (existing ! e)))"
    using assms(1) by (simp add: pair_overlap_def overlap_s_def spans_def)
  assume "e \<noteq> n"
  then consider "e < n" | "n < e" by linarith
  then have "min (ex_ended_at (existing ! e)) (ex_ended_at (existing ! n))
      - max (ex_started_at (existing ! e)) (ex_started_at (existing ! n)) \<le> 0"
    using assms(1-3) by cases (fastforce simp: sorted_wrt_iff_nth_less min_def max_def)+
  then have "total_seconds (min (ex_ended_at (existing ! e)) (ex_ended_at (existing ! n))
      - max (ex_started_at (existing ! e)) (ex_started_at (existing ! n))) \<le> 0"
    by (simp only: total_seconds_le0)
  then show "pair_overlap existing spans e n = 0"
    using assms(2) by (simp add: pair_overlap_def overlap_s_def spans_def max_absorb1)
qed

theorem reconcile_partition_witness:
  "rp_kept (plan_reconcile [morning, evening] [(seconds 10, seconds 590)] (Some (seconds 900))) = [evening]
   \<and> seconds 900 \<le> ex_started_at evening"
proof -
  have k: "rp_kept (plan_reconcile [morning, evening] [(seconds 10, seconds 590)] (Some (seconds 900))) = [evening]"
    by code_simp
  then show ?thesis
    using reconcile_partition [of "[morning, evening]" "[(seconds 10, seconds 590)]" "Some (seconds 900)"] by force
qed

text \<open>
  C16. Re-detecting the same trips changes nothing: when the new spans are exactly the stored
  trips' own, chronological and non-overlapping, and each lasts at least half a second,
  every stored trip keeps its identity and nothing is inserted, deleted or left waiting.
\<close>

theorem reconcile_idempotent:
  fixes existing u
  assumes "sorted_wrt (\<lambda>x y. ex_ended_at x \<le> ex_started_at y) existing"
    and "\<forall>x \<in> set existing. 500000 \<le> ex_ended_at x - ex_started_at x"
  defines "p \<equiv> plan_reconcile existing (map (\<lambda>x. (ex_started_at x, ex_ended_at x)) existing) u"
  shows "set (rp_matches p) = (\<lambda>i. (ex_id (existing ! i), i)) ` {..<length existing}
    \<and> rp_inserts p = [] \<and> rp_deletes p = [] \<and> rp_kept p = []"
proof -
  let ?spans = "map (\<lambda>x. (ex_started_at x, ex_ended_at x)) existing"
  let ?ms = "matching existing ?spans"
  note facts = matching_facts [of existing ?spans]
  have diag: "e = n" if "(e, n) \<in> set ?ms" for e n
  proof (rule ccontr)
    assume "e \<noteq> n"
    from facts that have "e < length existing" "n < length existing" "qualifies existing ?spans e n"
      by auto
    with own_span_overlap(1) [of e existing n] assms(1) \<open>e \<noteq> n\<close> show False
      by (simp add: qualifies_def Let_def)
  qed
  have all: "(i, i) \<in> set ?ms" if i: "i < length existing" for i
  proof -
    let ?d = "total_seconds (ex_ended_at (existing ! i) - ex_started_at (existing ! i))"
    have "total_seconds 500000 \<le> ?d" using assms(2) i by (intro total_seconds_mono) simp
    then have d: "1 / 2 \<le> ?d" by (simp add: total_seconds_def)
    then have m: "max 0 ?d = ?d" by simp
    have lt: "ex_started_at (existing ! i) < ex_ended_at (existing ! i)"
      using assms(2) nth_mem [OF i] by fastforce
    have "qualifies existing ?spans i i"
      using own_span_overlap(2) [OF i i assms(1)] d i lt
      by (simp add: qualifies_def Let_def m)
    moreover have "\<forall>e < length existing. \<forall>n < length ?spans. qualifies existing ?spans e n \<longrightarrow>
         (\<exists>(e', n') \<in> set ?ms. (e' = e \<or> n' = n)
            \<and> pair_overlap existing ?spans e n \<le> pair_overlap existing ?spans e' n')"
      using facts by (elim conjE)
    ultimately have "\<exists>(e', n') \<in> set ?ms. (e' = i \<or> n' = i)
            \<and> pair_overlap existing ?spans i i \<le> pair_overlap existing ?spans e' n'"
      using i by simp
    then obtain e' n' where "(e', n') \<in> set ?ms" "e' = i \<or> n' = i" by fast
    with diag show ?thesis by metis
  qed
  have "set ?ms = (\<lambda>i. (i, i)) ` {..<length existing}"
  proof (intro equalityI subsetI)
    fix x
    assume x: "x \<in> set ?ms"
    obtain a b where ab: "x = (a, b)" by fastforce
    with x diag have "a = b" by blast
    moreover have "a < length existing" using facts x ab by fast
    ultimately show "x \<in> (\<lambda>i. (i, i)) ` {..<length existing}" using ab by simp
  qed (use all in auto)
  then have "fst ` set ?ms = {..<length existing}" "snd ` set ?ms = {..<length existing}"
    "set (rp_matches p) = (\<lambda>i. (ex_id (existing ! i), i)) ` {..<length existing}"
    by (auto simp: p_def plan_reconcile_fields image_image)
  then show ?thesis by (simp add: p_def plan_reconcile_fields filter_empty_conv)
qed

theorem reconcile_idempotent_witness:
  "rp_deletes (plan_reconcile [morning, evening]
     (map (\<lambda>x. (ex_started_at x, ex_ended_at x)) [morning, evening]) None) = []"
  using reconcile_idempotent [of "[morning, evening]" None]
  by (simp add: morning_def evening_def seconds_def)

end
