(* ===== verification/Autotag.thy ===== *)
theory Autotag imports Prelude begin

text \<open>
  \<open>app/autotag.py\<close>: rules that give a trip its category from the kinds of its two ends.
  A place reference is the resolved \<open>(place_id, kind)\<close> or \<open>None\<close>. The properties: the
  best rule wins, direction and rule order are irrelevant, a human tag is never touched,
  and applying a plan leaves nothing to plan.
\<close>

type_synonym place_ref = "(int \<times> string) option"

record rule =
  ru_id :: int
  a_place :: "int option"
  a_kind :: "string option"
  b_place :: "int option"
  b_kind :: "string option"
  ru_category :: string

record autotag_trip =
  at_id :: int
  at_category :: string
  at_tag_source :: "string option"
  at_start_place :: place_ref
  at_end_place :: place_ref

record autotag_result =
  ar_trip_id :: int
  ar_category :: string
  ar_tag_source :: "string option"

definition side_specificity :: "place_ref \<Rightarrow> int option \<Rightarrow> string option \<Rightarrow> nat option" where
  "side_specificity place side_place side_kind =
     (case side_place of
        Some sp \<Rightarrow> (case place of None \<Rightarrow> None | Some (i, _) \<Rightarrow> if i = sp then Some 2 else None)
      | None \<Rightarrow>
          (case side_kind of
             Some sk \<Rightarrow> (case place of None \<Rightarrow> None | Some (_, k) \<Rightarrow> if k = sk then Some 1 else None)
           | None \<Rightarrow> Some 0))"

text \<open>One orientation: side a against the first place, side b against the second.\<close>

definition orientation :: "rule \<Rightarrow> place_ref \<Rightarrow> place_ref \<Rightarrow> nat option" where
  "orientation r p1 p2 =
     (case (side_specificity p1 (a_place r) (a_kind r), side_specificity p2 (b_place r) (b_kind r)) of
        (Some s1, Some s2) \<Rightarrow> Some (s1 + s2)
      | _ \<Rightarrow> None)"

definition better :: "nat option \<Rightarrow> nat option \<Rightarrow> nat option" where
  "better best tot =
     (case tot of None \<Rightarrow> best
      | Some t \<Rightarrow> (case best of None \<Rightarrow> Some t | Some b \<Rightarrow> if t > b then Some t else Some b))"

definition rule_specificity :: "rule \<Rightarrow> place_ref \<Rightarrow> place_ref \<Rightarrow> nat option" where
  "rule_specificity r start_p end_p =
     better (better None (orientation r start_p end_p)) (orientation r end_p start_p)"

fun match_loop ::
  "place_ref \<Rightarrow> place_ref \<Rightarrow> (rule \<times> nat) option \<Rightarrow> rule list \<Rightarrow> (rule \<times> nat) option" where
  "match_loop start_p end_p best [] = best"
| "match_loop start_p end_p best (r # rs) =
     (case rule_specificity r start_p end_p of
        None \<Rightarrow> match_loop start_p end_p best rs
      | Some score \<Rightarrow>
          (case best of
             None \<Rightarrow> match_loop start_p end_p (Some (r, score)) rs
           | Some (br, bs) \<Rightarrow>
               if score > bs \<or> (score = bs \<and> ru_id r < ru_id br)
               then match_loop start_p end_p (Some (r, score)) rs
               else match_loop start_p end_p best rs))"

definition match_rule :: "rule list \<Rightarrow> place_ref \<Rightarrow> place_ref \<Rightarrow> rule option" where
  "match_rule rules start_p end_p = map_option fst (match_loop start_p end_p None rules)"

definition autotag_one :: "rule list \<Rightarrow> autotag_trip \<Rightarrow> autotag_result option" where
  "autotag_one rules t =
     (if at_tag_source t = Some ''human'' then None
      else case match_rule rules (at_start_place t) (at_end_place t) of
          Some r \<Rightarrow>
            if at_category t \<noteq> ru_category r \<or> at_tag_source t \<noteq> Some ''rule''
            then Some \<lparr>ar_trip_id = at_id t, ar_category = ru_category r, ar_tag_source = Some ''rule''\<rparr>
            else None
        | None \<Rightarrow>
            if at_tag_source t = Some ''rule''
            then Some \<lparr>ar_trip_id = at_id t, ar_category = ''unclassified'', ar_tag_source = None\<rparr>
            else None)"

definition plan_autotags :: "autotag_trip list \<Rightarrow> rule list \<Rightarrow> autotag_result list" where
  "plan_autotags trips rules = List.map_filter (autotag_one rules) trips"

section \<open>The best rule\<close>

text \<open>\<open>beats r k q j\<close>: a rule scoring \<open>k\<close> is preferred to, or ties with, one scoring \<open>j\<close>.\<close>

definition beats :: "rule \<Rightarrow> nat \<Rightarrow> rule \<Rightarrow> nat \<Rightarrow> bool" where
  "beats r k q j \<longleftrightarrow> j < k \<or> (j = k \<and> ru_id r \<le> ru_id q)"

lemma beats_trans: "beats r k q j \<Longrightarrow> beats q j p i \<Longrightarrow> beats r k p i"
  by (auto simp: beats_def)

lemma match_loop_best:
  assumes "match_loop s e best rs = out"
  shows "(out = None \<longrightarrow> best = None \<and> (\<forall>q \<in> set rs. rule_specificity q s e = None))
    \<and> (\<forall>r k. out = Some (r, k) \<longrightarrow>
         (best = out \<or> r \<in> set rs \<and> rule_specificity r s e = Some k)
         \<and> (\<forall>q j. best = Some (q, j) \<longrightarrow> beats r k q j)
         \<and> (\<forall>q \<in> set rs. \<forall>j. rule_specificity q s e = Some j \<longrightarrow> beats r k q j))"
  using assms
proof (induction rs arbitrary: best)
  case Nil
  then show ?case by (auto simp: beats_def)
next
  case (Cons x rs)
  show ?case
  proof (cases "rule_specificity x s e")
    case None
    with Cons.prems have "match_loop s e best rs = out" by simp
    from Cons.IH [OF this] None show ?thesis by auto
  next
    case (Some score)
    define next_best where "next_best = (case best of None \<Rightarrow> Some (x, score) | Some (br, bs) \<Rightarrow>
      if score > bs \<or> (score = bs \<and> ru_id x < ru_id br) then Some (x, score) else best)"
    have step: "match_loop s e next_best rs = out"
      using Cons.prems Some by (auto simp: next_best_def split: option.splits if_splits)
    have nb: "next_best = Some (x, score) \<or> next_best = best \<and> best \<noteq> None"
      by (auto simp: next_best_def split: option.splits)
    have dom: "\<exists>r k. next_best = Some (r, k) \<and> beats r k x score
        \<and> (\<forall>q j. best = Some (q, j) \<longrightarrow> beats r k q j)"
      by (auto simp: next_best_def beats_def split: option.splits)
    from Cons.IH [OF step] nb dom Some show ?thesis by (auto intro: beats_trans)
  qed
qed

lemma match_rule_None: "match_rule rules s e = None \<longleftrightarrow> (\<forall>q \<in> set rules. rule_specificity q s e = None)"
proof (cases "match_loop s e None rules")
  case None
  with match_loop_best [OF refl, of s e None rules] show ?thesis by (simp add: match_rule_def)
next
  case (Some rk)
  then have "fst rk \<in> set rules \<and> rule_specificity (fst rk) s e = Some (snd rk)"
    using match_loop_best [OF refl, of s e None rules] by (cases rk) auto
  with Some show ?thesis by (auto simp: match_rule_def)
qed

lemma match_rule_Some:
  "match_rule rules s e = Some r \<Longrightarrow>
     \<exists>k. r \<in> set rules \<and> rule_specificity r s e = Some k
       \<and> (\<forall>q \<in> set rules. \<forall>j. rule_specificity q s e = Some j \<longrightarrow> beats r k q j)"
  using match_loop_best [OF refl, of s e None rules] by (fastforce simp: match_rule_def)

lemma rule_specificity_sym: "rule_specificity r s e = rule_specificity r e s"
  by (auto simp: rule_specificity_def better_def split: option.splits)

lemma match_loop_sym: "match_loop s e best rules = match_loop e s best rules"
  by (induction rules arbitrary: best) (simp_all add: rule_specificity_sym [of _ s e] split: option.splits)

section \<open>Properties\<close>

definition commute :: rule where
  "commute = \<lparr>ru_id = 2, a_place = Some 10, a_kind = None, b_place = None, b_kind = Some ''work'',
     ru_category = ''business''\<rparr>"

definition from_home :: rule where
  "from_home = \<lparr>ru_id = 1, a_place = None, a_kind = Some ''home'', b_place = None, b_kind = None,
     ru_category = ''personal''\<rparr>"

definition drive_in :: autotag_trip where
  "drive_in = \<lparr>at_id = 5, at_category = ''unclassified'', at_tag_source = None,
     at_start_place = Some (20, ''work''), at_end_place = Some (10, ''home'')\<rparr>"

text \<open>
  The rule chosen is a matching rule of the highest specificity and, among those, of the
  lowest id; none is chosen exactly when no rule matches in either direction.
\<close>

theorem match_rule_correct:
  "(match_rule rules s e = None \<longleftrightarrow> (\<forall>q \<in> set rules. rule_specificity q s e = None))
   \<and> (\<forall>r. match_rule rules s e = Some r \<longrightarrow>
        (\<exists>k. r \<in> set rules \<and> rule_specificity r s e = Some k
          \<and> (\<forall>q \<in> set rules. \<forall>j. rule_specificity q s e = Some j \<longrightarrow>
               j < k \<or> (j = k \<and> ru_id r \<le> ru_id q))))"
  using match_rule_None match_rule_Some unfolding beats_def by blast

theorem match_rule_correct_witness:
  "match_rule [from_home, commute] (Some (20, ''work'')) (Some (10, ''home'')) = Some commute
   \<and> (\<exists>k. rule_specificity commute (Some (20, ''work'')) (Some (10, ''home'')) = Some k)"
proof -
  have m: "match_rule [from_home, commute] (Some (20, ''work'')) (Some (10, ''home'')) = Some commute"
    by code_simp
  from match_rule_correct [of "[from_home, commute]" "Some (20, ''work'')" "Some (10, ''home'')"] m
  show ?thesis by blast
qed

text \<open>
  The choice does not depend on the direction of travel, nor, when ids are distinct, on
  the order the rules are listed in.
\<close>

lemma match_rule_symmetric:
  assumes "mset rules = mset rules'" "distinct (map ru_id rules)"
  shows "match_rule rules s e = match_rule rules' e s"
proof -
  have same: "set rules' = set rules" using assms(1) by (metis set_mset_mset)
  have dir: "match_rule rules' e s = match_rule rules' s e"
    by (simp add: match_rule_def match_loop_sym [of e s])
  show ?thesis
  proof (cases "match_rule rules s e")
    case None
    then have "match_rule rules' s e = None"
      using match_rule_None [of rules s e] match_rule_None [of rules' s e] same by simp
    with None show ?thesis by (simp add: dir)
  next
    case (Some r)
    then have "match_rule rules' s e \<noteq> None"
      using match_rule_None [of rules s e] match_rule_None [of rules' s e] same by auto
    then obtain r' where r': "match_rule rules' s e = Some r'" by blast
    from match_rule_Some [OF Some] match_rule_Some [OF r'] same
    have "r \<in> set rules" "r' \<in> set rules" "ru_id r = ru_id r'"
      by (auto simp: beats_def) (metis order.antisym order.asym linorder_neqE_nat option.inject)
    with assms(2) have "r = r'" by (auto simp: distinct_map inj_on_def)
    with Some r' show ?thesis by (simp add: dir)
  qed
qed

text \<open>The update the runner performs for a result: category and tag source of that trip.\<close>

definition retag :: "rule list \<Rightarrow> autotag_trip \<Rightarrow> autotag_trip" where
  "retag rules t =
     (case autotag_one rules t of None \<Rightarrow> t
      | Some res \<Rightarrow> t\<lparr>at_category := ar_category res, at_tag_source := ar_tag_source res\<rparr>)"

text \<open>
  Human tags are supreme and a plan is stable: no result is ever produced from a trip a
  human tagged, a result only says \<open>rule\<close> or reverts to unclassified, and once the plan is
  carried out planning again yields nothing.
\<close>

theorem autotag_human_supreme:
  "(\<forall>res \<in> set (plan_autotags trips rules).
      \<exists>t \<in> set trips. ar_trip_id res = at_id t \<and> at_tag_source t \<noteq> Some ''human''
        \<and> (ar_tag_source res = Some ''rule'' \<or> ar_tag_source res = None \<and> ar_category res = ''unclassified''))
   \<and> plan_autotags (map (retag rules) trips) rules = []"
proof
  show "\<forall>res \<in> set (plan_autotags trips rules).
      \<exists>t \<in> set trips. ar_trip_id res = at_id t \<and> at_tag_source t \<noteq> Some ''human''
        \<and> (ar_tag_source res = Some ''rule'' \<or> ar_tag_source res = None \<and> ar_category res = ''unclassified'')"
    by (fastforce simp: plan_autotags_def List.map_filter_def autotag_one_def split: if_splits option.splits)
  have "autotag_one rules (retag rules t) = None" for t
    by (auto simp: retag_def autotag_one_def split: option.splits if_splits)
  then show "plan_autotags (map (retag rules) trips) rules = []"
    by (simp add: plan_autotags_def List.map_filter_def filter_empty_conv)
qed

theorem autotag_human_supreme_witness:
  "plan_autotags [drive_in, drive_in\<lparr>at_tag_source := Some ''human''\<rparr>] [from_home, commute]
     = [\<lparr>ar_trip_id = 5, ar_category = ''business'', ar_tag_source = Some ''rule''\<rparr>]
   \<and> plan_autotags (map (retag [from_home, commute]) [drive_in]) [from_home, commute] = []"
proof
  show "plan_autotags [drive_in, drive_in\<lparr>at_tag_source := Some ''human''\<rparr>] [from_home, commute]
     = [\<lparr>ar_trip_id = 5, ar_category = ''business'', ar_tag_source = Some ''rule''\<rparr>]"
    by code_simp
qed (use autotag_human_supreme [of "[drive_in]"] in blast)

end
