(* ===== verification/MergePlan.thy ===== *)
theory MergePlan imports Prelude begin

text \<open>
  \<open>app/merge.py\<close>: the check behind "merge selected". A selection can be merged only when
  it is exactly the detected trips in its span; the result is one suppress range per
  consecutive pair, from the end of the earlier trip to the start of the later.
\<close>

record trip_span =
  sp_id :: int
  sp_started_at :: instant
  sp_ended_at :: instant

definition plan_merge_selected ::
  "trip_span list \<Rightarrow> trip_span list \<Rightarrow> (instant \<times> instant) list result" where
  "plan_merge_selected selected in_range =
     (if length selected < 2 then Inl (ValueError ''Select at least two trips to merge'')
      else if sp_id ` set selected \<noteq> sp_id ` set in_range
      then Inl (ValueError ''Selected trips must be a contiguous run with no other trip between them'')
      else let ordered = sort_key sp_started_at selected
           in Inr (map (\<lambda>(a, b). (sp_ended_at a, sp_started_at b)) (pairs ordered)))"

definition sp_a :: trip_span where "sp_a = \<lparr>sp_id = 1, sp_started_at = 0, sp_ended_at = 10\<rparr>"
definition sp_b :: trip_span where "sp_b = \<lparr>sp_id = 2, sp_started_at = 20, sp_ended_at = 30\<rparr>"
definition sp_c :: trip_span where "sp_c = \<lparr>sp_id = 3, sp_started_at = 40, sp_ended_at = 50\<rparr>"

text \<open>
  A merge plan is refused exactly for fewer than two trips or a selection whose ids are
  not those in range; otherwise it has one range fewer than trips, and for trips that do
  not overlap the ranges are well formed (start no later than end), in order, and every
  gap between two selected trips that are neighbours in time is one of them.
\<close>

theorem plan_merge_correct:
  assumes "\<And>x y. x \<in> set selected \<Longrightarrow> y \<in> set selected \<Longrightarrow> sp_started_at x < sp_started_at y \<Longrightarrow>
    sp_ended_at x \<le> sp_started_at y"
    and "\<And>x. x \<in> set selected \<Longrightarrow> sp_started_at x \<le> sp_ended_at x"
    and "distinct (map sp_started_at selected)"
  shows "((\<exists>msg. plan_merge_selected selected in_range = Inl (ValueError msg))
      \<longleftrightarrow> length selected < 2 \<or> sp_id ` set selected \<noteq> sp_id ` set in_range)
    \<and> (\<forall>rs. plan_merge_selected selected in_range = Inr rs \<longrightarrow>
         Suc (length rs) = length selected \<and> (\<forall>(a, b) \<in> set rs. a \<le> b)
         \<and> sorted_wrt (\<lambda>(a, b) (c, d). b \<le> c) rs
         \<and> (\<forall>x \<in> set selected. \<forall>y \<in> set selected. sp_started_at x < sp_started_at y
              \<and> \<not> (\<exists>z \<in> set selected. sp_started_at x < sp_started_at z \<and> sp_started_at z < sp_started_at y)
              \<longrightarrow> (sp_ended_at x, sp_started_at y) \<in> set rs))"
proof (intro conjI allI impI)
  show "(\<exists>msg. plan_merge_selected selected in_range = Inl (ValueError msg))
      \<longleftrightarrow> length selected < 2 \<or> sp_id ` set selected \<noteq> sp_id ` set in_range"
    by (auto simp: plan_merge_selected_def Let_def)
next
  fix rs
  assume r: "plan_merge_selected selected in_range = Inr rs"
  let ?o = "sort_key sp_started_at selected"
  have two: "2 \<le> length selected" and rs: "rs = map (\<lambda>(a, b). (sp_ended_at a, sp_started_at b)) (pairs ?o)"
    using r by (auto simp: plan_merge_selected_def Let_def split: if_splits)
  have "distinct (map sp_started_at ?o)"
    using assms(3) by (simp add: distinct_map)
  then have "sorted_wrt (<) (map sp_started_at ?o)"
    by (simp add: strict_sorted_iff)
  then have lt: "sp_started_at (?o ! i) < sp_started_at (?o ! j)" if "i < j" "j < length ?o" for i j
    using that by (simp add: sorted_wrt_iff_nth_less)
  have mem: "?o ! i \<in> set selected" if "i < length ?o" for i
    using nth_mem [OF that] by simp
  have nth: "rs ! i = (sp_ended_at (?o ! i), sp_started_at (?o ! Suc i))" if "i < length rs" for i
    using that by (simp add: rs nth_pairs)
  show "Suc (length rs) = length selected" using two by (simp add: rs)
  show "\<forall>(a, b) \<in> set rs. a \<le> b"
  proof -
    have "fst (rs ! i) \<le> snd (rs ! i)" if "i < length rs" for i
      using that nth [OF that] lt [of i "Suc i"] assms(1) [OF mem mem] by (simp add: rs)
    then show ?thesis by (auto simp: in_set_conv_nth) (metis fst_conv snd_conv)
  qed
  show "sorted_wrt (\<lambda>(a, b) (c, d). b \<le> c) rs"
    unfolding sorted_wrt_iff_nth_less
  proof (intro allI impI)
    fix i j
    assume ij: "i < j" "j < length rs"
    have jl: "j < length ?o" using ij by (simp add: rs)
    have "Suc i = j \<or> Suc i < j" using ij by linarith
    then have "sp_started_at (?o ! Suc i) \<le> sp_started_at (?o ! j)"
      by (rule disjE) (use lt [of "Suc i" j] jl in \<open>simp_all add: less_imp_le\<close>)
    also have "\<dots> \<le> sp_ended_at (?o ! j)" by (rule assms(2)) (rule mem [OF jl])
    finally show "(case rs ! i of (a, b) \<Rightarrow> \<lambda>(c, d). b \<le> c) (rs ! j)" using ij by (simp add: nth)
  qed
  show "\<forall>x \<in> set selected. \<forall>y \<in> set selected. sp_started_at x < sp_started_at y
      \<and> \<not> (\<exists>z \<in> set selected. sp_started_at x < sp_started_at z \<and> sp_started_at z < sp_started_at y)
      \<longrightarrow> (sp_ended_at x, sp_started_at y) \<in> set rs"
  proof (intro ballI impI)
    fix x y
    assume xy: "x \<in> set selected" "y \<in> set selected"
      and gap: "sp_started_at x < sp_started_at y \<and> \<not> (\<exists>z \<in> set selected.
        sp_started_at x < sp_started_at z \<and> sp_started_at z < sp_started_at y)"
    obtain i j where i: "i < length ?o" "?o ! i = x" and j: "j < length ?o" "?o ! j = y"
      using xy by (metis in_set_conv_nth set_sort)
    have "i < j" using gap i j lt [of j i] by (cases "i = j") (auto intro: ccontr)
    moreover have "\<not> Suc i < j"
      using gap i j lt [of i "Suc i"] lt [of "Suc i" j] mem [of "Suc i"] by auto
    ultimately have "j = Suc i" by simp
    with i j have "(x, y) \<in> set (pairs ?o)" by (auto simp: pairs_mem_nth)
    then show "(sp_ended_at x, sp_started_at y) \<in> set rs" by (force simp: rs)
  qed
qed

theorem plan_merge_correct_witness:
  "plan_merge_selected [sp_c, sp_a, sp_b] [sp_a, sp_b, sp_c] = Inr [(10, 20), (30, 40)]
   \<and> (\<exists>msg. plan_merge_selected [sp_a, sp_c] [sp_a, sp_b, sp_c] = Inl (ValueError msg))"
proof
  show "plan_merge_selected [sp_c, sp_a, sp_b] [sp_a, sp_b, sp_c] = Inr [(10, 20), (30, 40)]"
    by code_simp
  have "(\<exists>msg. plan_merge_selected [sp_a, sp_c] [sp_a, sp_b, sp_c] = Inl (ValueError msg))
      \<longleftrightarrow> length [sp_a, sp_c] < 2 \<or> sp_id ` set [sp_a, sp_c] \<noteq> sp_id ` set [sp_a, sp_b, sp_c]"
    by (rule plan_merge_correct [THEN conjunct1]) (auto simp: sp_a_def sp_c_def)
  moreover have "sp_id sp_b \<notin> sp_id ` set [sp_a, sp_c]" by (simp add: sp_a_def sp_b_def sp_c_def)
  ultimately show "\<exists>msg. plan_merge_selected [sp_a, sp_c] [sp_a, sp_b, sp_c] = Inl (ValueError msg)"
    by auto
qed

end
