(* ===== verification/PyData.thy ===== *)
theory PyData imports Prelude "HOL-Library.AList" "HOL-Library.List_Lexorder" "HOL-Library.Char_ord" begin

text \<open>
  Python's containers and text as the components use them: a \<open>dict\<close> as an association list
  in insertion order, the idiom \<open>d[k] = d.get(k, 0.0) + x\<close> with the laws of the totals it
  keeps (locale \<open>tally\<close>), decimal rendering of integers, \<open>strip\<close>, \<open>casefold\<close> and \<open>repr\<close>.
  Strings are lists of 8-bit characters; casefolding and whitespace are those of ASCII.
\<close>

section \<open>Dictionaries\<close>

type_synonym ('k, 'v) dict = "('k \<times> 'v) list"

text \<open>\<open>d.get(k, default)\<close>, \<open>d.keys()\<close> and \<open>d[k] = v\<close>.\<close>

definition dget :: "('k, 'v) dict \<Rightarrow> 'k \<Rightarrow> 'v \<Rightarrow> 'v" where
  "dget d k dflt = (case map_of d k of None \<Rightarrow> dflt | Some v \<Rightarrow> v)"

abbreviation keys :: "('k, 'v) dict \<Rightarrow> 'k list" where
  "keys d \<equiv> map fst d"

abbreviation dset :: "('k, 'v) dict \<Rightarrow> 'k \<Rightarrow> 'v \<Rightarrow> ('k, 'v) dict" where
  "dset d k v \<equiv> AList.update k v d"

definition wf_dict :: "('k, 'v) dict \<Rightarrow> bool" where
  "wf_dict d \<longleftrightarrow> distinct (keys d)"

text \<open>\<open>d[k] = d.get(k, 0) + x\<close>.\<close>

definition dadd :: "('k, 'v::monoid_add) dict \<Rightarrow> 'k \<Rightarrow> 'v \<Rightarrow> ('k, 'v) dict" where
  "dadd d k x = dset d k (dget d k 0 + x)"

definition dtotal :: "('k, 'v::monoid_add) dict \<Rightarrow> 'v" where
  "dtotal d = sum_list (map snd d)"

lemma wf_dict_simps [simp]: "wf_dict []" "wf_dict (dset d k v) = wf_dict d"
  by (auto simp: wf_dict_def distinct_update update_keys split: if_splits)

lemma dget_simps [simp]:
  "dget [] k v0 = v0" "dget (dset d k v) l v0 = (if l = k then v else dget d l v0)"
  by (simp_all add: dget_def update_conv')

lemma dget_mem: "wf_dict d \<Longrightarrow> (k, v) \<in> set d \<Longrightarrow> dget d k v0 = v"
  by (simp add: dget_def wf_dict_def)

lemma set_keys_dset [simp]: "fst ` set (dset d k v) = insert k (fst ` set d)"
  by (induction d) auto

lemma dget_notin: "k \<notin> set (keys d) \<Longrightarrow> dget d k v0 = v0"
  by (simp add: dget_def map_of_eq_None_iff [THEN iffD2] split: option.splits)

lemma wf_dadd [simp]: "wf_dict (dadd d k x) = wf_dict d"
  by (simp add: dadd_def)

lemma keys_dadd [simp]: "fst ` set (dadd d k x) = insert k (fst ` set d)"
  by (simp add: dadd_def)

lemma dget_dadd: "dget (dadd d k x) l 0 = (if l = k then dget d k 0 + x else dget d l 0)"
  by (simp add: dadd_def)

text \<open>\<open>sum(v * c(k) for k, v in d.items())\<close>.\<close>

definition wtotal :: "('k \<Rightarrow> real) \<Rightarrow> ('k, real) dict \<Rightarrow> real" where
  "wtotal c d = sum_list (map (\<lambda>(k, v). v * c k) d)"

lemma wtotal_dset: "wf_dict d \<Longrightarrow> wtotal c (dset d k v) = wtotal c d - dget d k 0 * c k + v * c k"
proof (induction d)
  case (Cons p d)
  obtain l w where p: "p = (l, w)" by fastforce
  have wf: "wf_dict d" "l \<notin> fst ` set d" using Cons.prems by (auto simp: wf_dict_def p)
  with Cons.IH show ?case by (cases "l = k") (simp_all add: p wtotal_def dget_def)
qed (simp add: wtotal_def)

lemma wtotal_dadd: "wf_dict d \<Longrightarrow> wtotal c (dadd d k x) = wtotal c d + x * c k"
  by (simp add: dadd_def wtotal_dset algebra_simps)

lemma dtotal_wtotal: "dtotal d = wtotal (\<lambda>_. 1) d"
  by (induction d) (auto simp: dtotal_def wtotal_def)

text \<open>
  A tally: buckets that a loop adds amounts to, and a total of them weighted by bucket.
  Whatever the buckets are, after a loop over any list each bucket holds the sum of the
  amounts sent to it, and the total is the weighted sum of all amounts; nothing is lost
  between buckets.
\<close>

locale tally =
  fixes empty_t :: 't and add :: "'t \<Rightarrow> 'k \<Rightarrow> real \<Rightarrow> 't" and bucket :: "'t \<Rightarrow> 'k \<Rightarrow> real"
    and total_of :: "'t \<Rightarrow> real" and ok :: "'t \<Rightarrow> bool" and weight :: "'k \<Rightarrow> real"
  assumes ok_empty: "ok empty_t" and ok_add: "ok t \<Longrightarrow> ok (add t k x)"
    and bucket_empty: "bucket empty_t k = 0"
    and bucket_add: "ok t \<Longrightarrow> bucket (add t k x) l = bucket t l + (if l = k then x else 0)"
    and total_empty: "total_of empty_t = 0"
    and total_add: "ok t \<Longrightarrow> total_of (add t k x) = total_of t + x * weight k"
begin

lemma fold_ok: "ok t \<Longrightarrow> ok (fold (\<lambda>i t. add t (key i) (amt i)) xs t)"
  by (induction xs arbitrary: t) (auto simp: ok_add)

lemma fold_bucket:
  "ok t \<Longrightarrow> bucket (fold (\<lambda>i t. add t (key i) (amt i)) xs t) k
     = bucket t k + sum_list (map amt (filter (\<lambda>i. key i = k) xs))"
  by (induction xs arbitrary: t) (auto simp: bucket_add ok_add)

lemma fold_total:
  "ok t \<Longrightarrow> total_of (fold (\<lambda>i t. add t (key i) (amt i)) xs t)
     = total_of t + sum_list (map (\<lambda>i. amt i * weight (key i)) xs)"
  by (induction xs arbitrary: t) (auto simp: total_add ok_add)

lemma fold_from_empty:
  "total_of (fold (\<lambda>i t. add t (key i) (amt i)) xs empty_t) = sum_list (map (\<lambda>i. amt i * weight (key i)) xs)"
  "bucket (fold (\<lambda>i t. add t (key i) (amt i)) xs empty_t) k = sum_list (map amt (filter (\<lambda>i. key i = k) xs))"
  "ok (fold (\<lambda>i t. add t (key i) (amt i)) xs empty_t)"
  by (simp_all add: fold_total fold_bucket fold_ok ok_empty total_empty bucket_empty)

end

interpretation dt: tally "[]" dadd "\<lambda>d k. dget d k 0" "wtotal c" wf_dict c for c
  by unfold_locales (auto simp: dget_dadd wtotal_dadd, simp add: wtotal_def)

lemma fold_dadd_keys:
  "fst ` set (fold (\<lambda>i d. dadd d (key i) (amt i)) xs d) = fst ` set d \<union> key ` set xs"
  by (induction xs arbitrary: d) auto

text \<open>Summing over any list of distinct keys that holds all keys of the dictionary.\<close>

lemma sum_over_keys:
  fixes g :: "'v \<Rightarrow> real"
  assumes "wf_dict d" "distinct ks" "fst ` set d \<subseteq> set ks" "g v0 = 0"
  shows "sum_list (map (\<lambda>k. g (dget d k v0)) ks) = sum_list (map (\<lambda>(k, v). g v) d)"
proof -
  have "sum_list (map (\<lambda>k. g (dget d k v0)) ks) = (\<Sum>k \<in> set ks. g (dget d k v0))"
    using assms(2) by (simp add: sum_list_distinct_conv_sum_set)
  also have "\<dots> = (\<Sum>k \<in> fst ` set d. g (dget d k v0))"
  proof (rule sum.mono_neutral_right)
    show "\<forall>k \<in> set ks - fst ` set d. g (dget d k v0) = 0"
      using assms(4) by (auto simp: dget_notin)
  qed (use assms(3) in auto)
  also have "\<dots> = sum_list (map (\<lambda>k. g (dget d k v0)) (keys d))"
    using assms(1) by (simp add: wf_dict_def sum_list_distinct_conv_sum_set del: map_map)
  also have "map (\<lambda>k. g (dget d k v0)) (keys d) = map (\<lambda>(k, v). g v) d"
    using dget_mem [OF assms(1)] by auto
  finally show ?thesis .
qed

section \<open>Text\<close>

function dec_pos :: "int \<Rightarrow> string" where
  "dec_pos n = (if n < 10 then [char_of (48 + n)] else dec_pos (n div 10) @ [char_of (48 + n mod 10)])"
  by pat_completeness auto
termination by (relation "measure nat") auto

declare dec_pos.simps [simp del]

text \<open>\<open>str(i)\<close>.\<close>

definition dec_int :: "int \<Rightarrow> string" where
  "dec_int i = (if i < 0 then CHR ''-'' # dec_pos (- i) else dec_pos i)"

definition dec_nat :: "nat \<Rightarrow> string" where
  "dec_nat n = dec_pos (int n)"

text \<open>\<open>f"{n:0wd}"\<close> for \<open>0 \<le> n\<close>.\<close>

definition zfill :: "nat \<Rightarrow> int \<Rightarrow> string" where
  "zfill w n = (let s = dec_int n in replicate (w - length s) (CHR ''0'') @ s)"

definition is_space :: "char \<Rightarrow> bool" where
  "is_space c \<longleftrightarrow> c = CHR 0x20 \<or> c \<in> {CHR 0x09, CHR 0x0A, CHR 0x0B, CHR 0x0C, CHR 0x0D, CHR 0x1C, CHR 0x1D, CHR 0x1E, CHR 0x1F}"

definition strip :: "string \<Rightarrow> string" where
  "strip s = rev (dropWhile is_space (rev (dropWhile is_space s)))"

definition fold_char :: "char \<Rightarrow> char" where
  "fold_char c = (if CHR ''A'' \<le> c \<and> c \<le> CHR ''Z'' then char_of (of_char c + (32::nat)) else c)"

definition casefold :: "string \<Rightarrow> string" where
  "casefold s = map fold_char s"

text \<open>\<open>repr\<close> of a printable string.\<close>

definition py_repr :: "string \<Rightarrow> string" where
  "py_repr s =
     (let q = (if CHR 0x27 \<in> set s \<and> CHR 0x22 \<notin> set s then CHR 0x22 else CHR 0x27)
      in q # concat (map (\<lambda>c. if c = q \<or> c = CHR 0x5C then [CHR 0x5C, c] else [c]) s) @ [q])"

text \<open>\<open>round\<close> to an integer and \<open>f"{x:.kf}"\<close>: ties go to the even digit.\<close>

definition round_half_even :: "real \<Rightarrow> int" where
  "round_half_even x =
     (let f = \<lfloor>x\<rfloor>; r = x - of_int f
      in if r < 1 / 2 then f else if r > 1 / 2 then f + 1 else if even f then f else f + 1)"

definition fixed :: "nat \<Rightarrow> real \<Rightarrow> string" where
  "fixed k x =
     (let n = round_half_even (\<bar>x\<bar> * 10 ^ k)
      in (if x < 0 then ''-'' else []) @ dec_int (n div 10 ^ k)
         @ (if k = 0 then [] else ''.'' @ zfill k (n mod 10 ^ k)))"

text \<open>\<open>s or default\<close> for an optional string.\<close>

definition or_str :: "string option \<Rightarrow> string \<Rightarrow> string" where
  "or_str s dflt = (case s of None \<Rightarrow> dflt | Some t \<Rightarrow> if t = [] then dflt else t)"

text \<open>\<open>', '.join(xs)\<close>.\<close>

fun join :: "string \<Rightarrow> string list \<Rightarrow> string" where
  "join sep [] = []"
| "join sep [s] = s"
| "join sep (s # t # ts) = s @ sep @ join sep (t # ts)"

lemma dec_nat_ne [simp]: "dec_nat n \<noteq> []"
  by (subst dec_nat_def, subst dec_pos.simps) simp

end
