(* ===== verification/Calendar.thy ===== *)
theory Calendar imports PyData begin

text \<open>
  Calendar dates as \<open>(year, month, day)\<close>, ordered lexicographically as Python orders them,
  with the range names and presets of \<open>app/report.py\<close> (\<open>quarter_bounds\<close>, \<open>range_label\<close>,
  \<open>range_filename_slug\<close>, \<open>validate_range_dates\<close>) and the quarter boundary of
  \<open>app/odometer.py\<close>. Turning an instant into a local date needs the timezone database
  and is a parameter wherever it is used.
\<close>

type_synonym date = "int \<times> int \<times> int"

abbreviation year_of :: "date \<Rightarrow> int" where "year_of \<equiv> fst"
abbreviation month_of :: "date \<Rightarrow> int" where "month_of d \<equiv> fst (snd d)"
abbreviation day_of :: "date \<Rightarrow> int" where "day_of d \<equiv> snd (snd d)"

definition leap :: "int \<Rightarrow> bool" where
  "leap y \<longleftrightarrow> y mod 4 = 0 \<and> (y mod 100 \<noteq> 0 \<or> y mod 400 = 0)"

text \<open>\<open>calendar.monthrange(y, m)[1]\<close>.\<close>

definition month_days :: "int \<Rightarrow> int \<Rightarrow> int" where
  "month_days y m = (if m = 2 then (if leap y then 29 else 28) else if m \<in> {4, 6, 9, 11} then 30 else 31)"

definition valid_date :: "date \<Rightarrow> bool" where
  "valid_date d \<longleftrightarrow> 1 \<le> year_of d \<and> year_of d \<le> 9999 \<and> 1 \<le> month_of d \<and> month_of d \<le> 12
     \<and> 1 \<le> day_of d \<and> day_of d \<le> month_days (year_of d) (month_of d)"

lemma month_days_bounds: "28 \<le> month_days y m" "month_days y m \<le> 31"
  by (auto simp: month_days_def)

text \<open>\<open>date.isoformat()\<close>.\<close>

definition isoformat :: "date \<Rightarrow> string" where
  "isoformat d = zfill 4 (year_of d) @ ''-'' @ zfill 2 (month_of d) @ ''-'' @ zfill 2 (day_of d)"

definition quarter_bounds :: "int \<Rightarrow> int \<Rightarrow> (date \<times> date) result" where
  "quarter_bounds year q =
     (if q \<notin> {1, 2, 3, 4} then Inl (ValueError (''quarter must be 1-4, got '' @ dec_int q))
      else let first_month = (q - 1) * 3 + 1; last_month = first_month + 2
           in Inr ((year, first_month, 1), (year, last_month, month_days year last_month)))"

definition range_label :: "date \<Rightarrow> date \<Rightarrow> string" where
  "range_label start fin =
     (let span = isoformat start @ '' - '' @ isoformat fin
      in if year_of start = year_of fin
         then (case List.find (\<lambda>q. quarter_bounds (year_of start) q = Inr (start, fin)) [1, 2, 3, 4] of
                 Some q \<Rightarrow> dec_int (year_of start) @ '' Q'' @ dec_int q
               | None \<Rightarrow>
                   if (start, fin) = ((year_of start, 1, 1), (year_of start, 12, 31))
                   then dec_int (year_of start) @ '' annual'' else span)
         else span)"

text \<open>\<open>str.replace\<close> of a non-empty pattern.\<close>

function replace_all :: "string \<Rightarrow> string \<Rightarrow> string \<Rightarrow> string" where
  "replace_all old new s =
     (if old = [] \<or> s = [] then s
      else if take (length old) s = old then new @ replace_all old new (drop (length old) s)
      else hd s # replace_all old new (tl s))"
  by pat_completeness auto
termination
  by (relation "measure (\<lambda>(_, _, s). length s)") (auto simp: length_greater_0_conv [symmetric] simp del: length_greater_0_conv)

declare replace_all.simps [simp del]

definition range_filename_slug :: "date \<Rightarrow> date \<Rightarrow> string" where
  "range_filename_slug start fin = replace_all '' '' ''-'' (replace_all '' - '' ''_'' (range_label start fin))"

definition validate_range_dates :: "date \<Rightarrow> date \<Rightarrow> unit result" where
  "validate_range_dates start fin =
     (if start > fin
      then Inl (ValueError (''start date '' @ isoformat start @ '' is after end date '' @ isoformat fin))
      else if year_of start \<noteq> year_of fin
      then Inl (ValueError (''date range '' @ isoformat start @ ''..'' @ isoformat fin
                              @ '' crosses a calendar year boundary''))
      else Inr ())"

text \<open>The display year of the report page; \<open>now\<close> is the local date.\<close>

definition default_report_year :: "date \<Rightarrow> int" where
  "default_report_year now = (if month_of now \<le> 4 then year_of now - 1 else year_of now)"

definition next_year_disabled :: "int \<Rightarrow> date \<Rightarrow> bool" where
  "next_year_disabled report_year now \<longleftrightarrow> report_year \<ge> year_of now"

section \<open>Facts\<close>

lemma validate_range_dates_Inr:
  "validate_range_dates start fin = Inr u \<longleftrightarrow> start \<le> fin \<and> year_of start = year_of fin"
  by (auto simp: validate_range_dates_def not_less [symmetric] simp del: not_less)

lemma same_year_months: "(start :: date) \<le> d \<Longrightarrow> d \<le> fin \<Longrightarrow> year_of start = year_of fin \<Longrightarrow>
   year_of d = year_of start \<and> month_of start \<le> month_of d \<and> month_of d \<le> month_of fin"
  by (auto simp: less_eq_prod_def)

lemma quarter_bounds_Inr:
  "quarter_bounds y q = Inr (a, b) \<longleftrightarrow>
     q \<in> {1, 2, 3, 4} \<and> a = (y, 3 * q - 2, 1) \<and> b = (y, 3 * q, month_days y (3 * q))"
  by (auto simp: quarter_bounds_def Let_def)

text \<open>The four quarters of a year: every date of the year lies in exactly one.\<close>

lemma quarter_unique:
  assumes "valid_date d"
  shows "\<exists>!q. \<exists>a b. quarter_bounds (year_of d) q = Inr (a, b) \<and> a \<le> d \<and> d \<le> b"
proof -
  obtain y m e where d: "d = (y, m, e)" by (cases d) auto
  have m: "1 \<le> m" "m \<le> 12" "1 \<le> e" "e \<le> month_days y m" using assms by (auto simp: valid_date_def d)
  have iff: "(\<exists>a b. quarter_bounds y q = Inr (a, b) \<and> a \<le> d \<and> d \<le> b)
      \<longleftrightarrow> q \<in> {1, 2, 3, 4} \<and> 3 * q - 2 \<le> m \<and> m \<le> 3 * q" for q
    using m by (auto simp: quarter_bounds_Inr d less_eq_prod_def)
  have "\<exists>!q. q \<in> {1, 2, 3, 4} \<and> 3 * q - 2 \<le> m \<and> m \<le> 3 * q"
  proof (rule ex1I [of _ "(m + 2) div 3"])
    have "(m + 2) div 3 \<in> {1..4}" "3 * ((m + 2) div 3) - 2 \<le> m" "m \<le> 3 * ((m + 2) div 3)"
      using m by simp_all presburger+
    then show "(m + 2) div 3 \<in> {1, 2, 3, 4} \<and> 3 * ((m + 2) div 3) - 2 \<le> m \<and> m \<le> 3 * ((m + 2) div 3)"
      by auto
  next
    fix q assume "q \<in> {1, 2, 3, 4} \<and> 3 * q - 2 \<le> m \<and> m \<le> 3 * q"
    then have "3 * q - 2 \<le> m" "m \<le> 3 * q" by simp_all
    then show "q = (m + 2) div 3" by linarith
  qed
  then show ?thesis unfolding iff [symmetric] by (simp only: d fst_conv)
qed

end
