(* ===== verification/Rates.thy ===== *)
theory Rates imports Calendar begin

text \<open>
  \<open>app/rates.py\<close>: the mileage rate in force for a year and month, and the deduction of a
  distance. The rates are a dictionary by year.
\<close>

record year_rate =
  rate_per_mi :: real
  rate_h2_per_mi :: "real option"
  h2_start_month :: "int option"

definition METERS_PER_MILE :: real where "METERS_PER_MILE = 1609.344"

definition rate_in_month :: "year_rate \<Rightarrow> int \<Rightarrow> real" where
  "rate_in_month yr month =
     (case (rate_h2_per_mi yr, h2_start_month yr) of
        (Some h2, Some m) \<Rightarrow> if month \<ge> m then h2 else rate_per_mi yr
      | _ \<Rightarrow> rate_per_mi yr)"

type_synonym rates = "(int, year_rate) dict"

definition rate_for :: "rates \<Rightarrow> int \<Rightarrow> int \<Rightarrow> real option" where
  "rate_for rates year month =
     (case map_of rates year of
        Some yr \<Rightarrow> Some (rate_in_month yr month)
      | None \<Rightarrow>
          let earlier = filter (\<lambda>y. y < year) (keys rates)
          in if earlier = [] then None
             else map_option (\<lambda>yr. rate_in_month yr 12) (map_of rates (Max (set earlier))))"

definition deduction :: "real \<Rightarrow> int \<Rightarrow> rates \<Rightarrow> int \<Rightarrow> real option" where
  "deduction distance_m year rates month =
     (case rate_for rates year month of None \<Rightarrow> None
      | Some r \<Rightarrow> Some (distance_m / METERS_PER_MILE * r))"

lemma rate_for_None_iff:
  "rate_for rates year month = None \<longleftrightarrow> (\<forall>y \<in> set (keys rates). year < y)"
proof (cases "map_of rates year")
  case (Some yr)
  then have "year \<in> set (keys rates)" by (force dest: map_of_SomeD)
  with Some show ?thesis by (auto simp: rate_for_def)
next
  case None
  then have ny: "year \<notin> set (keys rates)" by (simp add: map_of_eq_None_iff)
  let ?e = "filter (\<lambda>y. y < year) (keys rates)"
  show ?thesis
  proof (cases "?e = []")
    case True
    then have "\<forall>y \<in> set (keys rates). \<not> y < year" by (simp only: filter_empty_conv simp_thms)
    with ny have "\<forall>y \<in> set (keys rates). year < y" by (metis linorder_neqE)
    with True None show ?thesis by (simp add: rate_for_def)
  next
    case False
    then have "Max (set ?e) \<in> set ?e" by (intro Max_in) (simp_all del: set_filter)
    then have mx: "Max (set ?e) \<in> set (keys rates)" "Max (set ?e) < year" by auto
    then obtain yr where yr: "map_of rates (Max (set ?e)) = Some yr"
      by (cases "map_of rates (Max (set ?e))") (simp_all add: map_of_eq_None_iff del: set_filter)
    have "rate_for rates year month \<noteq> None"
      using False None yr by (simp add: rate_for_def del: set_filter)
    moreover have "\<not> (\<forall>y \<in> set (keys rates). year < y)" using mx by force
    ultimately show ?thesis by blast
  qed
qed

lemma rate_for_uniform: "rate_for rates year m = None \<longleftrightarrow> rate_for rates year m' = None"
  by (simp only: rate_for_None_iff)

lemma deduction_None_iff: "deduction d year rates m = None \<longleftrightarrow> rate_for rates year 1 = None"
  using rate_for_uniform [of rates year m 1] by (cases "rate_for rates year m") (simp_all add: deduction_def)

lemma deduction_Some: "rate_for rates year m = Some r \<Longrightarrow> deduction d year rates m = Some (d / METERS_PER_MILE * r)"
  by (simp add: deduction_def)

text \<open>The properties of one lookup: a published year is priced by its own half, any other by
  the end of the latest published year before it.\<close>

definition flat_rate :: year_rate where
  "flat_rate = \<lparr>rate_per_mi = 0.575, rate_h2_per_mi = None, h2_start_month = None\<rparr>"

definition split_rate :: year_rate where
  "split_rate = \<lparr>rate_per_mi = 0.585, rate_h2_per_mi = Some 0.625, h2_start_month = Some 7\<rparr>"

text \<open>
  The rate of a year and month is the published one of that year (its second-half rate
  from the month it starts), else the December rate of the latest earlier published year,
  else none; a lookup fails for every month of a year or for none, and a year published
  later never changes the rate of an earlier one.
\<close>

theorem rate_for_correct:
  assumes "wf_dict rates"
  shows "(\<forall>yr. (year, yr) \<in> set rates \<longrightarrow> rate_for rates year month = Some (rate_in_month yr month))
    \<and> (\<forall>y yr. (y, yr) \<in> set rates \<and> y < year \<and> (\<forall>z \<in> set (keys rates). z \<le> y \<or> year < z) \<longrightarrow>
         rate_for rates year month = Some (rate_in_month yr 12))
    \<and> (rate_for rates year month = None \<longleftrightarrow> (\<forall>y \<in> set (keys rates). year < y))
    \<and> (\<forall>later yr. year < later \<longrightarrow> rate_for (dset rates later yr) year month = rate_for rates year month)"
proof (intro conjI allI impI)
  fix yr
  assume "(year, yr) \<in> set rates"
  then have "map_of rates year = Some yr" using assms by (simp add: wf_dict_def)
  then show "rate_for rates year month = Some (rate_in_month yr month)" by (simp add: rate_for_def)
next
  fix y yr
  assume a: "(y, yr) \<in> set rates \<and> y < year \<and> (\<forall>z \<in> set (keys rates). z \<le> y \<or> year < z)"
  then have y: "y \<in> set (keys rates)" by force
  have none: "map_of rates year = None" using a by (force simp: map_of_eq_None_iff)
  have "Max (set (filter (\<lambda>y. y < year) (keys rates))) = y"
    by (rule Max_eqI) (use a y in auto)
  moreover have "filter (\<lambda>y. y < year) (keys rates) \<noteq> []" using a y by (auto simp: filter_empty_conv)
  moreover have "map_of rates y = Some yr" using assms a by (simp add: wf_dict_def)
  ultimately show "rate_for rates year month = Some (rate_in_month yr 12)"
    using none by (simp add: rate_for_def Let_def)
next
  show "rate_for rates year month = None \<longleftrightarrow> (\<forall>y \<in> set (keys rates). year < y)"
    by (rule rate_for_None_iff)
next
  fix later yr
  assume l: "year < later"
  let ?P = "\<lambda>y. y < year"
  have f: "filter ?P (keys (dset rates later yr)) = filter ?P (keys rates)"
    using l by (simp add: update_keys)
  have nm: "Max (set (filter ?P (keys rates))) \<noteq> later" if "filter ?P (keys rates) \<noteq> []"
  proof -
    have "Max (set (filter ?P (keys rates))) \<in> set (filter ?P (keys rates))"
      using that by (intro Max_in) (simp_all del: set_filter)
    then show ?thesis using l by auto
  qed
  show "rate_for (dset rates later yr) year month = rate_for rates year month"
    using l nm by (simp add: rate_for_def f update_conv' Let_def split: option.split del: set_filter)
qed

theorem rate_for_correct_witness:
  "rate_for [(2021, flat_rate), (2022, split_rate)] 2023 1 = Some 0.625
   \<and> rate_for [(2021, flat_rate), (2022, split_rate)] 2022 6 = Some 0.585
   \<and> rate_for [(2021, flat_rate), (2022, split_rate)] 2020 5 = None"
proof (intro conjI)
  show "rate_for [(2021, flat_rate), (2022, split_rate)] 2022 6 = Some 0.585"
    using rate_for_correct [of "[(2021, flat_rate), (2022, split_rate)]" 2022 6]
    by (simp add: wf_dict_def split_rate_def rate_in_month_def)
qed code_simp+

end
