(* ===== verification/ReportTypes.thy ===== *)
theory ReportTypes imports Rates begin

text \<open>
  The data and the fold of \<open>app/report.py\<close>. A trip row is a record of the columns the report
  reads; the local date of an instant (\<open>astimezone(tz)\<close>) is the parameter \<open>loc\<close>. A vehicle is
  identified by its database id, or by its name for rows that carry no \<open>vehicle_id\<close> key. The
  dictionaries the loop fills are tallies (see \<^verbatim>\<open>PyData\<close>), also the nested one by vehicle
  and month.
\<close>

record report_trip =
  rt_started_at :: instant
  rt_exclusion :: "string option"
  rt_category :: string
  rt_distance_m :: real
  rt_vehicle_name :: "string option"
  rt_vehicle_id :: "int option option"
  rt_purpose :: "string option"
  rt_has_gap :: bool
  rt_snap_status :: "string option"
  rt_source :: "string option"

datatype vehicle_key = DbVehicle "int option" | LegacyName string

definition NO_VEHICLE_LABEL :: string where "NO_VEHICLE_LABEL = ''(no vehicle)''"

definition vehicle_name_of :: "report_trip \<Rightarrow> string" where
  "vehicle_name_of t = or_str (rt_vehicle_name t) NO_VEHICLE_LABEL"

definition vehicle_key_of :: "report_trip \<Rightarrow> vehicle_key" where
  "vehicle_key_of t =
     (case rt_vehicle_id t of Some v \<Rightarrow> DbVehicle v | None \<Rightarrow> LegacyName (vehicle_name_of t))"

text \<open>\<open>str(key)\<close>.\<close>

fun str_key :: "vehicle_key \<Rightarrow> string" where
  "str_key (DbVehicle None) = ''None''"
| "str_key (DbVehicle (Some i)) = dec_int i"
| "str_key (LegacyName n) = ''('' @ py_repr ''legacy'' @ '', '' @ py_repr n @ '')''"

record month_line =
  ml_month :: int
  ml_trip_count :: nat
  ml_business_m :: real
  ml_rate_per_mi :: "real option"
  ml_deduction :: "real option"

record vehicle_line =
  vl_vehicle_id :: "int option"
  vl_vehicle_name :: string
  vl_business_m :: real
  vl_personal_m :: real
  vl_nondeductible_m :: real
  vl_total_m :: real
  vl_deduction :: "real option"

record report_caveats =
  gap_trips :: nat
  low_conf_trips :: nat
  manual_trips :: nat
  unclassified_trips :: nat
  business_missing_purpose :: nat
  missing_rate :: bool

definition caveats_any :: "report_caveats \<Rightarrow> bool" where
  "caveats_any c \<longleftrightarrow> gap_trips c > 0 \<or> low_conf_trips c > 0 \<or> manual_trips c > 0
     \<or> unclassified_trips c > 0 \<or> business_missing_purpose c > 0 \<or> missing_rate c"

record annual_report =
  ar_year :: int
  ar_months :: "month_line list"
  ar_business_m :: real
  ar_personal_m :: real
  ar_nondeductible_m :: real
  ar_business_pct :: "real option"
  ar_total_deduction :: "real option"
  ar_rate_periods :: "(real \<times> int \<times> int) list"
  ar_trip_count :: nat
  ar_caveats :: report_caveats
  ar_by_vehicle :: "vehicle_line list"

record range_report = annual_report +
  rr_start :: date
  rr_end :: date

definition report_total_m :: "('a) annual_report_scheme \<Rightarrow> real" where
  "report_total_m r = ar_business_m r + ar_personal_m r + ar_nondeductible_m r"

section \<open>The loop over the trips\<close>

record report_acc =
  business_by_month :: "(int, real) dict"
  count_by_month :: "(int, nat) dict"
  acc_business :: real
  acc_personal :: real
  acc_nondeductible :: real
  acc_trip_count :: nat
  acc_gap :: nat
  acc_low_conf :: nat
  acc_manual :: nat
  acc_unclassified :: nat
  acc_missing_purpose :: nat
  vehicle_business_by_month :: "(vehicle_key, (int, real) dict) dict"
  personal_by_vehicle :: "(vehicle_key, real) dict"
  nondeductible_by_vehicle :: "(vehicle_key, real) dict"
  vehicle_names :: "(vehicle_key, string) dict"

definition empty_acc :: report_acc where
  "empty_acc = \<lparr>business_by_month = [], count_by_month = [], acc_business = 0, acc_personal = 0,
     acc_nondeductible = 0, acc_trip_count = 0, acc_gap = 0, acc_low_conf = 0, acc_manual = 0,
     acc_unclassified = 0, acc_missing_purpose = 0, vehicle_business_by_month = [],
     personal_by_vehicle = [], nondeductible_by_vehicle = [], vehicle_names = []\<rparr>"

text \<open>\<open>by_month = d.setdefault(k, \<lbrace>\<rbrace>); by_month[m] = by_month.get(m, 0.0) + x\<close>.\<close>

definition dadd2 :: "('k, (int, real) dict) dict \<Rightarrow> 'k \<times> int \<Rightarrow> real \<Rightarrow> ('k, (int, real) dict) dict" where
  "dadd2 d km x = dset d (fst km) (dadd (dget d (fst km) []) (snd km) x)"

definition add_mileage :: "int \<Rightarrow> report_trip \<Rightarrow> report_acc \<Rightarrow> report_acc" where
  "add_mileage month t a =
     (let dst = rt_distance_m t; key = vehicle_key_of t
      in if rt_exclusion t = Some ''not_deductible'' then
           a\<lparr>acc_nondeductible := acc_nondeductible a + dst,
             nondeductible_by_vehicle := dadd (nondeductible_by_vehicle a) key dst\<rparr>
         else if rt_category t = ''business'' then
           a\<lparr>business_by_month := dadd (business_by_month a) month dst,
             count_by_month := dadd (count_by_month a) month 1,
             acc_business := acc_business a + dst,
             vehicle_business_by_month := dadd2 (vehicle_business_by_month a) (key, month) dst,
             acc_missing_purpose := acc_missing_purpose a
               + (if strip (or_str (rt_purpose t) []) = [] then 1 else 0)\<rparr>
         else if rt_category t = ''personal'' then
           a\<lparr>acc_personal := acc_personal a + dst,
             personal_by_vehicle := dadd (personal_by_vehicle a) key dst\<rparr>
         else a)"

definition add_flags :: "report_trip \<Rightarrow> report_acc \<Rightarrow> report_acc" where
  "add_flags t a =
     a\<lparr>acc_gap := acc_gap a + (if rt_has_gap t then 1 else 0),
       acc_low_conf := acc_low_conf a + (if rt_snap_status t = Some ''low_confidence'' then 1 else 0),
       acc_manual := acc_manual a + (if rt_source t = Some ''manual'' then 1 else 0)\<rparr>"

definition report_step :: "(instant \<Rightarrow> date) \<Rightarrow> date \<Rightarrow> date \<Rightarrow> report_trip \<Rightarrow> report_acc \<Rightarrow> report_acc" where
  "report_step loc start fin t a =
     (let ls = loc (rt_started_at t)
      in if \<not> (start \<le> ls \<and> ls \<le> fin) then a
         else let a = (if rt_category t = ''unclassified''
                       then a\<lparr>acc_unclassified := acc_unclassified a + 1\<rparr> else a)
              in if rt_exclusion t = Some ''not_my_vehicle'' then a
                 else add_flags t (add_mileage (month_of ls) t
                   (a\<lparr>acc_trip_count := acc_trip_count a + 1,
                      vehicle_names := dset (vehicle_names a) (vehicle_key_of t) (vehicle_name_of t)\<rparr>)))"

definition report_fold :: "(instant \<Rightarrow> date) \<Rightarrow> date \<Rightarrow> date \<Rightarrow> report_trip list \<Rightarrow> report_acc" where
  "report_fold loc start fin trips = fold (report_step loc start fin) trips empty_acc"

section \<open>Which trips each total counts\<close>

definition in_range :: "(instant \<Rightarrow> date) \<Rightarrow> date \<Rightarrow> date \<Rightarrow> report_trip \<Rightarrow> bool" where
  "in_range loc start fin t \<longleftrightarrow> start \<le> loc (rt_started_at t) \<and> loc (rt_started_at t) \<le> fin"

definition counted :: "report_trip \<Rightarrow> bool" where
  "counted t \<longleftrightarrow> rt_exclusion t \<noteq> Some ''not_my_vehicle''"

definition is_nondeductible :: "report_trip \<Rightarrow> bool" where
  "is_nondeductible t \<longleftrightarrow> rt_exclusion t = Some ''not_deductible''"

definition is_business :: "report_trip \<Rightarrow> bool" where
  "is_business t \<longleftrightarrow> counted t \<and> \<not> is_nondeductible t \<and> rt_category t = ''business''"

definition is_personal :: "report_trip \<Rightarrow> bool" where
  "is_personal t \<longleftrightarrow> counted t \<and> \<not> is_nondeductible t \<and> rt_category t = ''personal''"

abbreviation trip_month :: "(instant \<Rightarrow> date) \<Rightarrow> report_trip \<Rightarrow> int" where
  "trip_month loc t \<equiv> month_of (loc (rt_started_at t))"

named_theorems report_class
lemmas [report_class] = in_range_def counted_def is_nondeductible_def is_business_def is_personal_def

text \<open>Distances sent to a total.\<close>

definition total_of_trips :: "(report_trip \<Rightarrow> bool) \<Rightarrow> report_trip list \<Rightarrow> real" where
  "total_of_trips p trips = sum_list (map rt_distance_m (filter p trips))"

section \<open>Each field of the loop's state\<close>

lemma fold_field:
  assumes "\<And>t a. f (step t a) = (if p t then g t (f a) else f a)"
  shows "f (fold step ts a) = fold g (filter p ts) (f a)"
  by (induction ts arbitrary: a) (auto simp: assms)

lemma step_fields:
  fixes loc start fin t a
  defines "s \<equiv> report_step loc start fin t a" and "r \<equiv> in_range loc start fin t"
  shows "business_by_month s = (if r \<and> is_business t
           then dadd (business_by_month a) (trip_month loc t) (rt_distance_m t) else business_by_month a)"
    "count_by_month s = (if r \<and> is_business t
           then dadd (count_by_month a) (trip_month loc t) 1 else count_by_month a)"
    "acc_business s = (if r \<and> is_business t then acc_business a + rt_distance_m t else acc_business a)"
    "acc_personal s = (if r \<and> is_personal t then acc_personal a + rt_distance_m t else acc_personal a)"
    "acc_nondeductible s = (if r \<and> is_nondeductible t
           then acc_nondeductible a + rt_distance_m t else acc_nondeductible a)"
    "acc_trip_count s = (if r \<and> counted t then acc_trip_count a + 1 else acc_trip_count a)"
    "vehicle_business_by_month s = (if r \<and> is_business t
           then dadd2 (vehicle_business_by_month a) (vehicle_key_of t, trip_month loc t) (rt_distance_m t)
           else vehicle_business_by_month a)"
    "personal_by_vehicle s = (if r \<and> is_personal t
           then dadd (personal_by_vehicle a) (vehicle_key_of t) (rt_distance_m t) else personal_by_vehicle a)"
    "nondeductible_by_vehicle s = (if r \<and> is_nondeductible t
           then dadd (nondeductible_by_vehicle a) (vehicle_key_of t) (rt_distance_m t)
           else nondeductible_by_vehicle a)"
    "acc_unclassified s = (if r \<and> rt_category t = ''unclassified''
           then acc_unclassified a + 1 else acc_unclassified a)"
  by (simp_all add: s_def r_def report_step_def add_mileage_def add_flags_def report_class Let_def)

text \<open>The fields of the whole loop.\<close>

lemma fold_add_sum: "fold (\<lambda>t (b :: real). b + f t) ts b0 = b0 + sum_list (map f ts)"
  by (induction ts arbitrary: b0) auto

lemma fold_count: "fold (\<lambda>t. Suc) ts b0 = b0 + length ts"
  by (induction ts arbitrary: b0) auto

lemma report_fold_fields:
  fixes loc start fin trips
  defines "a \<equiv> report_fold loc start fin trips" and "r \<equiv> in_range loc start fin"
  shows "business_by_month a = fold (\<lambda>t d. dadd d (trip_month loc t) (rt_distance_m t))
           (filter (\<lambda>t. r t \<and> is_business t) trips) []"
    "count_by_month a = fold (\<lambda>t d. dadd d (trip_month loc t) 1)
           (filter (\<lambda>t. r t \<and> is_business t) trips) []"
    "acc_business a = total_of_trips (\<lambda>t. r t \<and> is_business t) trips"
    "acc_personal a = total_of_trips (\<lambda>t. r t \<and> is_personal t) trips"
    "acc_nondeductible a = total_of_trips (\<lambda>t. r t \<and> is_nondeductible t) trips"
    "acc_trip_count a = length (filter (\<lambda>t. r t \<and> counted t) trips)"
    "vehicle_business_by_month a
       = fold (\<lambda>t d. dadd2 d (vehicle_key_of t, trip_month loc t) (rt_distance_m t))
           (filter (\<lambda>t. r t \<and> is_business t) trips) []"
    "personal_by_vehicle a = fold (\<lambda>t d. dadd d (vehicle_key_of t) (rt_distance_m t))
           (filter (\<lambda>t. r t \<and> is_personal t) trips) []"
    "nondeductible_by_vehicle a = fold (\<lambda>t d. dadd d (vehicle_key_of t) (rt_distance_m t))
           (filter (\<lambda>t. r t \<and> is_nondeductible t) trips) []"
    "acc_unclassified a = length (filter (\<lambda>t. r t \<and> rt_category t = ''unclassified'') trips)"
  unfolding a_def r_def report_fold_def total_of_trips_def
  by (subst fold_field, rule step_fields, simp add: empty_acc_def fold_add_sum fold_count)+

section \<open>The nested tally\<close>

definition wf_dict2 :: "('k, ('m, real) dict) dict \<Rightarrow> bool" where
  "wf_dict2 d \<longleftrightarrow> wf_dict d \<and> (\<forall>(k, e) \<in> set d. wf_dict e)"

definition wtotal2 :: "('k \<times> 'm \<Rightarrow> real) \<Rightarrow> ('k, ('m, real) dict) dict \<Rightarrow> real" where
  "wtotal2 c d = sum_list (map (\<lambda>(k, e). wtotal (\<lambda>m. c (k, m)) e) d)"

lemma wf_dict2_dget: "wf_dict2 d \<Longrightarrow> wf_dict (dget d k [])"
  by (auto simp: wf_dict2_def dget_def split: option.splits dest: map_of_SomeD)

lemma wtotal2_dset:
  fixes d :: "('k, ('m, real) dict) dict"
  shows "wf_dict d \<Longrightarrow> wtotal2 c (dset d k e)
    = wtotal2 c d - wtotal (\<lambda>m. c (k, m)) (dget d k []) + wtotal (\<lambda>m. c (k, m)) e"
proof (induction d)
  case Nil
  then show ?case by (simp add: wtotal2_def wtotal_def)
next
  case (Cons p d)
  obtain l f where p: "p = (l, f)" by fastforce
  have wf: "wf_dict d" "l \<notin> fst ` set d" using Cons.prems by (auto simp: wf_dict_def p)
  show ?case
  proof (cases "l = k")
    case True
    then show ?thesis by (simp add: p wtotal2_def dget_def)
  next
    case False
    with Cons.IH [OF wf(1)] show ?thesis by (simp add: p wtotal2_def dget_def)
  qed
qed

lemma set_dset: "wf_dict d \<Longrightarrow> (l, e) \<in> set (dset d k v) \<Longrightarrow> (l = k \<and> e = v) \<or> (l, e) \<in> set d"
proof (induction d)
  case (Cons p d)
  then show ?case by (cases p) (auto simp: wf_dict_def split: if_splits)
qed auto

lemma wf_dict2_dadd2: "wf_dict2 d \<Longrightarrow> wf_dict2 (dadd2 d km x)"
proof -
  assume w: "wf_dict2 d"
  then have wd: "wf_dict d" by (simp add: wf_dict2_def)
  have "wf_dict e" if "(l, e) \<in> set (dadd2 d km x)" for l e
    using set_dset [OF wd that [unfolded dadd2_def]] w wf_dict2_dget [OF w, of "fst km"]
    by (auto simp: wf_dict2_def)
  with wd show ?thesis by (auto simp: wf_dict2_def dadd2_def)
qed

interpretation vt: tally "[]" dadd2 "\<lambda>d km. dget (dget d (fst km) []) (snd km) 0" "wtotal2 c" wf_dict2 c for c
proof
  show "wf_dict2 []" by (simp add: wf_dict2_def)
  show "wf_dict2 (dadd2 t k x)" if "wf_dict2 t" for t k x using that by (rule wf_dict2_dadd2)
  show "dget (dget [] (fst k) []) (snd k) 0 = 0" for k :: "'a \<times> int" by simp
  show "dget (dget (dadd2 t k x) (fst l) []) (snd l) 0
      = dget (dget t (fst l) []) (snd l) 0 + (if l = k then x else 0)" for t k x l
    by (auto simp: dadd2_def dget_dadd prod_eq_iff)
  show "wtotal2 c [] = 0" by (simp add: wtotal2_def)
  show "wtotal2 c (dadd2 t k x) = wtotal2 c t + x * c k" if "wf_dict2 t" for t k x
    using that wf_dict2_dget [OF that] by (simp add: dadd2_def wtotal2_dset wtotal_dadd wf_dict2_def)
qed

end
