(* ===== verification/Report.thy ===== *)
theory Report imports ReportTypes begin

text \<open>
  \<open>app/report.py\<close>: the report built from the loop's state, its rate periods, texts and the
  annual wrapper. The properties: every figure is a sum over the trips it names and agrees
  with its breakdown by month and by vehicle; every business trip is priced by the rate of
  its own month; the four quarters add up to the year; the rate periods describe exactly the
  months of the range.
\<close>

definition month_sum_step :: "int \<Rightarrow> rates \<Rightarrow> int \<times> real \<Rightarrow> real \<times> bool \<Rightarrow> real \<times> bool" where
  "month_sum_step year rates mm s =
     (case deduction (snd mm) year rates (fst mm) of None \<Rightarrow> s | Some d \<Rightarrow> (fst s + d, True))"

definition sum_month_deductions :: "(int \<times> real) list \<Rightarrow> int \<Rightarrow> rates \<Rightarrow> real option" where
  "sum_month_deductions month_meters year rates =
     (let (tot, any_rate) = fold (month_sum_step year rates) month_meters (0, False)
      in if any_rate then Some tot else if rate_for rates year 1 \<noteq> None then Some 0 else None)"

definition month_abbr :: "string list" where
  "month_abbr = [[], ''Jan'', ''Feb'', ''Mar'', ''Apr'', ''May'', ''Jun'', ''Jul'', ''Aug'', ''Sep'',
     ''Oct'', ''Nov'', ''Dec'']"

definition format_rate_periods :: "(real \<times> int \<times> int) list \<Rightarrow> string" where
  "format_rate_periods periods =
     (if periods = [] then ''no rate on file''
      else join '', '' (map (\<lambda>(r, first, last).
             let span = (if first = last then month_abbr ! nat first
                         else month_abbr ! nat first @ ''-'' @ month_abbr ! nat last)
             in ''$'' @ fixed 4 r @ ''/mi '' @ span) periods))"

definition caveat_lines :: "report_caveats \<Rightarrow> int \<Rightarrow> string list" where
  "caveat_lines c year =
     (if unclassified_trips c > 0 then [dec_nat (unclassified_trips c) @
        '' trip(s) still unclassified, not counted in the business/personal split above.''] else [])
     @ (if business_missing_purpose c > 0 then [dec_nat (business_missing_purpose c) @
        '' business trip(s) have no purpose recorded.''] else [])
     @ (if gap_trips c > 0 then [dec_nat (gap_trips c) @
        '' trip(s) have a recording gap; distance may under-read.''] else [])
     @ (if low_conf_trips c > 0 then [dec_nat (low_conf_trips c) @
        '' trip(s) have a low-confidence road-snapped distance.''] else [])
     @ (if manual_trips c > 0 then [dec_nat (manual_trips c) @ '' trip(s) were entered manually.''] else [])
     @ (if missing_rate c then [''No IRS mileage rate on file for '' @ dec_int year @
        ''; deduction is unavailable.''] else [])"

text \<open>One month of \<open>_rate_periods\<close>.\<close>

definition period_step :: "(int, real option) dict \<Rightarrow> int \<Rightarrow> (real \<times> int \<times> int) list \<Rightarrow> (real \<times> int \<times> int) list" where
  "period_step month_rates month periods =
     (case dget month_rates month None of
        None \<Rightarrow> periods
      | Some r \<Rightarrow>
          if periods \<noteq> [] \<and> fst (last periods) = r \<and> snd (snd (last periods)) = month - 1
          then butlast periods @ [(fst (last periods), fst (snd (last periods)), month)]
          else periods @ [(r, month, month)])"

definition rate_periods :: "(int, real option) dict \<Rightarrow> (real \<times> int \<times> int) list" where
  "rate_periods month_rates = fold (period_step month_rates) (sort (keys month_rates)) []"

definition context_month_rates :: "rates \<Rightarrow> date \<Rightarrow> date \<Rightarrow> (int, real option) dict" where
  "context_month_rates rates start fin =
     map (\<lambda>m. (m, rate_for rates (year_of start) m)) [month_of start..month_of fin]"

definition month_lines :: "report_acc \<Rightarrow> int \<Rightarrow> rates \<Rightarrow> (int, real option) dict \<Rightarrow> month_line list" where
  "month_lines a year rates ctx =
     map (\<lambda>m. \<lparr>ml_month = m, ml_trip_count = dget (count_by_month a) m 0,
                ml_business_m = dget (business_by_month a) m 0,
                ml_rate_per_mi = dget ctx m None,
                ml_deduction = deduction (dget (business_by_month a) m 0) year rates m\<rparr>)
       (sort (keys (business_by_month a)))"

text \<open>The set of vehicle keys, sorted.\<close>

definition vehicle_keys :: "report_acc \<Rightarrow> vehicle_key list" where
  "vehicle_keys a =
     sort_key (\<lambda>k. (casefold (dget (vehicle_names a) k []), str_key k))
       (remdups (keys (vehicle_business_by_month a) @ keys (personal_by_vehicle a)
          @ keys (nondeductible_by_vehicle a)))"

definition vehicle_line_of :: "report_acc \<Rightarrow> int \<Rightarrow> rates \<Rightarrow> vehicle_key \<Rightarrow> vehicle_line" where
  "vehicle_line_of a year rates k =
     (let by_month = dget (vehicle_business_by_month a) k [];
          p = dget (personal_by_vehicle a) k 0; n = dget (nondeductible_by_vehicle a) k 0
      in \<lparr>vl_vehicle_id = (case k of DbVehicle v \<Rightarrow> v | LegacyName _ \<Rightarrow> None),
          vl_vehicle_name = dget (vehicle_names a) k [],
          vl_business_m = dtotal by_month, vl_personal_m = p, vl_nondeductible_m = n,
          vl_total_m = dtotal by_month + p + n,
          vl_deduction = sum_month_deductions by_month year rates\<rparr>)"

definition build_range_report ::
  "report_trip list \<Rightarrow> rates \<Rightarrow> (instant \<Rightarrow> date) \<Rightarrow> date \<Rightarrow> date \<Rightarrow> range_report result" where
  "build_range_report trips rates loc start fin =
     res_bind (validate_range_dates start fin) (\<lambda>_.
       let year = year_of start;
           a = report_fold loc start fin trips;
           ctx = context_month_rates rates start fin;
           total_m = acc_business a + acc_personal a + acc_nondeductible a
       in Inr \<lparr>ar_year = year,
               ar_months = month_lines a year rates ctx,
               ar_business_m = acc_business a,
               ar_personal_m = acc_personal a,
               ar_nondeductible_m = acc_nondeductible a,
               ar_business_pct = (if total_m > 0 then Some (acc_business a / total_m * 100) else None),
               ar_total_deduction = sum_month_deductions (business_by_month a) year rates,
               ar_rate_periods = rate_periods ctx,
               ar_trip_count = acc_trip_count a,
               ar_caveats = \<lparr>gap_trips = acc_gap a, low_conf_trips = acc_low_conf a,
                  manual_trips = acc_manual a, unclassified_trips = acc_unclassified a,
                  business_missing_purpose = acc_missing_purpose a,
                  missing_rate = (dget ctx (month_of start) None = None)\<rparr>,
               ar_by_vehicle = map (vehicle_line_of a year rates) (vehicle_keys a),
               rr_start = start, rr_end = fin\<rparr>)"

text \<open>\<open>date(year, 1, 1)\<close> refuses a year outside 1 to 9999.\<close>

definition build_annual_report ::
  "report_trip list \<Rightarrow> rates \<Rightarrow> (instant \<Rightarrow> date) \<Rightarrow> int \<Rightarrow> annual_report result" where
  "build_annual_report trips rates loc year =
     (if year < 1 \<or> 9999 < year
      then Inl (ValueError (''year '' @ dec_int year @ '' is out of range''))
      else res_bind (build_range_report trips rates loc (year, 1, 1) (year, 12, 31))
        (\<lambda>r. Inr (annual_report.truncate r)))"

section \<open>Deductions\<close>

text \<open>The rate of a month, read only where one is on file.\<close>

definition rate_or_0 :: "rates \<Rightarrow> int \<Rightarrow> int \<Rightarrow> real" where
  "rate_or_0 rates year month = (case rate_for rates year month of None \<Rightarrow> 0 | Some r \<Rightarrow> r)"

definition per_metre :: "rates \<Rightarrow> int \<Rightarrow> int \<Rightarrow> real" where
  "per_metre rates year month = rate_or_0 rates year month / METERS_PER_MILE"

lemma deduction_per_metre:
  "rate_for rates year 1 \<noteq> None \<Longrightarrow> deduction x year rates m = Some (x * per_metre rates year m)"
  using rate_for_uniform [of rates year m 1]
  by (cases "rate_for rates year m") (auto simp: deduction_def per_metre_def rate_or_0_def)

lemma month_sum_fold:
  "rate_for rates year 1 \<noteq> None \<Longrightarrow>
     fold (month_sum_step year rates) mm s
       = (fst s + sum_list (map (\<lambda>(m, x). x * per_metre rates year m) mm), snd s \<or> mm \<noteq> [])"
  by (induction mm arbitrary: s) (auto simp: month_sum_step_def deduction_per_metre prod_eq_iff)

lemma month_sum_none:
  "rate_for rates year 1 = None \<Longrightarrow> fold (month_sum_step year rates) mm s = s"
proof (induction mm arbitrary: s)
  case (Cons p mm)
  then have "month_sum_step year rates p s = s"
    using deduction_None_iff [of "snd p" year rates "fst p"] by (simp add: month_sum_step_def)
  with Cons show ?case by simp
qed simp

lemma sum_month_deductions_eq:
  "sum_month_deductions mm year rates =
     (if rate_for rates year 1 = None then None else Some (wtotal (per_metre rates year) mm))"
proof (cases "rate_for rates year 1")
  case None
  then show ?thesis by (simp add: sum_month_deductions_def month_sum_none)
next
  case (Some r)
  then show ?thesis
    by (cases "mm = []") (simp_all add: sum_month_deductions_def month_sum_fold wtotal_def)
qed

section \<open>The breakdowns\<close>

lemma wf_report_fold:
  "wf_dict (business_by_month (report_fold loc start fin trips))"
  "wf_dict (personal_by_vehicle (report_fold loc start fin trips))"
  "wf_dict (nondeductible_by_vehicle (report_fold loc start fin trips))"
  "wf_dict2 (vehicle_business_by_month (report_fold loc start fin trips))"
  by (simp_all add: report_fold_fields dt.fold_from_empty vt.fold_from_empty)

lemma vehicle_keys_facts:
  "distinct (vehicle_keys a)"
  "set (vehicle_keys a) = fst ` set (vehicle_business_by_month a)
     \<union> fst ` set (personal_by_vehicle a) \<union> fst ` set (nondeductible_by_vehicle a)"
  by (auto simp: vehicle_keys_def)

lemma by_vehicle_sums:
  fixes loc start fin trips
  defines "a \<equiv> report_fold loc start fin trips"
  shows "sum_list (map (\<lambda>k. wtotal c (dget (vehicle_business_by_month a) k [])) (vehicle_keys a))
      = sum_list (map (\<lambda>t. rt_distance_m t * c (trip_month loc t))
          (filter (\<lambda>t. in_range loc start fin t \<and> is_business t) trips))"
    and "sum_list (map (\<lambda>k. dget (personal_by_vehicle a) k 0) (vehicle_keys a)) = acc_personal a"
    and "sum_list (map (\<lambda>k. dget (nondeductible_by_vehicle a) k 0) (vehicle_keys a)) = acc_nondeductible a"
proof -
  note wf = wf_report_fold [of loc start fin trips, folded a_def]
  have "sum_list (map (\<lambda>k. wtotal c (dget (vehicle_business_by_month a) k [])) (vehicle_keys a))
      = wtotal2 (\<lambda>km. c (snd km)) (vehicle_business_by_month a)"
    using wf(4) by (subst sum_over_keys) (auto simp: vehicle_keys_facts wf_dict2_def wtotal2_def, simp add: wtotal_def)
  also have "\<dots> = sum_list (map (\<lambda>t. rt_distance_m t * c (trip_month loc t))
      (filter (\<lambda>t. in_range loc start fin t \<and> is_business t) trips))"
    by (simp add: a_def report_fold_fields vt.fold_from_empty)
  finally show "sum_list (map (\<lambda>k. wtotal c (dget (vehicle_business_by_month a) k [])) (vehicle_keys a))
      = sum_list (map (\<lambda>t. rt_distance_m t * c (trip_month loc t))
          (filter (\<lambda>t. in_range loc start fin t \<and> is_business t) trips))" .
  have one: "sum_list (map (\<lambda>k. dget d k 0) (vehicle_keys a)) = wtotal (\<lambda>_. 1) d"
    if "wf_dict d" "fst ` set d \<subseteq> set (vehicle_keys a)" for d :: "(vehicle_key, real) dict"
    using sum_over_keys [OF that(1) vehicle_keys_facts(1) that(2), of id 0] by (simp add: wtotal_def)
  show "sum_list (map (\<lambda>k. dget (personal_by_vehicle a) k 0) (vehicle_keys a)) = acc_personal a"
    using wf(2) by (subst one) (auto simp: vehicle_keys_facts a_def report_fold_fields dt.fold_from_empty
      total_of_trips_def)
  show "sum_list (map (\<lambda>k. dget (nondeductible_by_vehicle a) k 0) (vehicle_keys a)) = acc_nondeductible a"
    using wf(3) by (subst one) (auto simp: vehicle_keys_facts a_def report_fold_fields dt.fold_from_empty
      total_of_trips_def)
qed

lemma month_lines_sums:
  fixes loc start fin trips
  defines "a \<equiv> report_fold loc start fin trips"
  shows "sum_list (map (\<lambda>m. dget (business_by_month a) m 0 * c m) (sort (keys (business_by_month a))))
      = sum_list (map (\<lambda>t. rt_distance_m t * c (trip_month loc t))
          (filter (\<lambda>t. in_range loc start fin t \<and> is_business t) trips))"
proof -
  let ?d = "business_by_month a"
  have wf: "wf_dict ?d" unfolding a_def by (rule wf_report_fold)
  have "sum_list (map (\<lambda>m. dget ?d m 0 * c m) (sort (keys ?d)))
      = sum_list (map (\<lambda>m. dget ?d m 0 * c m) (keys ?d))"
    by (simp only: sum_mset_sum_list [symmetric] mset_map mset_sort)
  also have "map (\<lambda>m. dget ?d m 0 * c m) (keys ?d) = map (\<lambda>(m, x). x * c m) ?d"
    using dget_mem [OF wf] by auto
  also have "sum_list \<dots> = sum_list (map (\<lambda>t. rt_distance_m t * c (trip_month loc t))
      (filter (\<lambda>t. in_range loc start fin t \<and> is_business t) trips))"
    unfolding wtotal_def [symmetric] by (simp add: a_def report_fold_fields dt.fold_from_empty)
  finally show ?thesis .
qed

lemma build_range_report_Inr:
  "build_range_report trips rates loc start fin = Inr r \<Longrightarrow> start \<le> fin \<and> year_of start = year_of fin"
  by (cases "validate_range_dates start fin") (auto simp: build_range_report_def validate_range_dates_Inr)

lemma build_range_report_fields:
  assumes "build_range_report trips rates loc start fin = Inr r"
  defines "a \<equiv> report_fold loc start fin trips"
  shows "ar_business_m r = acc_business a" "ar_personal_m r = acc_personal a"
    "ar_nondeductible_m r = acc_nondeductible a" "ar_trip_count r = acc_trip_count a"
    "ar_months r = month_lines a (year_of start) rates (context_month_rates rates start fin)"
    "ar_total_deduction r = sum_month_deductions (business_by_month a) (year_of start) rates"
    "ar_by_vehicle r = map (vehicle_line_of a (year_of start) rates) (vehicle_keys a)"
    "ar_rate_periods r = rate_periods (context_month_rates rates start fin)"
  using assms(1)
  by (cases "validate_range_dates start fin"; force simp: build_range_report_def Let_def a_def)+





text \<open>A year's filter is the sum of its quarters' filters.\<close>

lemma quarters_of_year:
  fixes g :: "report_trip \<Rightarrow> 'a::comm_monoid_add"
  assumes "\<forall>t \<in> set trips. valid_date (loc (rt_started_at t))"
  shows "sum_list (map g (filter (\<lambda>t. in_range loc (y, 1, 1) (y, 12, 31) t \<and> p t) trips))
    = sum_list (map (\<lambda>q. sum_list (map g (filter (\<lambda>t. in_range loc (y, 3 * q - 2, 1) (y, 3 * q, month_days y (3 * q)) t
        \<and> p t) trips))) [1, 2, 3, 4])"
proof -
  let ?Q = "\<lambda>q. in_range loc (y, 3 * q - 2, 1) (y, 3 * q, month_days y (3 * q))"
  let ?v = "\<lambda>P t. if P t \<and> p t then g t else 0"
  have one: "?v (in_range loc (y, 1, 1) (y, 12, 31)) t = ?v (?Q 1) t + ?v (?Q 2) t + ?v (?Q 3) t + ?v (?Q 4) t"
    if "t \<in> set trips" for t
  proof -
    obtain y' m e where d: "loc (rt_started_at t) = (y', m, e)" by (metis prod_cases3)
    have v: "1 \<le> m" "m \<le> 12" "1 \<le> e" "e \<le> month_days y' m" "e \<le> 31"
      using assms that month_days_bounds(2) [of y' m] by (auto simp: valid_date_def d)
    have year: "in_range loc (y, 1, 1) (y, 12, 31) t \<longleftrightarrow> y' = y"
      using v by (auto simp: in_range_def d less_eq_prod_def)
    have quarter: "?Q q t \<longleftrightarrow> y' = y \<and> 3 * q - 2 \<le> m \<and> m \<le> 3 * q" for q
      using v by (auto simp: in_range_def d less_eq_prod_def)
    consider "m \<le> 3" | "4 \<le> m" "m \<le> 6" | "7 \<le> m" "m \<le> 9" | "10 \<le> m" by linarith
    then show ?thesis unfolding year quarter using v by cases simp_all
  qed
  have "sum_list (map (?v (in_range loc (y, 1, 1) (y, 12, 31))) trips)
      = sum_list (map (\<lambda>t. ?v (?Q 1) t + ?v (?Q 2) t + ?v (?Q 3) t + ?v (?Q 4) t) trips)"
    by (rule arg_cong [where f = sum_list], rule map_cong [OF refl]) (rule one)
  then show ?thesis by (simp only: sum_list_map_filter' sum_list_addf list.map sum_list.Cons sum_list.Nil
    add_0_right add.assoc)
qed

lemma build_range_report_ok:
  "start \<le> fin \<Longrightarrow> year_of start = year_of fin \<Longrightarrow> \<exists>r. build_range_report trips rates loc start fin = Inr r"
  by (auto simp: build_range_report_def validate_range_dates_def Let_def)

section \<open>Rate periods\<close>

definition period_months :: "(real \<times> int \<times> int) list \<Rightarrow> (int \<times> real) set" where
  "period_months ps = {(m, r). \<exists>x y. (r, x, y) \<in> set ps \<and> x \<le> m \<and> m \<le> y}"

definition periods_ok :: "int \<Rightarrow> (real \<times> int \<times> int) list \<Rightarrow> bool" where
  "periods_ok hi ps \<longleftrightarrow> (\<forall>(r, x, y) \<in> set ps. x \<le> y \<and> y \<le> hi)
     \<and> sorted_wrt (\<lambda>(r, x, y) (r', x', y'). y < x' \<and> (r = r' \<longrightarrow> y + 1 < x')) ps"

lemma period_months_snoc: "period_months (ps @ [(r, x, y)]) = period_months ps \<union> {x..y} \<times> {r}"
proof -
  have "period_months (ps @ [(r, x, y)]) = period_months ps \<union> period_months [(r, x, y)]"
    unfolding period_months_def set_append by blast
  then show ?thesis by (auto simp: period_months_def)
qed

lemma period_step_ok:
  assumes "periods_ok (m - 1) ps"
  shows "periods_ok m (period_step md m ps)
    \<and> period_months (period_step md m ps)
        = period_months ps \<union> (case dget md m None of None \<Rightarrow> {} | Some r \<Rightarrow> {(m, r)})"
proof (cases "dget md m None")
  case None
  then show ?thesis using assms by (auto simp: period_step_def periods_ok_def)
next
  case (Some r)
  show ?thesis
  proof (cases "ps \<noteq> [] \<and> fst (last ps) = r \<and> snd (snd (last ps)) = m - 1")
    case True
    then obtain qs x where ps: "ps = qs @ [(r, x, m - 1)]"
      by (cases ps rule: rev_cases) (auto simp: prod_eq_iff)
    have st: "period_step md m ps = qs @ [(r, x, m)]"
      by (simp add: period_step_def Some ps)
    have "periods_ok m (qs @ [(r, x, m)]) \<and> period_months (qs @ [(r, x, m)])
        = period_months ps \<union> (case dget md m None of None \<Rightarrow> {} | Some r \<Rightarrow> {(m, r)})"
    proof
      show "periods_ok m (qs @ [(r, x, m)])"
        using assms unfolding ps by (fastforce simp: periods_ok_def sorted_wrt_append)
      have "x \<le> m - 1" using assms by (simp add: ps periods_ok_def)
      then show "period_months (qs @ [(r, x, m)])
          = period_months ps \<union> (case dget md m None of None \<Rightarrow> {} | Some r \<Rightarrow> {(m, r)})"
        unfolding ps period_months_snoc by (auto simp: Some)
    qed
    then show ?thesis by (simp only: st)
  next
    case False
    then have st: "period_step md m ps = ps @ [(r, m, m)]"
      by (simp only: period_step_def Some option.case if_False)
    have gap: "fst z = r \<longrightarrow> snd (snd z) + 1 < m" if "z \<in> set ps" for z
    proof (cases "z = last ps")
      case True
      then show ?thesis using False that assms by (cases z) (auto simp: periods_ok_def)
    next
      case z: False
      from that obtain qs w where ps: "ps = qs @ [w]" by (cases ps rule: rev_cases) auto
      with that z have "z \<in> set qs" by auto
      with assms ps show ?thesis by (cases z; cases w) (fastforce simp: periods_ok_def sorted_wrt_append)
    qed
    show ?thesis unfolding st
    proof
      show "periods_ok m (ps @ [(r, m, m)])"
        using assms gap by (fastforce simp: periods_ok_def sorted_wrt_append)
      show "period_months (ps @ [(r, m, m)]) = period_months ps \<union> (case dget md m None of None \<Rightarrow> {} | Some r \<Rightarrow> {(m, r)})"
        by (auto simp: period_months_def Some)
    qed
  qed
qed

lemma periods_fold:
  "periods_ok (lo + int n - 1) (fold (period_step md) [lo..lo + int n - 1] [])
   \<and> period_months (fold (period_step md) [lo..lo + int n - 1] [])
       = {(m, r). lo \<le> m \<and> m < lo + int n \<and> dget md m None = Some r}"
proof (induction n)
  case 0
  then show ?case by (simp add: periods_ok_def period_months_def)
next
  case (Suc n)
  have u: "[lo..lo + int (Suc n) - 1] = [lo..lo + int n - 1] @ [lo + int n]"
    by (subst upto_rec2) auto
  have less: "m < lo + int (Suc n) \<longleftrightarrow> m < lo + int n \<or> m = lo + int n" for m by auto
  have h: "lo + int (Suc n) - 1 = lo + int n" by simp
  from period_step_ok [of "lo + int n" "fold (period_step md) [lo..lo + int n - 1] []" md] Suc
  show ?case unfolding u less by (auto simp: h split: option.splits)
qed

lemma rate_periods_context:
  fixes rates start fin
  assumes "month_of start \<le> month_of fin"
  defines "ps \<equiv> rate_periods (context_month_rates rates start fin)"
  shows "periods_ok (month_of fin) ps"
    "period_months ps = {(m, r). month_of start \<le> m \<and> m \<le> month_of fin
        \<and> rate_for rates (year_of start) m = Some r}"
proof -
  let ?ctx = "context_month_rates rates start fin"
  have k: "keys ?ctx = [month_of start..month_of fin]" by (simp add: context_month_rates_def comp_def)
  have get: "dget ?ctx m None = (if month_of start \<le> m \<and> m \<le> month_of fin
      then rate_for rates (year_of start) m else None)" for m
    by (auto simp: dget_def context_month_rates_def map_of_map_restrict restrict_map_def)
  obtain n where n: "month_of fin = month_of start + int n - 1"
    using assms(1) by (intro that [of "nat (month_of fin - month_of start + 1)"]) simp
  have "ps = fold (period_step ?ctx) [month_of start..month_of fin] []"
    by (simp add: ps_def rate_periods_def k sorted_sort_id)
  with periods_fold [of "month_of start" n ?ctx] get show "periods_ok (month_of fin) ps"
    "period_months ps = {(m, r). month_of start \<le> m \<and> m \<le> month_of fin
        \<and> rate_for rates (year_of start) m = Some r}"
    by (auto simp: n)
qed

section \<open>Properties\<close>

definition amount :: "real option \<Rightarrow> real" where
  "amount d = (case d of None \<Rightarrow> 0 | Some x \<Rightarrow> x)"

text \<open>Concrete rows for the witnesses: the local date of instant \<open>m\<close> is day 15 of month \<open>m\<close>.\<close>

definition sample_loc :: "instant \<Rightarrow> date" where "sample_loc u = (2022, u, 15)"

definition sample_trip :: "instant \<Rightarrow> string \<Rightarrow> string option \<Rightarrow> int \<Rightarrow> real \<Rightarrow> report_trip" where
  "sample_trip u cat excl v dst = \<lparr>rt_started_at = u, rt_exclusion = excl, rt_category = cat,
     rt_distance_m = dst, rt_vehicle_name = Some ''Car'', rt_vehicle_id = Some (Some v), rt_purpose = None,
     rt_has_gap = False, rt_snap_status = None, rt_source = None\<rparr>"

definition sample_trips :: "report_trip list" where
  "sample_trips = [sample_trip 2 ''business'' None 1 16093.44, sample_trip 8 ''business'' None 2 3218.688,
     sample_trip 8 ''personal'' None 1 500, sample_trip 9 ''business'' (Some ''not_deductible'') 1 100,
     sample_trip 9 ''business'' (Some ''not_my_vehicle'') 1 900, sample_trip 11 ''unclassified'' None 2 70]"

definition sample_rates :: rates where "sample_rates = [(2021, flat_rate), (2022, split_rate)]"

lemma sample_report_ok:
  "\<exists>r. build_range_report sample_trips sample_rates sample_loc (2022, 1, 1) (2022, 12, 31) = Inr r"
  by (rule build_range_report_ok) (simp_all add: less_eq_prod_def)




text \<open>
  Every business trip is priced at the rate in force in the month it was driven, and the
  deduction does not depend on the breakdown: when a rate is on file the total is the sum
  over the trips, over the month lines and over the vehicle lines; when none is, every
  deduction is missing.
\<close>

theorem report_deduction:
  assumes "build_range_report trips rates loc start fin = Inr r"
  defines "year \<equiv> year_of start"
  shows "if rate_for rates year 1 = None
    then ar_total_deduction r = None \<and> (\<forall>l \<in> set (ar_months r). ml_deduction l = None)
         \<and> (\<forall>v \<in> set (ar_by_vehicle r). vl_deduction v = None) \<and> ar_rate_periods r = []
    else ar_total_deduction r = Some (sum_list (map
             (\<lambda>t. rt_distance_m t / METERS_PER_MILE * rate_or_0 rates year (trip_month loc t))
             (filter (\<lambda>t. in_range loc start fin t \<and> is_business t) trips)))
         \<and> sum_list (map (\<lambda>l. amount (ml_deduction l)) (ar_months r)) = amount (ar_total_deduction r)
         \<and> sum_list (map (\<lambda>v. amount (vl_deduction v)) (ar_by_vehicle r)) = amount (ar_total_deduction r)"
proof (cases "rate_for rates year 1 = None")
  case True
  have mo: "month_of start \<le> month_of fin"
    using build_range_report_Inr [OF assms(1)] by (auto simp: less_eq_prod_def)
  have none: "rate_for rates year m = None" for m
    using True by (simp add: rate_for_uniform [of rates year m 1])
  have "period_months (ar_rate_periods r) = {}"
    using rate_periods_context(2) [OF mo, of rates] none
    by (simp add: build_range_report_fields [OF assms(1)] year_def)
  moreover have "\<forall>(r, x, y) \<in> set (ar_rate_periods r). x \<le> y"
    using rate_periods_context(1) [OF mo, of rates]
    by (auto simp: build_range_report_fields [OF assms(1)] periods_ok_def)
  ultimately have "ar_rate_periods r = []" by (cases "ar_rate_periods r") (auto simp: period_months_def)
  with True show ?thesis
    by (auto simp: build_range_report_fields(5-7) [OF assms(1)] month_lines_def vehicle_line_of_def Let_def
      sum_month_deductions_eq year_def deduction_None_iff)
next
  case False
  let ?sum = "sum_list (map (\<lambda>t. rt_distance_m t / METERS_PER_MILE * rate_or_0 rates year (trip_month loc t))
    (filter (\<lambda>t. in_range loc start fin t \<and> is_business t) trips))"
  have smd: "sum_month_deductions mm (year_of start) rates = Some (wtotal (per_metre rates year) mm)" for mm
    using False by (simp add: sum_month_deductions_eq year_def)
  have tot: "ar_total_deduction r = Some ?sum"
    using False by (simp add: build_range_report_fields(6) [OF assms(1)] sum_month_deductions_eq year_def [symmetric]
      report_fold_fields dt.fold_from_empty per_metre_def)
  moreover have "sum_list (map (\<lambda>l. amount (ml_deduction l)) (ar_months r)) = ?sum"
    using month_lines_sums [of loc start fin trips "per_metre rates year"] False
    by (simp add: build_range_report_fields(5) [OF assms(1)] month_lines_def comp_def amount_def
      deduction_per_metre year_def [symmetric]) (simp add: per_metre_def)
  moreover have "sum_list (map (\<lambda>v. amount (vl_deduction v)) (ar_by_vehicle r)) = ?sum"
    using by_vehicle_sums(1) [of "per_metre rates year" loc start fin trips]
    by (simp add: build_range_report_fields(7) [OF assms(1)] vehicle_line_of_def Let_def comp_def amount_def smd)
       (simp add: per_metre_def)
  ultimately show ?thesis using False by (simp add: amount_def)
qed

theorem report_deduction_witness:
  "\<exists>r. build_range_report sample_trips sample_rates sample_loc (2022, 1, 1) (2022, 12, 31) = Inr r
     \<and> ar_total_deduction r = Some 7.1"
proof -
  obtain r where r: "build_range_report sample_trips sample_rates sample_loc (2022, 1, 1) (2022, 12, 31) = Inr r"
    using sample_report_ok by blast
  have "sum_list (map (\<lambda>t. rt_distance_m t / METERS_PER_MILE * rate_or_0 sample_rates 2022 (trip_month sample_loc t))
      (filter (\<lambda>t. in_range sample_loc (2022, 1, 1) (2022, 12, 31) t \<and> is_business t) sample_trips)) = 7.1"
    by code_simp
  moreover have "rate_for sample_rates 2022 1 \<noteq> None" by code_simp
  ultimately show ?thesis using report_deduction [OF r] r by auto
qed

definition quarter_report :: "report_trip list \<Rightarrow> rates \<Rightarrow> (instant \<Rightarrow> date) \<Rightarrow> int \<Rightarrow> int \<Rightarrow> range_report result" where
  "quarter_report trips rates loc year q =
     res_bind (quarter_bounds year q) (\<lambda>(s, e). build_range_report trips rates loc s e)"

lemma quarter_report_ok:
  "q \<in> {1, 2, 3, 4} \<Longrightarrow> \<exists>r. quarter_report trips rates loc year q = Inr r
     \<and> build_range_report trips rates loc (year, 3 * q - 2, 1) (year, 3 * q, month_days year (3 * q)) = Inr r"
  using month_days_bounds(1) [of year "3 * q"]
    build_range_report_ok [of "(year, 3 * q - 2, 1)" "(year, 3 * q, month_days year (3 * q))" trips rates loc]
  by (auto simp: quarter_report_def quarter_bounds_def less_eq_prod_def)

lemma quarters_sum_to_year_aux:
  assumes valid: "\<forall>t \<in> set trips. valid_date (loc (rt_started_at t))"
    and year: "build_range_report trips rates loc (y, 1, 1) (y, 12, 31) = Inr a"
    and quarter: "\<And>q. q \<in> {1, 2, 3, 4} \<Longrightarrow>
      build_range_report trips rates loc (y, 3 * q - 2, 1) (y, 3 * q, month_days y (3 * q)) = Inr (r q)"
  shows "ar_business_m a = sum_list (map (\<lambda>q. ar_business_m (r q)) [1, 2, 3, 4])"
    "ar_personal_m a = sum_list (map (\<lambda>q. ar_personal_m (r q)) [1, 2, 3, 4])"
    "ar_nondeductible_m a = sum_list (map (\<lambda>q. ar_nondeductible_m (r q)) [1, 2, 3, 4])"
    "ar_trip_count a = sum_list (map (\<lambda>q. ar_trip_count (r q)) [1, 2, 3, 4])"
    "amount (ar_total_deduction a) = sum_list (map (\<lambda>q. amount (ar_total_deduction (r q))) [1, 2, 3, 4])"
proof -
  note fy = build_range_report_fields [OF year] and fq = build_range_report_fields [OF quarter]
  note quarters = quarters_of_year [OF valid, where y = y]
  show "ar_business_m a = sum_list (map (\<lambda>q. ar_business_m (r q)) [1, 2, 3, 4])"
    "ar_personal_m a = sum_list (map (\<lambda>q. ar_personal_m (r q)) [1, 2, 3, 4])"
    "ar_nondeductible_m a = sum_list (map (\<lambda>q. ar_nondeductible_m (r q)) [1, 2, 3, 4])"
    using quarters [of rt_distance_m is_business] quarters [of rt_distance_m is_personal]
      quarters [of rt_distance_m is_nondeductible]
    by (simp_all add: fy fq report_fold_fields(3-5) total_of_trips_def)
  show "ar_trip_count a = sum_list (map (\<lambda>q. ar_trip_count (r q)) [1, 2, 3, 4])"
    using quarters [of "\<lambda>_. 1 :: nat" counted]
    by (simp add: fy fq report_fold_fields(6) sum_list_triv)
  let ?g = "\<lambda>t. rt_distance_m t / METERS_PER_MILE * rate_or_0 rates y (trip_month loc t)"
  have ded: "amount (ar_total_deduction x) = (if rate_for rates y 1 = None then 0
      else sum_list (map ?g (filter (\<lambda>t. in_range loc s e t \<and> is_business t) trips)))"
    if "build_range_report trips rates loc s e = Inr x" "year_of s = y" for x s e
    using that by (simp add: build_range_report_fields(6) [OF that(1)] sum_month_deductions_eq amount_def
      report_fold_fields(1) dt.fold_from_empty per_metre_def)
  show "amount (ar_total_deduction a) = sum_list (map (\<lambda>q. amount (ar_total_deduction (r q))) [1, 2, 3, 4])"
    using quarters [of ?g is_business] by (simp add: ded [OF year] ded [OF quarter])
qed

text \<open>
  The four quarterly reports add up to the annual report: for any valid year each of
  them is built, and business, personal and non-deductible miles, the trip count and, when a
  rate is on file, the deduction of the year are the sums of the quarters'.
\<close>

theorem quarters_sum_to_year:
  assumes "\<forall>t \<in> set trips. valid_date (loc (rt_started_at t))" and "1 \<le> year" "year \<le> 9999"
  shows "\<exists>a r1 r2 r3 r4. build_annual_report trips rates loc year = Inr a
    \<and> quarter_report trips rates loc year 1 = Inr r1 \<and> quarter_report trips rates loc year 2 = Inr r2
    \<and> quarter_report trips rates loc year 3 = Inr r3 \<and> quarter_report trips rates loc year 4 = Inr r4
    \<and> ar_business_m a = ar_business_m r1 + ar_business_m r2 + ar_business_m r3 + ar_business_m r4
    \<and> ar_personal_m a = ar_personal_m r1 + ar_personal_m r2 + ar_personal_m r3 + ar_personal_m r4
    \<and> ar_nondeductible_m a = ar_nondeductible_m r1 + ar_nondeductible_m r2 + ar_nondeductible_m r3 + ar_nondeductible_m r4
    \<and> ar_trip_count a = ar_trip_count r1 + ar_trip_count r2 + ar_trip_count r3 + ar_trip_count r4
    \<and> amount (ar_total_deduction a) = amount (ar_total_deduction r1) + amount (ar_total_deduction r2)
        + amount (ar_total_deduction r3) + amount (ar_total_deduction r4)"
proof -
  obtain a where a: "build_range_report trips rates loc (year, 1, 1) (year, 12, 31) = Inr a"
    using build_range_report_ok [of "(year, 1, 1)" "(year, 12, 31)" trips rates loc]
    by (auto simp: less_eq_prod_def)
  obtain r where r: "\<And>q. q \<in> {1, 2, 3, 4} \<Longrightarrow> quarter_report trips rates loc year q = Inr (r q)
      \<and> build_range_report trips rates loc (year, 3 * q - 2, 1) (year, 3 * q, month_days year (3 * q)) = Inr (r q)"
    using quarter_report_ok [of _ trips rates loc year] by metis
  have ann: "build_annual_report trips rates loc year = Inr (annual_report.truncate a)"
    using assms(2,3) by (simp add: build_annual_report_def a)
  note sums = quarters_sum_to_year_aux [OF assms(1) a, of r]
  have q: "q \<in> {1, 2, 3, 4} \<Longrightarrow> build_range_report trips rates loc (year, 3 * q - 2, 1)
      (year, 3 * q, month_days year (3 * q)) = Inr (r q)" for q
    using r by blast
  show ?thesis
    using ann r [of 1] r [of 2] r [of 3] r [of 4] sums [OF q]
    by (intro exI [of _ "annual_report.truncate a"] exI [of _ "r 1"] exI [of _ "r 2"] exI [of _ "r 3"]
      exI [of _ "r 4"]) (simp add: annual_report.truncate_def)
qed

theorem quarters_sum_to_year_witness:
  "\<exists>a r1 r3. build_annual_report sample_trips sample_rates sample_loc 2022 = Inr a
     \<and> quarter_report sample_trips sample_rates sample_loc 2022 1 = Inr r1
     \<and> quarter_report sample_trips sample_rates sample_loc 2022 3 = Inr r3"
proof -
  have "\<forall>t \<in> set sample_trips. valid_date (sample_loc (rt_started_at t))" by code_simp
  from quarters_sum_to_year [OF this, of 2022 sample_rates] show ?thesis by auto
qed

text \<open>
  The rate periods of a report are in order, never overlap, two neighbours with the same
  rate are never adjacent months, and together they give exactly the rate in force in every
  month the range touches; with no rate on file there are none and the caveat says so.
\<close>

theorem report_rate_periods:
  assumes "build_range_report trips rates loc start fin = Inr r"
  shows "sorted_wrt (\<lambda>(q, x, y) (q', x', y'). y < x' \<and> (q = q' \<longrightarrow> y + 1 < x')) (ar_rate_periods r)
    \<and> (\<forall>(q, x, y) \<in> set (ar_rate_periods r). x \<le> y)
    \<and> (\<forall>m q. (\<exists>x y. (q, x, y) \<in> set (ar_rate_periods r) \<and> x \<le> m \<and> m \<le> y) \<longleftrightarrow>
         month_of start \<le> m \<and> m \<le> month_of fin \<and> rate_for rates (year_of start) m = Some q)
    \<and> (missing_rate (ar_caveats r) \<longleftrightarrow> rate_for rates (year_of start) 1 = None)"
proof -
  have mo: "month_of start \<le> month_of fin"
    using build_range_report_Inr [OF assms] by (auto simp: less_eq_prod_def)
  note rp = rate_periods_context [OF mo, of rates, folded build_range_report_fields(8) [OF assms]]
  have "missing_rate (ar_caveats r) \<longleftrightarrow> dget (context_month_rates rates start fin) (month_of start) None = None"
    using assms by (cases "validate_range_dates start fin") (force simp: build_range_report_def Let_def)+
  also have "\<dots> \<longleftrightarrow> rate_for rates (year_of start) (month_of start) = None"
    using mo by (simp add: dget_def context_month_rates_def map_of_map_restrict)
  finally have "missing_rate (ar_caveats r) \<longleftrightarrow> rate_for rates (year_of start) 1 = None"
    by (simp add: rate_for_uniform [of _ _ "month_of start" 1])
  moreover have "(\<exists>x y. (q, x, y) \<in> set (ar_rate_periods r) \<and> x \<le> m \<and> m \<le> y) \<longleftrightarrow> (m, q) \<in> period_months (ar_rate_periods r)" for m q
    by (simp add: period_months_def)
  ultimately show ?thesis using rp(1) unfolding periods_ok_def rp(2)
    by (intro conjI) (auto simp: rp(2))
qed

theorem report_rate_periods_witness:
  "\<exists>r. build_range_report [] sample_rates sample_loc (2022, 4, 1) (2022, 9, 30) = Inr r
     \<and> ar_rate_periods r = [(0.585, 4, 6), (0.625, 7, 9)] \<and> \<not> missing_rate (ar_caveats r)"
proof -
  obtain r where r: "build_range_report [] sample_rates sample_loc (2022, 4, 1) (2022, 9, 30) = Inr r"
    using build_range_report_ok [of "(2022, 4, 1)" "(2022, 9, 30)" "[]" sample_rates sample_loc]
    by (auto simp: less_eq_prod_def)
  have "rate_periods (context_month_rates sample_rates (2022, 4, 1) (2022, 9, 30))
      = [(0.585, 4, 6), (0.625, 7, 9)]" by code_simp
  moreover have "rate_for sample_rates 2022 1 \<noteq> None" by code_simp
  ultimately show ?thesis
    using report_rate_periods [OF r] r by (auto simp: build_range_report_fields(8) [OF r])
qed

end
