(* ===== verification/Odometer.thy ===== *)
theory Odometer imports Rates begin

text \<open>
  \<open>app/odometer.py\<close>: GPS distance against odometer readings, the coverage lines of the annual
  report, and the quarter boundary of the reminder. A local wall-clock time is a date with
  the microseconds since midnight, ordered as Python orders two datetimes of one timezone.
\<close>

record odometer_reading =
  recorded_at :: instant
  odometer_m :: real

record recon_interval =
  iv_start :: instant
  iv_end :: instant
  iv_odometer_delta_m :: real
  iv_detected_m :: real
  iv_coverage :: "real option"
  iv_gap_m :: real
  iv_data_error :: bool

record recon_result =
  rc_intervals :: "recon_interval list"
  rc_total_odometer_delta_m :: real
  rc_total_detected_m :: real
  rc_total_coverage :: "real option"

definition detected_between :: "(instant \<times> real) list \<Rightarrow> instant \<Rightarrow> instant \<Rightarrow> real" where
  "detected_between trips a b = sum_list (map snd (filter (\<lambda>(s, _). a \<le> s \<and> s < b) trips))"

definition recon_interval_of :: "(instant \<times> real) list \<Rightarrow> odometer_reading \<Rightarrow> odometer_reading \<Rightarrow> recon_interval" where
  "recon_interval_of trips start_r end_r =
     (let delta = odometer_m end_r - odometer_m start_r;
          detected = detected_between trips (recorded_at start_r) (recorded_at end_r);
          data_error = delta \<le> 0
      in \<lparr>iv_start = recorded_at start_r, iv_end = recorded_at end_r, iv_odometer_delta_m = delta,
          iv_detected_m = detected, iv_coverage = (if data_error then None else Some (detected / delta)),
          iv_gap_m = delta - detected, iv_data_error = data_error\<rparr>)"

fun recon_loop ::
  "(instant \<times> real) list \<Rightarrow> (odometer_reading \<times> odometer_reading) list \<Rightarrow> real \<Rightarrow> real
     \<Rightarrow> recon_interval list \<times> real \<times> real" where
  "recon_loop trips [] total_delta total_detected = ([], total_delta, total_detected)"
| "recon_loop trips ((a, b) # ps) total_delta total_detected =
     (let iv = recon_interval_of trips a b;
          (ivs, td, tt) = (if iv_data_error iv then recon_loop trips ps total_delta total_detected
             else recon_loop trips ps (total_delta + iv_odometer_delta_m iv) (total_detected + iv_detected_m iv))
      in (iv # ivs, td, tt))"

definition reconcile :: "odometer_reading list \<Rightarrow> (instant \<times> real) list \<Rightarrow> recon_result" where
  "reconcile readings trips =
     (case recon_loop trips (pairs (sort_key recorded_at readings)) 0 0 of
        (ivs, total_delta, total_detected) \<Rightarrow>
          \<lparr>rc_intervals = ivs, rc_total_odometer_delta_m = total_delta, rc_total_detected_m = total_detected,
           rc_total_coverage = (if total_delta > 0 then Some (total_detected / total_delta) else None)\<rparr>)"

text \<open>A vehicle key is a tuple whose second component is the name, or a plain name.\<close>

datatype coverage_key = TupleKey int string | PlainKey string

fun str_coverage_key :: "coverage_key \<Rightarrow> string" where
  "str_coverage_key (TupleKey i n) = ''('' @ dec_int i @ '', '' @ py_repr n @ '')''"
| "str_coverage_key (PlainKey n) = n"

record vehicle_coverage =
  vc_vehicle_name :: string
  vc_span_start :: instant
  vc_span_end :: instant
  vc_coverage :: "real option"
  vc_gap_m :: real
  vc_fully_bracketed :: bool

definition coverage_of_vehicle ::
  "coverage_key \<Rightarrow> odometer_reading list \<Rightarrow> (instant \<times> real) list \<Rightarrow> instant \<Rightarrow> instant \<Rightarrow> vehicle_coverage option" where
  "coverage_of_vehicle key readings trips year_start next_year_start =
     (if length readings < 2 then None
      else let result = reconcile readings trips
           in if rc_total_odometer_delta_m result \<le> 0 then None
              else let ordered = sort_key recorded_at readings;
                       span_start = recorded_at (hd ordered); span_end = recorded_at (last ordered)
                   in Some \<lparr>vc_vehicle_name = (case key of TupleKey _ n \<Rightarrow> n | PlainKey n \<Rightarrow> n),
                       vc_span_start = span_start, vc_span_end = span_end,
                       vc_coverage = rc_total_coverage result,
                       vc_gap_m = rc_total_odometer_delta_m result - rc_total_detected_m result,
                       vc_fully_bracketed = (span_start \<le> year_start \<and> span_end \<ge> next_year_start)\<rparr>)"

definition vehicle_coverage_for_report ::
  "(coverage_key, odometer_reading list) dict \<Rightarrow> (coverage_key, (instant \<times> real) list) dict
     \<Rightarrow> instant \<Rightarrow> instant \<Rightarrow> vehicle_coverage list" where
  "vehicle_coverage_for_report readings_by_vehicle trips_by_vehicle year_start next_year_start =
     List.map_filter (\<lambda>k. coverage_of_vehicle k (dget readings_by_vehicle k []) (dget trips_by_vehicle k [])
         year_start next_year_start)
       (sort_key str_coverage_key (keys readings_by_vehicle))"

definition coverage_line :: "vehicle_coverage \<Rightarrow> string" where
  "coverage_line l =
     (let pct = (case vc_coverage l of None \<Rightarrow> ''--'' | Some c \<Rightarrow> fixed 1 (c * 100) @ ''%'');
          text = vc_vehicle_name l @ '': GPS captured '' @ pct @ '' of odometer miles ('' @
            fixed 1 (vc_gap_m l / METERS_PER_MILE) @ '' mi unaccounted)''
      in if vc_fully_bracketed l then text
         else text @ '', based on a partial-year reading span, not the full year'')"

section \<open>The reminder\<close>

type_synonym wall_time = "date \<times> int"

definition hour_us :: int where "hour_us = 3600000000"

text \<open>\<open>datetime(year, month, 1, hour, tzinfo=...)\<close>.\<close>

definition month_start :: "int \<Rightarrow> int \<Rightarrow> int \<Rightarrow> wall_time result" where
  "month_start year month hour =
     (if year < 1 \<or> 9999 < year then Inl (ValueError (''year '' @ dec_int year @ '' is out of range''))
      else if hour < 0 \<or> 23 < hour then Inl (ValueError ''hour must be in 0..23'')
      else Inr ((year, month, 1), hour * hour_us))"

definition latest_quarter_start :: "bool \<Rightarrow> wall_time \<Rightarrow> int \<Rightarrow> wall_time result" where
  "latest_quarter_start aware now hour =
     (if \<not> aware then Inl (ValueError ''now must be timezone-aware'')
      else let year = year_of (fst now);
               quarter_month = (month_of (fst now) - 1) div 3 * 3 + 1
           in res_bind (month_start year quarter_month hour) (\<lambda>candidate.
                if now \<ge> candidate then Inr candidate
                else let prev_month = quarter_month - 3
                     in if prev_month \<le> 0 then month_start (year - 1) (prev_month + 12) hour
                        else month_start year prev_month hour))"

definition vehicles_due_for_reminder :: "(int \<times> string) list \<Rightarrow> int set \<Rightarrow> string list" where
  "vehicles_due_for_reminder active with_reading =
     sort (map snd (filter (\<lambda>(vid, _). vid \<notin> with_reading) active))"

section \<open>The loop\<close>





section \<open>Properties\<close>




text \<open>
  The reminder's boundary is the latest quarter start at that hour which is not in the
  future: it is the first of January, April, July or October at the hour, no later than
  now, and no other such instant lies between it and now.
\<close>

theorem latest_quarter_start_correct:
  assumes "valid_date (fst now)" "0 \<le> hour" "hour \<le> 23" "2 \<le> year_of (fst now)"
  shows "\<exists>q. latest_quarter_start True now hour = Inr q \<and> q \<le> now
    \<and> month_of (fst q) \<in> {1, 4, 7, 10} \<and> day_of (fst q) = 1 \<and> snd q = hour * hour_us
    \<and> (\<forall>y m. m \<in> {1, 4, 7, 10} \<and> ((y, m, 1), hour * hour_us) \<le> now \<longrightarrow> ((y, m, 1), hour * hour_us) \<le> q)"
proof -
  obtain y m d t where now: "now = ((y, m, d), t)" by (metis prod_cases4 prod.collapse)
  have m: "1 \<le> m" "m \<le> 12" "1 \<le> d" "2 \<le> y" "y \<le> 9999" using assms by (auto simp: valid_date_def now)
  define k where "k = (m - 1) div 3"
  have k: "k \<in> {0, 1, 2, 3}" "3 * k + 1 \<le> m" "m \<le> 3 * k + 3" 
  proof -
    have "0 \<le> k" "k \<le> 3" "3 * k + 1 \<le> m" "m \<le> 3 * k + 3" using m unfolding k_def by linarith+
    then show "k \<in> {0, 1, 2, 3}" "3 * k + 1 \<le> m" "m \<le> 3 * k + 3" by auto
  qed
  let ?c = "((y, 3 * k + 1, 1), hour * hour_us) :: wall_time"
  have cand: "month_start y (3 * k + 1) hour = Inr ?c" using m assms by (simp add: month_start_def)
  show ?thesis
  proof (cases "?c \<le> now")
    case True
    have "latest_quarter_start True now hour = Inr ?c"
      using cand True by (simp add: latest_quarter_start_def Let_def now k_def mult.commute)
    with True k m show ?thesis by (intro exI [of _ ?c]) (auto simp: now less_eq_prod_def)
  next
    case False
    then have m1: "m = 3 * k + 1" and d1: "d = 1" and t: "t < hour * hour_us"
      using k m by (auto simp: now less_eq_prod_def)
    let ?p = "(if k = 0 then ((y - 1, 10, 1), hour * hour_us) else ((y, 3 * k - 2, 1), hour * hour_us)) :: wall_time"
    have "latest_quarter_start True now hour = Inr ?p"
      using cand False k m assms
      by (auto simp: latest_quarter_start_def Let_def now k_def [symmetric] mult.commute month_start_def)
    with k m m1 d1 t show ?thesis by (intro exI [of _ ?p]) (auto simp: now less_eq_prod_def)
  qed
qed

theorem latest_quarter_start_correct_witness:
  "latest_quarter_start True ((2026, 1, 1), 3 * hour_us) 9 = Inr ((2025, 10, 1), 9 * hour_us)
   \<and> (\<exists>q. latest_quarter_start True ((2026, 5, 20), 0) 9 = Inr q \<and> q \<le> ((2026, 5, 20), 0))"
proof
  show "latest_quarter_start True ((2026, 1, 1), 3 * hour_us) 9 = Inr ((2025, 10, 1), 9 * hour_us)"
    by code_simp
  show "\<exists>q. latest_quarter_start True ((2026, 5, 20), 0) 9 = Inr q \<and> q \<le> ((2026, 5, 20), 0)"
    using latest_quarter_start_correct [of "((2026, 5, 20), 0)" 9]
    by (auto simp: valid_date_def month_days_def)
qed

end
