(* ===== verification/Expenses.thy ===== *)
theory Expenses imports Report begin

text \<open>
  \<open>app/expenses.py\<close>: expense conflicts and the per-vehicle comparison of the standard rate
  with actual expenses. A \<open>Decimal\<close> is read as an exact real: the amounts have two places,
  and the 28-digit context rounding of a quotient is not modelled. \<open>loc\<close> gives the local date of
  an instant and \<open>midnight\<close> the instant of a local midnight; both are the timezone database.
\<close>

datatype trip_start = AwareStart instant | NaiveStart date

record expense =
  er_id :: "int option"
  er_vehicle_id :: int
  er_vehicle_name :: "string option"
  er_incurred_on :: date
  er_category :: string
  er_amount :: real
  er_treatment :: string
  er_trip_id :: "int option"
  er_trip_vehicle_id :: "int option option"
  er_trip_started_at :: "trip_start option"
  er_trip_exclusion :: "string option"

record expense_trip =
  et_id :: "int option"
  et_vehicle_id :: "int option"
  et_vehicle_name :: "string option"
  et_started_at :: instant
  et_exclusion :: "string option"
  et_category :: string
  et_distance_m :: real

record odometer_row =
  ow_vehicle_id :: int
  ow_vehicle_name :: "string option"
  ow_recorded_at :: instant
  ow_odometer_m :: real

record expense_attribution =
  ea_trip_id :: int
  ea_expense_id :: "int option"
  ea_amount :: real
  ea_conflicts :: "string list"

record expense_comparison =
  ec_vehicle_id :: int
  ec_vehicle_name :: string
  ec_business_m :: real
  ec_denominator_m :: real
  ec_denominator_source :: string
  ec_provisional :: bool
  ec_invalid_odometer :: bool
  ec_business_pct :: "real option"
  ec_allocated_expenses :: real
  ec_fully_business_expenses :: real
  ec_standard_total :: "real option"
  ec_actual_total :: "real option"
  ec_difference :: "real option"
  ec_larger_estimate :: "string option"

record expense_report =
  xr_comparisons :: "expense_comparison list"
  xr_category_totals :: "(string, real) dict"
  xr_allocated_total :: real
  xr_fully_business_total :: real
  xr_ledger_total :: real
  xr_trip_expenses :: "(int, real) dict"
  xr_attributions :: "expense_attribution list"

definition EXPENSE_CATEGORIES :: "string list" where
  "EXPENSE_CATEGORIES = [''fuel'', ''maintenance_repairs'', ''tires'', ''insurance'',
     ''registration_taxes'', ''lease_payments'', ''depreciation'', ''parking'', ''tolls'', ''other'']"

definition EXPENSE_TREATMENTS :: "string list" where
  "EXPENSE_TREATMENTS = [''business_use_allocated'', ''fully_business'']"

definition default_treatment :: "string \<Rightarrow> string" where
  "default_treatment category =
     (if category \<in> {''parking'', ''tolls''} then ''fully_business'' else ''business_use_allocated'')"

text \<open>\<open>value.quantize(CENT, rounding=ROUND_HALF_UP)\<close>: ties go away from zero.\<close>

definition money :: "real \<Rightarrow> real" where
  "money x = (if x < 0 then - of_int \<lfloor>- x * 100 + 1 / 2\<rfloor> / 100 else of_int \<lfloor>x * 100 + 1 / 2\<rfloor> / 100)"

definition expense_conflicts :: "(instant \<Rightarrow> date) \<Rightarrow> expense \<Rightarrow> string list" where
  "expense_conflicts loc e =
     (case er_trip_id e of None \<Rightarrow> []
      | Some _ \<Rightarrow>
          (case er_trip_vehicle_id e of
             Some tv \<Rightarrow> if tv \<noteq> Some (er_vehicle_id e) then [''vehicle''] else []
           | None \<Rightarrow> [])
          @ (case er_trip_started_at e of None \<Rightarrow> []
             | Some st \<Rightarrow>
                 let trip_local_date = (case st of AwareStart u \<Rightarrow> loc u | NaiveStart d \<Rightarrow> d)
                 in if er_incurred_on e \<noteq> trip_local_date then [''date''] else [])
          @ (if er_trip_exclusion e = Some ''not_my_vehicle'' then [''not_my_vehicle''] else []))"

definition comparison_status :: "expense_comparison \<Rightarrow> string" where
  "comparison_status l =
     (if ec_business_pct l = None then ''Unavailable''
      else if ec_invalid_odometer l then ''Provisional (odometer ignored)''
      else if ec_provisional l then ''Provisional'' else ''Odometer-backed'')"

section \<open>The loops of the report\<close>

record mileage_acc =
  ma_names :: "(int, string) dict"
  ma_business :: "(int, real) dict"
  ma_gps_total :: "(int, real) dict"
  ma_by_month :: "(int, (int, real) dict) dict"

definition vehicle_label :: "string option \<Rightarrow> int \<Rightarrow> string" where
  "vehicle_label name v = or_str name (''Vehicle '' @ dec_int v)"

definition mileage_step :: "int \<Rightarrow> (instant \<Rightarrow> date) \<Rightarrow> expense_trip \<Rightarrow> mileage_acc \<Rightarrow> mileage_acc" where
  "mileage_step year loc t a =
     (case et_vehicle_id t of None \<Rightarrow> a
      | Some v \<Rightarrow>
          let ls = loc (et_started_at t)
          in if year_of ls \<noteq> year then a
             else if et_exclusion t = Some ''not_my_vehicle'' then a
             else let a = a\<lparr>ma_names := dset (ma_names a) v (vehicle_label (et_vehicle_name t) v),
                            ma_gps_total := dadd (ma_gps_total a) v (et_distance_m t)\<rparr>
                  in if et_exclusion t \<noteq> Some ''not_deductible'' \<and> et_category t = ''business''
                     then a\<lparr>ma_business := dadd (ma_business a) v (et_distance_m t),
                            ma_by_month := dadd2 (ma_by_month a) (v, month_of ls) (et_distance_m t)\<rparr>
                     else a)"

record ledger_acc =
  la_names :: "(int, string) dict"
  la_categories :: "(string, real) dict"
  la_allocated :: "(int, real) dict"
  la_fully :: "(int, real) dict"
  la_trip_expenses :: "(int, real) dict"
  la_attributions :: "expense_attribution list"

text \<open>\<open>trips_by_id\<close>: a later row with the same id replaces the earlier one.\<close>

definition trips_by_id :: "expense_trip list \<Rightarrow> (int, expense_trip) dict" where
  "trips_by_id trips =
     fold (\<lambda>t d. case et_id t of None \<Rightarrow> d | Some i \<Rightarrow> dset d i t) trips []"

definition link_expense :: "expense_trip option \<Rightarrow> expense \<Rightarrow> expense" where
  "link_expense linked e =
     (case linked of None \<Rightarrow> e
      | Some t \<Rightarrow> e\<lparr>er_trip_vehicle_id := Some (et_vehicle_id t),
                     er_trip_started_at := Some (AwareStart (et_started_at t)),
                     er_trip_exclusion := et_exclusion t\<rparr>)"

definition ledger_step ::
  "int \<Rightarrow> (instant \<Rightarrow> date) \<Rightarrow> (int, expense_trip) dict \<Rightarrow> expense \<Rightarrow> ledger_acc \<Rightarrow> ledger_acc" where
  "ledger_step year loc by_id e a =
     (if year_of (er_incurred_on e) \<noteq> year then a
      else let v = er_vehicle_id e;
               a = a\<lparr>la_names := dset (la_names a) v (vehicle_label (er_vehicle_name e) v),
                     la_categories := dadd (la_categories a) (er_category e) (er_amount e)\<rparr>;
               a = (if er_treatment e = ''fully_business''
                    then a\<lparr>la_fully := dadd (la_fully a) v (er_amount e)\<rparr>
                    else a\<lparr>la_allocated := dadd (la_allocated a) v (er_amount e)\<rparr>)
           in case er_trip_id e of None \<Rightarrow> a
              | Some i \<Rightarrow> a\<lparr>la_trip_expenses := dadd (la_trip_expenses a) i (er_amount e),
                  la_attributions := la_attributions a @
                    [\<lparr>ea_trip_id = i, ea_expense_id = er_id e, ea_amount = money (er_amount e),
                      ea_conflicts = expense_conflicts loc (link_expense (map_of by_id i) e)\<rparr>]\<rparr>)"

definition reading_name_step :: "odometer_row \<Rightarrow> (int, string) dict \<Rightarrow> (int, string) dict" where
  "reading_name_step r names =
     dset names (ow_vehicle_id r)
       (or_str (ow_vehicle_name r) (dget names (ow_vehicle_id r) (''Vehicle '' @ dec_int (ow_vehicle_id r))))"

section \<open>One vehicle\<close>

text \<open>The denominator: its value, its source and whether an odometer span was refused.\<close>

definition denominator ::
  "odometer_row list \<Rightarrow> instant \<Rightarrow> instant \<Rightarrow> real \<Rightarrow> real \<Rightarrow> real \<times> string \<times> bool" where
  "denominator readings year_start next_year_start biz_m gps_m =
     (let starts = filter (\<lambda>r. ow_recorded_at r \<le> year_start) readings;
          ends = filter (\<lambda>r. ow_recorded_at r \<ge> next_year_start) readings
      in if starts \<noteq> [] \<and> ends \<noteq> []
         then let a = last starts; b = hd ends;
                  bracket = filter (\<lambda>r. ow_recorded_at a \<le> ow_recorded_at r \<and> ow_recorded_at r \<le> ow_recorded_at b) readings;
                  non_increasing = (\<exists>(p, c) \<in> set (pairs bracket). ow_odometer_m c \<le> ow_odometer_m p);
                  delta = ow_odometer_m b - ow_odometer_m a
              in if \<not> non_increasing \<and> delta \<ge> biz_m \<and> delta > 0 then (delta, ''odometer'', False)
                 else (gps_m, ''gps'', True)
         else (gps_m, ''gps'', False))"

definition standard_step :: "int \<Rightarrow> rates \<Rightarrow> int \<times> real \<Rightarrow> real \<times> bool \<Rightarrow> real \<times> bool" where
  "standard_step year rates mm s =
     (case deduction (snd mm) year rates (fst mm) of None \<Rightarrow> s | Some x \<Rightarrow> (fst s + x, True))"

definition compare_vehicle ::
  "int \<Rightarrow> rates \<Rightarrow> mileage_acc \<Rightarrow> ledger_acc \<Rightarrow> (int, string) dict \<Rightarrow> odometer_row list
     \<Rightarrow> instant \<Rightarrow> instant \<Rightarrow> int \<Rightarrow> expense_comparison" where
  "compare_vehicle year rates ma la names readings year_start next_year_start v =
     (let biz_m = dget (ma_business ma) v 0;
          rows = sort_key ow_recorded_at (filter (\<lambda>r. ow_vehicle_id r = v) readings);
          (den, src, invalid) = denominator rows year_start next_year_start biz_m (dget (ma_gps_total ma) v 0);
          pct = (if den > 0 then Some (biz_m / den) else None);
          allocated = money (dget (la_allocated la) v 0);
          fully = money (dget (la_fully la) v 0);
          (base, any_rate) = fold (standard_step year rates) (dget (ma_by_month ma) v []) (0, False);
          standard_total = (if any_rate \<or> biz_m = 0 then Some (money (base + fully)) else None);
          actual_total = map_option (\<lambda>p. money (allocated * p + fully)) pct
      in \<lparr>ec_vehicle_id = v, ec_vehicle_name = dget names v [], ec_business_m = biz_m,
          ec_denominator_m = den, ec_denominator_source = src,
          ec_provisional = (src = ''gps''), ec_invalid_odometer = invalid, ec_business_pct = pct,
          ec_allocated_expenses = allocated, ec_fully_business_expenses = fully,
          ec_standard_total = standard_total, ec_actual_total = actual_total,
          ec_difference = (case (standard_total, actual_total) of
             (Some s, Some a) \<Rightarrow> Some (money \<bar>a - s\<bar>) | _ \<Rightarrow> None),
          ec_larger_estimate = (case (standard_total, actual_total) of
             (Some s, Some a) \<Rightarrow> Some (if a > s then ''actual'' else if s > a then ''standard'' else ''tie'')
           | _ \<Rightarrow> None)\<rparr>)"

definition mileage_of :: "int \<Rightarrow> (instant \<Rightarrow> date) \<Rightarrow> expense_trip list \<Rightarrow> mileage_acc" where
  "mileage_of year loc trips = fold (mileage_step year loc) trips
     \<lparr>ma_names = [], ma_business = [], ma_gps_total = [], ma_by_month = []\<rparr>"

definition ledger_of ::
  "int \<Rightarrow> (instant \<Rightarrow> date) \<Rightarrow> expense_trip list \<Rightarrow> expense list \<Rightarrow> (int, string) dict \<Rightarrow> ledger_acc" where
  "ledger_of year loc trips expenses names = fold (ledger_step year loc (trips_by_id trips)) expenses
     \<lparr>la_names = names, la_categories = [], la_allocated = [], la_fully = [], la_trip_expenses = [],
      la_attributions = []\<rparr>"

definition build_expense_report ::
  "int \<Rightarrow> expense_trip list \<Rightarrow> expense list \<Rightarrow> odometer_row list \<Rightarrow> rates
     \<Rightarrow> (instant \<Rightarrow> date) \<Rightarrow> (date \<Rightarrow> instant) \<Rightarrow> expense_report" where
  "build_expense_report year trips expenses readings rates loc midnight =
     (let ma = mileage_of year loc trips;
          la = ledger_of year loc trips expenses (ma_names ma);
          names = fold reading_name_step readings (la_names la);
          vehicles = remdups (keys (ma_gps_total ma) @ keys (la_allocated la) @ keys (la_fully la));
          line = compare_vehicle year rates ma la names readings (midnight (year, 1, 1)) (midnight (year + 1, 1, 1));
          allocated = money (dtotal (la_allocated la)); fully = money (dtotal (la_fully la))
      in \<lparr>xr_comparisons = sort_key (\<lambda>l. (casefold (ec_vehicle_name l), ec_vehicle_id l)) (map line vehicles),
          xr_category_totals = map (\<lambda>(k, x). (k, money x)) (la_categories la),
          xr_allocated_total = allocated, xr_fully_business_total = fully,
          xr_ledger_total = money (allocated + fully),
          xr_trip_expenses = map (\<lambda>(k, x). (k, money x)) (la_trip_expenses la),
          xr_attributions = la_attributions la\<rparr>)"

section \<open>Rounding to cents\<close>

definition whole_cents :: "real \<Rightarrow> bool" where
  "whole_cents x \<longleftrightarrow> (\<exists>k :: int. x = of_int k / 100)"

lemma money_whole: "whole_cents x \<Longrightarrow> money x = x"
proof -
  assume "whole_cents x"
  then obtain k :: int where x: "x = of_int k / 100" by (auto simp: whole_cents_def)
  have "\<lfloor>real_of_int j + 1 / 2\<rfloor> = j" for j by linarith
  from this [of k] this [of "- k"] show ?thesis by (simp add: x money_def)
qed

lemma money_is_whole [simp]: "whole_cents (money x)"
proof (cases "x < 0")
  case True
  then show ?thesis by (auto simp: whole_cents_def money_def intro!: exI [of _ "- \<lfloor>- x * 100 + 1 / 2\<rfloor>"])
next
  case False
  then show ?thesis by (auto simp: whole_cents_def money_def)
qed

lemma money_error: "\<bar>money x - x\<bar> \<le> 1 / 200"
proof -
  have fl: "\<bar>of_int \<lfloor>y * 100 + 1 / 2\<rfloor> / 100 - y\<bar> \<le> 1 / 200" for y :: real
    using of_int_floor_le [of "y * 100 + 1 / 2"] floor_correct [of "y * 100 + 1 / 2"] by linarith
  show ?thesis using fl [of x] fl [of "- x"] by (auto simp: money_def abs_minus_commute add.commute)
qed

lemma money_mono:
  assumes "x \<le> y"
  shows "money x \<le> money y"
proof -
  have up: "real_of_int \<lfloor>u * 100 + 1 / 2\<rfloor> / 100 \<le> real_of_int \<lfloor>v * 100 + 1 / 2\<rfloor> / 100" if "u \<le> v" for u v :: real
  proof -
    have "\<lfloor>u * 100 + 1 / 2\<rfloor> \<le> \<lfloor>v * 100 + 1 / 2\<rfloor>" using that by (intro floor_mono) simp
    then show ?thesis by (simp add: divide_right_mono)
  qed
  consider "x < 0" "y < 0" | "x < 0" "0 \<le> y" | "0 \<le> x" "0 \<le> y" using assms by linarith
  then show ?thesis
  proof cases
    case 1
    then show ?thesis using up [of "- y" "- x"] assms by (simp add: money_def)
  next
    case 2
    have "money x \<le> 0" using 2 by (simp add: money_def)
    moreover have "0 \<le> money y" using 2 by (simp add: money_def)
    ultimately show ?thesis by linarith
  next
    case 3
    then show ?thesis using up [OF assms] by (simp add: money_def)
  qed
qed

lemma whole_cents_add: "whole_cents x \<Longrightarrow> whole_cents y \<Longrightarrow> whole_cents (x + y)"
  unfolding whole_cents_def by (metis add_divide_distrib of_int_add)

lemma whole_cents_0 [simp]: "whole_cents 0"
  unfolding whole_cents_def by (intro exI [of _ 0]) simp

lemma whole_cents_sum: "(\<And>x. x \<in> set xs \<Longrightarrow> whole_cents (f x)) \<Longrightarrow> whole_cents (sum_list (map f xs))"
  by (induction xs) (auto intro: whole_cents_add)

section \<open>The accumulators\<close>

definition in_year :: "int \<Rightarrow> expense \<Rightarrow> bool" where
  "in_year year e \<longleftrightarrow> year_of (er_incurred_on e) = year"

definition is_fully :: "expense \<Rightarrow> bool" where
  "is_fully e \<longleftrightarrow> er_treatment e = ''fully_business''"

lemma ledger_step_fields:
  fixes year loc d e a
  defines "s \<equiv> ledger_step year loc d e a" and "y \<equiv> in_year year e"
  shows "la_categories s = (if y then dadd (la_categories a) (er_category e) (er_amount e) else la_categories a)"
    "la_fully s = (if y \<and> is_fully e then dadd (la_fully a) (er_vehicle_id e) (er_amount e) else la_fully a)"
    "la_allocated s = (if y \<and> \<not> is_fully e then dadd (la_allocated a) (er_vehicle_id e) (er_amount e) else la_allocated a)"
    "la_trip_expenses s = (if y \<and> er_trip_id e \<noteq> None
       then dadd (la_trip_expenses a) (the (er_trip_id e)) (er_amount e) else la_trip_expenses a)"
    "map ea_amount (la_attributions s) = (if y \<and> er_trip_id e \<noteq> None
       then map ea_amount (la_attributions a) @ [money (er_amount e)] else map ea_amount (la_attributions a))"
  by (auto simp: s_def y_def ledger_step_def in_year_def is_fully_def Let_def split: option.splits)

lemma fold_snoc: "fold (\<lambda>e xs. xs @ [f e]) es xs0 = xs0 @ map f es"
  by (induction es arbitrary: xs0) auto

lemma ledger_fields:
  fixes year loc trips expenses names
  defines "a \<equiv> ledger_of year loc trips expenses names" and "y \<equiv> in_year year"
  shows "la_categories a = fold (\<lambda>e d. dadd d (er_category e) (er_amount e)) (filter y expenses) []"
    "la_fully a = fold (\<lambda>e d. dadd d (er_vehicle_id e) (er_amount e)) (filter (\<lambda>e. y e \<and> is_fully e) expenses) []"
    "la_allocated a = fold (\<lambda>e d. dadd d (er_vehicle_id e) (er_amount e)) (filter (\<lambda>e. y e \<and> \<not> is_fully e) expenses) []"
    "la_trip_expenses a = fold (\<lambda>e d. dadd d (the (er_trip_id e)) (er_amount e))
       (filter (\<lambda>e. y e \<and> er_trip_id e \<noteq> None) expenses) []"
    "map ea_amount (la_attributions a) = map (\<lambda>e. money (er_amount e)) (filter (\<lambda>e. y e \<and> er_trip_id e \<noteq> None) expenses)"
  unfolding a_def y_def ledger_of_def
  by (subst fold_field [where f = la_categories] fold_field [where f = la_fully]
        fold_field [where f = la_allocated] fold_field [where f = la_trip_expenses]
        fold_field [where f = "\<lambda>a. map ea_amount (la_attributions a)" and g = "\<lambda>e xs. xs @ [money (er_amount e)]"],
      rule ledger_step_fields, simp add: fold_snoc)+

definition business_of :: "int \<Rightarrow> (instant \<Rightarrow> date) \<Rightarrow> expense_trip \<Rightarrow> bool" where
  "business_of year loc t \<longleftrightarrow> et_vehicle_id t \<noteq> None \<and> year_of (loc (et_started_at t)) = year
     \<and> et_exclusion t \<noteq> Some ''not_my_vehicle'' \<and> et_exclusion t \<noteq> Some ''not_deductible''
     \<and> et_category t = ''business''"

definition driven_in :: "int \<Rightarrow> (instant \<Rightarrow> date) \<Rightarrow> expense_trip \<Rightarrow> bool" where
  "driven_in year loc t \<longleftrightarrow> et_vehicle_id t \<noteq> None \<and> year_of (loc (et_started_at t)) = year
     \<and> et_exclusion t \<noteq> Some ''not_my_vehicle''"

lemma mileage_step_fields:
  fixes year loc t a
  defines "s \<equiv> mileage_step year loc t a"
  shows "ma_gps_total s = (if driven_in year loc t
       then dadd (ma_gps_total a) (the (et_vehicle_id t)) (et_distance_m t) else ma_gps_total a)"
    "ma_business s = (if business_of year loc t
       then dadd (ma_business a) (the (et_vehicle_id t)) (et_distance_m t) else ma_business a)"
    "ma_by_month s = (if business_of year loc t
       then dadd2 (ma_by_month a) (the (et_vehicle_id t), month_of (loc (et_started_at t))) (et_distance_m t)
       else ma_by_month a)"
  by (auto simp: s_def mileage_step_def business_of_def driven_in_def Let_def split: option.splits)

lemma mileage_fields:
  fixes year loc trips
  defines "a \<equiv> mileage_of year loc trips"
  shows "ma_gps_total a = fold (\<lambda>t d. dadd d (the (et_vehicle_id t)) (et_distance_m t)) (filter (driven_in year loc) trips) []"
    "ma_business a = fold (\<lambda>t d. dadd d (the (et_vehicle_id t)) (et_distance_m t)) (filter (business_of year loc) trips) []"
    "ma_by_month a = fold (\<lambda>t d. dadd2 d (the (et_vehicle_id t), month_of (loc (et_started_at t))) (et_distance_m t))
       (filter (business_of year loc) trips) []"
  unfolding a_def mileage_of_def
  by (subst fold_field [where f = ma_gps_total] fold_field [where f = ma_business] fold_field [where f = ma_by_month],
      rule mileage_step_fields, simp)+

lemma business_driven: "business_of year loc t \<Longrightarrow> driven_in year loc t"
  by (simp add: business_of_def driven_in_def)

lemma sum_filter_mono:
  fixes f :: "'a \<Rightarrow> real"
  assumes "\<forall>x \<in> set xs. 0 \<le> f x" and "\<And>x. p x \<Longrightarrow> q x"
  shows "0 \<le> sum_list (map f (filter p xs))" "sum_list (map f (filter p xs)) \<le> sum_list (map f (filter q xs))"
  using assms by (induction xs) (auto intro: add_increasing)

section \<open>Totals of the ledger\<close>

abbreviation amounts :: "(expense \<Rightarrow> bool) \<Rightarrow> expense list \<Rightarrow> real" where
  "amounts p es \<equiv> sum_list (map er_amount (filter p es))"

lemma whole_amounts: "\<forall>e \<in> set es. whole_cents (er_amount e) \<Longrightarrow> whole_cents (amounts p es)"
  by (rule whole_cents_sum) simp

lemma amounts_split:
  "amounts (\<lambda>e. p e \<and> q e) es + amounts (\<lambda>e. p e \<and> \<not> q e) es = amounts p es"
  by (induction es) auto

lemma ledger_totals:
  fixes year loc trips expenses names
  defines "a \<equiv> ledger_of year loc trips expenses names" and "y \<equiv> in_year year"
  shows "dtotal (la_categories a) = amounts y expenses"
    "dtotal (la_fully a) = amounts (\<lambda>e. y e \<and> is_fully e) expenses"
    "dtotal (la_allocated a) = amounts (\<lambda>e. y e \<and> \<not> is_fully e) expenses"
    "dtotal (la_trip_expenses a) = amounts (\<lambda>e. y e \<and> er_trip_id e \<noteq> None) expenses"
  by (simp_all add: a_def y_def ledger_fields dtotal_wtotal dt.fold_from_empty)

lemma bucket_whole:
  fixes es :: "expense list"
  shows "\<forall>e \<in> set es. whole_cents (er_amount e) \<Longrightarrow>
     whole_cents (dget (fold (\<lambda>e d. dadd d (key e) (er_amount e)) (filter p es) []) k 0)"
  unfolding dt.fold_from_empty filter_filter by (rule whole_amounts)

lemma values_whole:
  fixes es :: "expense list"
  assumes "\<forall>e \<in> set es. whole_cents (er_amount e)"
    and "(k, x) \<in> set (fold (\<lambda>e d. dadd d (key e) (er_amount e)) (filter p es) [])"
  shows "whole_cents x"
  using bucket_whole [OF assms(1), of key p k] dget_mem [OF _ assms(2), of 0] dt.fold_from_empty(3) by auto

lemma money_dict: "(\<And>k x. (k, x) \<in> set d \<Longrightarrow> whole_cents x) \<Longrightarrow> map (\<lambda>(k, x). (k, money x)) d = d"
proof -
  assume "\<And>k x. (k, x) \<in> set d \<Longrightarrow> whole_cents x"
  then have "map (\<lambda>(k, x). (k, money x)) d = map id d" by (intro map_cong) (auto simp: money_whole)
  then show ?thesis by simp
qed

lemma compare_vehicle_ledger:
  "ec_allocated_expenses (compare_vehicle year rates ma la names readings ys ny v) = money (dget (la_allocated la) v 0)"
  "ec_fully_business_expenses (compare_vehicle year rates ma la names readings ys ny v) = money (dget (la_fully la) v 0)"
  "ec_vehicle_id (compare_vehicle year rates ma la names readings ys ny v) = v"
  by (simp_all add: compare_vehicle_def Let_def split: prod.splits)

lemma comparisons_sum:
  fixes f :: "expense_comparison \<Rightarrow> real"
  shows "sum_list (map f (sort_key k (map g vs))) = sum_list (map (\<lambda>v. f (g v)) vs)"
  by (simp only: sum_mset_sum_list [symmetric] mset_map mset_sort) (simp add: multiset.map_comp comp_def)

lemma build_expense_report_lists:
  fixes year trips expenses readings rates loc midnight
  defines "ma \<equiv> mileage_of year loc trips"
  defines "la \<equiv> ledger_of year loc trips expenses (ma_names ma)"
  defines "r \<equiv> build_expense_report year trips expenses readings rates loc midnight"
    and "vs \<equiv> remdups (keys (ma_gps_total ma) @ keys (la_allocated la) @ keys (la_fully la))"
  obtains names where "xr_comparisons r = sort_key (\<lambda>l. (casefold (ec_vehicle_name l), ec_vehicle_id l))
      (map (compare_vehicle year rates ma la names readings (midnight (year, 1, 1)) (midnight (year + 1, 1, 1))) vs)"
    "xr_allocated_total r = money (dtotal (la_allocated la))"
    "xr_fully_business_total r = money (dtotal (la_fully la))"
    "xr_ledger_total r = money (xr_allocated_total r + xr_fully_business_total r)"
    "xr_category_totals r = map (\<lambda>(k, x). (k, money x)) (la_categories la)"
    "xr_trip_expenses r = map (\<lambda>(k, x). (k, money x)) (la_trip_expenses la)"
    "xr_attributions r = la_attributions la"
proof (rule that [of "fold reading_name_step readings (la_names la)"])
qed (simp_all add: r_def ma_def la_def vs_def build_expense_report_def Let_def)

definition sample_expense :: "int \<Rightarrow> real \<Rightarrow> string \<Rightarrow> int option \<Rightarrow> expense" where
  "sample_expense v x treatment trip = \<lparr>er_id = None, er_vehicle_id = v, er_vehicle_name = Some ''Car'',
     er_incurred_on = (2022, 3, 1), er_category = ''fuel'', er_amount = x, er_treatment = treatment,
     er_trip_id = trip, er_trip_vehicle_id = None, er_trip_started_at = None, er_trip_exclusion = None\<rparr>"

definition sample_expenses :: "expense list" where
  "sample_expenses = [sample_expense 1 12.5 ''business_use_allocated'' None,
     sample_expense 1 7.25 ''fully_business'' (Some 4), sample_expense 2 3 ''business_use_allocated'' None]"

definition sample_drive :: "instant \<Rightarrow> int \<Rightarrow> string \<Rightarrow> real \<Rightarrow> expense_trip" where
  "sample_drive u v cat dst = \<lparr>et_id = Some u, et_vehicle_id = Some v, et_vehicle_name = Some ''Car'',
     et_started_at = u, et_exclusion = None, et_category = cat, et_distance_m = dst\<rparr>"

text \<open>
  With amounts in whole cents no cent is lost or counted twice: the ledger total is the
  sum of the amounts of the year, and so are the allocated and fully-business totals
  together, the category totals together and the vehicle lines together; the amounts by
  trip and the listed attributions add up to the linked expenses.
\<close>

theorem expense_ledger_totals:
  fixes year trips expenses readings rates loc midnight
  assumes cents: "\<forall>e \<in> set expenses. whole_cents (er_amount e)"
  defines "r \<equiv> build_expense_report year trips expenses readings rates loc midnight"
  shows "xr_ledger_total r = amounts (in_year year) expenses
    \<and> xr_allocated_total r + xr_fully_business_total r = xr_ledger_total r
    \<and> dtotal (xr_category_totals r) = xr_ledger_total r
    \<and> sum_list (map (\<lambda>l. ec_allocated_expenses l + ec_fully_business_expenses l) (xr_comparisons r)) = xr_ledger_total r
    \<and> dtotal (xr_trip_expenses r) = amounts (\<lambda>e. in_year year e \<and> er_trip_id e \<noteq> None) expenses
    \<and> sum_list (map ea_amount (xr_attributions r)) = dtotal (xr_trip_expenses r)"
proof -
  let ?ma = "mileage_of year loc trips"
  let ?la = "ledger_of year loc trips expenses (ma_names ?ma)"
  let ?y = "in_year year"
  let ?vs = "remdups (keys (ma_gps_total ?ma) @ keys (la_allocated ?la) @ keys (la_fully ?la))"
  obtain names where f: "xr_comparisons r = sort_key (\<lambda>l. (casefold (ec_vehicle_name l), ec_vehicle_id l))
      (map (compare_vehicle year rates ?ma ?la names readings (midnight (year, 1, 1)) (midnight (year + 1, 1, 1))) ?vs)"
    "xr_allocated_total r = money (dtotal (la_allocated ?la))"
    "xr_fully_business_total r = money (dtotal (la_fully ?la))"
    "xr_ledger_total r = money (xr_allocated_total r + xr_fully_business_total r)"
    "xr_category_totals r = map (\<lambda>(k, x). (k, money x)) (la_categories ?la)"
    "xr_trip_expenses r = map (\<lambda>(k, x). (k, money x)) (la_trip_expenses ?la)"
    "xr_attributions r = la_attributions ?la"
    unfolding r_def by (rule build_expense_report_lists)
  note tot = ledger_totals [of year loc trips expenses "ma_names ?ma"]
  have al: "xr_allocated_total r = amounts (\<lambda>e. ?y e \<and> \<not> is_fully e) expenses"
    and fu: "xr_fully_business_total r = amounts (\<lambda>e. ?y e \<and> is_fully e) expenses"
    by (simp_all add: f(2,3) tot money_whole whole_amounts cents)
  have led: "xr_ledger_total r = amounts ?y expenses"
    using amounts_split [of ?y is_fully expenses] by (simp add: f(4) al fu add.commute money_whole whole_amounts cents)
  have cat: "dtotal (xr_category_totals r) = amounts ?y expenses"
    by (simp only: f(5) tot(1) [symmetric], subst money_dict)
       (use values_whole [OF cents] in \<open>simp_all add: ledger_fields(1)\<close>)
  have trp: "dtotal (xr_trip_expenses r) = amounts (\<lambda>e. ?y e \<and> er_trip_id e \<noteq> None) expenses"
    by (simp only: f(6) tot(4) [symmetric], subst money_dict)
       (use values_whole [OF cents] in \<open>simp_all add: ledger_fields(4)\<close>)
  have att: "sum_list (map ea_amount (xr_attributions r)) = amounts (\<lambda>e. ?y e \<and> er_trip_id e \<noteq> None) expenses"
    unfolding f(7) ledger_fields using cents by (intro arg_cong [where f = sum_list] map_cong) (auto simp: money_whole)
  have buckets: "sum_list (map (\<lambda>v. money (dget d v 0)) ?vs) = dtotal d"
    if "wf_dict d" "fst ` set d \<subseteq> set ?vs" "\<And>v. whole_cents (dget d v 0)" for d :: "(int, real) dict"
    using sum_over_keys [OF that(1) distinct_remdups that(2), of id 0] that(3)
    by (simp add: money_whole dtotal_wtotal wtotal_def)
  have "sum_list (map (\<lambda>v. money (dget (la_allocated ?la) v 0)) ?vs) = dtotal (la_allocated ?la)"
    by (rule buckets) (auto simp: ledger_fields(3) dt.fold_from_empty(3) intro: bucket_whole [OF cents])
  moreover have "sum_list (map (\<lambda>v. money (dget (la_fully ?la) v 0)) ?vs) = dtotal (la_fully ?la)"
    by (rule buckets) (auto simp: ledger_fields(2) dt.fold_from_empty(3) intro: bucket_whole [OF cents])
  ultimately have lines: "sum_list (map (\<lambda>l. ec_allocated_expenses l + ec_fully_business_expenses l) (xr_comparisons r))
      = amounts ?y expenses"
    using amounts_split [of ?y is_fully expenses]
    by (simp only: f(1) comparisons_sum compare_vehicle_ledger sum_list_addf tot)
  show ?thesis using al fu led cat trp att lines amounts_split [of ?y is_fully expenses] by linarith
qed

theorem expense_ledger_totals_witness:
  "xr_ledger_total (build_expense_report 2022 [] sample_expenses [] sample_rates sample_loc (\<lambda>_. 0)) = 22.75"
proof -
  have "whole_cents 12.5" "whole_cents 7.25" "whole_cents 3"
    unfolding whole_cents_def by (intro exI [of _ 1250] exI [of _ 725] exI [of _ 300]; simp)+
  then have "\<forall>e \<in> set sample_expenses. whole_cents (er_amount e)"
    by (simp add: sample_expenses_def sample_expense_def)
  moreover have "amounts (in_year 2022) sample_expenses = 22.75" by code_simp
  ultimately show ?thesis using expense_ledger_totals [of sample_expenses 2022] by simp
qed

section \<open>One comparison\<close>

lemma standard_fold:
  "fold (standard_step year rates) mm s = fold (month_sum_step year rates) mm s"
  by (rule fold_cong) (simp_all add: standard_step_def month_sum_step_def fun_eq_iff)

lemma denominator_cases:
  "denominator rows ys ny biz gps = (den, src, invalid) \<Longrightarrow>
     (src = ''odometer'' \<and> \<not> invalid \<and> biz \<le> den \<and> 0 < den) \<or> (src = ''gps'' \<and> den = gps)"
  by (auto simp: denominator_def Let_def split: if_splits)

lemma compare_vehicle_pct:
  assumes "0 \<le> dget (ma_business ma) v 0" "dget (ma_business ma) v 0 \<le> dget (ma_gps_total ma) v 0"
    and "ec_business_pct (compare_vehicle year rates ma la names readings ys ny v) = Some p"
  shows "0 \<le> p \<and> p \<le> 1"
proof -
  let ?b = "dget (ma_business ma) v 0"
  let ?rows = "sort_key ow_recorded_at (filter (\<lambda>r. ow_vehicle_id r = v) readings)"
  obtain den src inv where d: "denominator ?rows ys ny ?b (dget (ma_gps_total ma) v 0) = (den, src, inv)"
    by (metis prod_cases3)
  have "0 < den" "p = ?b / den"
    using assms(3) by (auto simp: compare_vehicle_def Let_def d split: prod.splits if_splits)
  moreover have "?b \<le> den" using denominator_cases [OF d] assms(2) by auto
  ultimately show ?thesis using assms(1) by simp
qed

lemma business_le_total:
  assumes "\<forall>t \<in> set trips. 0 \<le> et_distance_m t"
  shows "0 \<le> dget (ma_business (mileage_of year loc trips)) v 0"
    "dget (ma_business (mileage_of year loc trips)) v 0 \<le> dget (ma_gps_total (mileage_of year loc trips)) v 0"
  unfolding mileage_fields dt.fold_from_empty filter_filter
  using sum_filter_mono [OF assms, of "\<lambda>t. business_of year loc t \<and> the (et_vehicle_id t) = v"
      "\<lambda>t. driven_in year loc t \<and> the (et_vehicle_id t) = v"] business_driven by auto

text \<open>What the rest of a comparison says of itself.\<close>

lemma compare_vehicle_facts:
  fixes year rates ma la names readings ys ny v
  defines "l \<equiv> compare_vehicle year rates ma la names readings ys ny v"
  shows "(ec_provisional l \<longleftrightarrow> ec_denominator_source l = ''gps'') \<and> (ec_invalid_odometer l \<longrightarrow> ec_provisional l)
    \<and> (ec_business_pct l = None \<longleftrightarrow> ec_denominator_m l \<le> 0) \<and> (ec_actual_total l = None \<longleftrightarrow> ec_business_pct l = None)
    \<and> (\<forall>s a. ec_standard_total l = Some s \<and> ec_actual_total l = Some a \<longrightarrow>
         ec_difference l = Some \<bar>a - s\<bar>
         \<and> ec_larger_estimate l = Some (if s < a then ''actual'' else if a < s then ''standard'' else ''tie''))
    \<and> (\<forall>p a. ec_business_pct l = Some p \<and> ec_actual_total l = Some a \<longrightarrow>
         a = money (ec_allocated_expenses l * p + ec_fully_business_expenses l))"
proof -
  let ?rows = "sort_key ow_recorded_at (filter (\<lambda>r. ow_vehicle_id r = v) readings)"
  obtain den src inv where d: "denominator ?rows ys ny (dget (ma_business ma) v 0) (dget (ma_gps_total ma) v 0) = (den, src, inv)"
    by (metis prod_cases3)
  obtain base any_rate where b: "fold (standard_step year rates) (dget (ma_by_month ma) v []) (0, False) = (base, any_rate)"
    by fastforce
  have whole: "money \<bar>money x - money y\<bar> = \<bar>money x - money y\<bar>" for x y
  proof (rule money_whole)
    obtain j k where "money x = of_int j / 100" "money y = of_int k / 100"
      using money_is_whole [of x] money_is_whole [of y] unfolding whole_cents_def by blast
    then have eq: "\<bar>money x - money y\<bar> = \<bar>of_int j / 100 - of_int k / 100\<bar>" by (simp only:)
    have "\<dots> = of_int \<bar>j - k\<bar> / 100" by (simp add: diff_divide_distrib [symmetric])
    with eq have "\<bar>money x - money y\<bar> = of_int \<bar>j - k\<bar> / 100" by (rule trans)
    then show "whole_cents \<bar>money x - money y\<bar>" unfolding whole_cents_def by (rule exI)
  qed
  have "inv \<longrightarrow> src = ''gps''" using denominator_cases [OF d] by auto
  then show ?thesis
    by (auto simp: l_def compare_vehicle_def Let_def d b whole)
qed

definition vehicle_standard :: "int \<Rightarrow> rates \<Rightarrow> (instant \<Rightarrow> date) \<Rightarrow> expense_trip list \<Rightarrow> int \<Rightarrow> real" where
  "vehicle_standard year rates loc trips v =
     sum_list (map (\<lambda>t. et_distance_m t * per_metre rates year (month_of (loc (et_started_at t))))
       (filter (\<lambda>t. business_of year loc t \<and> the (et_vehicle_id t) = v) trips))"

lemma wtotal_bucket2:
  assumes "wf_dict2 d"
  shows "wtotal c (dget d v []) = wtotal2 (\<lambda>km. if fst km = v then c (snd km) else 0) d"
proof -
  have "wtotal2 (\<lambda>km. if fst km = v then c (snd km) else 0) d
      = sum_list (map (\<lambda>(k, e). if k = v then wtotal c e else 0) d)"
    unfolding wtotal2_def by (intro arg_cong [where f = sum_list] map_cong) (auto simp: wtotal_def case_prod_unfold)
  also have "\<dots> = wtotal c (dget d v [])"
    using assms unfolding wf_dict2_def
  proof (induction d)
    case Nil
    then show ?case by (simp add: wtotal_def)
  next
    case (Cons p d)
    obtain k e where p: "p = (k, e)" by fastforce
    have z: "sum_list (map (\<lambda>(k, e). if k = v then wtotal c e else 0) d') = 0" if "v \<notin> fst ` set d'" for d'
      using that by (induction d') (auto simp: wtotal_def)
    show ?case using Cons z [of d] by (auto simp: p wf_dict_def dget_def)
  qed
  finally show ?thesis by simp
qed

lemma compare_vehicle_standard:
  fixes year rates loc trips v la names readings ys ny
  assumes "rate_for rates year 1 \<noteq> None"
  defines "l \<equiv> compare_vehicle year rates (mileage_of year loc trips) la names readings ys ny v"
  shows "ec_standard_total l = Some (money (vehicle_standard year rates loc trips v + ec_fully_business_expenses l))"
proof -
  let ?ma = "mileage_of year loc trips"
  let ?mm = "dget (ma_by_month ?ma) v []"
  let ?rows = "sort_key ow_recorded_at (filter (\<lambda>r. ow_vehicle_id r = v) readings)"
  obtain den src inv where d: "denominator ?rows ys ny (dget (ma_business ?ma) v 0) (dget (ma_gps_total ?ma) v 0) = (den, src, inv)"
    by (metis prod_cases3)
  have wf: "wf_dict2 (ma_by_month ?ma)" unfolding mileage_fields by (rule vt.fold_from_empty(3))
  have "wtotal (per_metre rates year) ?mm = vehicle_standard year rates loc trips v"
    unfolding wtotal_bucket2 [OF wf] vehicle_standard_def
    unfolding mileage_fields vt.fold_from_empty by (induction trips) auto
  then have b: "fold (standard_step year rates) ?mm (0, False) = (vehicle_standard year rates loc trips v, ?mm \<noteq> [])"
    using assms(1) by (simp add: standard_fold month_sum_fold wtotal_def)
  have mm: "?mm \<noteq> []" if ex: "\<exists>t \<in> set trips. business_of year loc t \<and> the (et_vehicle_id t) = v"
  proof -
    obtain t where t: "t \<in> set trips" "business_of year loc t" "the (et_vehicle_id t) = v" using ex by blast
    have step: "dget (fold (\<lambda>t d. dadd2 d (the (et_vehicle_id t), month_of (loc (et_started_at t))) (et_distance_m t)) ts d) v [] \<noteq> []"
      if "dget d v [] \<noteq> [] \<or> (\<exists>t \<in> set ts. the (et_vehicle_id t) = v)" for ts d
      using that
    proof (induction ts arbitrary: d)
      case (Cons u us)
      have ne: "dadd e k x \<noteq> []" for e :: "(int, real) dict" and k x
        by (metis dadd_def update_nonempty)
      have get: "dget (dadd2 e (w, m) x) v [] = (if v = w then dadd (dget e v []) m x else dget e v [])"
        for e :: "(int, (int, real) dict) dict" and w m x by (simp add: dadd2_def)
      show ?case unfolding fold_simps
        by (rule Cons.IH) (use Cons.prems in \<open>auto simp: get ne\<close>)
    qed simp
    show ?thesis unfolding mileage_fields using t by (intro step) auto
  qed
  have "dget (ma_business ?ma) v 0 = 0" if "\<not> (\<exists>t \<in> set trips. business_of year loc t \<and> the (et_vehicle_id t) = v)"
    using that unfolding mileage_fields dt.fold_from_empty filter_filter
    by (subst filter_False) auto
  with mm have "?mm \<noteq> [] \<or> dget (ma_business ?ma) v 0 = 0" by blast
  then show ?thesis by (auto simp: l_def compare_vehicle_def Let_def d b)
qed

text \<open>
  Each vehicle's comparison is consistent: business use is between 0 and 1; the standard
  method prices every business trip of the vehicle at the rate of its own month and adds the
  fully-business expenses; the actual method lies between the fully-business expenses and
  all expenses; an odometer that was refused leaves the line provisional; a comparison is
  unavailable exactly when the denominator is not positive; the difference and the larger
  estimate are those of the two totals.
\<close>

theorem expense_comparison_sound:
  fixes year trips expenses readings rates loc midnight
  assumes "\<forall>t \<in> set trips. 0 \<le> et_distance_m t"
    and cents: "\<forall>e \<in> set expenses. 0 \<le> er_amount e"
    and rate: "rate_for rates year 1 \<noteq> None"
    and "l \<in> set (xr_comparisons (build_expense_report year trips expenses readings rates loc midnight))"
  shows "(\<forall>p. ec_business_pct l = Some p \<longrightarrow> 0 \<le> p \<and> p \<le> 1)
    \<and> ec_standard_total l = Some (money (vehicle_standard year rates loc trips (ec_vehicle_id l) + ec_fully_business_expenses l))
    \<and> (\<forall>a. ec_actual_total l = Some a \<longrightarrow> ec_fully_business_expenses l \<le> a
         \<and> a \<le> ec_allocated_expenses l + ec_fully_business_expenses l)
    \<and> (ec_invalid_odometer l \<longrightarrow> ec_provisional l) \<and> (ec_business_pct l = None \<longleftrightarrow> ec_denominator_m l \<le> 0)
    \<and> (\<forall>s a. ec_standard_total l = Some s \<and> ec_actual_total l = Some a \<longrightarrow>
         ec_difference l = Some \<bar>a - s\<bar>
         \<and> ec_larger_estimate l = Some (if s < a then ''actual'' else if a < s then ''standard'' else ''tie''))"
proof -
  let ?ma = "mileage_of year loc trips"
  let ?la = "ledger_of year loc trips expenses (ma_names ?ma)"
  obtain names v where l: "l = compare_vehicle year rates ?ma ?la names readings (midnight (year, 1, 1)) (midnight (year + 1, 1, 1)) v"
    using assms(4) by (auto simp: build_expense_report_def Let_def)
  have id: "ec_vehicle_id l = v" by (simp add: l compare_vehicle_ledger)
  note facts = compare_vehicle_facts [of year rates ?ma ?la names readings "midnight (year, 1, 1)" "midnight (year + 1, 1, 1)" v, folded l]
  have pct: "\<forall>p. ec_business_pct l = Some p \<longrightarrow> 0 \<le> p \<and> p \<le> 1"
    using compare_vehicle_pct [OF business_le_total [OF assms(1)]] unfolding l by blast
  have std: "ec_standard_total l = Some (money (vehicle_standard year rates loc trips (ec_vehicle_id l) + ec_fully_business_expenses l))"
    unfolding id unfolding l by (rule compare_vehicle_standard [OF rate])
  have nonneg: "0 \<le> amounts p expenses" for p using sum_filter_mono(1) [OF cents, of p] by simp
  have alloc: "0 \<le> ec_allocated_expenses l"
    using money_mono [OF nonneg [of "\<lambda>e. (in_year year e \<and> \<not> is_fully e) \<and> er_vehicle_id e = v"]]
    by (simp add: l compare_vehicle_ledger ledger_fields(3) dt.fold_from_empty(2) money_whole)
  have act: "ec_fully_business_expenses l \<le> a \<and> a \<le> ec_allocated_expenses l + ec_fully_business_expenses l"
    if a: "ec_actual_total l = Some a" for a
  proof -
    obtain p where p: "ec_business_pct l = Some p" using facts a by (cases "ec_business_pct l") auto
    with facts a have eq: "a = money (ec_allocated_expenses l * p + ec_fully_business_expenses l)" by blast
    have b: "0 \<le> ec_allocated_expenses l * p" "ec_allocated_expenses l * p \<le> ec_allocated_expenses l"
      using pct p alloc by (auto intro: mult_left_le)
    have w: "whole_cents (ec_fully_business_expenses l)" "whole_cents (ec_allocated_expenses l + ec_fully_business_expenses l)"
      by (auto simp: l compare_vehicle_ledger intro: whole_cents_add)
    show ?thesis
      using money_mono [of "ec_fully_business_expenses l" "ec_allocated_expenses l * p + ec_fully_business_expenses l"]
        money_mono [of "ec_allocated_expenses l * p + ec_fully_business_expenses l" "ec_allocated_expenses l + ec_fully_business_expenses l"]
        b w by (simp add: eq money_whole)
  qed
  show ?thesis using pct std act facts by (intro conjI) blast+
qed

theorem expense_comparison_sound_witness:
  "\<exists>l. xr_comparisons (build_expense_report 2022 [sample_drive 2 1 ''business'' 3218.688, sample_drive 3 1 ''personal'' 3218.688]
       [sample_expense 1 100 ''business_use_allocated'' None] [] sample_rates sample_loc (\<lambda>_. 0)) = [l]
     \<and> ec_business_pct l = Some (1 / 2) \<and> ec_actual_total l = Some 50 \<and> ec_difference l = Some 48.83
     \<and> ec_larger_estimate l = Some ''actual''"
proof -
  let ?r = "build_expense_report 2022 [sample_drive 2 1 ''business'' 3218.688, sample_drive 3 1 ''personal'' 3218.688]
       [sample_expense 1 100 ''business_use_allocated'' None] [] sample_rates sample_loc (\<lambda>_. 0)"
  have ex: "map (\<lambda>l. (ec_business_pct l, ec_actual_total l, ec_standard_total l)) (xr_comparisons ?r)
      = [(Some (1 / 2), Some 50, Some 1.17)]" by code_simp
  then obtain l where l: "xr_comparisons ?r = [l]" by auto
  have "rate_for sample_rates 2022 1 \<noteq> None" by code_simp
  then have "ec_standard_total l = Some 1.17 \<and> ec_actual_total l = Some 50 \<longrightarrow> ec_difference l = Some \<bar>50 - 1.17\<bar>
      \<and> ec_larger_estimate l = Some (if (1.17 :: real) < 50 then ''actual'' else if (50 :: real) < 1.17 then ''standard'' else ''tie'')"
    using expense_comparison_sound [of "[sample_drive 2 1 ''business'' 3218.688, sample_drive 3 1 ''personal'' 3218.688]"
      "[sample_expense 1 100 ''business_use_allocated'' None]" sample_rates 2022 l "[]" sample_loc "\<lambda>_. 0"] l
    by (simp add: sample_drive_def sample_expense_def)
  with ex l show ?thesis by simp
qed

end
