(* ===== verification/TripWarnings.thy ===== *)
theory TripWarnings imports PyData begin

text \<open>
  \<open>app/missing_trip.py\<close>, \<open>app/trip_warnings.py\<close> and the endpoint labels of
  \<open>app/places_desc.py\<close>: when a possible missing trip is flagged, and when an acknowledgement
  still hides a warning. The acknowledgement table is a dictionary keyed by trip and kind
  (one account); the columns the trip list reads from it are those of the stored row. The
  local time of an instant is the parameter \<open>loc\<close>; text is UTF-8 bytes.
\<close>

section \<open>Endpoint labels\<close>

definition describe_endpoint :: "string option \<Rightarrow> real option \<Rightarrow> real option \<Rightarrow> string option \<Rightarrow> string" where
  "describe_endpoint name lat lon address =
     (if or_str name [] \<noteq> [] then or_str name []
      else if or_str address [] \<noteq> [] then or_str address []
      else case (lat, lon) of
             (Some a, Some o') \<Rightarrow> fixed 4 a @ '','' @ fixed 4 o'
           | _ \<Rightarrow> ''--'')"

definition describe_compact_endpoint :: "string option \<Rightarrow> real option \<Rightarrow> real option \<Rightarrow> string option \<Rightarrow> string" where
  "describe_compact_endpoint name lat lon address =
     (if or_str name [] \<noteq> [] then or_str name []
      else if or_str address [] \<noteq> []
      then let a = or_str address []; street = strip (takeWhile (\<lambda>c. c \<noteq> CHR '','') a)
           in if street = [] then a else street
      else describe_endpoint None lat lon None)"

text \<open>\<open>urlencode\<close>: letters, digits and \<open>_.-~\<close> stay, a blank becomes \<open>+\<close>, any other byte is
  percent-encoded in capital hexadecimal.\<close>

definition url_safe :: "char \<Rightarrow> bool" where
  "url_safe c \<longleftrightarrow> (CHR ''a'' \<le> c \<and> c \<le> CHR ''z'') \<or> (CHR ''A'' \<le> c \<and> c \<le> CHR ''Z'')
     \<or> (CHR ''0'' \<le> c \<and> c \<le> CHR ''9'') \<or> c \<in> set ''_.-~''"

definition hex_digit :: "nat \<Rightarrow> char" where
  "hex_digit n = (if n < 10 then char_of (48 + n) else char_of (55 + n))"

definition quote_plus :: "string \<Rightarrow> string" where
  "quote_plus s = concat (map (\<lambda>c. if url_safe c then [c] else if c = CHR '' '' then ''+''
     else let n = of_char c :: nat in [CHR ''%'', hex_digit (n div 16), hex_digit (n mod 16)]) s)"

definition urlencode :: "(string \<times> string) list \<Rightarrow> string" where
  "urlencode ps = join ''&'' (map (\<lambda>(k, v). quote_plus k @ ''='' @ quote_plus v) ps)"

section \<open>The missing-trip badge\<close>

record trip_row =
  tr_id :: "int option"
  tr_started_at :: instant
  tr_ended_at :: "instant option"
  tr_has_gap :: bool
  tr_prev_trip_id :: "int option"
  tr_prev_end_gap_m :: "real option"
  tr_prev_trip_ended_at :: "instant option"
  tr_missing_trip_covered :: bool
  tr_other_device_end_gap_m :: "real option"
  tr_prev_end_place_name :: "string option"
  tr_prev_end_lat :: "real option"
  tr_prev_end_lon :: "real option"
  tr_start_place_name :: "string option"
  tr_start_lat :: "real option"
  tr_start_lon :: "real option"
  tr_start_address :: "string option"

record missing_badge =
  mb_gap_m :: real
  mb_prefill_url :: string

text \<open>The local wall time of an instant: date, hour and minute.\<close>

type_synonym local_time = "(int \<times> int \<times> int) \<times> int \<times> int"

text \<open>The UTF-8 bytes of the rightwards arrow.\<close>

definition arrow :: string where "arrow = [CHR 0xE2, CHR 0x86, CHR 0x92]"

definition prefill_url :: "(instant \<Rightarrow> local_time) \<Rightarrow> trip_row \<Rightarrow> instant \<Rightarrow> string" where
  "prefill_url loc t prev_ended_at =
     (case loc prev_ended_at of ((y, m, d), h, mi) \<Rightarrow>
        let prev_end_label = describe_endpoint (tr_prev_end_place_name t) (tr_prev_end_lat t) (tr_prev_end_lon t) None;
            this_start_label = describe_endpoint (tr_start_place_name t) (tr_start_lat t) (tr_start_lon t) (tr_start_address t)
        in ''/trips/manual?'' @ urlencode
             ([(''manual_date'', zfill 4 y @ ''-'' @ zfill 2 m @ ''-'' @ zfill 2 d),
               (''manual_start'', zfill 2 h @ '':'' @ zfill 2 mi),
               (''manual_notes'', ''bridge: '' @ prev_end_label @ '' '' @ arrow @ '' '' @ this_start_label)]
              @ (case tr_id t of None \<Rightarrow> [] | Some i \<Rightarrow> [(''bridge_trip'', dec_int i)])))"

definition missing_trip_badge :: "trip_row \<Rightarrow> real \<Rightarrow> (instant \<Rightarrow> local_time) \<Rightarrow> missing_badge option" where
  "missing_trip_badge t threshold_m loc =
     (if threshold_m \<le> 0 then None
      else case (tr_prev_end_gap_m t, tr_prev_trip_ended_at t) of
        (Some gap_m, Some prev_ended_at) \<Rightarrow>
          if gap_m \<le> threshold_m then None
          else if tr_missing_trip_covered t then None
          else if (case tr_other_device_end_gap_m t of None \<Rightarrow> False | Some g \<Rightarrow> g \<le> threshold_m) then None
          else Some \<lparr>mb_gap_m = gap_m, mb_prefill_url = prefill_url loc t prev_ended_at\<rparr>
      | _ \<Rightarrow> None)"

section \<open>Warnings and acknowledgements\<close>

datatype warning_kind = RECORDING_GAP | MISSING_TRIP

record warning_fingerprint =
  wf_trip_started_at :: instant
  wf_trip_ended_at :: "instant option"
  wf_prev_trip_id :: "int option"
  wf_prev_ended_at :: "instant option"

record trip_warnings =
  tw_gap :: bool
  tw_gap_acknowledged :: bool
  tw_missing :: "missing_badge option"
  tw_missing_acknowledged :: bool

definition listed_gap :: "trip_warnings \<Rightarrow> bool" where
  "listed_gap w \<longleftrightarrow> tw_gap w \<and> \<not> tw_gap_acknowledged w"

definition listed_missing :: "trip_warnings \<Rightarrow> missing_badge option" where
  "listed_missing w = (if tw_missing_acknowledged w then None else tw_missing w)"

definition any_listed :: "trip_warnings \<Rightarrow> bool" where
  "any_listed w \<longleftrightarrow> listed_gap w \<or> listed_missing w \<noteq> None"

definition current_fingerprints ::
  "trip_row \<Rightarrow> missing_badge option \<Rightarrow> (warning_kind, warning_fingerprint) dict" where
  "current_fingerprints t missing =
     (if tr_has_gap t
      then [(RECORDING_GAP, \<lparr>wf_trip_started_at = tr_started_at t, wf_trip_ended_at = tr_ended_at t,
              wf_prev_trip_id = None, wf_prev_ended_at = None\<rparr>)] else [])
     @ (if missing \<noteq> None \<and> tr_prev_trip_id t \<noteq> None \<and> tr_prev_trip_ended_at t \<noteq> None
        then [(MISSING_TRIP, \<lparr>wf_trip_started_at = tr_started_at t, wf_trip_ended_at = tr_ended_at t,
                wf_prev_trip_id = tr_prev_trip_id t, wf_prev_ended_at = tr_prev_trip_ended_at t\<rparr>)] else [])"

text \<open>The stored acknowledgements, by trip and kind, and the two lookups the trip row carries.\<close>

type_synonym ack_table = "(int \<times> warning_kind, warning_fingerprint) dict"

definition acknowledged :: "warning_fingerprint option \<Rightarrow> warning_kind \<Rightarrow> warning_fingerprint option \<Rightarrow> bool" where
  "acknowledged stored kind current =
     (case current of None \<Rightarrow> False
      | Some c \<Rightarrow>
          (case stored of None \<Rightarrow> False
           | Some s \<Rightarrow>
               (case kind of
                  RECORDING_GAP \<Rightarrow> wf_trip_started_at s = wf_trip_started_at c \<and> wf_trip_ended_at s = wf_trip_ended_at c
                | MISSING_TRIP \<Rightarrow> wf_trip_started_at s = wf_trip_started_at c
                    \<and> wf_prev_trip_id s = wf_prev_trip_id c \<and> wf_prev_ended_at s = wf_prev_ended_at c)))"

definition trip_warnings_of :: "ack_table \<Rightarrow> int \<Rightarrow> trip_row \<Rightarrow> missing_badge option \<Rightarrow> trip_warnings" where
  "trip_warnings_of acks trip_id t missing =
     (let fps = current_fingerprints t missing
      in \<lparr>tw_gap = tr_has_gap t,
          tw_gap_acknowledged = acknowledged (map_of acks (trip_id, RECORDING_GAP)) RECORDING_GAP (map_of fps RECORDING_GAP),
          tw_missing = missing,
          tw_missing_acknowledged = acknowledged (map_of acks (trip_id, MISSING_TRIP)) MISSING_TRIP (map_of fps MISSING_TRIP)\<rparr>)"

text \<open>The upsert leaves an equal row alone, so its effect on the fingerprints is the assignment.\<close>

definition acknowledge :: "int \<Rightarrow> (warning_kind, warning_fingerprint) dict \<Rightarrow> ack_table \<Rightarrow> ack_table" where
  "acknowledge trip_id fps acks =
     fold (\<lambda>(kind, fp) d. if map_of d (trip_id, kind) = Some fp then d else dset d (trip_id, kind) fp) fps acks"

definition unacknowledge :: "int \<Rightarrow> warning_kind \<Rightarrow> ack_table \<Rightarrow> ack_table" where
  "unacknowledge trip_id kind acks = AList.delete (trip_id, kind) acks"

section \<open>Facts\<close>

lemma map_of_upsert:
  "map_of (if map_of d k = Some v then d else dset d k v) l = (if l = k then Some v else map_of d l)"
  by (simp add: update_conv')

lemma map_of_acknowledge:
  "distinct (keys fps) \<Longrightarrow> map_of (acknowledge i fps acks) (j, k)
     = (if j = i then (case map_of fps k of Some fp \<Rightarrow> Some fp | None \<Rightarrow> map_of acks (j, k))
        else map_of acks (j, k))"
proof (induction fps arbitrary: acks)
  case (Cons p fps)
  obtain k' fp where p: "p = (k', fp)" by fastforce
  have "map_of fps k' = None" using Cons.prems by (simp add: p map_of_eq_None_iff)
  then show ?case using Cons.IH [of "if map_of acks (i, k') = Some fp then acks else dset acks (i, k') fp"] Cons.prems
    by (auto simp: p acknowledge_def map_of_upsert update_conv' split: option.splits)
qed (simp add: acknowledge_def)

lemma distinct_fingerprints: "distinct (keys (current_fingerprints t missing))"
  by (simp add: current_fingerprints_def)

lemma fingerprint_gap:
  "map_of (current_fingerprints t missing) RECORDING_GAP =
     (if tr_has_gap t then Some \<lparr>wf_trip_started_at = tr_started_at t, wf_trip_ended_at = tr_ended_at t,
        wf_prev_trip_id = None, wf_prev_ended_at = None\<rparr> else None)"
  by (simp add: current_fingerprints_def)

lemma fingerprint_missing:
  "map_of (current_fingerprints t missing) MISSING_TRIP =
     (if missing \<noteq> None \<and> tr_prev_trip_id t \<noteq> None \<and> tr_prev_trip_ended_at t \<noteq> None
      then Some \<lparr>wf_trip_started_at = tr_started_at t, wf_trip_ended_at = tr_ended_at t,
        wf_prev_trip_id = tr_prev_trip_id t, wf_prev_ended_at = tr_prev_trip_ended_at t\<rparr> else None)"
  by (simp add: current_fingerprints_def)

lemma missing_badge_iff:
  "missing_trip_badge t th loc = Some b \<longleftrightarrow>
     0 < th \<and> (\<exists>gap prev. tr_prev_end_gap_m t = Some gap \<and> tr_prev_trip_ended_at t = Some prev \<and> th < gap
       \<and> b = \<lparr>mb_gap_m = gap, mb_prefill_url = prefill_url loc t prev\<rparr>)
     \<and> \<not> tr_missing_trip_covered t \<and> (\<forall>g. tr_other_device_end_gap_m t = Some g \<longrightarrow> th < g)"
  unfolding missing_trip_badge_def not_less [symmetric]
  by (cases "tr_prev_end_gap_m t"; cases "tr_prev_trip_ended_at t"; cases "tr_other_device_end_gap_m t"; auto)

definition sample_row :: trip_row where
  "sample_row = \<lparr>tr_id = Some 5, tr_started_at = 100, tr_ended_at = Some 200, tr_has_gap = True,
     tr_prev_trip_id = Some 4, tr_prev_end_gap_m = Some 900, tr_prev_trip_ended_at = Some 50,
     tr_missing_trip_covered = False, tr_other_device_end_gap_m = None, tr_prev_end_place_name = Some ''A & B'',
     tr_prev_end_lat = None, tr_prev_end_lon = None, tr_start_place_name = None, tr_start_lat = Some 1.5,
     tr_start_lon = Some (- 2.25), tr_start_address = None\<rparr>"

definition sample_local :: "instant \<Rightarrow> local_time" where "sample_local u = ((2026, 1, 2), 3, 4)"

text \<open>
  A missing trip is flagged exactly when the threshold is positive, the previous end and
  its time are known, the gap exceeds the threshold, no manual trip covers it and no other
  device continued within the threshold; the badge reports that gap. Raising the threshold
  never adds a badge.
\<close>

theorem missing_badge_condition:
  "(missing_trip_badge t threshold loc \<noteq> None \<longleftrightarrow>
      0 < threshold \<and> (\<exists>gap prev. tr_prev_end_gap_m t = Some gap \<and> tr_prev_trip_ended_at t = Some prev \<and> threshold < gap)
      \<and> \<not> tr_missing_trip_covered t \<and> (\<forall>g. tr_other_device_end_gap_m t = Some g \<longrightarrow> threshold < g))
   \<and> (\<forall>b. missing_trip_badge t threshold loc = Some b \<longrightarrow> tr_prev_end_gap_m t = Some (mb_gap_m b) \<and> threshold < mb_gap_m b)
   \<and> (\<forall>b threshold'. missing_trip_badge t threshold loc = Some b \<longrightarrow> 0 < threshold' \<longrightarrow> threshold' \<le> threshold \<longrightarrow>
        missing_trip_badge t threshold' loc = Some b)"
proof (intro conjI allI impI)
  show "missing_trip_badge t threshold loc \<noteq> None \<longleftrightarrow>
      0 < threshold \<and> (\<exists>gap prev. tr_prev_end_gap_m t = Some gap \<and> tr_prev_trip_ended_at t = Some prev \<and> threshold < gap)
      \<and> \<not> tr_missing_trip_covered t \<and> (\<forall>g. tr_other_device_end_gap_m t = Some g \<longrightarrow> threshold < g)"
    by (simp only: not_None_eq missing_badge_iff) blast
next
  fix b threshold'
  assume b: "missing_trip_badge t threshold loc = Some b" and th: "0 < threshold'" "threshold' \<le> threshold"
  show "missing_trip_badge t threshold' loc = Some b"
  proof -
    obtain gap prev where f: "tr_prev_end_gap_m t = Some gap" "tr_prev_trip_ended_at t = Some prev" "threshold < gap"
      "\<not> tr_missing_trip_covered t" "\<forall>g. tr_other_device_end_gap_m t = Some g \<longrightarrow> threshold < g"
      and eq: "b = \<lparr>mb_gap_m = gap, mb_prefill_url = prefill_url loc t prev\<rparr>"
      using b unfolding missing_badge_iff by (elim conjE exE)
    have "threshold' < gap" using f(3) th(2) by linarith
    moreover have "\<forall>g. tr_other_device_end_gap_m t = Some g \<longrightarrow> threshold' < g" using f(5) th(2) by auto
    ultimately show ?thesis
      unfolding missing_badge_iff
      by (intro conjI exI [of _ gap] exI [of _ prev]) (rule th f(1,2,4) eq | assumption)+
  qed
qed (unfold missing_badge_iff, auto)


theorem missing_badge_condition_witness:
  "missing_trip_badge sample_row 100 sample_local = Some \<lparr>mb_gap_m = 900, mb_prefill_url =
     ''/trips/manual?manual_date=2026-01-02&manual_start=03%3A04&manual_notes=bridge%3A+A+%26+B+%E2%86%92+1.5000%2C-2.2500&bridge_trip=5''\<rparr>"
proof -
  have "missing_trip_badge sample_row 800 sample_local = Some \<lparr>mb_gap_m = 900, mb_prefill_url =
     ''/trips/manual?manual_date=2026-01-02&manual_start=03%3A04&manual_notes=bridge%3A+A+%26+B+%E2%86%92+1.5000%2C-2.2500&bridge_trip=5''\<rparr>"
    by code_simp
  with missing_badge_condition [of sample_row 800 sample_local] show ?thesis by simp
qed

text \<open>
  Acknowledging what a trip shows now hides it now, and stays in force for a row with the
  same span and predecessor; a row whose start, or for a gap its end, or for a missing trip
  its predecessor or the time it ended, has changed shows the warning again. Other trips
  are not affected, and taking the acknowledgement back lists the warning again.
\<close>

theorem acknowledgement_lifecycle:
  fixes i t u missing acks
  defines "acks' \<equiv> acknowledge i (current_fingerprints t missing) acks"
  assumes badge: "missing \<noteq> None \<longrightarrow> tr_prev_trip_id t \<noteq> None \<and> tr_prev_trip_ended_at t \<noteq> None"
    and has: "tr_has_gap t"
  shows "\<not> any_listed (trip_warnings_of acks' i t missing)
    \<and> (listed_gap (trip_warnings_of acks' i u m) \<longleftrightarrow>
         tr_has_gap u \<and> (tr_started_at u \<noteq> tr_started_at t \<or> tr_ended_at u \<noteq> tr_ended_at t))
    \<and> (missing \<noteq> None \<longrightarrow> (listed_missing (trip_warnings_of acks' i u m) \<noteq> None \<longleftrightarrow>
         m \<noteq> None \<and> (tr_started_at u \<noteq> tr_started_at t \<or> tr_prev_trip_id u \<noteq> tr_prev_trip_id t
           \<or> tr_prev_trip_ended_at u \<noteq> tr_prev_trip_ended_at t)))
    \<and> (j \<noteq> i \<longrightarrow> trip_warnings_of acks' j u m = trip_warnings_of acks j u m)
    \<and> listed_gap (trip_warnings_of (unacknowledge i RECORDING_GAP acks') i t missing)"
proof -
  note rules = trip_warnings_of_def Let_def acks'_def map_of_acknowledge distinct_fingerprints
    fingerprint_gap fingerprint_missing acknowledged_def
  have "\<not> any_listed (trip_warnings_of acks' i t missing)"
    using badge by (auto simp: rules any_listed_def listed_gap_def listed_missing_def)
  moreover have "listed_gap (trip_warnings_of acks' i u m) \<longleftrightarrow>
         tr_has_gap u \<and> (tr_started_at u \<noteq> tr_started_at t \<or> tr_ended_at u \<noteq> tr_ended_at t)"
    using has by (auto simp: rules listed_gap_def)
  moreover have "listed_missing (trip_warnings_of acks' i u m) \<noteq> None \<longleftrightarrow>
         m \<noteq> None \<and> (tr_started_at u \<noteq> tr_started_at t \<or> tr_prev_trip_id u \<noteq> tr_prev_trip_id t
           \<or> tr_prev_trip_ended_at u \<noteq> tr_prev_trip_ended_at t)" if "missing \<noteq> None"
    using badge that by (auto simp: rules listed_missing_def)
  moreover have "trip_warnings_of acks' j u m = trip_warnings_of acks j u m" if "j \<noteq> i"
    using that by (simp add: rules)
  moreover have "listed_gap (trip_warnings_of (unacknowledge i RECORDING_GAP acks') i t missing)"
    using has by (simp add: trip_warnings_of_def Let_def unacknowledge_def delete_conv' acknowledged_def
      listed_gap_def split: option.split)
  ultimately show ?thesis by blast
qed

theorem acknowledgement_lifecycle_witness:
  "\<not> any_listed (trip_warnings_of (acknowledge 5 (current_fingerprints sample_row None) []) 5 sample_row None)
   \<and> listed_gap (trip_warnings_of (acknowledge 5 (current_fingerprints sample_row None) []) 5 (sample_row\<lparr>tr_ended_at := Some 250\<rparr>) None)"
  using acknowledgement_lifecycle [of None sample_row 5 "[]" "sample_row\<lparr>tr_ended_at := Some 250\<rparr>" None 6]
  by (simp add: sample_row_def)

end
