(* ===== verification/Limiter.thy ===== *)
theory Limiter imports PyData "HOL-Library.Sublist" begin

text \<open>
  \<open>FailedAuthLimiter\<close> of \<open>app/ingest.py\<close>: failed authentications per address in a sliding
  window, in a table of bounded size, and the bounded number of concurrent verifications.
  The ordered dictionary is an association list in its order, a deque a list with the
  oldest failure first; an address enters by its digest, so keys are any type. The
  operations form a state machine over a clock that does not run backwards; the abstract
  specification is the whole history of failures.
\<close>

record 'k limiter =
  max_keys :: nat
  max_failures :: nat
  window_s :: real
  prune_interval_s :: real
  max_concurrent_auth :: nat
  next_global_prune :: real
  failures :: "('k, real list) dict"
  auth_tasks :: "nat list"

text \<open>The constructor; \<open>prune_interval_s or min(window_s, 60.0)\<close>.\<close>

definition new_limiter ::
  "nat \<Rightarrow> real \<Rightarrow> real \<Rightarrow> real option \<Rightarrow> nat \<Rightarrow> nat \<Rightarrow> 'k limiter result" where
  "new_limiter failures_max window now prune concurrent keys_max =
     (if concurrent < 1 then Inl (ValueError ''max_concurrent_auth must be positive'')
      else if keys_max < 1 \<or> failures_max < 1 \<or> window \<le> 0
      then Inl (ValueError ''failure limiter bounds must be positive'')
      else let interval = (case prune of Some p \<Rightarrow> if p = 0 then min window 60 else p | None \<Rightarrow> min window 60)
           in Inr \<lparr>max_keys = keys_max, max_failures = failures_max, window_s = window,
                prune_interval_s = interval, max_concurrent_auth = concurrent,
                next_global_prune = now + interval, failures = [], auth_tasks = []\<rparr>)"

text \<open>\<open>_prune\<close>: the failures before the cutoff leave from the left; an empty deque leaves its key.\<close>

definition prune_key :: "'k \<Rightarrow> real \<Rightarrow> 'k limiter \<Rightarrow> 'k limiter" where
  "prune_key ip now s =
     (case map_of (failures s) ip of
        None \<Rightarrow> s
      | Some q \<Rightarrow>
          let q' = dropWhile (\<lambda>t. t < now - window_s s) q
          in if q' = [] then s\<lparr>failures := AList.delete ip (failures s)\<rparr>
             else s\<lparr>failures := dset (failures s) ip q'\<rparr>)"

definition maybe_prune_all :: "real \<Rightarrow> 'k limiter \<Rightarrow> 'k limiter" where
  "maybe_prune_all now s =
     (if now < next_global_prune s then s
      else let s' = fold (\<lambda>ip. prune_key ip now) (keys (failures s)) s
           in s'\<lparr>next_global_prune := now + prune_interval_s s'\<rparr>)"

definition blocked :: "'k \<Rightarrow> real \<Rightarrow> 'k limiter \<Rightarrow> bool \<times> 'k limiter" where
  "blocked ip now s =
     (let s' = prune_key ip now (maybe_prune_all now s)
      in (length (dget (failures s') ip []) \<ge> max_failures s', s'))"

text \<open>\<open>deque(maxlen=n).append\<close> drops the oldest element of a full deque.\<close>

definition bounded_append :: "nat \<Rightarrow> 'a list \<Rightarrow> 'a \<Rightarrow> 'a list" where
  "bounded_append n q x = drop (Suc (length q) - n) (q @ [x])"

definition record_failure :: "'k \<Rightarrow> real \<Rightarrow> 'k limiter \<Rightarrow> 'k limiter" where
  "record_failure ip now s =
     (let s = prune_key ip now (maybe_prune_all now s);
          d = (if ip \<in> set (keys (failures s)) then failures s
               else (if length (failures s) \<ge> max_keys s then tl (failures s) else failures s) @ [(ip, [])]);
          q = bounded_append (max_failures s) (dget d ip []) now
      in s\<lparr>failures := AList.delete ip d @ [(ip, q)]\<rparr>)"

text \<open>A verification slot: refused when all are taken, freed when the task itself ends.\<close>

definition start_auth :: "nat \<Rightarrow> 'k limiter \<Rightarrow> 'k limiter option" where
  "start_auth task s =
     (if length (auth_tasks s) \<ge> max_concurrent_auth s then None
      else Some (s\<lparr>auth_tasks := List.insert task (auth_tasks s)\<rparr>))"

definition auth_finished :: "nat \<Rightarrow> 'k limiter \<Rightarrow> 'k limiter" where
  "auth_finished task s = s\<lparr>auth_tasks := remove1 task (auth_tasks s)\<rparr>"

section \<open>The state machine\<close>

text \<open>A configuration is the clock, the limiter and the history of recorded failures.\<close>

type_synonym 'k config = "real \<times> 'k limiter \<times> ('k \<times> real) list"

inductive limiter_step :: "'k config \<Rightarrow> 'k config \<Rightarrow> bool" where
  check: "now \<le> now' \<Longrightarrow> limiter_step (now, s, h) (now', snd (blocked ip now' s), h)"
| failure: "now \<le> now' \<Longrightarrow> limiter_step (now, s, h) (now', record_failure ip now' s, h @ [(ip, now')])"
| start: "start_auth task s = Some s' \<Longrightarrow> limiter_step (now, s, h) (now, s', h)"
| finish: "limiter_step (now, s, h) (now, auth_finished task s, h)"

inductive_cases limiter_stepE: "limiter_step c c'"

inductive limiter_run :: "'k config \<Rightarrow> 'k config \<Rightarrow> bool" for c0 where
  refl: "limiter_run c0 c0"
| step: "limiter_run c0 c \<Longrightarrow> limiter_step c c' \<Longrightarrow> limiter_run c0 c'"

text \<open>The failures of a key in the window that ends now: what the limiter must count.\<close>

definition recent :: "real \<Rightarrow> real \<Rightarrow> ('k \<times> real) list \<Rightarrow> 'k \<Rightarrow> real list" where
  "recent window now h ip = filter (\<lambda>t. now - window \<le> t) (map snd (filter (\<lambda>p. fst p = ip) h))"

section \<open>Suffixes of sorted lists\<close>

definition last_n :: "nat \<Rightarrow> 'a list \<Rightarrow> 'a list" where
  "last_n n xs = drop (length xs - n) xs"

lemma bounded_append_last_n: "bounded_append n q x = last_n n (q @ [x])"
  by (simp add: bounded_append_def last_n_def)

lemma last_n_all [simp]: "length xs \<le> n \<Longrightarrow> last_n n xs = xs"
  by (simp add: last_n_def)

lemma length_last_n [simp]: "length (last_n n xs) = min n (length xs)"
  by (simp add: last_n_def)

lemma last_n_snoc: "0 < n \<Longrightarrow> last_n n (xs @ [x]) = last_n (n - 1) xs @ [x]"
  by (simp add: last_n_def Suc_diff_le)

lemma last_n_last_n: "m \<le> n \<Longrightarrow> last_n m (last_n n xs) = last_n m xs"
  by (cases "n \<le> length xs") (simp_all add: last_n_def)

lemma set_last_n: "set (last_n n xs) \<subseteq> set xs"
  by (simp add: last_n_def set_drop_subset)

lemma last_n_Cons: "last_n n (x # xs) = (if length xs < n then x # xs else last_n n xs)"
  by (simp add: last_n_def Suc_diff_le)

lemma filter_last_n:
  fixes xs :: "real list"
  assumes "sorted xs"
  shows "filter (\<lambda>t. c \<le> t) (last_n n xs) = last_n n (filter (\<lambda>t. c \<le> t) xs)"
  using assms
proof (induction xs)
  case (Cons x xs)
  show ?case
  proof (cases "c \<le> x")
    case True
    have all: "\<forall>t \<in> set (x # xs). c \<le> t" using Cons.prems True by auto
    then have "filter (\<lambda>t. c \<le> t) (x # xs) = x # xs" by (simp add: filter_id_conv)
    moreover have "filter (\<lambda>t. c \<le> t) (last_n n (x # xs)) = last_n n (x # xs)"
      using all set_last_n [of n "x # xs"] unfolding filter_id_conv by blast
    ultimately show ?thesis by simp
  next
    case False
    have "length (filter (\<lambda>t. c \<le> t) xs) \<le> length xs" by simp
    then show ?thesis using Cons False by (auto simp: last_n_Cons)
  qed
qed simp

lemma dropWhile_sorted:
  fixes q :: "real list"
  shows "sorted q \<Longrightarrow> dropWhile (\<lambda>t. t < c) q = filter (\<lambda>t. c \<le> t) q"
proof (induction q)
  case (Cons x q)
  then have "filter (\<lambda>t. c \<le> t) q = q" if "c \<le> x" using that by (auto simp: filter_id_conv)
  with Cons show ?case by (auto simp: not_less)
qed simp

section \<open>Pruning the table\<close>

definition prune_dict :: "real \<Rightarrow> 'k \<Rightarrow> ('k, real list) dict \<Rightarrow> ('k, real list) dict" where
  "prune_dict c ip d =
     (case map_of d ip of None \<Rightarrow> d
      | Some q \<Rightarrow> let q' = dropWhile (\<lambda>t. t < c) q in if q' = [] then AList.delete ip d else dset d ip q')"

text \<open>A well-formed table: non-empty sorted deques no longer than \<open>n\<close>, none later than \<open>now\<close>,
  the keys in the order of their last failure.\<close>

definition table_ok :: "nat \<Rightarrow> real \<Rightarrow> ('k, real list) dict \<Rightarrow> bool" where
  "table_ok n now d \<longleftrightarrow> wf_dict d \<and> (\<forall>(ip, q) \<in> set d. q \<noteq> [] \<and> length q \<le> n \<and> sorted q \<and> last q \<le> now)
     \<and> sorted (map (\<lambda>(_, q). last q) d)"

lemma prune_key_eq: "prune_key ip now s = s\<lparr>failures := prune_dict (now - window_s s) ip (failures s)\<rparr>"
  by (simp add: prune_key_def prune_dict_def Let_def split: option.split)

lemma fold_prune_key_eq:
  "fold (\<lambda>ip. prune_key ip now) ks s = s\<lparr>failures := fold (prune_dict (now - window_s s)) ks (failures s)\<rparr>"
  by (induction ks arbitrary: s) (simp_all add: prune_key_eq)

lemma dget_delete: "dget (AList.delete k d) l v0 = (if l = k then v0 else dget d l v0)"
  by (simp add: dget_def delete_conv')

lemma dget_prune: "dget (prune_dict c ip d) k [] = (if k = ip then dropWhile (\<lambda>t. t < c) (dget d k []) else dget d k [])"
proof (cases "map_of d ip")
  case (Some q)
  show ?thesis
  proof (cases "dropWhile (\<lambda>t. t < c) q = []")
    case True
    with Some show ?thesis
      by (simp add: prune_dict_def dget_delete dget_def [of d ip] del: dropWhile_eq_Nil_conv)
  next
    case False
    with Some show ?thesis
      by (simp add: prune_dict_def dget_def [of d ip] del: dropWhile_eq_Nil_conv)
  qed
qed (auto simp: prune_dict_def dget_def)

lemma map_dset_same:
  "wf_dict d \<Longrightarrow> map_of d k = Some q \<Longrightarrow> f q' = f q \<Longrightarrow> map (\<lambda>(_, q). f q) (dset d k q') = map (\<lambda>(_, q). f q) d"
proof (induction d)
  case (Cons p d)
  then show ?case by (cases p) (auto simp: wf_dict_def)
qed simp

lemma delete_filter: "AList.delete k d = filter (\<lambda>p. fst p \<noteq> k) d"
  by (simp add: AList.delete_eq case_prod_unfold eq_commute)

lemma table_ok_delete: "table_ok n now d \<Longrightarrow> table_ok n now (AList.delete k d)"
  by (auto simp: table_ok_def delete_filter wf_dict_def distinct_map_filter sorted_map sorted_wrt_filter)

lemma length_dset: "map_of d k = Some q \<Longrightarrow> length (dset d k q') = length d"
  by (induction d) (auto split: if_splits)

lemma last_dropWhile_ne: "dropWhile P xs \<noteq> [] \<Longrightarrow> last (dropWhile P xs) = last xs"
  by (induction xs) auto

lemma prune_dict_ok:
  assumes ok: "table_ok n now d"
  shows "table_ok n now (prune_dict c ip d) \<and> length (prune_dict c ip d) \<le> length d"
proof (cases "map_of d ip")
  case None
  with ok show ?thesis by (simp add: prune_dict_def)
next
  case (Some q)
  let ?q = "dropWhile (\<lambda>t. t < c) q"
  show ?thesis
  proof (cases "?q = []")
    case True
    have "length (AList.delete ip d) \<le> length d" by (simp add: delete_filter)
    with ok True show ?thesis by (simp add: prune_dict_def Some table_ok_delete del: dropWhile_eq_Nil_conv)
  next
    case False
    have mem: "(ip, q) \<in> set d" using Some by (rule map_of_SomeD)
    have q: "length ?q \<le> n" "sorted ?q" "last ?q = last q" "last q \<le> now"
      using ok mem False length_dropWhile_le [of "\<lambda>t. t < c" q]
      by (fastforce simp: table_ok_def sorted_dropWhile last_dropWhile_ne)+
    have "\<forall>(k, r) \<in> set (dset d ip ?q). r \<noteq> [] \<and> length r \<le> n \<and> sorted r \<and> last r \<le> now"
    proof clarify
      fix k r assume "(k, r) \<in> set (dset d ip ?q)"
      then have "(k = ip \<and> r = ?q) \<or> (k, r) \<in> set d" by (induction d) (auto split: if_splits)
      then show "r \<noteq> [] \<and> length r \<le> n \<and> sorted r \<and> last r \<le> now"
        using ok q False by (auto simp: table_ok_def)
    qed
    moreover have "map (\<lambda>(_, q). last q) (dset d ip ?q) = map (\<lambda>(_, q). last q) d"
      using ok by (intro map_dset_same [OF _ Some q(3)]) (simp add: table_ok_def)
    ultimately have "table_ok n now (dset d ip ?q)" using ok by (simp add: table_ok_def)
    with False show ?thesis by (simp add: prune_dict_def Some length_dset [OF Some] del: dropWhile_eq_Nil_conv)
  qed
qed

text \<open>The table after the prunes that open both operations.\<close>

definition pruned :: "'k \<Rightarrow> real \<Rightarrow> 'k limiter \<Rightarrow> 'k limiter" where
  "pruned ip now s = prune_key ip now (maybe_prune_all now s)"

lemma fold_prune_ok:
  "table_ok n now d \<Longrightarrow> table_ok n now (fold (prune_dict c) ks d) \<and> length (fold (prune_dict c) ks d) \<le> length d"
proof (induction ks arbitrary: d)
  case (Cons k ks)
  have p: "table_ok n now (prune_dict c k d)" "length (prune_dict c k d) \<le> length d"
    using prune_dict_ok [OF Cons.prems] by auto
  with Cons.IH [OF p(1)] show ?case by simp
qed simp

lemma dropWhile_twice: "dropWhile P (dropWhile P xs) = dropWhile P xs"
  by (induction xs) auto

lemma dget_fold_prune:
  "dget (fold (prune_dict c) ks d) k [] = (if k \<in> set ks then dropWhile (\<lambda>t. t < c) (dget d k []) else dget d k [])"
  by (induction ks arbitrary: d) (auto simp: dget_prune dropWhile_twice)

lemma pruned_fields:
  "max_keys (pruned ip now s) = max_keys s" "max_failures (pruned ip now s) = max_failures s"
  "window_s (pruned ip now s) = window_s s" "max_concurrent_auth (pruned ip now s) = max_concurrent_auth s"
  "auth_tasks (pruned ip now s) = auth_tasks s"
  by (simp_all add: pruned_def maybe_prune_all_def prune_key_eq fold_prune_key_eq Let_def)

lemma pruned_table:
  assumes "table_ok n now (failures s)"
  shows "table_ok n now (failures (pruned ip now s))" "length (failures (pruned ip now s)) \<le> length (failures s)"
  using assms fold_prune_ok [OF assms, of "now - window_s s" "keys (failures s)"]
    prune_dict_ok [of n now "fold (prune_dict (now - window_s s)) (keys (failures s)) (failures s)" "now - window_s s" ip]
    prune_dict_ok [OF assms, of "now - window_s s" ip]
  by (auto simp: pruned_def maybe_prune_all_def prune_key_eq fold_prune_key_eq Let_def)

text \<open>Pruning drops only failures before the window, and all of them for the key in question.\<close>

lemma pruned_bucket:
  "dget (failures (pruned ip now s)) k []
     \<in> {dget (failures s) k [], dropWhile (\<lambda>t. t < now - window_s s) (dget (failures s) k [])}"
  "dget (failures (pruned ip now s)) ip [] = dropWhile (\<lambda>t. t < now - window_s s) (dget (failures s) ip [])"
  by (auto simp: pruned_def maybe_prune_all_def prune_key_eq fold_prune_key_eq Let_def dget_prune dget_fold_prune
    dropWhile_twice)

lemma table_ok_later: "table_ok n now d \<Longrightarrow> now \<le> now' \<Longrightarrow> table_ok n now' d"
  by (fastforce simp: table_ok_def)

lemma sorted_le_last: "sorted xs \<Longrightarrow> x \<in> set xs \<Longrightarrow> x \<le> last xs"
  by (induction xs) auto

lemma table_ok_bucket: "table_ok n now d \<Longrightarrow> sorted (dget d k []) \<and> length (dget d k []) \<le> n
    \<and> (\<forall>t \<in> set (dget d k []). t \<le> now)"
proof (cases "map_of d k")
  case (Some q)
  assume "table_ok n now d"
  with map_of_SomeD [OF Some] have "sorted q" "length q \<le> n" "last q \<le> now" by (auto simp: table_ok_def)
  moreover have "\<forall>t \<in> set q. t \<le> now" using sorted_le_last [OF \<open>sorted q\<close>] \<open>last q \<le> now\<close> order_trans by blast
  ultimately show ?thesis by (simp add: dget_def Some)
qed (simp add: dget_def)

lemma table_ok_tl: "table_ok n now d \<Longrightarrow> table_ok n now (tl d)"
  by (cases d) (auto simp: table_ok_def wf_dict_def)

section \<open>Recording a failure\<close>

definition after_evict :: "'k \<Rightarrow> 'k limiter \<Rightarrow> ('k, real list) dict" where
  "after_evict ip s = (if ip \<in> set (keys (failures s)) then failures s
     else if length (failures s) \<ge> max_keys s then tl (failures s) else failures s)"

lemma record_failure_eq:
  assumes "wf_dict (failures (pruned ip now s))"
  shows "record_failure ip now s = (pruned ip now s)\<lparr>failures :=
      AList.delete ip (after_evict ip (pruned ip now s))
        @ [(ip, bounded_append (max_failures s) (dget (after_evict ip (pruned ip now s)) ip []) now)]\<rparr>"
proof (cases "ip \<in> set (keys (failures (pruned ip now s)))")
  case True
  then show ?thesis
    by (simp add: record_failure_def pruned_def [symmetric] Let_def after_evict_def pruned_fields)
next
  case False
  let ?e = "after_evict ip (pruned ip now s)"
  have "ip \<notin> fst ` set ?e"
    using False by (cases "failures (pruned ip now s)") (auto simp: after_evict_def)
  then have none: "map_of ?e ip = None" "ip \<notin> fst ` set ?e" by (simp_all add: map_of_eq_None_iff)
  then have "dget (?e @ [(ip, [])]) ip [] = dget ?e ip []" "AList.delete ip (?e @ [(ip, [])]) = AList.delete ip ?e"
    by (simp_all add: dget_def delete_filter map_add_def)
  with False show ?thesis
    by (simp add: record_failure_def pruned_def [symmetric] Let_def after_evict_def pruned_fields)
qed

lemma record_failure_table:
  assumes ok: "table_ok (max_failures s) now (failures s)" and pos: "0 < max_failures s" "0 < max_keys s"
    and len: "length (failures s) \<le> max_keys s"
  shows "table_ok (max_failures s) now (failures (record_failure ip now s))"
    "length (failures (record_failure ip now s)) \<le> max_keys s"
proof -
  let ?s = "pruned ip now s"
  let ?e = "after_evict ip ?s"
  have p: "table_ok (max_failures s) now (failures ?s)" "length (failures ?s) \<le> max_keys s"
    using pruned_table [OF ok, of ip] len by auto
  have wf: "wf_dict (failures ?s)" using p(1) by (simp add: table_ok_def)
  have e: "table_ok (max_failures s) now ?e" using p(1) table_ok_tl by (auto simp: after_evict_def)
  define q where "q = dget ?e ip []"
  have q: "sorted q" "\<forall>t \<in> set q. t \<le> now" using table_ok_bucket [OF e, of ip] by (auto simp: q_def)
  have new: "bounded_append (max_failures s) q now = last_n (max_failures s - 1) q @ [now]"
    using pos(1) by (simp add: bounded_append_last_n last_n_snoc)
  have sub: "set (last_n (max_failures s - 1) q) \<subseteq> set q" "sorted (last_n (max_failures s - 1) q)"
    using q(1) set_last_n by (auto simp: last_n_def sorted_wrt_drop dest: in_set_dropD)
  have d: "table_ok (max_failures s) now (AList.delete ip ?e)" using e by (rule table_ok_delete)
  have nk: "ip \<notin> fst ` set (AList.delete ip ?e)" by (auto simp: delete_filter)
  have lasts: "\<forall>x \<in> set (AList.delete ip ?e). last (snd x) \<le> now" using d by (auto simp: table_ok_def)
  have q1: "sorted (last_n (max_failures s - 1) q @ [now])" using sub q(2) by (auto simp: sorted_append)
  have q2: "length (last_n (max_failures s - 1) q @ [now]) \<le> max_failures s" using pos(1) by simp
  have l: "sorted (map (\<lambda>(_, q). last q) (AList.delete ip ?e @ [(ip, last_n (max_failures s - 1) q @ [now])]))"
    using d lasts by (auto simp: table_ok_def sorted_append)
  show "table_ok (max_failures s) now (failures (record_failure ip now s))"
    unfolding record_failure_eq [OF wf] q_def [symmetric] new
    using d nk q1 q2 l by (auto simp: table_ok_def wf_dict_def)
  have "length (AList.delete ip ?e) < max_keys s"
  proof (cases "ip \<in> set (keys (failures ?s))")
    case True
    then have "length (AList.delete ip (failures ?s)) < length (failures ?s)"
      by (auto simp: delete_filter intro: length_filter_less)
    with True p(2) show ?thesis by (simp add: after_evict_def)
  next
    case False
    have "length (AList.delete ip ?e) \<le> length ?e" by (simp add: delete_filter)
    moreover have "length ?e < max_keys s"
      using False p(2) pos(2) by (auto simp: after_evict_def pruned_fields)
    ultimately show ?thesis by simp
  qed
  then show "length (failures (record_failure ip now s)) \<le> max_keys s"
    unfolding record_failure_eq [OF wf] by simp
qed

section \<open>Against the history\<close>

definition times :: "('k \<times> real) list \<Rightarrow> 'k \<Rightarrow> real list" where
  "times h k = map snd (filter (\<lambda>p. fst p = k) h)"

lemma recent_times: "recent w now h k = filter (\<lambda>t. now - w \<le> t) (times h k)"
  by (simp add: recent_def times_def)

lemma times_snoc: "times (h @ [(ip, t)]) k = (if k = ip then times h k @ [t] else times h k)"
  by (simp add: times_def)

lemma dget_evict:
  assumes "wf_dict (failures s)"
  shows "dget (after_evict ip s) k [] \<in> {dget (failures s) k [], []}"
proof (cases "failures s")
  case (Cons p d)
  obtain l q where p: "p = (l, q)" by fastforce
  have "l \<notin> fst ` set d" using assms by (simp add: Cons p wf_dict_def)
  then have "dget d l [] = []" by (simp add: dget_notin)
  then show ?thesis by (auto simp: after_evict_def Cons p dget_def)
qed (simp add: after_evict_def)

lemma record_failure_bucket:
  assumes "wf_dict (failures (pruned ip now s))"
  shows "dget (failures (record_failure ip now s)) k [] =
    (if k = ip then bounded_append (max_failures s) (dget (after_evict ip (pruned ip now s)) ip []) now
     else dget (after_evict ip (pruned ip now s)) k [])"
  unfolding record_failure_eq [OF assms]
  by (simp add: dget_def map_add_def delete_conv' split: option.splits)

text \<open>The invariant of the machine: the table is well formed and every deque is a suffix of the
  key's history; as long as no more keys than the table holds have failed, the failures of
  the window it holds are the last of the window's history.\<close>

definition limiter_inv :: "'k config \<Rightarrow> bool" where
  "limiter_inv c = (case c of (now, s, h) \<Rightarrow>
     0 < max_failures s \<and> 0 < max_keys s \<and> 0 < window_s s
     \<and> table_ok (max_failures s) now (failures s) \<and> length (failures s) \<le> max_keys s
     \<and> length (auth_tasks s) \<le> max_concurrent_auth s
     \<and> (\<forall>k. sorted (times h k) \<and> (\<forall>t \<in> set (times h k). t \<le> now))
     \<and> (\<forall>k. suffix (dget (failures s) k []) (times h k))
     \<and> (card (fst ` set h) \<le> max_keys s \<longrightarrow>
          (\<forall>k c. now - window_s s \<le> c \<longrightarrow>
             filter (\<lambda>t. c \<le> t) (dget (failures s) k []) = filter (\<lambda>t. c \<le> t) (last_n (max_failures s) (times h k)))))"

lemma filter_dropWhile:
  fixes q :: "real list"
  assumes "sorted q" "c0 \<le> c"
  shows "filter (\<lambda>t. c \<le> t) (dropWhile (\<lambda>t. t < c0) q) = filter (\<lambda>t. c \<le> t) q"
  using assms by (auto simp: dropWhile_sorted intro: filter_cong)

lemma pruned_filter:
  assumes "table_ok n now (failures s)" "now - window_s s \<le> c"
  shows "filter (\<lambda>t. c \<le> t) (dget (failures (pruned ip now s)) k []) = filter (\<lambda>t. c \<le> t) (dget (failures s) k [])"
  using pruned_bucket(1) [of ip now s k] table_ok_bucket [OF assms(1), of k] filter_dropWhile [OF _ assms(2)] by auto

lemma pruned_suffix: "suffix (dget (failures (pruned ip now s)) k []) (dget (failures s) k [])"
  using pruned_bucket(1) [of ip now s k] by (auto simp: suffix_dropWhile)

lemma inv_check:
  assumes "limiter_inv (now, s, h)" "now \<le> now'"
  shows "limiter_inv (now', pruned ip now' s, h)"
proof -
  have t: "table_ok (max_failures s) now' (failures s)"
    using assms table_ok_later by (auto simp: limiter_inv_def)
  have "suffix (dget (failures (pruned ip now' s)) k []) (times h k)" for k
    using assms(1) pruned_suffix [of ip now' s k] suffix_order.trans by (fastforce simp: limiter_inv_def)
  moreover have "filter (\<lambda>t. c \<le> t) (dget (failures (pruned ip now' s)) k [])
      = filter (\<lambda>t. c \<le> t) (last_n (max_failures s) (times h k))"
    if "card (fst ` set h) \<le> max_keys s" "now' - window_s s \<le> c" for k c
    using assms that pruned_filter [OF t that(2)] by (auto simp: limiter_inv_def)
  moreover have "\<forall>k. sorted (times h k) \<and> (\<forall>t \<in> set (times h k). t \<le> now')"
    using assms by (auto simp: limiter_inv_def intro: order_trans)
  ultimately show ?thesis
    using assms(1) pruned_table [OF t, of ip] by (auto simp: limiter_inv_def pruned_fields)
qed

text \<open>Nothing is evicted while the history has no more keys than the table holds.\<close>

lemma no_eviction:
  assumes "table_ok n now (failures s)" "\<forall>k. suffix (dget (failures s) k []) (times h k)"
    and "card (insert ip (fst ` set h)) \<le> max_keys s"
  shows "after_evict ip s = failures s"
proof (rule ccontr)
  assume "after_evict ip s \<noteq> failures s"
  then have ip: "ip \<notin> fst ` set (failures s)" and full: "max_keys s \<le> length (failures s)"
    by (auto simp: after_evict_def split: if_splits)
  have "k \<in> fst ` set h" if "k \<in> fst ` set (failures s)" for k
  proof -
    from that obtain q where q: "(k, q) \<in> set (failures s)" by force
    then have "q \<noteq> []" "dget (failures s) k [] = q"
      using assms(1) dget_mem [OF _ q] by (auto simp: table_ok_def)
    with assms(2) have "times h k \<noteq> []" by (metis suffix_bot.extremum_uniqueI)
    then show ?thesis by (force simp: times_def filter_empty_conv)
  qed
  then have "insert ip (fst ` set (failures s)) \<subseteq> insert ip (fst ` set h)" by blast
  then have "card (insert ip (fst ` set (failures s))) \<le> max_keys s"
    using assms(3) card_mono [of "insert ip (fst ` set h)"] by (meson finite.insertI finite_imageI List.finite_set le_trans)
  moreover have "card (insert ip (fst ` set (failures s))) = Suc (length (failures s))"
    using assms(1) ip by (simp add: table_ok_def wf_dict_def distinct_card [of "keys (failures s)", simplified])
  ultimately show False using full by simp
qed

lemma last_n_snoc_last_n: "0 < n \<Longrightarrow> last_n n (last_n n xs @ [x]) = last_n n (xs @ [x])"
  by (simp add: last_n_snoc last_n_last_n)

lemma inv_failure:
  assumes "limiter_inv (now, s, h)" "now \<le> now'"
  shows "limiter_inv (now', record_failure ip now' s, h @ [(ip, now')])"
proof -
  let ?p = "pruned ip now' s"
  let ?r = "record_failure ip now' s"
  note p = inv_check [OF assms, of ip]
  have t0: "table_ok (max_failures s) now' (failures s)" using assms table_ok_later by (auto simp: limiter_inv_def)
  have pos: "0 < max_failures s" "0 < max_keys s" "length (failures s) \<le> max_keys s"
    using assms(1) by (auto simp: limiter_inv_def)
  have tp: "table_ok (max_failures s) now' (failures ?p)" using p by (simp add: limiter_inv_def pruned_fields)
  have wf: "wf_dict (failures ?p)" using tp by (simp add: table_ok_def)
  note table = record_failure_table [OF t0 pos]
  have params: "max_keys ?r = max_keys s" "max_failures ?r = max_failures s" "window_s ?r = window_s s"
    "max_concurrent_auth ?r = max_concurrent_auth s" "auth_tasks ?r = auth_tasks s"
    by (simp_all add: record_failure_eq [OF wf] pruned_fields)
  have ev: "suffix (dget (after_evict ip ?p) k []) (times h k)" for k
    using dget_evict [OF wf, of ip k] p by (auto simp: limiter_inv_def)
  have suf: "suffix (dget (failures ?r) k []) (times (h @ [(ip, now')]) k)" for k
  proof (cases "k = ip")
    case True
    have "suffix (bounded_append (max_failures s) (dget (after_evict ip ?p) ip []) now') (dget (after_evict ip ?p) ip [] @ [now'])"
      unfolding bounded_append_def by (rule suffix_drop)
    also have "suffix (dget (after_evict ip ?p) ip [] @ [now']) (times h ip @ [now'])"
      using ev [of ip] by simp
    finally (suffix_order.trans) show ?thesis using True by (simp add: record_failure_bucket [OF wf] times_snoc)
  next
    case False
    then show ?thesis using ev by (simp add: record_failure_bucket [OF wf] times_snoc)
  qed
  have hist: "sorted (times (h @ [(ip, now')]) k) \<and> (\<forall>t \<in> set (times (h @ [(ip, now')]) k). t \<le> now')" for k
    using p by (auto simp: limiter_inv_def times_snoc sorted_append)
  have exact: "filter (\<lambda>t. c \<le> t) (dget (failures ?r) k [])
      = filter (\<lambda>t. c \<le> t) (last_n (max_failures s) (times (h @ [(ip, now')]) k))"
    if small: "card (fst ` set (h @ [(ip, now')])) \<le> max_keys s" and c: "now' - window_s s \<le> c" for k c
  proof -
    have ne: "after_evict ip ?p = failures ?p"
      using tp p small by (intro no_eviction) (auto simp: limiter_inv_def pruned_fields)
    have "card (fst ` set h) \<le> max_keys s"
      using small card_insert_le [of "fst ` set h" ip] by (simp add: le_trans)
    with p c have eq: "filter (\<lambda>t. c \<le> t) (dget (failures ?p) l []) = last_n (max_failures s) (filter (\<lambda>t. c \<le> t) (times h l))" for l
      by (auto simp: limiter_inv_def pruned_fields filter_last_n)
    have sp: "sorted (dget (failures ?p) ip [] @ [now'])"
      using table_ok_bucket [OF tp, of ip] by (auto simp: sorted_append)
    have sh: "sorted (times h ip @ [now'])" using hist [of ip] by (simp add: times_snoc)
    show ?thesis
    proof (cases "k = ip")
      case True
      show ?thesis
        unfolding record_failure_bucket [OF wf] ne times_snoc
        by (simp add: True bounded_append_last_n filter_last_n sp sh eq last_n_snoc_last_n [OF pos(1)])
    next
      case False
      then show ?thesis using hist [of k]
        by (simp add: record_failure_bucket [OF wf] ne times_snoc eq filter_last_n)
    qed
  qed
  show ?thesis unfolding limiter_inv_def prod.case params
    using assms(1) pos table suf hist exact by (auto simp: limiter_inv_def)
qed

lemma inv_step: "limiter_step c c' \<Longrightarrow> limiter_inv c \<Longrightarrow> limiter_inv c'"
proof (induction rule: limiter_step.cases)
  case (check now now' s h ip)
  then show ?case using inv_check [of now s h now' ip] by (simp add: blocked_def pruned_def Let_def)
next
  case (failure now now' s h ip)
  then show ?case using inv_failure [of now s h now' ip] by simp
next
  case (start task s s' now h)
  then show ?case
    by (auto simp: start_auth_def limiter_inv_def List.insert_def split: if_splits)
next
  case (finish now s h task)
  then show ?case by (auto simp: auth_finished_def limiter_inv_def length_remove1)
qed

lemma inv_run: "limiter_run c0 c \<Longrightarrow> limiter_inv c0 \<Longrightarrow> limiter_inv c"
  by (induction rule: limiter_run.induct) (auto intro: inv_step)

lemma inv_new: "new_limiter m w now pr conc k = Inr s \<Longrightarrow> limiter_inv (now, s, [])"
  by (auto simp: new_limiter_def limiter_inv_def table_ok_def times_def Let_def split: if_splits)

section \<open>Properties\<close>

definition sample_limiter :: "int limiter" where
  "sample_limiter = \<lparr>max_keys = 2, max_failures = 2, window_s = 10, prune_interval_s = 10, max_concurrent_auth = 1,
     next_global_prune = 10, failures = [], auth_tasks = []\<rparr>"

lemma sample_limiter_new: "new_limiter 2 10 0 None 1 2 = Inr sample_limiter"
  by (simp add: new_limiter_def sample_limiter_def)

lemma sample_run:
  "limiter_run (0, sample_limiter, [])
     (3, record_failure 7 3 (record_failure 7 1 sample_limiter), [(7, 1), (7, 3)])"
proof -
  have a: "limiter_step (0, sample_limiter, []) (1, record_failure 7 1 sample_limiter, [] @ [(7, 1)])"
    by (rule limiter_step.failure) simp
  have b: "limiter_step (1, record_failure 7 1 sample_limiter, [] @ [(7, 1)])
      (3, record_failure 7 3 (record_failure 7 1 sample_limiter), ([] @ [(7, 1)]) @ [(7, 3)])"
    by (rule limiter_step.failure) simp
  show ?thesis using limiter_run.step [OF limiter_run.step [OF limiter_run.refl a] b] by simp
qed

lemma sample_params:
  "max_failures (record_failure 7 3 (record_failure 7 1 sample_limiter)) = 2"
  "max_keys (record_failure 7 3 (record_failure 7 1 sample_limiter)) = 2"
  "window_s (record_failure 7 3 (record_failure 7 1 sample_limiter)) = 10"
  by (simp_all add: record_failure_def pruned_def [symmetric] Let_def pruned_fields sample_limiter_def)

text \<open>
  The limiter's memory is bounded whatever requests arrive: in every reachable state it
  tracks at most the configured number of addresses, keeps at most the configured number of
  failures of each, forgets them in the order of the last failure, and never runs more
  verifications at once than it has slots.
\<close>

theorem limiter_bounded:
  assumes "new_limiter m w t0 prune conc k = Inr s0"
    and "limiter_run (t0, s0, []) (now, s, h)"
  shows "length (failures s) \<le> max_keys s \<and> distinct (keys (failures s))
    \<and> (\<forall>(ip, q) \<in> set (failures s). q \<noteq> [] \<and> length q \<le> max_failures s \<and> sorted q)
    \<and> sorted (map (\<lambda>(_, q). last q) (failures s))
    \<and> length (auth_tasks s) \<le> max_concurrent_auth s"
  using inv_run [OF assms(2) inv_new [OF assms(1)]]
  by (auto simp: limiter_inv_def table_ok_def wf_dict_def)

theorem limiter_bounded_witness:
  "length (failures (record_failure (7 :: int) 3 (record_failure 7 1 sample_limiter))) \<le> 2"
  using limiter_bounded [OF sample_limiter_new sample_run] by (simp add: sample_params)

text \<open>
  C23. An address is blocked only if the history holds that many failures of it inside the
  window that ends now, so a full table never blocks a new address; and as long as no more
  addresses than the table holds have failed, it is blocked exactly then.
\<close>

theorem limiter_blocks_exactly:
  assumes "new_limiter m w t0 prune conc k = Inr s0"
    and "limiter_run (t0, s0, []) (now, s, h)" and "now \<le> now'"
  shows "(fst (blocked ip now' s) \<longrightarrow> max_failures s \<le> length (recent (window_s s) now' h ip))
    \<and> (card (fst ` set h) \<le> max_keys s \<longrightarrow>
         (fst (blocked ip now' s) \<longleftrightarrow> max_failures s \<le> length (recent (window_s s) now' h ip)))"
proof -
  let ?p = "pruned ip now' s"
  let ?c = "now' - window_s s"
  have inv: "limiter_inv (now, s, h)" using inv_run [OF assms(2) inv_new [OF assms(1)]] .
  have inv': "limiter_inv (now', ?p, h)" using inv_check [OF inv assms(3)] .
  have t: "table_ok (max_failures s) now' (failures s)"
    using inv assms(3) table_ok_later by (auto simp: limiter_inv_def)
  have bl: "fst (blocked ip now' s) \<longleftrightarrow> max_failures s \<le> length (dget (failures ?p) ip [])"
    by (simp add: blocked_def pruned_def [symmetric] Let_def pruned_fields)
  have q: "dget (failures ?p) ip [] = filter (\<lambda>t. ?c \<le> t) (dget (failures ?p) ip [])"
    using table_ok_bucket [OF t, of ip] by (simp add: pruned_bucket(2) dropWhile_sorted)
  have "suffix (dget (failures ?p) ip []) (times h ip)" using inv' by (simp add: limiter_inv_def)
  then obtain xs where "times h ip = xs @ dget (failures ?p) ip []" by (auto simp: suffix_def)
  then have "length (filter (\<lambda>t. ?c \<le> t) (dget (failures ?p) ip [])) \<le> length (recent (window_s s) now' h ip)"
    by (simp add: recent_times)
  then have le: "length (dget (failures ?p) ip []) \<le> length (recent (window_s s) now' h ip)" using q by simp
  have eq: "length (dget (failures ?p) ip []) = min (max_failures s) (length (recent (window_s s) now' h ip))"
    if "card (fst ` set h) \<le> max_keys s"
  proof -
    have "sorted (times h ip)" using inv' by (simp add: limiter_inv_def)
    moreover have "filter (\<lambda>t. ?c \<le> t) (dget (failures ?p) ip []) = filter (\<lambda>t. ?c \<le> t) (last_n (max_failures s) (times h ip))"
      using inv' that by (simp add: limiter_inv_def pruned_fields)
    ultimately show ?thesis using q by (simp add: filter_last_n recent_times)
  qed
  show ?thesis using le eq by (auto simp: bl)
qed

theorem limiter_blocks_exactly_witness:
  "fst (blocked (7 :: int) 4 (record_failure 7 3 (record_failure 7 1 sample_limiter)))
   \<and> \<not> fst (blocked 7 12 (record_failure 7 3 (record_failure 7 1 sample_limiter)))"
  using limiter_blocks_exactly [OF sample_limiter_new sample_run, of 4 7]
    limiter_blocks_exactly [OF sample_limiter_new sample_run, of 12 7]
  by (simp add: recent_def sample_params)

end
