(* ===== verification/JsonData.thy ===== *)
theory JsonData imports PyData begin

text \<open>
  Decoded JSON as Python has it: objects keep insertion order and unique keys, integers are
  unbounded, floats are reals or one of the three non-finite values, and a string is its
  list of code points, so that a lone surrogate can occur. Comparisons between integers and
  floats are exact; \<open>float(v)\<close> of an integer too large for a double raises
  \<open>OverflowError\<close>. Rounding of a float conversion is not modelled.
\<close>

datatype pyfloat = Fin real | PosInf | NegInf | NaN

type_synonym ustr = "int list"

definition ustr :: "string \<Rightarrow> ustr" where
  "ustr s = map of_char s"

lemma ustr_inj [simp]: "ustr s = ustr t \<longleftrightarrow> s = t"
proof -
  have "inj (of_char :: char \<Rightarrow> int)" by (auto simp: inj_def)
  then show ?thesis by (simp add: ustr_def inj_map_eq_map)
qed

datatype json =
    JNull
  | JBool bool
  | JInt int
  | JFloat pyfloat
  | JStr ustr
  | JArr "json list"
  | JObj "(ustr \<times> json) list"

text \<open>\<open>obj.get(key)\<close> as a value or \<open>None\<close>, and \<open>obj.get(key, default)\<close>.\<close>

definition jget :: "(ustr \<times> json) list \<Rightarrow> string \<Rightarrow> json" where
  "jget d k = dget d (ustr k) JNull"

definition jget_or :: "(ustr \<times> json) list \<Rightarrow> string \<Rightarrow> json \<Rightarrow> json" where
  "jget_or d k dflt = dget d (ustr k) dflt"

section \<open>Numbers\<close>

text \<open>\<open>isinstance(v, (int, float)) and not isinstance(v, bool)\<close>.\<close>

definition is_number :: "json \<Rightarrow> bool" where
  "is_number v \<longleftrightarrow> (case v of JInt _ \<Rightarrow> True | JFloat _ \<Rightarrow> True | _ \<Rightarrow> False)"

text \<open>The exact value of a number, for comparisons.\<close>

definition num_value :: "json \<Rightarrow> pyfloat" where
  "num_value v = (case v of JInt i \<Rightarrow> Fin (of_int i) | JFloat x \<Rightarrow> x | _ \<Rightarrow> NaN)"

text \<open>\<open>a <= b\<close> and \<open>a < b\<close>; every comparison with a NaN is false.\<close>

fun float_le :: "pyfloat \<Rightarrow> pyfloat \<Rightarrow> bool" where
  "float_le NaN _ = False"
| "float_le _ NaN = False"
| "float_le NegInf _ = True"
| "float_le _ PosInf = True"
| "float_le (Fin x) (Fin y) = (x \<le> y)"
| "float_le _ _ = False"

fun float_lt :: "pyfloat \<Rightarrow> pyfloat \<Rightarrow> bool" where
  "float_lt NaN _ = False"
| "float_lt _ NaN = False"
| "float_lt (Fin x) (Fin y) = (x < y)"
| "float_lt NegInf NegInf = False"
| "float_lt NegInf _ = True"
| "float_lt PosInf _ = False"
| "float_lt (Fin x) PosInf = True"
| "float_lt (Fin x) NegInf = False"

definition is_finite :: "pyfloat \<Rightarrow> bool" where
  "is_finite x \<longleftrightarrow> (case x of Fin _ \<Rightarrow> True | _ \<Rightarrow> False)"

text \<open>Integers of this magnitude and above do not fit a double.\<close>

definition float_limit :: int where
  "float_limit = 2 ^ 1024 - 2 ^ 970"

definition to_float :: "json \<Rightarrow> pyfloat result" where
  "to_float v = (case v of
     JInt i \<Rightarrow> if \<bar>i\<bar> < float_limit then Inr (Fin (of_int i)) else Inl OverflowError
   | JFloat x \<Rightarrow> Inr x
   | _ \<Rightarrow> Inl TypeError)"

text \<open>\<open>math.isfinite(v)\<close> converts its argument to a double.\<close>

definition math_isfinite :: "json \<Rightarrow> bool result" where
  "math_isfinite v = res_bind (to_float v) (\<lambda>x. Inr (is_finite x))"

lemma float_le_Fin [simp]: "float_le (Fin x) y \<longleftrightarrow> y = PosInf \<or> (\<exists>z. y = Fin z \<and> x \<le> z)"
  by (cases y) auto

lemma float_le_Fin2 [simp]: "float_le y (Fin x) \<longleftrightarrow> y = NegInf \<or> (\<exists>z. y = Fin z \<and> z \<le> x)"
  by (cases y) auto

lemma float_lt_Fin [simp]: "float_lt (Fin x) y \<longleftrightarrow> y = PosInf \<or> (\<exists>z. y = Fin z \<and> x < z)"
  by (cases y) auto

lemma float_lt_Fin2 [simp]: "float_lt y (Fin x) \<longleftrightarrow> y = NegInf \<or> (\<exists>z. y = Fin z \<and> z < x)"
  by (cases y) auto

section \<open>\<open>app/validation.py\<close>\<close>

definition parse_finite_number :: "json \<Rightarrow> real option \<Rightarrow> real option \<Rightarrow> real option result" where
  "parse_finite_number v lo hi =
     (if \<not> is_number v then Inr None
      else res_bind (to_float v) (\<lambda>x.
        case x of
          Fin r \<Rightarrow>
            if (case lo of Some m \<Rightarrow> r < m | None \<Rightarrow> False) then Inr None
            else if (case hi of Some m \<Rightarrow> r > m | None \<Rightarrow> False) then Inr None
            else Inr (Some r)
        | _ \<Rightarrow> Inr None))"

definition topic_char :: "int \<Rightarrow> bool" where
  "topic_char c \<longleftrightarrow> (65 \<le> c \<and> c \<le> 90) \<or> (97 \<le> c \<and> c \<le> 122) \<or> (48 \<le> c \<and> c \<le> 57) \<or> c = 95 \<or> c = 45"

definition is_valid_ntfy_topic :: "json \<Rightarrow> bool" where
  "is_valid_ntfy_topic v \<longleftrightarrow> (case v of
     JStr s \<Rightarrow> 1 \<le> length s \<and> length s \<le> 64 \<and> (\<forall>c \<in> set s. topic_char c) | _ \<Rightarrow> False)"

lemma parse_finite_number_Some:
  "parse_finite_number v lo hi = Inr (Some r) \<Longrightarrow>
     is_number v \<and> num_value v = Fin r \<and> (\<forall>m. lo = Some m \<longrightarrow> m \<le> r) \<and> (\<forall>m. hi = Some m \<longrightarrow> r \<le> m)"
  by (auto simp: parse_finite_number_def is_number_def num_value_def to_float_def res_bind_def
    split: json.splits if_splits pyfloat.splits option.splits)

lemma parse_finite_number_error:
  "parse_finite_number v lo hi = Inl e \<Longrightarrow> e = OverflowError \<and> (\<exists>i. v = JInt i \<and> float_limit \<le> \<bar>i\<bar>)"
  by (auto simp: parse_finite_number_def is_number_def to_float_def res_bind_def
    split: json.splits if_splits pyfloat.splits option.splits)

lemma parse_finite_number_huge:
  "float_limit \<le> \<bar>i\<bar> \<Longrightarrow> parse_finite_number (JInt i) lo hi = Inl OverflowError"
  by (simp add: parse_finite_number_def is_number_def to_float_def)

section \<open>Characters a jsonb column refuses\<close>

definition surrogate :: "int \<Rightarrow> bool" where
  "surrogate c \<longleftrightarrow> 0xD800 \<le> c \<and> c \<le> 0xDFFF"

fun string_reason :: "ustr \<Rightarrow> string option" where
  "string_reason [] = None"
| "string_reason (c # s) =
     (if c = 0 then Some ''NUL character in payload''
      else if surrogate c then Some ''unpaired surrogate in payload''
      else string_reason s)"

text \<open>\<open>_unstorable_char_reason\<close>: keys and values, in order, the first reason found.\<close>

fun unstorable_char_reason :: "json \<Rightarrow> string option"
  and unstorable_items :: "(ustr \<times> json) list \<Rightarrow> string option"
  and unstorable_list :: "json list \<Rightarrow> string option" where
  "unstorable_char_reason (JStr s) = string_reason s"
| "unstorable_char_reason (JObj d) = unstorable_items d"
| "unstorable_char_reason (JArr xs) = unstorable_list xs"
| "unstorable_char_reason JNull = None"
| "unstorable_char_reason (JBool _) = None"
| "unstorable_char_reason (JInt _) = None"
| "unstorable_char_reason (JFloat _) = None"
| "unstorable_items [] = None"
| "unstorable_items ((k, v) # d) =
     (case string_reason k of Some r \<Rightarrow> Some r
      | None \<Rightarrow> (case unstorable_char_reason v of Some r \<Rightarrow> Some r | None \<Rightarrow> unstorable_items d))"
| "unstorable_list [] = None"
| "unstorable_list (v # xs) =
     (case unstorable_char_reason v of Some r \<Rightarrow> Some r | None \<Rightarrow> unstorable_list xs)"

text \<open>All strings of a value, keys included, and whether every number in it is finite.\<close>

fun strings_of :: "json \<Rightarrow> ustr list" and strings_items :: "(ustr \<times> json) list \<Rightarrow> ustr list"
  and strings_list :: "json list \<Rightarrow> ustr list" where
  "strings_of (JStr s) = [s]"
| "strings_of (JObj d) = strings_items d"
| "strings_of (JArr xs) = strings_list xs"
| "strings_of JNull = []"
| "strings_of (JBool _) = []"
| "strings_of (JInt _) = []"
| "strings_of (JFloat _) = []"
| "strings_items [] = []"
| "strings_items ((k, v) # d) = k # strings_of v @ strings_items d"
| "strings_list [] = []"
| "strings_list (v # xs) = strings_of v @ strings_list xs"

fun all_finite :: "json \<Rightarrow> bool" and all_finite_items :: "(ustr \<times> json) list \<Rightarrow> bool"
  and all_finite_list :: "json list \<Rightarrow> bool" where
  "all_finite (JFloat x) = is_finite x"
| "all_finite (JObj d) = all_finite_items d"
| "all_finite (JArr xs) = all_finite_list xs"
| "all_finite JNull = True"
| "all_finite (JBool _) = True"
| "all_finite (JInt _) = True"
| "all_finite (JStr _) = True"
| "all_finite_items [] = True"
| "all_finite_items ((k, v) # d) = (all_finite v \<and> all_finite_items d)"
| "all_finite_list [] = True"
| "all_finite_list (v # xs) = (all_finite v \<and> all_finite_list xs)"

definition storable_string :: "ustr \<Rightarrow> bool" where
  "storable_string s \<longleftrightarrow> (\<forall>c \<in> set s. c \<noteq> 0 \<and> \<not> surrogate c)"

lemma string_reason_None: "string_reason s = None \<longleftrightarrow> storable_string s"
  by (induction s) (auto simp: storable_string_def)

lemma unstorable_None:
  "unstorable_char_reason v = None \<longleftrightarrow> (\<forall>s \<in> set (strings_of v). storable_string s)"
  "unstorable_items d = None \<longleftrightarrow> (\<forall>s \<in> set (strings_items d). storable_string s)"
  "unstorable_list xs = None \<longleftrightarrow> (\<forall>s \<in> set (strings_list xs). storable_string s)"
  by (induction v and d and xs rule: unstorable_char_reason_unstorable_items_unstorable_list.induct)
     (auto simp flip: string_reason_None simp: ball_Un bex_Un split: option.splits)

end
