(* ===== verification/Ingest.thy ===== *)
theory Ingest imports JsonData begin

text \<open>
  The OwnTracks and Traccar endpoints of \<open>app/ingest.py\<close>: the capped body, the validation and
  normalisation of a fix, and one ingest request from its decoded body to the stored rows
  and the answer. \<open>json.loads\<close>, \<open>parse_qsl\<close>, the database's jsonb rendering (\<open>canon\<close>), the
  admission check and the faults a statement can raise are inputs of a request; the two
  tables are lists. A request's transaction either commits whole or changes nothing.
\<close>

section \<open>The capped body\<close>

definition is_digit :: "char \<Rightarrow> bool" where
  "is_digit c \<longleftrightarrow> CHR ''0'' \<le> c \<and> c \<le> CHR ''9''"

text \<open>\<open>int(text)\<close>: surrounding whitespace, a sign, digits with single underscores between.\<close>

fun digits_ok :: "string \<Rightarrow> bool" where
  "digits_ok [] = False"
| "digits_ok [c] = is_digit c"
| "digits_ok (c # d # s) = (is_digit c \<and> (if d = CHR ''_'' then digits_ok s else digits_ok (d # s)))"

definition digits_value :: "string \<Rightarrow> int" where
  "digits_value s = foldl (\<lambda>n c. 10 * n + (of_char c - 48)) 0 s"

definition py_int :: "string \<Rightarrow> int option" where
  "py_int s =
     (let t = strip s; neg = (t \<noteq> [] \<and> hd t = CHR ''-'');
          body = (if t \<noteq> [] \<and> hd t \<in> {CHR ''-'', CHR ''+''} then tl t else t);
          ds = filter (\<lambda>c. c \<noteq> CHR ''_'') body
      in if digits_ok body \<and> length ds \<le> 4300
         then Some (if neg then - digits_value ds else digits_value ds) else None)"

text \<open>The loop over the stream: the chunks read so far and their total.\<close>

fun read_chunks :: "int \<Rightarrow> 'a list list \<Rightarrow> 'a list \<Rightarrow> int \<Rightarrow> 'a list option" where
  "read_chunks max_bytes [] body tot = Some body"
| "read_chunks max_bytes (c # cs) body tot =
     (if tot + int (length c) > max_bytes then None
      else read_chunks max_bytes cs (body @ c) (tot + int (length c)))"

definition read_capped_body :: "string option \<Rightarrow> 'a list list \<Rightarrow> int \<Rightarrow> 'a list option" where
  "read_capped_body content_length chunks max_bytes =
     (if (case content_length of None \<Rightarrow> False
          | Some s \<Rightarrow> (case py_int s of None \<Rightarrow> False | Some n \<Rightarrow> n > max_bytes)) then None
      else read_chunks max_bytes chunks [] 0)"

section \<open>Readings\<close>

definition MAX_TST :: real where "MAX_TST = 4102444800"
definition MAX_FUTURE_SKEW :: int where "MAX_FUTURE_SKEW = seconds 300"
definition MAX_ABS_READING :: real where "MAX_ABS_READING = 1000000000"

text \<open>\<open>datetime.fromtimestamp(tst, tz=utc)\<close> rounds to the microsecond, ties to even.\<close>

definition from_timestamp :: "real \<Rightarrow> instant" where
  "from_timestamp tst = round_half_even (tst * 1000000)"

definition num_reading :: "json \<Rightarrow> real option" where
  "num_reading v =
     (if \<not> is_number v then None
      else case to_float v of
        Inl _ \<Rightarrow> None
      | Inr (Fin r) \<Rightarrow> if \<bar>r\<bar> > MAX_ABS_READING then None else Some r
      | Inr _ \<Rightarrow> None)"

definition int_reading :: "json \<Rightarrow> int option" where
  "int_reading v =
     (case num_reading v of None \<Rightarrow> None
      | Some r \<Rightarrow> if 0 \<le> r \<and> r \<le> 100 then Some \<lfloor>r\<rfloor> else None)"

definition between :: "real \<Rightarrow> pyfloat \<Rightarrow> real \<Rightarrow> bool" where
  "between a x b \<longleftrightarrow> float_le (Fin a) x \<and> float_le x (Fin b)"

text \<open>\<open>_validate_location\<close>: the reason to drop a fix, or \<open>None\<close> for a usable one.\<close>

definition validate_location :: "instant \<Rightarrow> (ustr \<times> json) list \<Rightarrow> string option" where
  "validate_location now payload =
     (let lat = jget payload ''lat''; lon = jget payload ''lon''; tst = jget payload ''tst''; t = jget payload ''t''
      in if \<not> is_number lat then Some ''missing/non-numeric lat''
         else if \<not> is_number lon then Some ''missing/non-numeric lon''
         else if \<not> is_number tst then Some ''missing/non-numeric tst''
         else if \<not> between (- 90) (num_value lat) 90 \<or> \<not> between (- 180) (num_value lon) 180
         then Some ''lat/lon out of range''
         else if num_value lat = Fin 0 \<and> num_value lon = Fin 0 then Some ''null island (0,0)''
         else case math_isfinite tst of
           Inl _ \<Rightarrow> Some ''tst out of range''
         | Inr fin \<Rightarrow>
             if \<not> fin then Some ''non-finite tst''
             else if float_le (num_value tst) (Fin 0) \<or> float_lt (Fin MAX_TST) (num_value tst)
             then Some ''tst out of range''
             else case num_value tst of
               Fin r \<Rightarrow>
                 if from_timestamp r > now + MAX_FUTURE_SKEW then Some ''tst in the future (device clock skew)''
                 else (case t of JNull \<Rightarrow> None | JStr _ \<Rightarrow> None | _ \<Rightarrow> Some ''non-string t'')
             | _ \<Rightarrow> Some ''non-finite tst'')"

text \<open>\<open>_discarded_type_for_log\<close>: never the content of anything but a string's first 40
  characters; \<open>shown\<close> is \<open>repr\<close>.\<close>

definition discarded_type_for_log :: "(ustr \<Rightarrow> string) \<Rightarrow> (ustr \<times> json) list \<Rightarrow> string" where
  "discarded_type_for_log shown payload =
     (case map_of payload (ustr ''_type'') of
        None \<Rightarrow> ''missing''
      | Some v \<Rightarrow> (case v of
          JStr s \<Rightarrow> shown (take 40 s)
        | JNull \<Rightarrow> ''<null>'' | JBool _ \<Rightarrow> ''<bool>'' | JObj _ \<Rightarrow> ''<dict>'' | JArr _ \<Rightarrow> ''<list>''
        | JInt _ \<Rightarrow> ''<int>'' | JFloat _ \<Rightarrow> ''<float>''))"

text \<open>\<open>_jsonb_encode\<close>: the reason a payload cannot be stored; \<open>too_deep\<close> says that the
  encoders' recursion limit is reached.\<close>

definition jsonb_reason :: "(json \<Rightarrow> bool) \<Rightarrow> json \<Rightarrow> string option" where
  "jsonb_reason too_deep payload =
     (if \<not> all_finite payload then Some ''non-finite number in payload''
      else if too_deep payload then Some ''payload nested too deeply''
      else unstorable_char_reason payload)"

section \<open>Traccar forms\<close>

datatype qsl = QslPairs "(ustr \<times> ustr) list" | QslNotAscii | QslInvalid

fun traccar_fields :: "(ustr \<times> ustr) list \<Rightarrow> (ustr, ustr) dict \<Rightarrow> (ustr, ustr) dict \<times> string option" where
  "traccar_fields [] fields = (fields, None)"
| "traccar_fields ((name, value) # ps) fields =
     (if name \<in> set (keys fields) then ([], Some ''repeated form field'')
      else if name \<noteq> [] \<and> hd name = 95 then ([], Some ''reserved form field name'')
      else traccar_fields ps (dset fields name value))"

definition parse_traccar_form :: "qsl \<Rightarrow> (ustr, ustr) dict \<times> string option" where
  "parse_traccar_form q = (case q of
     QslNotAscii \<Rightarrow> ([], Some ''body is not URL-encoded UTF-8'')
   | QslInvalid \<Rightarrow> ([], Some ''unparseable or too many form fields'')
   | QslPairs ps \<Rightarrow> traccar_fields ps [])"

text \<open>The decimal notation: sign, digits with an optional point, an optional exponent.\<close>

definition udigit :: "int \<Rightarrow> bool" where "udigit c \<longleftrightarrow> 48 \<le> c \<and> c \<le> 57"

definition usign :: "ustr \<Rightarrow> int \<times> ustr" where
  "usign s = (case s of c # r \<Rightarrow> if c = 45 then (- 1, r) else if c = 43 then (1, r) else (1, s) | [] \<Rightarrow> (1, []))"

definition udigits_value :: "ustr \<Rightarrow> int" where
  "udigits_value s = foldl (\<lambda>n c. 10 * n + (c - 48)) 0 s"

text \<open>The digits before and after the point, and what follows them.\<close>

definition mantissa :: "ustr \<Rightarrow> (ustr \<times> ustr \<times> ustr) option" where
  "mantissa s =
     (let ip = takeWhile udigit s; r = dropWhile udigit s
      in if r \<noteq> [] \<and> hd r = 46
         then let fp = takeWhile udigit (tl r)
              in if ip = [] \<and> fp = [] then None else Some (ip, fp, dropWhile udigit (tl r))
         else if ip = [] then None else Some (ip, [], r))"

definition exponent :: "ustr \<Rightarrow> int option" where
  "exponent s =
     (case s of [] \<Rightarrow> Some 0
      | c # r \<Rightarrow>
          if c = 101 \<or> c = 69
          then (case usign r of (sg, ds) \<Rightarrow>
             if ds \<noteq> [] \<and> list_all udigit ds then Some (sg * udigits_value ds) else None)
          else None)"

definition ten_power :: "int \<Rightarrow> real" where
  "ten_power e = (if e \<ge> 0 then 10 ^ nat e else 1 / 10 ^ nat (- e))"

definition decimal_value :: "ustr \<Rightarrow> real option" where
  "decimal_value s =
     (case usign s of (sg, r) \<Rightarrow>
        (case mantissa r of None \<Rightarrow> None
         | Some (ip, fp, rest) \<Rightarrow>
             (case exponent rest of None \<Rightarrow> None
              | Some e \<Rightarrow> Some (of_int (sg * udigits_value (ip @ fp)) * ten_power (e - int (length fp))))))"

definition traccar_number :: "ustr option \<Rightarrow> real option" where
  "traccar_number value =
     (case value of None \<Rightarrow> None
      | Some s \<Rightarrow> if length s > 64 then None
          else (case decimal_value s of None \<Rightarrow> None
                | Some r \<Rightarrow> if \<bar>r\<bar> < of_int float_limit then Some r else None))"

definition traccar_fix :: "(ustr, ustr) dict \<Rightarrow> (ustr \<times> json) list" where
  "traccar_fix fields =
     List.map_filter (\<lambda>(key, name). map_option (\<lambda>r. (ustr key, JFloat (Fin r))) (traccar_number (map_of fields (ustr name))))
       [(''lat'', ''lat''), (''lon'', ''lon''), (''tst'', ''timestamp''), (''acc'', ''accuracy''),
        (''alt'', ''altitude''), (''batt'', ''batt'')]
     @ (case traccar_number (map_of fields (ustr ''speed'')) of None \<Rightarrow> []
        | Some v \<Rightarrow> [(ustr ''vel'', JFloat (Fin (v * 1.852)))])"

definition traccar_device :: "(ustr, ustr) dict \<Rightarrow> ustr" where
  "traccar_device fields =
     (let d = take 100 (dget fields (ustr ''id'') []) in if d = [] then ustr ''default'' else d)"

section \<open>The stored rows\<close>

record point_row =
  pt_stream :: int
  pt_device :: ustr
  pt_recorded_at :: instant
  pt_lon :: real
  pt_lat :: real
  pt_accuracy :: "real option"
  pt_velocity :: "real option"
  pt_altitude :: "real option"
  pt_battery :: "int option"
  pt_trigger :: "ustr option"

datatype namespace = DeviceNs int | CredentialNs string

record raw_row =
  rw_namespace :: namespace
  rw_payload :: json

record ingest_db =
  raw_messages :: "raw_row list"
  points :: "point_row list"

definition real_of_num :: "json \<Rightarrow> real" where
  "real_of_num v = (case num_value v of Fin r \<Rightarrow> r | _ \<Rightarrow> 0)"

definition point_of_fix :: "int \<Rightarrow> ustr \<Rightarrow> (ustr \<times> json) list \<Rightarrow> point_row" where
  "point_of_fix stream device fix' =
     \<lparr>pt_stream = stream, pt_device = device,
      pt_recorded_at = from_timestamp (real_of_num (jget fix' ''tst'')),
      pt_lon = real_of_num (jget fix' ''lon''), pt_lat = real_of_num (jget fix' ''lat''),
      pt_accuracy = num_reading (jget fix' ''acc''), pt_velocity = num_reading (jget fix' ''vel''),
      pt_altitude = num_reading (jget fix' ''alt''), pt_battery = int_reading (jget fix' ''batt''),
      pt_trigger = (case jget fix' ''t'' of JStr s \<Rightarrow> Some s | _ \<Rightarrow> None)\<rparr>"

text \<open>\<open>INSERT ... ON CONFLICT (tracking_device_id, recorded_at) DO NOTHING\<close>.\<close>

definition insert_point :: "int \<Rightarrow> ustr \<Rightarrow> (ustr \<times> json) list \<Rightarrow> ingest_db \<Rightarrow> ingest_db" where
  "insert_point stream device fix' db =
     (let p = point_of_fix stream device fix'
      in if \<exists>q \<in> set (points db). pt_stream q = pt_stream p \<and> pt_recorded_at q = pt_recorded_at p then db
         else db\<lparr>points := points db @ [p]\<rparr>)"

text \<open>\<open>_store_raw\<close>: false for an exact replay in the same namespace.\<close>

definition store_raw :: "(json \<Rightarrow> 'c) \<Rightarrow> namespace \<Rightarrow> json \<Rightarrow> ingest_db \<Rightarrow> bool \<times> ingest_db" where
  "store_raw canon ns payload db =
     (if \<exists>r \<in> set (raw_messages db). rw_namespace r = ns \<and> canon (rw_payload r) = canon payload then (False, db)
      else (True, db\<lparr>raw_messages := raw_messages db @ [\<lparr>rw_namespace = ns, rw_payload = payload\<rparr>]\<rparr>))"

section \<open>One request\<close>

datatype answer = Ok200 | Unauthorized401 | Busy503 int | Raised

text \<open>What the admission of the sender, inside the transaction, comes to.\<close>

datatype admission = Admitted | NotFound | NoPrivilege | LockTimeout | AdmissionFault

text \<open>A fault of the statements after admission.\<close>

datatype fault = NoFault | PrivilegeFault | LockFault | CapacityFault | OtherFault

text \<open>\<open>_admitted_write\<close>: \<open>write\<close> answers with the new database and whether to wake the detector;
  any exception rolls the transaction back.\<close>

definition admitted_write ::
  "admission \<Rightarrow> fault \<Rightarrow> bool \<Rightarrow> (ingest_db \<Rightarrow> ingest_db \<times> bool) \<Rightarrow> ingest_db \<Rightarrow> answer \<times> ingest_db \<times> bool" where
  "admitted_write adm flt touches write db =
     (case adm of
        NotFound \<Rightarrow> (Unauthorized401, db, False)
      | NoPrivilege \<Rightarrow> (Unauthorized401, db, False)
      | LockTimeout \<Rightarrow> (Busy503 1, db, False)
      | AdmissionFault \<Rightarrow> (Raised, db, False)
      | Admitted \<Rightarrow>
          (if \<not> touches then (Ok200, db, False)
           else case flt of
             NoFault \<Rightarrow> (case write db of (db', poke) \<Rightarrow> (Ok200, db', poke))
           | LockFault \<Rightarrow> (Busy503 1, db, False)
           | CapacityFault \<Rightarrow> (Busy503 60, db, False)
           | PrivilegeFault \<Rightarrow> (Raised, db, False)
           | OtherFault \<Rightarrow> (Raised, db, False)))"

text \<open>Store the raw message and, when it is new and its fix usable, the point.\<close>

definition store_message ::
  "(json \<Rightarrow> 'c) \<Rightarrow> namespace \<Rightarrow> json \<Rightarrow> (int \<times> ustr \<times> (ustr \<times> json) list) option \<Rightarrow> ingest_db \<Rightarrow> ingest_db \<times> bool" where
  "store_message canon ns payload point db =
     (case store_raw canon ns payload db of (fresh, db') \<Rightarrow>
        if \<not> fresh then (db', True)
        else case point of None \<Rightarrow> (db', False)
             | Some (stream, device, fix') \<Rightarrow> (insert_point stream device fix' db', True))"

definition STORED_MESSAGE_TYPES :: "string list" where
  "STORED_MESSAGE_TYPES = [''location'', ''transition'', ''waypoint'', ''waypoints'']"

definition stored_type :: "(ustr \<times> json) list \<Rightarrow> bool" where
  "stored_type payload \<longleftrightarrow> (case jget payload ''_type'' of JStr s \<Rightarrow> s \<in> set (map ustr STORED_MESSAGE_TYPES) | _ \<Rightarrow> False)"

record ingest_principal =
  ip_public_id :: string
  ip_device :: "int option"

text \<open>\<open>str(payload.get("tid") or "default")\<close>; \<open>text_of\<close> is \<open>str\<close> of a value that is not a string.\<close>

definition falsy :: "json \<Rightarrow> bool" where
  "falsy v = (case v of JNull \<Rightarrow> True | JBool b \<Rightarrow> \<not> b | JInt i \<Rightarrow> i = 0 | JFloat x \<Rightarrow> x = Fin 0
     | JStr s \<Rightarrow> s = [] | JArr xs \<Rightarrow> xs = [] | JObj d \<Rightarrow> d = [])"

definition label_of :: "(json \<Rightarrow> ustr) \<Rightarrow> (ustr \<times> json) list \<Rightarrow> ustr" where
  "label_of text_of payload =
     (let v = jget payload ''tid''
      in if falsy v then ustr ''default'' else case v of JStr s \<Rightarrow> s | _ \<Rightarrow> text_of v)"

text \<open>The environment of a request: what the database and the libraries answer.\<close>

record 'c env =
  ev_now :: instant
  ev_canon :: "json \<Rightarrow> 'c"
  ev_too_deep :: "json \<Rightarrow> bool"
  ev_text_of :: "json \<Rightarrow> ustr"
  ev_resolve :: "ustr \<Rightarrow> int"
  ev_admission :: admission
  ev_fault :: fault

text \<open>What the body of an OwnTracks request is.\<close>

datatype owntracks_body = TooLarge | Blank | Unparseable | Decoded json

definition ingest_owntracks ::
  "'c env \<Rightarrow> ingest_principal \<Rightarrow> owntracks_body \<Rightarrow> ingest_db \<Rightarrow> answer \<times> ingest_db \<times> bool" where
  "ingest_owntracks ev cred body db =
     (case body of
        TooLarge \<Rightarrow> (Ok200, db, False)
      | Blank \<Rightarrow> (Ok200, db, False)
      | Unparseable \<Rightarrow> (Ok200, db, False)
      | Decoded (JObj payload) \<Rightarrow>
          (if jsonb_reason (ev_too_deep ev) (JObj payload) \<noteq> None then (Ok200, db, False)
           else let location = (jget payload ''_type'' = JStr (ustr ''location''));
                    reason = (if location then validate_location (ev_now ev) payload else None);
                    label = label_of (ev_text_of ev) payload;
                    stream = (if location \<and> reason = None then Some (ev_resolve ev label) else ip_device cred);
                    ns = (case stream of Some d \<Rightarrow> DeviceNs d | None \<Rightarrow> CredentialNs (ip_public_id cred));
                    point = (if location \<and> reason = None then map_option (\<lambda>d. (d, label, payload)) stream else None)
                in admitted_write (ev_admission ev) (ev_fault ev) (stored_type payload)
                     (store_message (ev_canon ev) ns (JObj payload) point) db)
      | Decoded _ \<Rightarrow> (Ok200, db, False))"

text \<open>A Traccar request; the credential is a device's. \<open>None\<close> stands for an oversized body.\<close>

definition ingest_traccar ::
  "'c env \<Rightarrow> int \<Rightarrow> qsl option \<Rightarrow> ingest_db \<Rightarrow> answer \<times> ingest_db \<times> bool" where
  "ingest_traccar ev stream body db =
     (case body of
        None \<Rightarrow> (Ok200, db, False)
      | Some q \<Rightarrow>
          (case parse_traccar_form q of
             (form, Some reason) \<Rightarrow> (Ok200, db, False)
           | (form, None) \<Rightarrow>
               if ustr ''lat'' \<notin> set (keys form) \<and> ustr ''lon'' \<notin> set (keys form) then (Ok200, db, False)
               else let payload = map (\<lambda>(k, v). (k, JStr v)) form @ [(ustr ''_source'', JStr (ustr ''traccar''))]
                    in if jsonb_reason (ev_too_deep ev) (JObj payload) \<noteq> None then (Ok200, db, False)
                       else let fix' = traccar_fix form; device = traccar_device form;
                                point = (if validate_location (ev_now ev) fix' = None then Some (stream, device, fix') else None)
                            in admitted_write (ev_admission ev) (ev_fault ev) True
                                 (store_message (ev_canon ev) (DeviceNs stream) (JObj payload) point) db))"

datatype request = OwnTracks ingest_principal owntracks_body | Traccar int "qsl option"

definition handle :: "'c env \<Rightarrow> request \<Rightarrow> ingest_db \<Rightarrow> answer \<times> ingest_db \<times> bool" where
  "handle ev req db =
     (case req of OwnTracks cred body \<Rightarrow> ingest_owntracks ev cred body db
      | Traccar stream body \<Rightarrow> ingest_traccar ev stream body db)"

definition db_after :: "answer \<times> ingest_db \<times> bool \<Rightarrow> ingest_db" where
  "db_after r = fst (snd r)"

definition ingest_run :: "('c env \<times> request) list \<Rightarrow> ingest_db \<Rightarrow> ingest_db" where
  "ingest_run reqs db = fold (\<lambda>(ev, req) db. db_after (handle ev req db)) reqs db"

section \<open>What a request does\<close>

text \<open>Every request either leaves the database alone or stores one message, whose payload is
  storable, under one namespace, with at most one validated point.\<close>

definition allowed_payload :: "json \<Rightarrow> bool" where
  "allowed_payload v \<longleftrightarrow> all_finite v \<and> (\<forall>s \<in> set (strings_of v). storable_string s)
     \<and> (\<exists>d. v = JObj d \<and> (stored_type d \<or> jget d ''_source'' = JStr (ustr ''traccar'')))"

inductive accepts :: "'c env \<Rightarrow> request \<Rightarrow> namespace \<Rightarrow> json \<Rightarrow> (int \<times> ustr \<times> (ustr \<times> json) list) option \<Rightarrow> bool"
  for ev req where
  "allowed_payload payload \<Longrightarrow>
   (\<And>st dev fx. point = Some (st, dev, fx) \<Longrightarrow> validate_location (ev_now ev) fx = None) \<Longrightarrow>
   (\<And>db. handle ev req db = admitted_write (ev_admission ev) (ev_fault ev) True
      (store_message (ev_canon ev) ns payload point) db) \<Longrightarrow>
   accepts ev req ns payload point"

definition drops :: "'c env \<Rightarrow> request \<Rightarrow> bool" where
  "drops ev req \<longleftrightarrow> (\<forall>db. handle ev req db = (Ok200, db, False))
     \<or> (\<forall>db. handle ev req db = admitted_write (ev_admission ev) (ev_fault ev) False (\<lambda>db. (db, False)) db)"

lemma jsonb_reason_None:
  "jsonb_reason deep v = None \<Longrightarrow> all_finite v \<and> (\<forall>s \<in> set (strings_of v). storable_string s)"
  by (auto simp: jsonb_reason_def unstorable_None split: if_splits)

lemma owntracks_cases: "drops ev (OwnTracks cred body) \<or> (\<exists>ns payload point. accepts ev (OwnTracks cred body) ns payload point)"
proof (cases "\<exists>payload. body = Decoded (JObj payload) \<and> jsonb_reason (ev_too_deep ev) (JObj payload) = None")
  case False
  then have "handle ev (OwnTracks cred body) db = (Ok200, db, False)" for db
    by (auto simp: handle_def ingest_owntracks_def split: owntracks_body.split json.split)
  then show ?thesis by (simp add: drops_def)
next
  case True
  then obtain payload where b: "body = Decoded (JObj payload)" and r: "jsonb_reason (ev_too_deep ev) (JObj payload) = None"
    by blast
  define ok where "ok \<longleftrightarrow> jget payload ''_type'' = JStr (ustr ''location'')
    \<and> validate_location (ev_now ev) payload = None"
  define stream where "stream = (if ok then Some (ev_resolve ev (label_of (ev_text_of ev) payload)) else ip_device cred)"
  define ns where "ns = (case stream of Some d \<Rightarrow> DeviceNs d | None \<Rightarrow> CredentialNs (ip_public_id cred))"
  define point where "point = (if ok then map_option (\<lambda>d. (d, label_of (ev_text_of ev) payload, payload)) stream else None)"
  have eq: "handle ev (OwnTracks cred body) db = admitted_write (ev_admission ev) (ev_fault ev) (stored_type payload)
      (store_message (ev_canon ev) ns (JObj payload) point) db" for db
    by (auto simp: handle_def ingest_owntracks_def b r Let_def ok_def stream_def ns_def point_def)
  show ?thesis
  proof (cases "stored_type payload")
    case False
    then show ?thesis unfolding drops_def eq by (auto simp: admitted_write_def split: admission.splits)
  next
    case True
    have "accepts ev (OwnTracks cred body) ns (JObj payload) point"
    proof (rule accepts.intros)
      show "allowed_payload (JObj payload)" using jsonb_reason_None [OF r] True by (simp add: allowed_payload_def)
      show "validate_location (ev_now ev) fx = None" if "point = Some (st, dev, fx)" for st dev fx
        using that by (auto simp: point_def ok_def split: if_splits option.splits)
    qed (simp add: eq True)
    then show ?thesis by blast
  qed
qed

lemma traccar_form_names:
  "traccar_fields ps d = (form, None) \<Longrightarrow> ustr ''_source'' \<notin> set (keys d) \<Longrightarrow> ustr ''_source'' \<notin> set (keys form)"
proof (induction ps d rule: traccar_fields.induct)
  case (2 n v ps d)
  have n: "n \<notin> set (keys d)" "\<not> (n \<noteq> [] \<and> hd n = 95)" and r: "traccar_fields ps (dset d n v) = (form, None)"
    using 2(2) by (auto split: if_splits)
  have "n \<noteq> ustr ''_source''" using n(2) by (auto simp: ustr_def)
  with 2(1) [OF n r] 2(3) show ?case by (simp add: update_keys)
qed simp

lemma map_of_map_None: "k \<notin> fst ` set d \<Longrightarrow> map_of (map (\<lambda>(k, v). (k, f v)) d) k = None"
  by (induction d) auto

lemma traccar_cases: "drops ev (Traccar stream body) \<or> (\<exists>ns payload point. accepts ev (Traccar stream body) ns payload point)"
proof (cases "\<exists>q form. body = Some q \<and> parse_traccar_form q = (form, None)
    \<and> (ustr ''lat'' \<in> set (keys form) \<or> ustr ''lon'' \<in> set (keys form))
    \<and> jsonb_reason (ev_too_deep ev) (JObj (map (\<lambda>(k, v). (k, JStr v)) form @ [(ustr ''_source'', JStr (ustr ''traccar''))])) = None")
  case False
  have "handle ev (Traccar stream body) db = (Ok200, db, False)" for db
  proof (cases body)
    case (Some q)
    obtain form rs where p: "parse_traccar_form q = (form, rs)" by fastforce
    show ?thesis
    proof (cases rs)
      case None
      with p have p': "parse_traccar_form q = (form, None)" by simp
      have "\<not> (ustr ''lat'' \<in> set (keys form) \<or> ustr ''lon'' \<in> set (keys form))
          \<or> jsonb_reason (ev_too_deep ev) (JObj (map (\<lambda>(k, v). (k, JStr v)) form @ [(ustr ''_source'', JStr (ustr ''traccar''))])) \<noteq> None"
        using False [unfolded not_ex, rule_format, of q form] Some p' by argo
      then show ?thesis
        by (elim disjE; simp add: handle_def ingest_traccar_def Let_def Some p' del: set_map not_None_eq)
    qed (simp add: handle_def ingest_traccar_def Some p)
  qed (simp add: handle_def ingest_traccar_def)
  then show ?thesis by (simp add: drops_def)
next
  case True
  then obtain q form where q: "body = Some q" "parse_traccar_form q = (form, None)"
    "ustr ''lat'' \<in> set (keys form) \<or> ustr ''lon'' \<in> set (keys form)"
    and r: "jsonb_reason (ev_too_deep ev) (JObj (map (\<lambda>(k, v). (k, JStr v)) form @ [(ustr ''_source'', JStr (ustr ''traccar''))])) = None"
    by blast
  let ?d = "map (\<lambda>(k, v). (k, JStr v)) form @ [(ustr ''_source'', JStr (ustr ''traccar''))]"
  let ?point = "if validate_location (ev_now ev) (traccar_fix form) = None
    then Some (stream, traccar_device form, traccar_fix form) else None"
  have "ustr ''_source'' \<notin> set (keys form)"
    using q(2) traccar_form_names [of _ "[]" form] by (cases q) (simp_all add: parse_traccar_form_def)
  then have "map_of ?d (ustr ''_source'') = Some (JStr (ustr ''traccar''))"
    by (simp add: map_add_def map_of_map_None)
  then have src: "jget ?d ''_source'' = JStr (ustr ''traccar'')" by (simp add: jget_def dget_def)
  have "accepts ev (Traccar stream body) (DeviceNs stream) (JObj ?d) ?point"
  proof (rule accepts.intros)
    show "allowed_payload (JObj ?d)" using jsonb_reason_None [OF r] src by (simp add: allowed_payload_def)
    show "validate_location (ev_now ev) fx = None" if "?point = Some (st, dev, fx)" for st dev fx
      using that by (auto split: if_splits)
    show "handle ev (Traccar stream body) db = admitted_write (ev_admission ev) (ev_fault ev) True
        (store_message (ev_canon ev) (DeviceNs stream) (JObj ?d) ?point) db" for db
      using q(3) by (elim disjE; simp add: handle_def ingest_traccar_def Let_def q(1,2) r del: set_map)
  qed
  then show ?thesis by blast
qed

lemma request_cases:
  obtains (drop) "drops ev req" | (store) ns payload point where "accepts ev req ns payload point"
  using owntracks_cases traccar_cases by (cases req) blast+

section \<open>Points\<close>

definition valid_point :: "point_row \<Rightarrow> bool" where
  "valid_point p \<longleftrightarrow> \<bar>pt_lat p\<bar> \<le> 90 \<and> \<bar>pt_lon p\<bar> \<le> 180 \<and> \<not> (pt_lat p = 0 \<and> pt_lon p = 0)
     \<and> 0 \<le> pt_recorded_at p \<and> pt_recorded_at p \<le> seconds 4102444800
     \<and> (\<forall>r. pt_accuracy p = Some r \<or> pt_velocity p = Some r \<or> pt_altitude p = Some r \<longrightarrow> \<bar>r\<bar> \<le> MAX_ABS_READING)
     \<and> (\<forall>b. pt_battery p = Some b \<longrightarrow> 0 \<le> b \<and> b \<le> 100)"

lemma num_reading_bound: "num_reading v = Some r \<Longrightarrow> \<bar>r\<bar> \<le> MAX_ABS_READING"
  by (auto simp: num_reading_def split: if_splits sum.splits pyfloat.splits)

lemma int_reading_bound: "int_reading v = Some b \<Longrightarrow> 0 \<le> b \<and> b \<le> 100"
  by (auto simp: int_reading_def split: option.splits if_splits)

lemma round_half_even_mono0: "0 \<le> x \<Longrightarrow> 0 \<le> round_half_even x"
  by (simp add: round_half_even_def Let_def)

lemma round_half_even_le: "x \<le> of_int n \<Longrightarrow> round_half_even x \<le> n"
proof -
  assume x: "x \<le> of_int n"
  show ?thesis
  proof (cases "x = of_int n")
    case True
    then show ?thesis by (simp add: round_half_even_def)
  next
    case False
    with x have "\<lfloor>x\<rfloor> < n" by linarith
    then show ?thesis by (simp add: round_half_even_def Let_def)
  qed
qed

lemma validate_location_None:
  assumes "validate_location now d = None"
  obtains lat lon tst where "num_value (jget d ''lat'') = Fin lat" "num_value (jget d ''lon'') = Fin lon"
    "num_value (jget d ''tst'') = Fin tst" "\<bar>lat\<bar> \<le> 90" "\<bar>lon\<bar> \<le> 180" "\<not> (lat = 0 \<and> lon = 0)"
    "0 < tst" "tst \<le> MAX_TST" "from_timestamp tst \<le> now + MAX_FUTURE_SKEW"
proof -
  have c: "between (- 90) (num_value (jget d ''lat'')) 90" "between (- 180) (num_value (jget d ''lon'')) 180"
    "\<not> (num_value (jget d ''lat'') = Fin 0 \<and> num_value (jget d ''lon'') = Fin 0)"
    using assms by (auto simp: validate_location_def Let_def split: if_splits)
  obtain lat lon where l: "num_value (jget d ''lat'') = Fin lat" "num_value (jget d ''lon'') = Fin lon"
    "- 90 \<le> lat" "lat \<le> 90" "- 180 \<le> lon" "lon \<le> 180"
    using c(1,2) by (auto simp: between_def)
  obtain tst where t: "num_value (jget d ''tst'') = Fin tst" "\<not> tst \<le> 0" "\<not> MAX_TST < tst"
    "from_timestamp tst \<le> now + MAX_FUTURE_SKEW"
    using assms by (auto simp: validate_location_def Let_def not_less split: if_splits sum.splits pyfloat.splits)
  show thesis using l t c(3) by (intro that [of lat lon tst]) (auto simp: abs_le_iff)
qed

lemma point_of_fix_valid:
  assumes "validate_location now d = None"
  shows "valid_point (point_of_fix stream device d)
    \<and> pt_recorded_at (point_of_fix stream device d) \<le> now + MAX_FUTURE_SKEW"
proof (rule validate_location_None [OF assms])
  fix lat lon tst
  assume n: "num_value (jget d ''lat'') = Fin lat" "num_value (jget d ''lon'') = Fin lon"
    "num_value (jget d ''tst'') = Fin tst"
    and b: "\<bar>lat\<bar> \<le> 90" "\<bar>lon\<bar> \<le> 180" "\<not> (lat = 0 \<and> lon = 0)" "0 < tst" "tst \<le> MAX_TST"
    "from_timestamp tst \<le> now + MAX_FUTURE_SKEW"
  have "0 \<le> from_timestamp tst" using b(4) by (simp add: from_timestamp_def round_half_even_mono0)
  moreover have "from_timestamp tst \<le> seconds 4102444800"
    using b(5) unfolding from_timestamp_def by (intro round_half_even_le) (simp add: seconds_def MAX_TST_def)
  ultimately show ?thesis
    using n b num_reading_bound int_reading_bound
    by (auto simp: valid_point_def point_of_fix_def real_of_num_def)
qed

text \<open>What the tables hold: storable payloads, valid points, one point per stream and instant,
  one message per namespace and canonical text.\<close>

definition db_inv :: "(json \<Rightarrow> 'c) \<Rightarrow> ingest_db \<Rightarrow> bool" where
  "db_inv canon db \<longleftrightarrow> (\<forall>p \<in> set (points db). valid_point p)
     \<and> (\<forall>r \<in> set (raw_messages db). allowed_payload (rw_payload r))
     \<and> distinct (map (\<lambda>p. (pt_stream p, pt_recorded_at p)) (points db))
     \<and> distinct (map (\<lambda>r. (rw_namespace r, canon (rw_payload r))) (raw_messages db))"

lemma insert_point_inv:
  assumes "db_inv canon db" "validate_location now d = None"
  shows "db_inv canon (insert_point st dev d db)"
  using assms point_of_fix_valid [OF assms(2), of st dev]
  by (auto simp: insert_point_def db_inv_def Let_def)

lemma store_raw_inv:
  assumes "db_inv canon db" "allowed_payload payload"
  shows "db_inv canon (snd (store_raw canon ns payload db))"
  using assms by (auto simp: store_raw_def db_inv_def)

lemma store_message_inv:
  assumes "db_inv canon db" "allowed_payload payload"
    and "\<And>st dev fx. point = Some (st, dev, fx) \<Longrightarrow> validate_location now fx = None"
  shows "db_inv canon (fst (store_message canon ns payload point db))"
proof -
  obtain fresh db' where r: "store_raw canon ns payload db = (fresh, db')" by fastforce
  have "db_inv canon db'" using store_raw_inv [OF assms(1,2), of ns] by (simp add: r)
  then show ?thesis using insert_point_inv assms(3)
    by (auto simp: store_message_def r split: option.split)
qed

lemma admitted_write_inv:
  "db_inv canon db \<Longrightarrow> db_inv canon (fst (write db)) \<Longrightarrow> db_inv canon (db_after (admitted_write adm flt touches write db))"
  by (auto simp: admitted_write_def db_after_def split: admission.split fault.split prod.split)

lemma drops_unchanged: "drops ev req \<Longrightarrow> db_after (handle ev req db) = db"
  unfolding drops_def db_after_def by (elim disjE) (simp_all add: admitted_write_def split: admission.split)

lemma handle_inv:
  assumes "db_inv (ev_canon ev) db"
  shows "db_inv (ev_canon ev) (db_after (handle ev req db))"
proof (rule request_cases [of ev req])
  assume "drops ev req"
  then show ?thesis using assms by (simp add: drops_unchanged)
next
  fix ns payload point
  assume "accepts ev req ns payload point"
  then have h: "handle ev req db = admitted_write (ev_admission ev) (ev_fault ev) True (store_message (ev_canon ev) ns payload point) db"
    and ok: "allowed_payload payload" "\<And>st dev fx. point = Some (st, dev, fx) \<Longrightarrow> validate_location (ev_now ev) fx = None"
    by (auto elim: accepts.cases)
  show ?thesis unfolding h by (rule admitted_write_inv [OF assms]) (rule store_message_inv [OF assms ok(1)], rule ok(2))
qed

lemma handle_new_point:
  assumes "p \<in> set (points (db_after (handle ev req db)))" "p \<notin> set (points db)"
  shows "pt_recorded_at p \<le> ev_now ev + MAX_FUTURE_SKEW"
proof (rule request_cases [of ev req])
  assume "drops ev req"
  with assms show ?thesis by (simp add: drops_unchanged)
next
  fix ns payload point
  assume "accepts ev req ns payload point"
  then have h: "handle ev req db = admitted_write (ev_admission ev) (ev_fault ev) True (store_message (ev_canon ev) ns payload point) db"
    and ok: "\<And>st dev fx. point = Some (st, dev, fx) \<Longrightarrow> validate_location (ev_now ev) fx = None"
    by (auto elim: accepts.cases)
  have "p \<in> set (points (fst (store_message (ev_canon ev) ns payload point db)))"
    using assms unfolding h by (auto simp: admitted_write_def db_after_def split: admission.splits fault.splits prod.splits)
  then obtain st dev fx where "point = Some (st, dev, fx)" "p = point_of_fix st dev fx"
    using assms(2) by (auto simp: store_message_def store_raw_def insert_point_def Let_def split: option.splits if_splits)
  then show ?thesis using point_of_fix_valid [OF ok] by simp
qed

lemma insert_point_again:
  assumes "points d = points (insert_point st dev fx e)"
  shows "insert_point st dev fx d = d"
proof -
  let ?p = "point_of_fix st dev fx"
  have "\<exists>q \<in> set (points (insert_point st dev fx e)). pt_stream q = pt_stream ?p \<and> pt_recorded_at q = pt_recorded_at ?p"
    by (simp add: insert_point_def Let_def)
  then have "\<exists>q \<in> set (points d). pt_stream q = pt_stream ?p \<and> pt_recorded_at q = pt_recorded_at ?p"
    by (simp only: assms)
  then show ?thesis by (simp only: insert_point_def Let_def if_True)
qed

section \<open>Properties\<close>

definition sample_env :: "json env" where
  "sample_env = \<lparr>ev_now = seconds 1700000100, ev_canon = id, ev_too_deep = (\<lambda>_. False), ev_text_of = (\<lambda>_. []),
     ev_resolve = (\<lambda>_. 3), ev_admission = Admitted, ev_fault = NoFault\<rparr>"

definition sample_principal :: ingest_principal where
  "sample_principal = \<lparr>ip_public_id = ''pub'', ip_device = Some 3\<rparr>"

definition sample_fix :: request where
  "sample_fix = OwnTracks sample_principal (Decoded (JObj [(ustr ''_type'', JStr (ustr ''location'')),
     (ustr ''lat'', JFloat (Fin 45.5)), (ustr ''lon'', JInt 7), (ustr ''tst'', JInt 1700000000), (ustr ''batt'', JInt 80)]))"

definition sample_dump :: request where
  "sample_dump = OwnTracks sample_principal (Decoded (JObj [(ustr ''_type'', JStr (ustr ''dump'')), (ustr ''password'', JStr (ustr ''x''))]))"

text \<open>
  C21. Whatever messages arrive, the store stays sound: every point has coordinates on the
  globe other than (0, 0), a time between the epoch and 2100, bounded optional readings and
  a battery level from 0 to 100, and one stream has one point per instant; every raw message
  has only finite numbers and storable characters, is of a stored OwnTracks type or a
  Traccar form (so a configuration dump is never kept) and is kept once per sender; and a
  point added by a request is at most five minutes in the future.
\<close>

theorem ingest_store_sound:
  assumes "\<forall>(ev, req) \<in> set reqs. ev_canon ev = canon"
  defines "db \<equiv> ingest_run reqs \<lparr>raw_messages = [], points = []\<rparr>"
  shows "(\<forall>p \<in> set (points db). valid_point p)
    \<and> (\<forall>r \<in> set (raw_messages db). allowed_payload (rw_payload r))
    \<and> distinct (map (\<lambda>p. (pt_stream p, pt_recorded_at p)) (points db))
    \<and> distinct (map (\<lambda>r. (rw_namespace r, canon (rw_payload r))) (raw_messages db))
    \<and> (\<forall>p \<in> set (points (db_after (handle ev req db))) - set (points db). pt_recorded_at p \<le> ev_now ev + MAX_FUTURE_SKEW)"
proof -
  have run: "db_inv canon (ingest_run reqs d)" if "db_inv canon d" for d
    using assms(1) that
  proof (induction reqs arbitrary: d)
    case (Cons r reqs)
    obtain ev req where r: "r = (ev, req)" by fastforce
    with Cons.prems have "db_inv canon (db_after (handle ev req d))" using handle_inv [of ev d req] by simp
    with Cons.IH Cons.prems(1) show ?case by (simp add: ingest_run_def r)
  qed (simp add: ingest_run_def)
  have "db_inv canon db" unfolding db_def by (rule run) (simp add: db_inv_def)
  moreover have "\<forall>p \<in> set (points (db_after (handle ev req db))) - set (points db). pt_recorded_at p \<le> ev_now ev + MAX_FUTURE_SKEW"
    using handle_new_point by blast
  ultimately show ?thesis by (simp add: db_inv_def)
qed

theorem ingest_store_sound_witness:
  "length (points (ingest_run [(sample_env, sample_fix), (sample_env, sample_dump), (sample_env, sample_fix)] \<lparr>raw_messages = [], points = []\<rparr>)) = 1
   \<and> distinct (map (\<lambda>r. (rw_namespace r, id (rw_payload r)))
       (raw_messages (ingest_run [(sample_env, sample_fix), (sample_env, sample_dump), (sample_env, sample_fix)] \<lparr>raw_messages = [], points = []\<rparr>)))"
proof
  show "length (points (ingest_run [(sample_env, sample_fix), (sample_env, sample_dump), (sample_env, sample_fix)] \<lparr>raw_messages = [], points = []\<rparr>)) = 1"
    by code_simp
  show "distinct (map (\<lambda>r. (rw_namespace r, id (rw_payload r)))
       (raw_messages (ingest_run [(sample_env, sample_fix), (sample_env, sample_dump), (sample_env, sample_fix)] \<lparr>raw_messages = [], points = []\<rparr>)))"
    using ingest_store_sound [of "[(sample_env, sample_fix), (sample_env, sample_dump), (sample_env, sample_fix)]" id sample_env sample_fix]
    by (simp add: sample_env_def)
qed

text \<open>
  C22. The answers keep a phone from losing a fix: a sender is told it is unauthorised only when
  admission refused it, never after; any answer other than success leaves the database as
  it was and wakes nothing; and an admitted request without a database fault succeeds,
  whatever the message holds.
\<close>

theorem ingest_answers:
  assumes "handle ev req db = (ans, db', poke)"
  shows "(ans = Unauthorized401 \<longrightarrow> ev_admission ev = NotFound \<or> ev_admission ev = NoPrivilege)
    \<and> (ans \<noteq> Ok200 \<longrightarrow> db' = db \<and> \<not> poke)
    \<and> (ev_admission ev = Admitted \<and> ev_fault ev = NoFault \<longrightarrow> ans = Ok200)"
proof (rule request_cases [of ev req])
  assume "drops ev req"
  with assms show ?thesis
    unfolding drops_def by (elim disjE) (auto simp: admitted_write_def split: admission.splits)
next
  fix ns payload point
  assume "accepts ev req ns payload point"
  then have "handle ev req db = admitted_write (ev_admission ev) (ev_fault ev) True (store_message (ev_canon ev) ns payload point) db"
    by (auto elim: accepts.cases)
  with assms show ?thesis by (auto simp: admitted_write_def split: admission.splits fault.splits prod.splits)
qed

theorem ingest_answers_witness:
  "fst (handle sample_env sample_dump \<lparr>raw_messages = [], points = []\<rparr>) = Ok200"
proof -
  obtain ans db' poke where h: "handle sample_env sample_dump \<lparr>raw_messages = [], points = []\<rparr> = (ans, db', poke)"
    by (metis prod_cases3)
  show ?thesis using ingest_answers [OF h] h by (simp add: sample_env_def)
qed

text \<open>
  Redelivery is harmless: after a delivery that stored the message, the same request
  succeeds again, changes nothing and wakes the detector; and even when retention has
  meanwhile deleted raw messages, it adds no point.
\<close>

theorem ingest_redelivery:
  assumes "handle ev req db = (Ok200, db', poke)" and "raw_messages db' \<noteq> raw_messages db"
  shows "handle ev req db' = (Ok200, db', True)
    \<and> points (db_after (handle ev req (db'\<lparr>raw_messages := kept\<rparr>))) = points db'"
proof (rule request_cases [of ev req])
  assume "drops ev req"
  with assms drops_unchanged [of ev req db] show ?thesis by (simp add: db_after_def)
next
  fix ns payload point
  assume "accepts ev req ns payload point"
  then have h: "handle ev req d = admitted_write (ev_admission ev) (ev_fault ev) True (store_message (ev_canon ev) ns payload point) d" for d
    by (auto elim: accepts.cases)
  have adm: "ev_admission ev = Admitted" "ev_fault ev = NoFault" and w: "store_message (ev_canon ev) ns payload point db = (db', poke)"
    using assms unfolding h by (auto simp: admitted_write_def split: admission.splits fault.splits prod.splits)
  let ?row = "\<lparr>rw_namespace = ns, rw_payload = payload\<rparr>"
  have fresh: "store_raw (ev_canon ev) ns payload db = (True, db\<lparr>raw_messages := raw_messages db @ [?row]\<rparr>)"
    using w assms(2) by (auto simp: store_message_def store_raw_def split: if_splits)
  have db': "db' = (case point of None \<Rightarrow> db\<lparr>raw_messages := raw_messages db @ [?row]\<rparr>
      | Some (st, dev, fx) \<Rightarrow> insert_point st dev fx (db\<lparr>raw_messages := raw_messages db @ [?row]\<rparr>))"
    using w by (auto simp: store_message_def fresh split: option.splits)
  have "raw_messages db' = raw_messages db @ [?row]"
    unfolding db' by (auto simp: insert_point_def Let_def split: option.split)
  then have "store_raw (ev_canon ev) ns payload db' = (False, db')" by (auto simp: store_raw_def)
  then have "handle ev req db' = (Ok200, db', True)"
    by (simp add: h adm admitted_write_def store_message_def)
  moreover have here: "insert_point st dev fx d = d" if "point = Some (st, dev, fx)" "points d = points db'" for st dev fx d
    using that(2) by (intro insert_point_again) (simp add: db' that(1))
  have "points (db_after (handle ev req (db'\<lparr>raw_messages := kept\<rparr>))) = points db'"
    by (auto simp: h adm admitted_write_def store_message_def store_raw_def db_after_def here split: option.split prod.split)
  ultimately show ?thesis by simp
qed

theorem ingest_redelivery_witness:
  "handle sample_env sample_fix (db_after (handle sample_env sample_fix \<lparr>raw_messages = [], points = []\<rparr>))
     = (Ok200, db_after (handle sample_env sample_fix \<lparr>raw_messages = [], points = []\<rparr>), True)"
proof -
  let ?d = "\<lparr>raw_messages = [], points = []\<rparr> :: ingest_db"
  obtain ans db' poke where h: "handle sample_env sample_fix ?d = (ans, db', poke)" by (metis prod_cases3)
  have "fst (handle sample_env sample_fix ?d) = Ok200" by code_simp
  moreover have "length (raw_messages (db_after (handle sample_env sample_fix ?d))) = 1" by code_simp
  ultimately have "ans = Ok200" "raw_messages db' \<noteq> raw_messages ?d" by (auto simp: h db_after_def)
  with ingest_redelivery [of sample_env sample_fix ?d db' poke "[]"] h show ?thesis by (simp add: db_after_def)
qed

text \<open>
  The body reader never hands on more than the cap: it returns the concatenation of the
  chunks exactly when the stream is within the cap and a declared length, where it is a
  number, is too.
\<close>

theorem capped_body_exact:
  "read_capped_body content_length chunks max_bytes =
     (if (\<forall>s n. content_length = Some s \<and> py_int s = Some n \<longrightarrow> n \<le> max_bytes)
         \<and> (chunks = [] \<or> int (length (concat chunks)) \<le> max_bytes)
      then Some (concat chunks) else None)"
proof -
  have "read_chunks max_bytes cs body tot = (if cs = [] \<or> tot + int (length (concat cs)) \<le> max_bytes
      then Some (body @ concat cs) else None)" for cs body tot
  proof (induction cs arbitrary: body tot)
    case (Cons c cs)
    have "0 \<le> int (length (concat cs))" by simp
    then show ?case using Cons by (cases "cs = []") (auto simp: add.assoc)
  qed simp
  from this [of chunks "[]" 0]
  have r: "read_chunks max_bytes chunks [] 0
      = (if chunks = [] \<or> int (length (concat chunks)) \<le> max_bytes then Some (concat chunks) else None)" by simp
  show ?thesis
  proof (cases content_length)
    case (Some s)
    then show ?thesis by (cases "py_int s") (simp_all add: read_capped_body_def r)
  qed (simp add: read_capped_body_def r)
qed

theorem capped_body_exact_witness:
  "read_capped_body (Some '' 7 '') [[1 :: int, 2], [3]] 4 = None \<and> read_capped_body None [[1 :: int, 2], [3]] 4 = Some [1, 2, 3]"
proof
  have "py_int '' 7 '' = Some 7" by code_simp
  then show "read_capped_body (Some '' 7 '') [[1 :: int, 2], [3]] 4 = None" by (simp add: capped_body_exact)
  show "read_capped_body None [[1 :: int, 2], [3]] 4 = Some [1, 2, 3]" by (simp add: capped_body_exact)
qed

end
