(* ===== verification/CapacityTypes.thy ===== *)
theory CapacityTypes imports JsonData begin

text \<open>
  The configuration check and the admission manager of \<open>app/capacity.py\<close>. A configuration is a
  partial map from setting names to Python values; a setting that is absent takes its
  default. The manager keeps, per lane, the active owners and the queue of tickets; a
  future is its owner's entry in \<open>cm_futures\<close>. The asynchronous methods are cut at their
  \<open>await\<close>s into operations on the manager at a time \<open>now\<close> of the event loop.
\<close>

section \<open>Configuration\<close>

type_synonym capacity_config = "string \<Rightarrow> json option"

definition cfg_value :: "capacity_config \<Rightarrow> string \<Rightarrow> json \<Rightarrow> json" where
  "cfg_value config name dflt = (case config name of None \<Rightarrow> dflt | Some v \<Rightarrow> v)"

definition slot_defaults :: "(string \<times> int) list" where
  "slot_defaults = [(''ingest'', 2), (''routine'', 1), (''navigation'', 1), (''foreground'', 1),
     (''background'', 1), (''ingest_identity'', 1), (''identity'', 1), (''lifecycle'', 1), (''mail'', 2),
     (''auth_ingest'', 2), (''auth_interactive'', 1)]"

definition as_int :: "json \<Rightarrow> int option" where
  "as_int v = (case v of JInt i \<Rightarrow> Some i | _ \<Rightarrow> None)"

definition caps_of :: "capacity_config \<Rightarrow> (string \<times> json) list" where
  "caps_of config = map (\<lambda>(name, d). (name, cfg_value config (name @ ''_slots'') (JInt d))) slot_defaults"

definition cap_int :: "(string \<times> json) list \<Rightarrow> string \<Rightarrow> int" where
  "cap_int caps name = (case map_of caps name of Some (JInt i) \<Rightarrow> i | _ \<Rightarrow> 0)"

definition runtime_lanes :: "string list" where
  "runtime_lanes = [''ingest'', ''routine'', ''navigation'', ''foreground'', ''background'']"

definition control_lanes :: "string list" where
  "control_lanes = [''ingest_identity'', ''identity'', ''lifecycle'', ''mail'']"

definition slot_maxima :: "(string \<times> int) list" where
  "slot_maxima = [(''routine'', 1), (''navigation'', 1), (''foreground'', 1), (''background'', 1),
     (''ingest_identity'', 1), (''identity'', 1), (''mail'', 2), (''auth_ingest'', 2), (''auth_interactive'', 1)]"

text \<open>Name, default and maximum of a pending limit.\<close>

definition pending_limits :: "(string \<times> int \<times> int) list" where
  "pending_limits = [(''ingest'', 4, 4), (''routine'', 4, 4), (''navigation'', 4, 4), (''foreground'', 4, 4),
     (''identity'', 4, 4), (''auth_ingest'', 8, 8), (''ingest_identity'', 1, 1)]"

definition time_defaults :: "(string \<times> real) list" where
  "time_defaults = [(''ingest_wait_s'', 1 / 4), (''routine_wait_s'', 1), (''navigation_wait_s'', 1),
     (''foreground_wait_s'', 2), (''identity_wait_s'', 1), (''auth_ingest_wait_s'', 1),
     (''ingest_identity_wait_s'', 1 / 4), (''auth_body_timeout_s'', 15), (''ingest_body_timeout_s'', 15),
     (''import_body_timeout_s'', 60), (''response_timeout_s'', 60), (''routine_sql_timeout_s'', 5),
     (''operation_sql_timeout_s'', 15), (''lock_timeout_s'', 1)]"

definition wait_maxima :: "(string \<times> real) list" where
  "wait_maxima = [(''auth_ingest_wait_s'', 1), (''ingest_identity_wait_s'', 1 / 4), (''navigation_wait_s'', 1)]"

definition input_bounds :: "(string \<times> int \<times> int) list" where
  "input_bounds = [(''auth_form_max_bytes'', 65536, 65536), (''basic_header_max_bytes'', 8192, 8192),
     (''multipart_overhead_bytes'', 65536, 65536), (''multipart_max_fields'', 16, 16), (''multipart_max_files'', 1, 1)]"

definition ends_with :: "string \<Rightarrow> string \<Rightarrow> bool" where
  "ends_with s suffix' \<longleftrightarrow> length suffix' \<le> length s \<and> drop (length s - length suffix') s = suffix'"

text \<open>The first violation of one of the time settings.\<close>

definition time_error :: "capacity_config \<Rightarrow> string \<times> real \<Rightarrow> py_error option" where
  "time_error config nd =
     (let name = fst nd; v = cfg_value config name (JFloat (Fin (snd nd)))
      in if is_number v \<and> math_isfinite v = Inl OverflowError then Some OverflowError
         else if \<not> is_number v \<or> math_isfinite v = Inr False \<or> float_le (num_value v) (Fin 0)
         then Some (ValueError ''capacity waits and deadlines must be positive and finite'')
         else if (ends_with name ''sql_timeout_s'' \<or> name = ''lock_timeout_s'')
                 \<and> float_lt (Fin 2147483.647) (num_value v)
         then Some (ValueError ''capacity SQL deadlines exceed the supported database timeout'')
         else case map_of wait_maxima name of
           Some m \<Rightarrow> if float_lt (Fin m) (num_value v) then Some (ValueError ''capacity waits exceed the reviewed limit'') else None
         | None \<Rightarrow> None)"

definition pending_error :: "capacity_config \<Rightarrow> string \<times> int \<times> int \<Rightarrow> py_error option" where
  "pending_error config ndm =
     (case ndm of (name, d, m) \<Rightarrow>
        case cfg_value config (name @ ''_pending'') (JInt d) of
          JInt p \<Rightarrow> if 0 \<le> p \<and> p \<le> m then None
            else Some (ValueError (''capacity '' @ name @ '' pending limit must be an integer from zero to '' @ dec_int m))
        | _ \<Rightarrow> Some (ValueError (''capacity '' @ name @ '' pending limit must be an integer from zero to '' @ dec_int m)))"

definition bound_error :: "capacity_config \<Rightarrow> string \<times> int \<times> int \<Rightarrow> py_error option" where
  "bound_error config ndm =
     (case ndm of (name, d, m) \<Rightarrow>
        case cfg_value config name (JInt d) of
          JInt v \<Rightarrow> if 0 < v \<and> v \<le> m then None else Some (ValueError ''capacity input bounds exceed the reviewed envelope'')
        | _ \<Rightarrow> Some (ValueError ''capacity input bounds exceed the reviewed envelope''))"

text \<open>The first reason found by a check over a list.\<close>

fun first_error :: "('a \<Rightarrow> py_error option) \<Rightarrow> 'a list \<Rightarrow> py_error option" where
  "first_error f [] = None"
| "first_error f (x # xs) = (case f x of Some e \<Rightarrow> Some e | None \<Rightarrow> first_error f xs)"

definition validate_capacity_config :: "capacity_config \<Rightarrow> unit result" where
  "validate_capacity_config config =
     (let caps = caps_of config
      in if \<exists>(name, v) \<in> set caps. (case as_int v of None \<Rightarrow> True | Some i \<Rightarrow> i \<le> 0)
         then Inl (ValueError ''capacity slots must be positive integers'')
         else if sum_list (map (cap_int caps) runtime_lanes) > 6
         then Inl (ValueError ''runtime capacity reservations exceed six connections'')
         else if sum_list (map (cap_int caps) control_lanes) > 5
         then Inl (ValueError ''control capacity reservations exceed five connections'')
         else if \<exists>(name, m) \<in> set slot_maxima. cap_int caps name > m
         then Inl (ValueError ''capacity exceeds the reviewed operation or authentication bound'')
         else case first_error (pending_error config) pending_limits of
           Some e \<Rightarrow> Inl e
         | None \<Rightarrow> (case first_error (time_error config) time_defaults of
             Some e \<Rightarrow> Inl e
           | None \<Rightarrow> (case first_error (bound_error config) input_bounds of
               Some e \<Rightarrow> Inl e | None \<Rightarrow> Inr ())))"

section \<open>The manager\<close>

record lane =
  ln_limit :: int
  ln_pending :: int
  ln_wait :: real

text \<open>Name and defaults of the lanes; a default of zero takes no setting.\<close>

definition lane_defaults :: "(string \<times> int \<times> int \<times> real) list" where
  "lane_defaults = [(''ingest'', 2, 4, 1 / 4), (''routine'', 1, 4, 1), (''navigation'', 1, 4, 1),
     (''foreground'', 1, 4, 2), (''background'', 1, 0, 0), (''ingest_identity'', 1, 1, 1 / 4),
     (''identity'', 1, 4, 1), (''lifecycle'', 1, 0, 0), (''mail'', 2, 0, 0), (''auth_ingest'', 2, 8, 1),
     (''auth_interactive'', 1, 0, 0)]"

definition real_value :: "json \<Rightarrow> real" where
  "real_value v = (case num_value v of Fin r \<Rightarrow> r | _ \<Rightarrow> 0)"

definition lane_of :: "capacity_config \<Rightarrow> string \<times> int \<times> int \<times> real \<Rightarrow> string \<times> lane" where
  "lane_of config d =
     (case d of (name, limit, pending, wait) \<Rightarrow>
        (name, \<lparr>ln_limit = cap_int (caps_of config) name,
          ln_pending = (if pending \<noteq> 0 then
             (case cfg_value config (name @ ''_pending'') (JInt pending) of JInt p \<Rightarrow> p | _ \<Rightarrow> 0) else 0),
          ln_wait = (if wait \<noteq> 0 then real_value (cfg_value config (name @ ''_wait_s'') (JFloat (Fin wait))) else 0)\<rparr>))"

record owner =
  ow_id :: nat
  ow_lane :: string
  ow_account :: "int option"
  ow_enabled :: bool

datatype future = Waiting | Granted | Refused | Cancelled

record ticket =
  tk_owner :: owner
  tk_deadline :: real

record manager =
  cm_lanes :: "(string \<times> lane) list"
  cm_active :: "string \<Rightarrow> owner list"
  cm_pending :: "string \<Rightarrow> ticket list"
  cm_futures :: "owner \<Rightarrow> future"
  cm_closed :: bool
  cm_drained :: bool
  cm_leases :: "owner list"

definition new_manager :: "capacity_config \<Rightarrow> manager result" where
  "new_manager config =
     res_bind (validate_capacity_config config) (\<lambda>_.
       Inr \<lparr>cm_lanes = map (lane_of config) lane_defaults, cm_active = (\<lambda>_. []), cm_pending = (\<lambda>_. []),
         cm_futures = (\<lambda>_. Waiting), cm_closed = False, cm_drained = True, cm_leases = []\<rparr>)"

definition lane_spec :: "manager \<Rightarrow> string \<Rightarrow> lane" where
  "lane_spec m l = (case map_of (cm_lanes m) l of Some s \<Rightarrow> s | None \<Rightarrow> \<lparr>ln_limit = 0, ln_pending = 0, ln_wait = 0\<rparr>)"

section \<open>\<open>_promote\<close>\<close>

definition live_ticket :: "manager \<Rightarrow> real \<Rightarrow> ticket \<Rightarrow> bool" where
  "live_ticket m now t \<longleftrightarrow> cm_futures m (tk_owner t) = Waiting \<and> tk_deadline t > now \<and> \<not> cm_closed m"

definition refuse :: "ticket list \<Rightarrow> (owner \<Rightarrow> future) \<Rightarrow> owner \<Rightarrow> future" where
  "refuse ts f = (\<lambda>i. if f i = Waiting \<and> i \<in> tk_owner ` set ts then Refused else f i)"

text \<open>The first loop: expired tickets and those that are done leave the queue.\<close>

definition expire :: "string \<Rightarrow> real \<Rightarrow> manager \<Rightarrow> manager" where
  "expire l now m =
     m\<lparr>cm_pending := (cm_pending m)(l := filter (live_ticket m now) (cm_pending m l)),
       cm_futures := refuse (filter (\<lambda>t. \<not> live_ticket m now t) (cm_pending m l)) (cm_futures m)\<rparr>"

text \<open>The second loop: the head of the queue enters while a slot is free.\<close>

fun admit_waiting :: "int \<Rightarrow> ticket list \<Rightarrow> owner list \<Rightarrow> (owner \<Rightarrow> future) \<Rightarrow> ticket list \<times> owner list \<times> (owner \<Rightarrow> future)" where
  "admit_waiting limit [] active f = ([], active, f)"
| "admit_waiting limit (t # ts) active f =
     (if int (length active) < limit
      then (if f (tk_owner t) \<noteq> Waiting then admit_waiting limit ts active f
            else admit_waiting limit ts (active @ [tk_owner t]) (f(tk_owner t := Granted)))
      else (t # ts, active, f))"

definition promote :: "string \<Rightarrow> real \<Rightarrow> manager \<Rightarrow> manager" where
  "promote l now m =
     (let m1 = expire l now m
      in case admit_waiting (ln_limit (lane_spec m l)) (cm_pending m1 l) (cm_active m1 l) (cm_futures m1) of
           (ts, active, f) \<Rightarrow>
             m1\<lparr>cm_pending := (cm_pending m1)(l := ts), cm_active := (cm_active m1)(l := active), cm_futures := f\<rparr>)"

definition update_drained :: "manager \<Rightarrow> manager" where
  "update_drained m =
     (if \<forall>(l, s) \<in> set (cm_lanes m). cm_active m l = [] \<and> cm_pending m l = [] then m\<lparr>cm_drained := True\<rparr> else m)"

section \<open>The operations\<close>

definition shared_lanes :: "string list" where "shared_lanes = [''navigation'', ''foreground'']"

definition account_lanes :: "string list" where
  "account_lanes = [''ingest'', ''routine'', ''navigation'', ''foreground'', ''background'']"

datatype acquired = Entered | Queued | CapacityBusy string | ContractError string

text \<open>\<open>_acquire\<close> up to its wait; \<open>parent\<close> is the lane of the current owner of this manager.\<close>

definition acquire :: "string option \<Rightarrow> owner \<Rightarrow> real \<Rightarrow> manager \<Rightarrow> acquired \<times> manager" where
  "acquire parent ow now m =
     (let l = ow_lane ow
      in if cm_closed m then (CapacityBusy ''serving admission is shutting down'', m)
         else if map_of (cm_lanes m) l = None then (ContractError ''unknown capacity lane'', m)
         else if parent = Some l then (ContractError ''nested operation admission'', m)
         else if l \<in> set account_lanes \<and> (ow_account ow = None \<or> \<not> ow_enabled ow)
         then (ContractError ''account admission requires a validated enabled principal'', m)
         else let m1 = (if l \<in> set shared_lanes
                        then promote ''foreground'' now (promote ''navigation'' now m) else promote l now m);
                  excl = (if l \<in> set shared_lanes then shared_lanes else [l]);
                  spec = lane_spec m1 l
              in if ow_account ow \<noteq> None \<and> (\<exists>e \<in> set excl. ow_account ow \<in> ow_account ` set (cm_active m1 e))
                 then (CapacityBusy ''account already owns capacity'', m1)
                 else if ow_account ow \<noteq> None
                   \<and> (\<exists>e \<in> set excl. ow_account ow \<in> (\<lambda>t. ow_account (tk_owner t)) ` set (cm_pending m1 e))
                 then (CapacityBusy ''account already awaits capacity'', m1)
                 else if cm_pending m1 l = [] \<and> int (length (cm_active m1 l)) < ln_limit spec
                 then (Entered, m1\<lparr>cm_active := (cm_active m1)(l := cm_active m1 l @ [ow]), cm_drained := False\<rparr>)
                 else if int (length (cm_pending m1 l)) \<ge> ln_pending spec \<or> ln_wait spec = 0
                 then (CapacityBusy ''capacity is full'', m1)
                 else (Queued, m1\<lparr>cm_pending := (cm_pending m1)(l := cm_pending m1 l
                                     @ [\<lparr>tk_owner = ow, tk_deadline = now + ln_wait spec\<rparr>]),
                                  cm_futures := (cm_futures m1)(ow := Waiting),
                                  cm_drained := False\<rparr>))"

text \<open>The exception path of the wait: a timeout, a refusal or a cancellation of the caller.\<close>

definition abandon :: "owner \<Rightarrow> real \<Rightarrow> manager \<Rightarrow> manager" where
  "abandon ow now m =
     (let l = ow_lane ow;
          m1 = m\<lparr>cm_pending := (cm_pending m)(l := filter (\<lambda>t. tk_owner t \<noteq> ow) (cm_pending m l)),
                 cm_active := (cm_active m)(l := filter (\<lambda>o'. o' \<noteq> ow) (cm_active m l)),
                 cm_futures := (if cm_futures m ow = Waiting then (cm_futures m)(ow := Cancelled)
                                else cm_futures m)\<rparr>
      in update_drained (promote l now m1))"

text \<open>The end of \<open>operation\<close>, after its threads have been drained.\<close>

definition release :: "owner \<Rightarrow> real \<Rightarrow> manager \<Rightarrow> manager" where
  "release ow now m =
     (let l = ow_lane ow
      in update_drained (promote l now
           (m\<lparr>cm_active := (cm_active m)(l := filter (\<lambda>o'. o' \<noteq> ow) (cm_active m l))\<rparr>)))"

definition lease_lanes :: "string list" where
  "lease_lanes = [''navigation'', ''foreground'', ''background'', ''mail'']"

definition start_lease :: "owner option \<Rightarrow> int list \<Rightarrow> manager \<Rightarrow> string + manager" where
  "start_lease current account_ids m =
     (case current of
        None \<Rightarrow> Inl ''external work requires a navigation, foreground, background or mail owner''
      | Some ow \<Rightarrow>
          if ow_lane ow \<notin> set lease_lanes
          then Inl ''external work requires a navigation, foreground, background or mail owner''
          else if ow \<in> set (cm_leases m) \<or> length (cm_leases m) \<ge> 5 then Inl ''nested or excess lifecycle lease''
          else if (case ow_account ow of None \<Rightarrow> False | Some a \<Rightarrow> a \<notin> set account_ids)
          then Inl ''lifecycle lease does not cover its owner''
          else Inr (m\<lparr>cm_leases := cm_leases m @ [ow]\<rparr>))"

definition end_lease :: "owner \<Rightarrow> manager \<Rightarrow> manager" where
  "end_lease ow m = m\<lparr>cm_leases := filter (\<lambda>o'. o' \<noteq> ow) (cm_leases m)\<rparr>"

text \<open>\<open>shutdown\<close> up to its wait for the drained event.\<close>

definition shutdown :: "manager \<Rightarrow> manager" where
  "shutdown m = update_drained
     (m\<lparr>cm_closed := True,
        cm_futures := refuse (concat (map (\<lambda>(l, s). cm_pending m l) (cm_lanes m))) (cm_futures m),
        cm_pending := (\<lambda>l. if l \<in> fst ` set (cm_lanes m) then [] else cm_pending m l)\<rparr>)"

definition snapshot :: "manager \<Rightarrow> (string \<times> int \<times> int) list \<times> int" where
  "snapshot m = (map (\<lambda>(l, s). (l, int (length (cm_active m l)), int (length (cm_pending m l)))) (cm_lanes m),
     int (length (cm_leases m)))"

end
