(* ===== verification/CapacityConfig.thy ===== *)
theory CapacityConfig imports CapacityTypes begin

text \<open>
  What a configuration accepted by \<open>validate_capacity_config\<close> of \<open>app/capacity.py\<close> guarantees
  of the lanes that \<open>AdmissionManager.__init__\<close> builds from it.
\<close>

section \<open>A valid configuration\<close>

lemma first_error_None: "first_error f xs = None \<Longrightarrow> x \<in> set xs \<Longrightarrow> f x = None"
  by (induction xs) (auto split: option.splits)

lemma cap_int_None: "map_of slot_defaults l = None \<Longrightarrow> cap_int (caps_of cfg) l = 0"
proof -
  assume "map_of slot_defaults l = None"
  then have "map_of (caps_of cfg) l = None" by (auto simp: caps_of_def map_of_eq_None_iff image_iff)
  then show ?thesis by (simp add: cap_int_def)
qed

lemma lane_default_names: "map_of slot_defaults l = None \<longleftrightarrow> map_of lane_defaults l = None"
  by (simp add: map_of_eq_None_iff slot_defaults_def lane_defaults_def)

lemma new_lane_spec:
  assumes "new_manager cfg = Inr m"
  shows "ln_limit (lane_spec m l) = cap_int (caps_of cfg) l"
    "map_of lane_defaults l = Some (n0, p, w) \<Longrightarrow> lane_spec m l = snd (lane_of cfg (l, n0, p, w))"
    "map_of lane_defaults l = None \<Longrightarrow> ln_pending (lane_spec m l) = 0"
proof -
  have m: "cm_lanes m = map (lane_of cfg) lane_defaults"
    using assms by (auto simp: new_manager_def res_bind_def split: sum.splits)
  have fst: "fst (lane_of cfg d) = fst d" for d by (cases d) (simp add: lane_of_def)
  have mo: "map_of (map (lane_of cfg) ds) l = map_option (\<lambda>v. snd (lane_of cfg (l, v))) (map_of ds l)" for ds
    by (induction ds) (auto simp: fst prod_eq_iff intro!: arg_cong [of _ _ "\<lambda>d. snd (lane_of cfg d)"])
  show s: "map_of lane_defaults l = Some (n0, p, w) \<Longrightarrow> lane_spec m l = snd (lane_of cfg (l, n0, p, w))"
    for n0 p w by (simp add: lane_spec_def m mo)
  show n: "map_of lane_defaults l = None \<Longrightarrow> ln_pending (lane_spec m l) = 0" by (simp add: lane_spec_def m mo)
  show "ln_limit (lane_spec m l) = cap_int (caps_of cfg) l"
  proof (cases "map_of lane_defaults l")
    case None
    then show ?thesis using cap_int_None lane_default_names by (simp add: lane_spec_def m mo)
  next
    case (Some v)
    then show ?thesis using s by (cases v) (simp add: lane_of_def)
  qed
qed

lemma valid_config:
  assumes "validate_capacity_config cfg = Inr u"
  shows "sum_list (map (cap_int (caps_of cfg)) runtime_lanes) \<le> 6"
    "sum_list (map (cap_int (caps_of cfg)) control_lanes) \<le> 5"
    "(name, v) \<in> set (caps_of cfg) \<Longrightarrow> \<exists>i > 0. v = JInt i"
    "(name, d, b) \<in> set pending_limits \<Longrightarrow>
      \<exists>p. cfg_value cfg (name @ ''_pending'') (JInt d) = JInt p \<and> 0 \<le> p \<and> p \<le> b"
proof -
  note v = assms [unfolded validate_capacity_config_def Let_def]
  have c: "\<not> (\<exists>(name, v) \<in> set (caps_of cfg). (case as_int v of None \<Rightarrow> True | Some i \<Rightarrow> i \<le> 0))"
    and r: "\<not> sum_list (map (cap_int (caps_of cfg)) runtime_lanes) > 6"
    and k: "\<not> sum_list (map (cap_int (caps_of cfg)) control_lanes) > 5"
    and p: "first_error (pending_error cfg) pending_limits = None"
    using v by (metis (no_types, lifting) Inl_Inr_False option.case_eq_if option.exhaust_sel)+
  show "sum_list (map (cap_int (caps_of cfg)) runtime_lanes) \<le> 6"
    "sum_list (map (cap_int (caps_of cfg)) control_lanes) \<le> 5" using r k by linarith+
  assume i: "(name, v) \<in> set (caps_of cfg)"
  then show "\<exists>i > 0. v = JInt i" using c by (cases v) (auto simp: as_int_def)
next
  note v = assms [unfolded validate_capacity_config_def Let_def]
  have p: "first_error (pending_error cfg) pending_limits = None"
    using v by (metis (no_types, lifting) Inl_Inr_False option.case_eq_if option.exhaust_sel)
  assume "(name, d, b) \<in> set pending_limits"
  then have "pending_error cfg (name, d, b) = None" using first_error_None [OF p] by blast
  then show "\<exists>p. cfg_value cfg (name @ ''_pending'') (JInt d) = JInt p \<and> 0 \<le> p \<and> p \<le> b"
    by (auto simp: pending_error_def split: json.splits if_splits)
qed

end
