(* ===== verification/Capacity.thy ===== *)
theory Capacity imports CapacityConfig begin

text \<open>
  The admission manager of \<open>app/capacity.py\<close> as a state machine over a clock that does not run
  backwards, its invariant, and what a valid configuration guarantees: no lane ever holds
  more owners than its slots nor a longer queue than its bound, the serving lanes together
  never exceed the reviewed numbers of connections, an account holds or awaits at most one
  place of a lane (and of the two lanes that share their accounts), queues are first in
  first out, a queue is non-empty only while its lane is full, and a shut-down manager
  admits nobody.
\<close>

section \<open>The state machine\<close>

text \<open>The owners of a lane, active or waiting.\<close>

definition hold :: "manager \<Rightarrow> string \<Rightarrow> owner multiset" where
  "hold m l = mset (cm_active m l) + image_mset tk_owner (mset (cm_pending m l))"

text \<open>A new owner is a new object: it holds no place yet.\<close>

inductive capacity_step :: "real \<times> manager \<Rightarrow> real \<times> manager \<Rightarrow> bool" where
  acquire: "now \<le> now' \<Longrightarrow> ow \<notin># hold m (ow_lane ow) \<Longrightarrow>
     capacity_step (now, m) (now', snd (acquire parent ow now' m))"
| abandon: "now \<le> now' \<Longrightarrow> capacity_step (now, m) (now', abandon ow now' m)"
| release: "now \<le> now' \<Longrightarrow> capacity_step (now, m) (now', release ow now' m)"
| lease: "start_lease current ids m = Inr m' \<Longrightarrow> capacity_step (now, m) (now, m')"
| unlease: "capacity_step (now, m) (now, end_lease ow m)"
| shutdown: "capacity_step (now, m) (now, shutdown m)"

inductive capacity_run :: "real \<times> manager \<Rightarrow> real \<times> manager \<Rightarrow> bool" for c0 where
  refl: "capacity_run c0 c0"
| step: "capacity_run c0 c \<Longrightarrow> capacity_step c c' \<Longrightarrow> capacity_run c0 c'"

section \<open>The invariant\<close>

definition once :: "owner multiset \<Rightarrow> bool" where
  "once M \<longleftrightarrow> (\<forall>a. size (filter_mset (\<lambda>o'. ow_account o' = Some a) M) \<le> 1)"

lemma once_mono: "once M \<Longrightarrow> N \<subseteq># M \<Longrightarrow> once N"
  unfolding once_def by (meson le_trans multiset_filter_mono size_mset_mono)

lemma once_add:
  "once M \<Longrightarrow> (\<forall>o' \<in># M. ow_account ow \<noteq> None \<longrightarrow> ow_account o' \<noteq> ow_account ow) \<Longrightarrow> once (add_mset ow M)"
proof -
  assume M: "once M" and new: "\<forall>o' \<in># M. ow_account ow \<noteq> None \<longrightarrow> ow_account o' \<noteq> ow_account ow"
  have "filter_mset (\<lambda>o'. ow_account o' = Some a) M = {#}" if "ow_account ow = Some a" for a
    using new that by (auto simp: filter_mset_eq_conv)
  with M show ?thesis by (auto simp: once_def)
qed

text \<open>One lane.\<close>

definition lane_inv :: "real \<Rightarrow> manager \<Rightarrow> string \<Rightarrow> bool" where
  "lane_inv now m l \<longleftrightarrow>
     int (length (cm_active m l)) \<le> ln_limit (lane_spec m l)
     \<and> int (length (cm_pending m l)) \<le> ln_pending (lane_spec m l)
     \<and> sorted (map tk_deadline (cm_pending m l))
     \<and> (\<forall>t \<in> set (cm_pending m l). tk_deadline t \<le> now + ln_wait (lane_spec m l) \<and> cm_futures m (tk_owner t) = Waiting)
     \<and> (\<forall>ow \<in># hold m l. ow_lane ow = l) \<and> (\<forall>ow. count (hold m l) ow \<le> 1)
     \<and> once (hold m l)
     \<and> (cm_closed m \<longrightarrow> cm_pending m l = [])"

text \<open>A queue waits only for a full lane.\<close>

definition busy_lane :: "manager \<Rightarrow> string \<Rightarrow> bool" where
  "busy_lane m l \<longleftrightarrow> (cm_pending m l \<noteq> [] \<longrightarrow> int (length (cm_active m l)) = ln_limit (lane_spec m l))"

definition capacity_inv :: "real \<Rightarrow> manager \<Rightarrow> bool" where
  "capacity_inv now m \<longleftrightarrow> (\<forall>l. lane_inv now m l \<and> busy_lane m l) \<and> once (hold m ''navigation'' + hold m ''foreground'')
     \<and> (cm_drained m \<longrightarrow> (\<forall>l. hold m l = {#}))"

section \<open>\<open>_promote\<close>\<close>

lemma admit_waiting_take:
  assumes "admit_waiting limit ts active f = (ts', active', f')"
    and "\<forall>t \<in> set ts. f (tk_owner t) = Waiting" and "distinct (map tk_owner ts)"
    and "int (length active) \<le> limit"
  shows "\<exists>k. ts' = drop k ts \<and> active' = active @ map tk_owner (take k ts)
    \<and> int (length active') \<le> limit \<and> (ts' \<noteq> [] \<longrightarrow> int (length active') = limit)
    \<and> (\<forall>t \<in> set ts'. f' (tk_owner t) = Waiting) \<and> (\<forall>ow. ow \<notin> tk_owner ` set ts \<longrightarrow> f' ow = f ow)"
  using assms
proof (induction limit ts active f rule: admit_waiting.induct)
  case (1 limit active f)
  then show ?case by auto
next
  case (2 limit t ts active f)
  show ?case
  proof (cases "int (length active) < limit")
    case False
    with 2(3-6) show ?thesis by (intro exI [of _ 0]) auto
  next
    case True
    have w: "\<not> f (tk_owner t) \<noteq> Waiting" using 2(4) by simp
    have r: "admit_waiting limit ts (active @ [tk_owner t]) (f(tk_owner t := Granted)) = (ts', active', f')"
      using 2(3) True w by simp
    have d: "tk_owner t \<notin> tk_owner ` set ts" "distinct (map tk_owner ts)" using 2(5) by auto
    have w': "\<forall>u \<in> set ts. (f(tk_owner t := Granted)) (tk_owner u) = Waiting"
    proof
      fix u assume u: "u \<in> set ts"
      then have "tk_owner u \<noteq> tk_owner t" using imageI [OF u, of tk_owner] d(1) by metis
      with u 2(4) show "(f(tk_owner t := Granted)) (tk_owner u) = Waiting" by simp
    qed
    have le: "int (length (active @ [tk_owner t])) \<le> limit" using True by simp
    obtain k where k: "ts' = drop k ts" "active' = (active @ [tk_owner t]) @ map tk_owner (take k ts)"
      "int (length active') \<le> limit" "ts' \<noteq> [] \<longrightarrow> int (length active') = limit"
      "\<forall>t \<in> set ts'. f' (tk_owner t) = Waiting"
      "\<forall>ow. ow \<notin> tk_owner ` set ts \<longrightarrow> f' ow = (f(tk_owner t := Granted)) ow"
      using 2(2) [OF True w r w' d(2) le] by blast
    show ?thesis
    proof (intro exI [of _ "Suc k"] conjI allI impI)
      fix ow assume "ow \<notin> tk_owner ` set (t # ts)"
      then show "f' ow = f ow" using k(6) by auto
    qed (use k in auto)
  qed
qed

lemma distinct_of_count: "(\<And>x. count (mset xs) x \<le> 1) \<Longrightarrow> distinct xs"
proof (induction xs)
  case (Cons a xs)
  have c: "count (mset xs) x \<le> 1" for x by (rule le_trans [OF _ Cons.prems [of x]]) simp
  have "count (mset xs) a = 0" using Cons.prems [of a] by simp
  then have "a \<notin> set xs" by (simp add: count_eq_zero_iff)
  with Cons.IH [OF c] show ?case by simp
qed simp

lemma lane_inv_distinct:
  assumes "lane_inv now m l"
  shows "distinct (map tk_owner (cm_pending m l))" "set (cm_active m l) \<inter> tk_owner ` set (cm_pending m l) = {}"
proof -
  have c: "count (mset (cm_active m l)) ow + count (mset (map tk_owner (cm_pending m l))) ow \<le> 1" for ow
    using assms by (auto simp: lane_inv_def hold_def)
  have "count (mset (map tk_owner (cm_pending m l))) ow \<le> 1" for ow using c [of ow] by linarith
  then show "distinct (map tk_owner (cm_pending m l))"
    by (rule distinct_of_count)
  show "set (cm_active m l) \<inter> tk_owner ` set (cm_pending m l) = {}"
  proof (rule ccontr)
    assume "\<not> ?thesis"
    then obtain ow where "ow \<in> set (cm_active m l)" "ow \<in> set (map tk_owner (cm_pending m l))" by auto
    then have "0 < count (mset (cm_active m l)) ow" "0 < count (mset (map tk_owner (cm_pending m l))) ow"
      by (simp_all only: count_greater_zero_iff set_mset_mset)
    with c [of ow] show False by linarith
  qed
qed

section \<open>What one operation leaves alone\<close>

definition only_lane :: "string \<Rightarrow> manager \<Rightarrow> manager \<Rightarrow> bool" where
  "only_lane l m m' \<longleftrightarrow> cm_lanes m' = cm_lanes m \<and> cm_closed m' = cm_closed m
     \<and> (\<forall>l'. l' \<noteq> l \<longrightarrow> cm_active m' l' = cm_active m l' \<and> cm_pending m' l' = cm_pending m l')
     \<and> (\<forall>ow. ow_lane ow \<noteq> l \<longrightarrow> cm_futures m' ow = cm_futures m ow)"

lemma only_lane_other:
  assumes "only_lane l m m'" "l' \<noteq> l"
  shows "hold m' l' = hold m l'" "busy_lane m' l' = busy_lane m l'"
    "lane_inv now m l' \<Longrightarrow> now \<le> now' \<Longrightarrow> lane_inv now' m' l'"
proof -
  show "hold m' l' = hold m l'" "busy_lane m' l' = busy_lane m l'"
    using assms by (simp_all add: only_lane_def hold_def busy_lane_def lane_spec_def)
  assume i: "lane_inv now m l'" and le: "now \<le> now'"
  have f: "cm_futures m' (tk_owner t) = cm_futures m (tk_owner t)" if "t \<in> set (cm_pending m l')" for t
  proof -
    have "ow_lane (tk_owner t) = l'" using i that by (auto simp: lane_inv_def hold_def)
    then show ?thesis using assms by (auto simp: only_lane_def)
  qed
  show "lane_inv now' m' l'"
    using i assms le f by (fastforce simp: lane_inv_def hold_def only_lane_def lane_spec_def)
qed

lemma only_lane_trans: "only_lane l m m' \<Longrightarrow> only_lane l m' m'' \<Longrightarrow> only_lane l m m''"
  by (auto simp: only_lane_def)

text \<open>The invariant of a lane whose owners are some of those it had.\<close>

lemma lane_inv_shrink:
  assumes "lane_inv now m l" and "now \<le> now'" and "cm_lanes m' = cm_lanes m" and "cm_closed m' = cm_closed m"
    and "hold m' l \<subseteq># hold m l" and "int (length (cm_active m' l)) \<le> ln_limit (lane_spec m l)"
    and "\<exists>P k. cm_pending m' l = drop k (filter P (cm_pending m l))"
    and "\<forall>t \<in> set (cm_pending m' l). cm_futures m' (tk_owner t) = Waiting"
  shows "lane_inv now' m' l"
proof -
  obtain P k where p: "cm_pending m' l = drop k (filter P (cm_pending m l))" using assms(7) by blast
  have s: "lane_spec m' l = lane_spec m l" using assms(3) by (simp add: lane_spec_def)
  have sub: "set (cm_pending m' l) \<subseteq> set (cm_pending m l)" using p set_drop_subset by fastforce
  have "length (cm_pending m' l) \<le> length (cm_pending m l)"
    using p by (simp add: le_trans [OF diff_le_self length_filter_le])
  moreover have "sorted (map tk_deadline (cm_pending m' l))"
    using assms(1) p by (simp add: lane_inv_def sorted_filter sorted_wrt_drop drop_map [symmetric])
  moreover have "\<forall>t \<in> set (cm_pending m' l). tk_deadline t \<le> now' + ln_wait (lane_spec m l)"
    using assms(1,2) sub by (fastforce simp: lane_inv_def)
  moreover have "\<forall>ow \<in># hold m' l. ow_lane ow = l"
    using assms(1,5) by (meson lane_inv_def mset_subset_eqD)
  moreover have "\<forall>ow. count (hold m' l) ow \<le> 1"
    using assms(1,5) by (meson lane_inv_def le_trans subseteq_mset_def)
  moreover have "once (hold m' l)" using assms(1,5) once_mono by (auto simp: lane_inv_def)
  moreover have "cm_closed m' \<longrightarrow> cm_pending m' l = []" using assms(1,4) p by (simp add: lane_inv_def)
  ultimately show ?thesis using assms(1,6,8) s by (simp add: lane_inv_def)
qed

lemma expire_lane:
  assumes "lane_inv now m l"
  shows "only_lane l m (expire l now' m)" "cm_active (expire l now' m) = cm_active m"
    "hold (expire l now' m) l \<subseteq># hold m l"
    "\<forall>t \<in> set (cm_pending (expire l now' m) l). cm_futures (expire l now' m) (tk_owner t) = Waiting"
    "distinct (map tk_owner (cm_pending (expire l now' m) l))"
proof -
  have d: "distinct (map tk_owner (cm_pending m l))" using lane_inv_distinct [OF assms] by simp
  have o: "ow_lane (tk_owner t) = l" if "t \<in> set (cm_pending m l)" for t
    using assms that by (auto simp: lane_inv_def hold_def)
  show "only_lane l m (expire l now' m)" using o by (auto simp: only_lane_def expire_def refuse_def)
  show "cm_active (expire l now' m) = cm_active m" by (simp add: expire_def)
  show "hold (expire l now' m) l \<subseteq># hold m l"
    by (simp add: hold_def expire_def image_mset_subseteq_mono)
  show "distinct (map tk_owner (cm_pending (expire l now' m) l))"
    using d by (simp add: expire_def distinct_map_filter)
  show "\<forall>t \<in> set (cm_pending (expire l now' m) l). cm_futures (expire l now' m) (tk_owner t) = Waiting"
  proof
    fix t assume "t \<in> set (cm_pending (expire l now' m) l)"
    then have t: "t \<in> set (cm_pending m l)" "live_ticket m now' t" by (simp_all add: expire_def)
    have "tk_owner t \<notin> tk_owner ` set (filter (\<lambda>t. \<not> live_ticket m now' t) (cm_pending m l))"
    proof
      assume "tk_owner t \<in> tk_owner ` set (filter (\<lambda>t. \<not> live_ticket m now' t) (cm_pending m l))"
      then obtain u where u: "u \<in> set (cm_pending m l)" "\<not> live_ticket m now' u" "tk_owner t = tk_owner u" by auto
      have "t = u" using d t(1) u(1,3) by (meson distinct_map inj_onD)
      with t(2) u(2) show False by simp
    qed
    then show "cm_futures (expire l now' m) (tk_owner t) = Waiting"
      using t(2) unfolding live_ticket_def [of m now' t] by (simp add: expire_def refuse_def del: set_filter)
  qed
qed

lemma promote_lane:
  assumes i: "lane_inv now m l" and le: "now \<le> now'"
  shows "only_lane l m (promote l now' m)" "hold (promote l now' m) l \<subseteq># hold m l"
    "lane_inv now' (promote l now' m) l" "busy_lane (promote l now' m) l"
proof -
  define m1 where "m1 = expire l now' m"
  note e = expire_lane [OF i, of now', folded m1_def]
  obtain ts active f where w: "admit_waiting (ln_limit (lane_spec m l)) (cm_pending m1 l) (cm_active m1 l)
    (cm_futures m1) = (ts, active, f)" by (metis prod_cases3)
  have p: "promote l now' m
    = m1\<lparr>cm_pending := (cm_pending m1)(l := ts), cm_active := (cm_active m1)(l := active), cm_futures := f\<rparr>"
    using w by (simp add: promote_def m1_def Let_def)
  have lim: "int (length (cm_active m1 l)) \<le> ln_limit (lane_spec m l)" using i e(2) by (simp add: lane_inv_def)
  obtain k where k: "ts = drop k (cm_pending m1 l)" "active = cm_active m1 l @ map tk_owner (take k (cm_pending m1 l))"
    "int (length active) \<le> ln_limit (lane_spec m l)" "ts \<noteq> [] \<longrightarrow> int (length active) = ln_limit (lane_spec m l)"
    "\<forall>t \<in> set ts. f (tk_owner t) = Waiting"
    "\<forall>ow. ow \<notin> tk_owner ` set (cm_pending m1 l) \<longrightarrow> f ow = cm_futures m1 ow"
    using admit_waiting_take [OF w e(4,5) lim] by blast
  have o: "ow_lane (tk_owner t) = l" if "t \<in> set (cm_pending m1 l)" for t
    using i that by (auto simp: lane_inv_def hold_def m1_def expire_def)
  have "only_lane l m1 (promote l now' m)"
  proof -
    have "ow \<notin> tk_owner ` set (cm_pending m1 l)" if "ow_lane ow \<noteq> l" for ow using that o by fast
    then show ?thesis unfolding only_lane_def p using k(6) by simp
  qed
  then show ol: "only_lane l m (promote l now' m)" by (rule only_lane_trans [OF e(1)])
  have "hold (promote l now' m) l = hold m1 l"
  proof -
    have "mset (cm_pending m1 l) = mset (take k (cm_pending m1 l)) + mset (drop k (cm_pending m1 l))"
      by (metis append_take_drop_id mset_append)
    then show ?thesis unfolding p hold_def using k(1,2) by simp
  qed
  then show h: "hold (promote l now' m) l \<subseteq># hold m l" using e(3) by simp
  have s: "lane_spec (promote l now' m) l = lane_spec m l" using ol by (simp add: only_lane_def lane_spec_def)
  show "busy_lane (promote l now' m) l" using k(4) s by (simp add: busy_lane_def p)
  show "lane_inv now' (promote l now' m) l"
  proof (rule lane_inv_shrink [OF i le _ _ h])
    show "\<exists>P k. cm_pending (promote l now' m) l = drop k (filter P (cm_pending m l))"
      by (rule exI [of _ "live_ticket m now'"], rule exI [of _ k]) (simp add: p k(1) m1_def expire_def)
  qed (use ol k(3,5) p in \<open>simp_all add: only_lane_def\<close>)
qed

section \<open>The operations that free a place\<close>

lemma update_drained_simps [simp]:
  "cm_lanes (update_drained m) = cm_lanes m" "cm_active (update_drained m) = cm_active m"
  "cm_pending (update_drained m) = cm_pending m" "cm_futures (update_drained m) = cm_futures m"
  "cm_closed (update_drained m) = cm_closed m" "cm_leases (update_drained m) = cm_leases m"
  "hold (update_drained m) l = hold m l" "lane_spec (update_drained m) l = lane_spec m l"
  "lane_inv now (update_drained m) l = lane_inv now m l" "busy_lane (update_drained m) l = busy_lane m l"
  by (simp_all add: update_drained_def hold_def lane_spec_def lane_inv_def busy_lane_def)

lemma unknown_lane_empty:
  assumes "lane_inv now m l" "l \<notin> fst ` set (cm_lanes m)"
  shows "cm_active m l = []" "cm_pending m l = []"
proof -
  have "map_of (cm_lanes m) l = None" using assms(2) by (simp add: map_of_eq_None_iff)
  then show "cm_active m l = []" "cm_pending m l = []" using assms(1) by (auto simp: lane_inv_def lane_spec_def)
qed

text \<open>A change of one lane that only frees places, up to the drained event.\<close>

lemma capacity_inv_freed:
  assumes i: "capacity_inv now m" and le: "now \<le> now'" and o: "only_lane l m m'"
    and h: "hold m' l \<subseteq># hold m l" and li: "lane_inv now' m' l" and b: "busy_lane m' l"
    and d: "cm_drained m' = cm_drained m"
  shows "capacity_inv now' m'" "capacity_inv now' (update_drained m')"
proof -
  have sub: "hold m' l' \<subseteq># hold m l'" for l'
    using h only_lane_other(1) [OF o, of l'] by (cases "l' = l") auto
  have all: "lane_inv now' m' l' \<and> busy_lane m' l'" for l'
    using i li b only_lane_other(2,3) [OF o, of l'] le by (cases "l' = l") (auto simp: capacity_inv_def)
  have once: "once (hold m' ''navigation'' + hold m' ''foreground'')"
    using i sub by (auto simp: capacity_inv_def intro: once_mono subset_mset.add_mono)
  have dr: "cm_drained m' \<longrightarrow> (\<forall>l'. hold m' l' = {#})"
    using i d sub by (metis capacity_inv_def subset_mset.le_zero_eq)
  show "capacity_inv now' m'" using all once dr by (simp add: capacity_inv_def)
  have "hold m' l' = {#}" if e: "\<forall>(l, s) \<in> set (cm_lanes m'). cm_active m' l = [] \<and> cm_pending m' l = []" for l'
  proof (cases "l' \<in> fst ` set (cm_lanes m')")
    case True
    with e show ?thesis by (auto simp: hold_def)
  next
    case False
    with unknown_lane_empty [of now' m' l'] all show ?thesis by (simp add: hold_def)
  qed
  then have "cm_drained (update_drained m') \<longrightarrow> (\<forall>l'. hold m' l' = {#})"
    using dr by (auto simp: update_drained_def)
  then show "capacity_inv now' (update_drained m')" using all once by (simp add: capacity_inv_def)
qed

lemma promote_drained [simp]: "cm_drained (promote l now m) = cm_drained m"
  by (auto simp: promote_def expire_def Let_def split: prod.splits)

lemma promote_inv:
  assumes "capacity_inv now m" "now \<le> now'"
  shows "capacity_inv now' (promote l now' m)"
proof -
  have li: "lane_inv now m l" using assms(1) by (simp add: capacity_inv_def)
  note p = promote_lane [OF li assms(2)]
  show ?thesis by (rule capacity_inv_freed(1) [OF assms p(1,2,3,4)]) simp
qed

text \<open>Places of one owner are given up, then the queue moves.\<close>

lemma freed_then_promoted:
  assumes i: "capacity_inv now m" and le: "now \<le> now'" and o: "only_lane l m m1"
    and a: "cm_active m1 l = filter (\<lambda>o'. o' \<noteq> ow) (cm_active m l)"
    and p: "cm_pending m1 l = filter P (cm_pending m l)"
    and f: "\<forall>t \<in> set (cm_pending m1 l). cm_futures m1 (tk_owner t) = cm_futures m (tk_owner t)"
    and d: "cm_drained m1 = cm_drained m"
  shows "capacity_inv now' (update_drained (promote l now' m1))
    \<and> hold (update_drained (promote l now' m1)) l' \<subseteq># hold m l'"
proof
  have li: "lane_inv now m l" using i by (simp add: capacity_inv_def)
  have h: "hold m1 l \<subseteq># hold m l"
    using a p by (simp add: hold_def subset_mset.add_mono image_mset_subseteq_mono)
  have l1: "lane_inv now' m1 l"
  proof (rule lane_inv_shrink [OF li le _ _ h])
    show "int (length (cm_active m1 l)) \<le> ln_limit (lane_spec m l)"
    proof -
      have "int (length (cm_active m1 l)) \<le> int (length (cm_active m l))" by (simp add: a)
      then show ?thesis using li by (simp add: lane_inv_def)
    qed
    show "\<exists>P k. cm_pending m1 l = drop k (filter P (cm_pending m l))"
      by (rule exI [of _ P], rule exI [of _ 0]) (simp add: p)
    show "\<forall>t \<in> set (cm_pending m1 l). cm_futures m1 (tk_owner t) = Waiting"
      using li f p by (auto simp: lane_inv_def)
  qed (use o in \<open>simp_all add: only_lane_def\<close>)
  note q = promote_lane [OF l1 order_refl]
  show "capacity_inv now' (update_drained (promote l now' m1))"
    by (rule capacity_inv_freed(2) [OF i le only_lane_trans [OF o q(1)] subset_mset.order_trans [OF q(2) h] q(3,4)])
      (simp add: d)
  show "hold (update_drained (promote l now' m1)) l' \<subseteq># hold m l'"
    using subset_mset.order_trans [OF q(2) h] only_lane_other(1) [OF only_lane_trans [OF o q(1)], of l']
    by (cases "l' = l") simp_all
qed

lemma release_inv:
  assumes "capacity_inv now m" "now \<le> now'"
  shows "capacity_inv now' (release ow now' m) \<and> hold (release ow now' m) l \<subseteq># hold m l"
  unfolding release_def Let_def
  by (rule freed_then_promoted [OF assms, where P = "\<lambda>_. True" and ow = ow]) (simp_all add: only_lane_def)

lemma abandon_inv:
  assumes "capacity_inv now m" "now \<le> now'"
  shows "capacity_inv now' (abandon ow now' m) \<and> hold (abandon ow now' m) l \<subseteq># hold m l"
  unfolding abandon_def Let_def
  by (rule freed_then_promoted [OF assms, where P = "\<lambda>t. tk_owner t \<noteq> ow" and ow = ow])
    (auto simp: only_lane_def)

section \<open>Admission\<close>

text \<open>\<open>_acquire\<close> after its promotions: it enters, queues or changes nothing.\<close>

definition excluded :: "string \<Rightarrow> string list" where
  "excluded l = (if l \<in> set shared_lanes then shared_lanes else [l])"

definition promoted :: "string \<Rightarrow> real \<Rightarrow> manager \<Rightarrow> manager" where
  "promoted l now m = (if l \<in> set shared_lanes then promote ''foreground'' now (promote ''navigation'' now m)
     else promote l now m)"

lemma promoted_inv: "capacity_inv now m \<Longrightarrow> now \<le> now' \<Longrightarrow> capacity_inv now' (promoted l now' m)"
  using promote_inv [OF promote_inv order_refl] by (simp add: promoted_def promote_inv)

lemma promote_frame:
  "cm_lanes (promote l now m) = cm_lanes m" "cm_closed (promote l now m) = cm_closed m"
  "l' \<noteq> l \<Longrightarrow> hold (promote l now m) l' = hold m l'"
  by (auto simp: promote_def expire_def Let_def hold_def split: prod.splits)

lemma promote_hold:
  assumes "capacity_inv now m" "now \<le> now'"
  shows "hold (promote l now' m) l' \<subseteq># hold m l'"
proof (cases "l' = l")
  case True
  have "lane_inv now m l" using assms(1) by (simp add: capacity_inv_def)
  then show ?thesis using promote_lane(2) assms(2) True by blast
qed (simp add: promote_frame)

lemma promoted_frame:
  assumes "capacity_inv now m" "now \<le> now'"
  shows "cm_lanes (promoted l now' m) = cm_lanes m" "cm_closed (promoted l now' m) = cm_closed m"
    "hold (promoted l now' m) l' \<subseteq># hold m l'"
  using promote_hold [OF assms] subset_mset.order_trans [OF promote_hold [OF promote_inv [OF assms] order_refl] promote_hold [OF assms]]
  by (simp_all add: promoted_def promote_frame)

text \<open>The two states an admission can produce from \<open>m\<close>.\<close>

definition entered :: "owner \<Rightarrow> manager \<Rightarrow> manager" where
  "entered ow m = m\<lparr>cm_active := (cm_active m)(ow_lane ow := cm_active m (ow_lane ow) @ [ow]), cm_drained := False\<rparr>"

definition queued :: "owner \<Rightarrow> real \<Rightarrow> manager \<Rightarrow> manager" where
  "queued ow now m = m\<lparr>cm_pending := (cm_pending m)(ow_lane ow := cm_pending m (ow_lane ow)
       @ [\<lparr>tk_owner = ow, tk_deadline = now + ln_wait (lane_spec m (ow_lane ow))\<rparr>]),
     cm_futures := (cm_futures m)(ow := Waiting), cm_drained := False\<rparr>"

definition free_account :: "owner \<Rightarrow> manager \<Rightarrow> bool" where
  "free_account ow m \<longleftrightarrow> (ow_account ow \<noteq> None \<longrightarrow>
     (\<forall>e \<in> set (excluded (ow_lane ow)). \<forall>o' \<in># hold m e. ow_account o' \<noteq> ow_account ow))"

lemma if_chain:
  assumes "r = (if a then x1 else if b then x2 else if c then x3 else if d then x4 else if e then x5
    else if f then x6 else if g then x7 else if h then x8 else x9)"
  obtains (c1) "r = x1" | (c2) "r = x2" | (c3) "r = x3" | (c4) "r = x4" | (c5) "\<not> a" "r = x5" | (c6) "\<not> a" "r = x6"
  | (c7) "\<not> a" "\<not> e" "\<not> f" g "r = x7" | (c8) "\<not> a" "r = x8" | (c9) "\<not> a" "\<not> e" "\<not> f" "\<not> g" "\<not> h" "r = x9"
  using assms by argo

lemma acquire_cases:
  fixes parent ow now m
  defines "m1 \<equiv> promoted (ow_lane ow) now m" and "l \<equiv> ow_lane ow"
  obtains (unchanged) e where "acquire parent ow now m = (e, m)" "e \<noteq> Entered" "e \<noteq> Queued"
  | (busy) e where "acquire parent ow now m = (CapacityBusy e, m1)" "\<not> cm_closed m"
  | (entered) "acquire parent ow now m = (Entered, entered ow m1)" "\<not> cm_closed m"
      "free_account ow m1" "cm_pending m1 l = []" "int (length (cm_active m1 l)) < ln_limit (lane_spec m1 l)"
  | (queued) "acquire parent ow now m = (Queued, queued ow now m1)" "\<not> cm_closed m"
      "free_account ow m1" "cm_pending m1 l \<noteq> [] \<or> int (length (cm_active m1 l)) \<ge> ln_limit (lane_spec m1 l)"
      "int (length (cm_pending m1 l)) < ln_pending (lane_spec m1 l)"
proof -
  let ?acc = "ow_account ow \<noteq> None \<and> (\<exists>e \<in> set (excluded l). ow_account ow \<in> ow_account ` set (cm_active m1 e))"
  let ?acc' = "ow_account ow \<noteq> None
    \<and> (\<exists>e \<in> set (excluded l). ow_account ow \<in> (\<lambda>t. ow_account (tk_owner t)) ` set (cm_pending m1 e))"
  have free: "free_account ow m1" if "\<not> ?acc" "\<not> ?acc'"
    unfolding free_account_def
  proof (intro impI ballI notI)
    fix e o' assume a: "ow_account ow \<noteq> None" "e \<in> set (excluded (ow_lane ow))" "o' \<in># hold m1 e"
      "ow_account o' = ow_account ow"
    consider "o' \<in> set (cm_active m1 e)" | t where "t \<in> set (cm_pending m1 e)" "o' = tk_owner t"
      using a(3) by (auto simp: hold_def)
    then show False
    proof cases
      case 1
      then have "ow_account ow \<in> ow_account ` set (cm_active m1 e)" using a(4) by (metis imageI)
      with that(1) a(1,2) show False unfolding l_def by blast
    next
      case 2
      then have "ow_account ow \<in> (\<lambda>t. ow_account (tk_owner t)) ` set (cm_pending m1 e)" using a(4) by (metis imageI)
      with that(2) a(1,2) show False unfolding l_def by blast
    qed
  qed
  have d: "acquire parent ow now m =
      (if cm_closed m then (CapacityBusy ''serving admission is shutting down'', m)
       else if map_of (cm_lanes m) l = None then (ContractError ''unknown capacity lane'', m)
       else if parent = Some l then (ContractError ''nested operation admission'', m)
       else if l \<in> set account_lanes \<and> (ow_account ow = None \<or> \<not> ow_enabled ow)
       then (ContractError ''account admission requires a validated enabled principal'', m)
       else if ?acc then (CapacityBusy ''account already owns capacity'', m1)
       else if ?acc' then (CapacityBusy ''account already awaits capacity'', m1)
       else if cm_pending m1 l = [] \<and> int (length (cm_active m1 l)) < ln_limit (lane_spec m1 l) then (Entered, entered ow m1)
       else if int (length (cm_pending m1 l)) \<ge> ln_pending (lane_spec m1 l) \<or> ln_wait (lane_spec m1 l) = 0
       then (CapacityBusy ''capacity is full'', m1) else (Queued, queued ow now m1))"
    unfolding acquire_def Let_def m1_def l_def promoted_def excluded_def entered_def queued_def by (simp only: refl)
  from d show thesis
  proof (cases rule: if_chain)
    case c1
    then show thesis by (rule unchanged) simp_all
  next
    case c2
    then show thesis by (rule unchanged) simp_all
  next
    case c3
    then show thesis by (rule unchanged) simp_all
  next
    case c4
    then show thesis by (rule unchanged) simp_all
  next
    case c5
    show thesis by (rule busy [OF c5(2,1)])
  next
    case c6
    show thesis by (rule busy [OF c6(2,1)])
  next
    case c7
    show thesis by (rule entered [OF c7(5,1) free [OF c7(2,3)] conjunct1 [OF c7(4)] conjunct2 [OF c7(4)]])
  next
    case c8
    show thesis by (rule busy [OF c8(2,1)])
  next
    case c9
    have "cm_pending m1 l \<noteq> [] \<or> int (length (cm_active m1 l)) \<ge> ln_limit (lane_spec m1 l)"
      "int (length (cm_pending m1 l)) < ln_pending (lane_spec m1 l)" using c9(4,5) by linarith+
    then show thesis by (rule queued [OF c9(6,1) free [OF c9(2,3)]])
  qed
qed

lemma admitted_inv:
  assumes i: "capacity_inv now m" and new: "ow \<notin># hold m (ow_lane ow)" and free: "free_account ow m"
    and o: "only_lane (ow_lane ow) m m'" and h: "hold m' (ow_lane ow) = add_mset ow (hold m (ow_lane ow))"
    and d: "\<not> cm_drained m'" and b: "busy_lane m' (ow_lane ow)"
    and li: "int (length (cm_active m' (ow_lane ow))) \<le> ln_limit (lane_spec m (ow_lane ow))"
      "int (length (cm_pending m' (ow_lane ow))) \<le> ln_pending (lane_spec m (ow_lane ow))"
      "sorted (map tk_deadline (cm_pending m' (ow_lane ow)))"
      "\<forall>t \<in> set (cm_pending m' (ow_lane ow)). tk_deadline t \<le> now + ln_wait (lane_spec m (ow_lane ow))
        \<and> cm_futures m' (tk_owner t) = Waiting"
      "cm_closed m \<longrightarrow> cm_pending m' (ow_lane ow) = []"
  shows "capacity_inv now m'"
proof -
  let ?l = "ow_lane ow"
  have l0: "lane_inv now m ?l" using i by (simp add: capacity_inv_def)
  have s: "lane_spec m' ?l = lane_spec m ?l" "cm_closed m' = cm_closed m" using o by (simp_all add: only_lane_def lane_spec_def)
  have c: "count (add_mset ow (hold m ?l)) ow' \<le> 1" for ow'
    using l0 new by (cases "ow' = ow") (auto simp: lane_inv_def not_in_iff)
  have on: "once (add_mset ow (hold m ?l))"
  proof (rule once_add)
    show "once (hold m ?l)" using l0 by (simp add: lane_inv_def)
    show "\<forall>o' \<in># hold m ?l. ow_account ow \<noteq> None \<longrightarrow> ow_account o' \<noteq> ow_account ow"
      using free by (auto simp: free_account_def excluded_def split: if_splits)
  qed
  have l1: "lane_inv now m' ?l" unfolding lane_inv_def h s
  proof (intro conjI)
    show "\<forall>ow' \<in># add_mset ow (hold m ?l). ow_lane ow' = ?l" using l0 by (simp add: lane_inv_def)
  qed (use li c on in simp_all)
  have all: "lane_inv now m' l' \<and> busy_lane m' l'" for l'
    using i l1 b only_lane_other(2,3) [OF o, of l'] by (cases "l' = ?l") (auto simp: capacity_inv_def)
  have once: "once (hold m' ''navigation'' + hold m' ''foreground'')"
  proof (cases "?l \<in> set shared_lanes")
    case True
    have "\<forall>o' \<in># hold m ''navigation'' + hold m ''foreground''. ow_account ow \<noteq> None \<longrightarrow> ow_account o' \<noteq> ow_account ow"
      using free True by (auto simp: free_account_def excluded_def shared_lanes_def)
    moreover have "once (hold m ''navigation'' + hold m ''foreground'')" using i by (simp add: capacity_inv_def)
    ultimately have add: "once (add_mset ow (hold m ''navigation'' + hold m ''foreground''))" by (rule once_add [rotated])
    have "hold m' ''navigation'' + hold m' ''foreground'' = add_mset ow (hold m ''navigation'' + hold m ''foreground'')"
    proof (cases "?l = ''navigation''")
      case True
      then show ?thesis using h only_lane_other(1) [OF o, of "''foreground''"] by simp
    next
      case False
      then have "?l = ''foreground''" using \<open>?l \<in> set shared_lanes\<close> by (simp add: shared_lanes_def)
      then show ?thesis using h only_lane_other(1) [OF o, of "''navigation''"] by simp
    qed
    with add show ?thesis by simp
  next
    case False
    then have "hold m' ''navigation'' = hold m ''navigation''" "hold m' ''foreground'' = hold m ''foreground''"
      using only_lane_other(1) [OF o] by (auto simp: shared_lanes_def)
    then show ?thesis using i by (simp add: capacity_inv_def)
  qed
  show ?thesis using all once d by (simp add: capacity_inv_def)
qed

lemma entered_inv:
  assumes i: "capacity_inv now m" and "ow \<notin># hold m (ow_lane ow)" and "free_account ow m"
    and e: "cm_pending m (ow_lane ow) = []" "int (length (cm_active m (ow_lane ow))) < ln_limit (lane_spec m (ow_lane ow))"
  shows "capacity_inv now (entered ow m)"
proof -
  have "lane_inv now m (ow_lane ow)" using i by (simp add: capacity_inv_def)
  then show ?thesis
    by (intro admitted_inv [OF assms(1-3)]) (use e in \<open>simp_all add: entered_def only_lane_def hold_def busy_lane_def lane_inv_def\<close>)
qed

lemma queued_inv:
  assumes i: "capacity_inv now m" and new: "ow \<notin># hold m (ow_lane ow)" and "free_account ow m"
    and q: "\<not> cm_closed m" "cm_pending m (ow_lane ow) \<noteq> [] \<or> int (length (cm_active m (ow_lane ow))) \<ge> ln_limit (lane_spec m (ow_lane ow))"
      "int (length (cm_pending m (ow_lane ow))) < ln_pending (lane_spec m (ow_lane ow))"
  shows "capacity_inv now (queued ow now m)"
proof -
  let ?l = "ow_lane ow"
  have l0: "lane_inv now m ?l" "busy_lane m ?l" using i by (simp_all add: capacity_inv_def)
  have full: "int (length (cm_active m ?l)) = ln_limit (lane_spec m ?l)"
    using l0 q(2) by (auto simp: lane_inv_def busy_lane_def)
  have dl: "\<forall>t \<in> set (cm_pending m ?l). tk_deadline t \<le> now + ln_wait (lane_spec m ?l)" using l0(1) by (simp add: lane_inv_def)
  show ?thesis
  proof (rule admitted_inv [OF assms(1-3)])
    show "only_lane ?l m (queued ow now m)" by (auto simp: only_lane_def queued_def)
    show "busy_lane (queued ow now m) ?l" using full by (simp add: busy_lane_def queued_def lane_spec_def)
    show "sorted (map tk_deadline (cm_pending (queued ow now m) ?l))"
      using l0(1) dl by (simp add: queued_def sorted_append lane_inv_def)
    show "\<forall>t \<in> set (cm_pending (queued ow now m) ?l). tk_deadline t \<le> now + ln_wait (lane_spec m ?l)
        \<and> cm_futures (queued ow now m) (tk_owner t) = Waiting"
      using l0(1) dl by (auto simp: queued_def lane_inv_def)
  qed (use q full in \<open>simp_all add: queued_def hold_def\<close>)
qed

lemma acquire_inv:
  assumes i: "capacity_inv now m" and le: "now \<le> now'" and new: "ow \<notin># hold m (ow_lane ow)"
  shows "capacity_inv now' (snd (acquire parent ow now' m))"
proof -
  note p = promoted_inv [OF i le]
  have new': "ow \<notin># hold (promoted (ow_lane ow) now' m) (ow_lane ow)"
    using new mset_subset_eqD [OF promoted_frame(3) [OF i le]] by blast
  have m: "capacity_inv now' m"
  proof -
    have "lane_inv now' m l" for l
      using i le by (fastforce simp: capacity_inv_def lane_inv_def)
    with i show ?thesis by (simp add: capacity_inv_def)
  qed
  show ?thesis
  proof (cases rule: acquire_cases [of parent ow now' m])
    case unchanged
    then show ?thesis using m by simp
  next
    case busy
    then show ?thesis using p by simp
  next
    case entered
    then show ?thesis using entered_inv [OF p new'] by simp
  next
    case queued
    then show ?thesis using queued_inv [OF p new'] promoted_frame(2) [OF i le] by simp
  qed
qed

section \<open>Shutdown, leases and runs\<close>

lemma capacity_inv_same:
  assumes "capacity_inv now m" "cm_lanes m' = cm_lanes m" "cm_active m' = cm_active m" "cm_pending m' = cm_pending m"
    "cm_futures m' = cm_futures m" "cm_closed m' = cm_closed m" "cm_drained m' = cm_drained m"
  shows "capacity_inv now m'"
  using assms by (simp add: capacity_inv_def lane_inv_def busy_lane_def hold_def lane_spec_def)

lemma shutdown_inv:
  assumes i: "capacity_inv now m"
  shows "capacity_inv now (shutdown m)" "cm_pending (shutdown m) l = []" "cm_closed (shutdown m)"
proof -
  define m1 where "m1 = m\<lparr>cm_closed := True,
    cm_futures := refuse (concat (map (\<lambda>(l, s). cm_pending m l) (cm_lanes m))) (cm_futures m),
    cm_pending := (\<lambda>l. if l \<in> fst ` set (cm_lanes m) then [] else cm_pending m l)\<rparr>"
  have sd: "shutdown m = update_drained m1" by (simp add: shutdown_def m1_def)
  have li: "lane_inv now m l \<and> busy_lane m l" for l using i by (simp add: capacity_inv_def)
  have p: "cm_pending m1 l = []" for l using unknown_lane_empty(2) [of now m l] li by (simp add: m1_def)
  have a: "cm_active m1 = cm_active m" by (simp add: m1_def)
  have h: "hold m1 l = mset (cm_active m l)" for l by (simp add: hold_def p a)
  have sub: "hold m1 l \<subseteq># hold m l" for l unfolding h by (simp add: hold_def)
  have l1: "lane_inv now m1 l \<and> busy_lane m1 l" for l
  proof
    have s: "lane_spec m1 l = lane_spec m l" by (simp add: lane_spec_def m1_def)
    have "\<forall>ow \<in># hold m1 l. ow_lane ow = l" using li [of l] sub [of l] by (meson lane_inv_def mset_subset_eqD)
    moreover have "\<forall>ow. count (hold m1 l) ow \<le> 1" using li [of l] sub [of l] by (meson lane_inv_def le_trans subseteq_mset_def)
    moreover have "once (hold m1 l)" using li [of l] sub [of l] once_mono by (auto simp: lane_inv_def)
    moreover have "int (length (cm_active m1 l)) \<le> ln_limit (lane_spec m l)" "0 \<le> ln_pending (lane_spec m l)"
      using li [of l] by (auto simp: a lane_inv_def)
    ultimately show "lane_inv now m1 l" by (simp add: lane_inv_def s p)
    show "busy_lane m1 l" by (simp add: busy_lane_def p)
  qed
  have o1: "once (hold m1 ''navigation'' + hold m1 ''foreground'')"
    using i sub by (auto simp: capacity_inv_def intro: once_mono subset_mset.add_mono)
  have dr: "cm_drained m1 = cm_drained m" by (simp add: m1_def)
  have d1: "cm_drained m1 \<longrightarrow> (\<forall>l. hold m1 l = {#})"
    using i sub dr by (metis capacity_inv_def subset_mset.le_zero_eq)
  have i1: "capacity_inv now m1" using l1 o1 d1 by (simp add: capacity_inv_def)
  have "only_lane l m1 m1" for l by (simp add: only_lane_def)
  then show "capacity_inv now (shutdown m)" unfolding sd
    using capacity_inv_freed(2) [OF i1 order_refl _ subset_mset.order_refl] l1 by blast
  show "cm_pending (shutdown m) l = []" by (simp add: sd p)
  show "cm_closed (shutdown m)" by (simp add: sd) (simp add: m1_def)
qed

lemma shutdown_active: "cm_active (shutdown m) = cm_active m"
  by (simp add: shutdown_def)

lemma acquire_lanes:
  assumes "capacity_inv now m" "now \<le> now'"
  shows "cm_lanes (snd (acquire parent ow now' m)) = cm_lanes m"
    "cm_closed (snd (acquire parent ow now' m)) = cm_closed m"
  using promoted_frame [OF assms]
  by (cases rule: acquire_cases [of parent ow now' m]; simp add: entered_def queued_def)+

lemma start_lease_frame:
  "start_lease current ids m = Inr m' \<Longrightarrow> \<exists>ow. m' = m\<lparr>cm_leases := cm_leases m @ [ow]\<rparr>"
  by (auto simp: start_lease_def split: option.splits if_splits)

lemma capacity_step_inv:
  assumes "capacity_step (now, m) (now', m')" "capacity_inv now m"
  shows "capacity_inv now' m' \<and> cm_lanes m' = cm_lanes m \<and> (cm_closed m \<longrightarrow> cm_closed m')"
  using assms(1)
proof cases
  case acquire
  then show ?thesis using acquire_inv [OF assms(2)] acquire_lanes [OF assms(2)] by simp
next
  case abandon
  then show ?thesis using abandon_inv [OF assms(2)] by (simp add: abandon_def Let_def promote_frame)
next
  case release
  then show ?thesis using release_inv [OF assms(2)] by (simp add: release_def Let_def promote_frame)
next
  case (lease current ids)
  then obtain ow where "m' = m\<lparr>cm_leases := cm_leases m @ [ow]\<rparr>" using start_lease_frame by blast
  then show ?thesis using lease capacity_inv_same [OF assms(2)] by simp
next
  case unlease
  then show ?thesis using capacity_inv_same [OF assms(2)] by (simp add: end_lease_def)
next
  case shutdown
  then show ?thesis using shutdown_inv [OF assms(2)] by simp (simp add: shutdown_def)
qed

lemma capacity_run_inv:
  "capacity_run c0 c \<Longrightarrow> capacity_inv (fst c0) (snd c0) \<Longrightarrow>
   capacity_inv (fst c) (snd c) \<and> cm_lanes (snd c) = cm_lanes (snd c0) \<and> (cm_closed (snd c0) \<longrightarrow> cm_closed (snd c))"
proof (induction rule: capacity_run.induct)
  case (step c c')
  then show ?case using capacity_step_inv [of "fst c" "snd c" "fst c'" "snd c'"] by simp
qed simp

section \<open>A new manager\<close>

lemma pending_limits_cover:
  "list_all (\<lambda>(l, n0, p, w). p = 0 \<or> list_ex (\<lambda>(l', p', b). l' = l \<and> p' = p \<and> b \<le> 8) pending_limits) lane_defaults"
  by code_simp

lemma new_manager_inv:
  assumes "new_manager cfg = Inr m"
  shows "capacity_inv now m" "0 \<le> ln_pending (lane_spec m l)" "ln_pending (lane_spec m l) \<le> 8"
proof -
  have vc: "validate_capacity_config cfg = Inr ()" and m: "cm_active m = (\<lambda>_. [])" "cm_pending m = (\<lambda>_. [])"
    using assms by (auto simp: new_manager_def res_bind_def split: sum.splits)
  have caps: "0 \<le> cap_int (caps_of cfg) l" for l
    using valid_config(3) [OF vc, of l] by (fastforce simp: cap_int_def split: option.splits json.splits dest!: map_of_SomeD)
  have pend: "0 \<le> ln_pending (lane_spec m l) \<and> ln_pending (lane_spec m l) \<le> 8" for l
  proof (cases "map_of lane_defaults l")
    case None
    then show ?thesis using new_lane_spec(3) [OF assms] by simp
  next
    case (Some v)
    obtain n0 p w where lv: "v = (n0, p, w)" by (cases v)
    have "(l, n0, p, w) \<in> set lane_defaults" using Some lv by (auto dest: map_of_SomeD)
    then have pb: "p = 0 \<or> (\<exists>b \<le> 8. (l, p, b) \<in> set pending_limits)"
      using pending_limits_cover by (fastforce simp: list_all_iff list_ex_iff)
    have val: "ln_pending (lane_spec m l) = (if p \<noteq> 0 then
        (case cfg_value cfg (l @ ''_pending'') (JInt p) of JInt p \<Rightarrow> p | _ \<Rightarrow> 0) else 0)"
      using new_lane_spec(2) [OF assms] Some lv by (simp add: lane_of_def)
    show ?thesis
    proof (cases "p = 0")
      case False
      then obtain b where b: "b \<le> 8" "(l, p, b) \<in> set pending_limits" using pb by blast
      obtain q where "cfg_value cfg (l @ ''_pending'') (JInt p) = JInt q" "0 \<le> q" "q \<le> b"
        using valid_config(4) [OF vc b(2)] by blast
      then show ?thesis using val False b(1) by simp
    qed (simp add: val)
  qed
  then show "0 \<le> ln_pending (lane_spec m l)" "ln_pending (lane_spec m l) \<le> 8" by simp_all
  have h: "hold m l = {#}" for l by (simp add: hold_def m)
  show "capacity_inv now m"
    using new_lane_spec(1) [OF assms] caps pend by (simp add: capacity_inv_def lane_inv_def busy_lane_def once_def h m)
qed

section \<open>The bounds\<close>

lemma closed_step_hold:
  assumes "capacity_step (now, m) (now', m')" "capacity_inv now m" "cm_closed m"
  shows "hold m' l \<subseteq># hold m l"
  using assms(1)
proof cases
  case acquire
  then show ?thesis using assms(3) by (simp add: acquire_def)
next
  case abandon
  then show ?thesis using abandon_inv [OF assms(2)] by blast
next
  case release
  then show ?thesis using release_inv [OF assms(2)] by blast
next
  case (lease current ids)
  then obtain ow where "m' = m\<lparr>cm_leases := cm_leases m @ [ow]\<rparr>" using start_lease_frame by blast
  then show ?thesis by (simp add: hold_def)
next
  case unlease
  then show ?thesis by (simp add: end_lease_def hold_def)
next
  case shutdown
  then show ?thesis using shutdown_inv(2) [OF assms(2)] shutdown_active [of m] by (simp add: hold_def)
qed


text \<open>
  C24. The admission manager never lets serving work exceed the reviewed envelope, whatever
  operations arrive in whatever order: from a manager that its constructor accepted, in
  every reachable state each lane holds at most its configured slots and at most eight
  waiting tickets, the five account lanes together use at most six runtime connections and
  the control lanes at most five, no account holds or awaits two places of one lane or of
  the pair navigation and foreground, tickets wait in the order of their deadlines, a
  ticket waits only while its lane is full, and the drained event is never set while work
  is admitted or waiting.\<close>

theorem capacity_bounds:
  assumes "new_manager cfg = Inr m0" and "capacity_run (t0, m0) (t, m)"
  shows "(\<forall>l. int (length (cm_active m l)) \<le> cap_int (caps_of cfg) l \<and> length (cm_pending m l) \<le> 8)
    \<and> int (\<Sum>l\<leftarrow>runtime_lanes. length (cm_active m l)) \<le> 6
    \<and> int (\<Sum>l\<leftarrow>control_lanes. length (cm_active m l)) \<le> 5
    \<and> (\<forall>l. once (hold m l)) \<and> once (hold m ''navigation'' + hold m ''foreground'')
    \<and> (\<forall>l. sorted (map tk_deadline (cm_pending m l)))
    \<and> (\<forall>l. cm_pending m l \<noteq> [] \<longrightarrow> int (length (cm_active m l)) = cap_int (caps_of cfg) l)
    \<and> (cm_drained m \<longrightarrow> (\<forall>l. cm_active m l = [] \<and> cm_pending m l = []))"
proof -
  have vc: "validate_capacity_config cfg = Inr ()"
    using assms(1) by (auto simp: new_manager_def res_bind_def split: sum.splits)
  have r: "capacity_inv t m" "cm_lanes m = cm_lanes m0"
    using capacity_run_inv [OF assms(2)] new_manager_inv(1) [OF assms(1)] by simp_all
  have s: "lane_spec m l = lane_spec m0 l" for l using r(2) by (simp add: lane_spec_def)
  have li: "lane_inv t m l" "busy_lane m l" for l using r(1) by (simp_all add: capacity_inv_def)
  have act: "int (length (cm_active m l)) \<le> cap_int (caps_of cfg) l" for l
    using li(1) [of l] new_lane_spec(1) [OF assms(1)] s by (simp add: lane_inv_def)
  have pen: "length (cm_pending m l) \<le> 8" for l
    using li(1) [of l] new_manager_inv(3) [OF assms(1), of l] s [of l] by (simp add: lane_inv_def)
  have tot: "int (\<Sum>l\<leftarrow>ls. length (cm_active m l)) \<le> sum_list (map (cap_int (caps_of cfg)) ls)" for ls
    by (induction ls) (use act in \<open>auto intro: add_mono\<close>)
  have onc: "once (hold m l)" "sorted (map tk_deadline (cm_pending m l))" for l
    using li(1) [of l] by (simp_all add: lane_inv_def)
  have bus: "cm_pending m l \<noteq> [] \<longrightarrow> int (length (cm_active m l)) = cap_int (caps_of cfg) l" for l
    using li(2) [of l] new_lane_spec(1) [OF assms(1)] s by (simp add: busy_lane_def)
  have dr: "cm_drained m \<longrightarrow> (\<forall>l. cm_active m l = [] \<and> cm_pending m l = [])"
    using r(1) by (simp add: capacity_inv_def hold_def)
  have sh: "once (hold m ''navigation'' + hold m ''foreground'')" using r(1) by (simp add: capacity_inv_def)
  show ?thesis
    using act pen onc bus dr sh order_trans [OF tot valid_config(1) [OF vc]] order_trans [OF tot valid_config(2) [OF vc]]
    by blast
qed

definition default_manager :: manager where
  "default_manager = (case new_manager (\<lambda>_. None) of Inr m \<Rightarrow> m | Inl _ \<Rightarrow> undefined)"

lemma default_manager: "new_manager (\<lambda>_. None) = Inr default_manager"
proof -
  have "validate_capacity_config (\<lambda>_. None) = Inr ()" by code_simp
  then show ?thesis by (simp add: default_manager_def new_manager_def res_bind_def)
qed

definition sample_owner :: "nat \<Rightarrow> owner" where
  "sample_owner k = \<lparr>ow_id = k, ow_lane = ''routine'', ow_account = Some (int k), ow_enabled = True\<rparr>"

definition sample_manager :: manager where
  "sample_manager = snd (acquire None (sample_owner 2) 0 (snd (acquire None (sample_owner 1) 0 default_manager)))"

lemma sample_capacity_run: "capacity_run (0, default_manager) (0, sample_manager)"
proof -
  have "capacity_step (0, default_manager) (0, snd (acquire None (sample_owner 1) 0 default_manager))"
    by (rule capacity_step.acquire) code_simp+
  moreover have "capacity_step (0, snd (acquire None (sample_owner 1) 0 default_manager)) (0, sample_manager)"
    unfolding sample_manager_def by (rule capacity_step.acquire) code_simp+
  ultimately show ?thesis by (blast intro: capacity_run.intros)
qed

theorem capacity_bounds_witness:
  "length (cm_active sample_manager ''routine'') = 1 \<and> length (cm_pending sample_manager ''routine'') = 1
   \<and> int (\<Sum>l\<leftarrow>runtime_lanes. length (cm_active sample_manager l)) \<le> 6"
proof -
  have "length (cm_active sample_manager ''routine'') = 1" "length (cm_pending sample_manager ''routine'') = 1"
    by code_simp+
  with capacity_bounds [OF default_manager sample_capacity_run] show ?thesis by blast
qed

text \<open>
  After \<open>shutdown\<close> the manager admits nobody: whatever follows, no ticket waits any
  more, every admission is refused as busy and leaves the manager as it is, and the only
  change to a lane is that owners leave it.\<close>

theorem capacity_shutdown:
  assumes "new_manager cfg = Inr m0" and "capacity_run (t0, m0) (t, m)" and "capacity_run (t, shutdown m) (t', m')"
  shows "cm_pending m' l = []
    \<and> acquire parent ow t' m' = (CapacityBusy ''serving admission is shutting down'', m')
    \<and> mset (cm_active m' l) \<subseteq># mset (cm_active m l)"
proof -
  have i: "capacity_inv t (shutdown m)"
    using capacity_run_inv [OF assms(2)] new_manager_inv(1) [OF assms(1)] shutdown_inv(1) by simp
  have "capacity_inv t m" using capacity_run_inv [OF assms(2)] new_manager_inv(1) [OF assms(1)] by simp
  note sd = shutdown_inv [OF this]
  have cl: "cm_closed (shutdown m)" "hold (shutdown m) l = mset (cm_active m l)"
    by (simp_all add: sd hold_def shutdown_active)
  have "capacity_inv (fst c) (snd c) \<and> cm_closed (snd c) \<and> hold (snd c) l \<subseteq># hold (shutdown m) l"
    if "capacity_run (t, shutdown m) c" for c
    using that
  proof induction
    case refl
    then show ?case using i cl by simp
  next
    case (step c c')
    then have "capacity_inv (fst c') (snd c') \<and> cm_closed (snd c')" "hold (snd c') l \<subseteq># hold (snd c) l"
      using capacity_step_inv [of "fst c" "snd c" "fst c'" "snd c'"] closed_step_hold [of "fst c" "snd c" "fst c'" "snd c'"]
      by simp_all
    with step show ?case using subset_mset.order_trans by blast
  qed
  from this [OF assms(3)] have m': "capacity_inv t' m'" "cm_closed m'" "hold m' l \<subseteq># mset (cm_active m l)"
    using cl(2) by simp_all
  have p: "cm_pending m' l = []" using m'(1,2) by (simp add: capacity_inv_def lane_inv_def)
  then show ?thesis using m'(2,3) by (simp add: acquire_def hold_def)
qed


theorem capacity_shutdown_witness:
  "\<exists>m'. capacity_run (0, shutdown sample_manager) (0, m') \<and> cm_pending m' ''routine'' = []
   \<and> acquire None (sample_owner 3) 0 m' = (CapacityBusy ''serving admission is shutting down'', m')"
  using capacity_shutdown [OF default_manager sample_capacity_run capacity_run.refl] capacity_run.refl by blast

end
