(* ===== verification/PortableTypes.thy ===== *)
theory PortableTypes imports JsonData Expenses begin

text \<open>
  The data of a portable bundle (\<open>app/portable/\<close>): the rows the importer accepts, the
  constants of \<open>format.py\<close>, and what is taken from the standard library. Parsing and printing
  of datetimes, dates and decimals and the timezone database are the parameter
  \<open>py_text\<close>; the documented laws the round trip relies on are named in \<open>codec\<close>. An aware
  datetime is its instant and UTC offset; a naive one has no offset.
\<close>

section \<open>The standard library\<close>

record datetime =
  dt_at :: instant
  dt_offset :: "int option"

text \<open>A parser answers \<open>None\<close> where the library raises.\<close>

record py_text =
  parse_datetime_iso :: "ustr \<Rightarrow> datetime option"
  parse_date_iso :: "ustr \<Rightarrow> date option"
  parse_decimal :: "ustr \<Rightarrow> pyfloat option"
  known_zone :: "ustr \<Rightarrow> bool"
  show_datetime :: "datetime \<Rightarrow> ustr"
  show_date :: "date \<Rightarrow> ustr"
  show_decimal :: "real \<Rightarrow> ustr"

text \<open>\<open>raw.quantize(Decimal("0.01"))\<close>.\<close>

definition quantize_cents :: "real \<Rightarrow> real" where
  "quantize_cents r = of_int (round_half_even (r * 100)) / 100"

text \<open>\<open>fromisoformat\<close> inverts \<open>isoformat\<close>, and \<open>Decimal(str(d))\<close> is \<open>d\<close> for an amount in cents.\<close>

definition codec :: "py_text \<Rightarrow> bool" where
  "codec py \<longleftrightarrow> (\<forall>d. parse_datetime_iso py (show_datetime py d) = Some d)
     \<and> (\<forall>d. valid_date d \<longrightarrow> parse_date_iso py (show_date py d) = Some d)
     \<and> (\<forall>r. quantize_cents r = r \<longrightarrow> parse_decimal py (show_decimal py r) = Some (Fin r))"

text \<open>\<open>str.isspace\<close> and \<open>str.strip()\<close> on code points.\<close>

definition u_space :: "int \<Rightarrow> bool" where
  "u_space c \<longleftrightarrow> (9 \<le> c \<and> c \<le> 13) \<or> (28 \<le> c \<and> c \<le> 32) \<or> c = 0x85 \<or> c = 0xA0 \<or> c = 0x1680
     \<or> (0x2000 \<le> c \<and> c \<le> 0x200A) \<or> c = 0x2028 \<or> c = 0x2029 \<or> c = 0x202F \<or> c = 0x205F \<or> c = 0x3000"

definition u_strip :: "ustr \<Rightarrow> ustr" where
  "u_strip s = rev (dropWhile u_space (rev (dropWhile u_space s)))"

section \<open>\<open>format.py\<close>\<close>

definition FORMAT :: string where "FORMAT = ''odograph-portable''"
definition FORMAT_VERSION :: int where "FORMAT_VERSION = 3"
definition SUPPORTED_FORMAT_VERSIONS :: "int list" where "SUPPORTED_FORMAT_VERSIONS = [1, 2, 3]"
definition PLACE_KINDS :: "string list" where "PLACE_KINDS = [''home'', ''work'', ''other'']"
definition TRIP_SOURCES :: "string list" where "TRIP_SOURCES = [''detected'', ''manual'']"
definition TRIP_CATEGORIES :: "string list" where "TRIP_CATEGORIES = [''unclassified'', ''business'', ''personal'']"
definition TRIP_EXCLUSIONS :: "string list" where "TRIP_EXCLUSIONS = [''not_my_vehicle'', ''not_deductible'']"
definition TAG_RULE_CATEGORIES :: "string list" where "TAG_RULE_CATEGORIES = [''business'', ''personal'']"
definition TAG_SOURCES :: "string list" where "TAG_SOURCES = [''human'', ''rule'']"
definition TRIP_LABEL_MAX_LENGTH :: nat where "TRIP_LABEL_MAX_LENGTH = 100"

section \<open>The rows\<close>

record vehicle_rec =
  vb_id :: int
  vb_name :: ustr
  vb_make :: "ustr option"
  vb_model :: "ustr option"
  vb_plate :: "ustr option"
  vb_is_default :: bool
  vb_active :: bool

record place_rec =
  pb_id :: int
  pb_name :: ustr
  pb_kind :: ustr
  pb_lat :: real
  pb_lon :: real
  pb_radius_m :: real

record tag_rule_rec =
  gb_a_place :: "int option"
  gb_a_kind :: "ustr option"
  gb_b_place :: "int option"
  gb_b_kind :: "ustr option"
  gb_category :: ustr

record rate_rec =
  mb_year :: int
  mb_rate_per_mi :: real
  mb_rate_h2_per_mi :: "real option"
  mb_h2_start_month :: "int option"

record trip_rec =
  tb_id :: int
  tb_device :: ustr
  tb_source :: ustr
  tb_started_at :: datetime
  tb_ended_at :: datetime
  tb_distance_m :: real
  tb_has_gap :: bool
  tb_category :: ustr
  tb_exclusion :: "ustr option"
  tb_purpose :: "ustr option"
  tb_notes :: "ustr option"
  tb_vehicle :: "int option"
  tb_start_place :: "int option"
  tb_end_place :: "int option"
  tb_tag_source :: "ustr option"
  tb_start_label :: "ustr option"
  tb_end_label :: "ustr option"

record expense_rec =
  eb_vehicle :: int
  eb_incurred_on :: date
  eb_category :: ustr
  eb_amount :: real
  eb_treatment :: ustr
  eb_notes :: "ustr option"
  eb_trip :: "int option"

record odometer_rec =
  ob_vehicle :: int
  ob_recorded_at :: datetime
  ob_odometer_m :: real
  ob_note :: "ustr option"

record settings_rec =
  sb_auto_assign :: bool
  sb_display_tz :: "ustr option"

record bundle_rec =
  bb_format_version :: int
  bb_schema_version :: int
  bb_vehicles :: "vehicle_rec list"
  bb_places :: "place_rec list"
  bb_tag_rules :: "tag_rule_rec list"
  bb_mileage_rates :: "rate_rec list"
  bb_trips :: "trip_rec list"
  bb_expenses :: "expense_rec list"
  bb_odometer :: "odometer_rec list"
  bb_settings :: settings_rec

section \<open>JSON helpers\<close>

definition opt_json :: "('a \<Rightarrow> json) \<Rightarrow> 'a option \<Rightarrow> json" where
  "opt_json f v = (case v of None \<Rightarrow> JNull | Some x \<Rightarrow> f x)"

lemma opt_json_simps [simp]: "opt_json f None = JNull" "opt_json f (Some x) = f x"
  by (simp_all add: opt_json_def)

lemma ustr_in [simp]: "ustr s \<in> ustr ` A \<longleftrightarrow> s \<in> A"
  by (auto simp: image_iff)

end
