(* ===== verification/Normalize.thy ===== *)
theory Normalize imports PortableTypes begin

text \<open>
  \<open>app/portable/normalize.py\<close>: the validation of an uploaded bundle. Every normaliser walks
  the rows of one list, collects an issue for each row it refuses and the accepted rows
  with what was seen so far; \<open>normalize_bundle\<close> composes them. An issue is the list it
  belongs to, the row's index, the text and the values printed in it. The early
  \<open>continue\<close>s of a row are a list of guards, tried in order.
\<close>

datatype issue = Issue string "nat option" string "json list"

text \<open>What becomes of a row: an issue, or the new accumulator.\<close>

datatype 'a verdict = Reject string "json list" | Accept 'a

type_synonym json_obj = "(ustr \<times> json) list"

section \<open>Scalars\<close>

definition parse_datetime :: "py_text \<Rightarrow> json \<Rightarrow> datetime option" where
  "parse_datetime py v =
     (case v of
        JStr s \<Rightarrow> (case parse_datetime_iso py s of
            None \<Rightarrow> None
          | Some d \<Rightarrow> if dt_offset d \<noteq> None then Some d else None)
      | _ \<Rightarrow> None)"

text \<open>A date object is always a valid date.\<close>

definition parse_date :: "py_text \<Rightarrow> json \<Rightarrow> date option" where
  "parse_date py v =
     (case v of
        JStr s \<Rightarrow> (case parse_date_iso py s of None \<Rightarrow> None | Some d \<Rightarrow> if valid_date d then Some d else None)
      | _ \<Rightarrow> None)"

definition parse_amount :: "py_text \<Rightarrow> json \<Rightarrow> real option" where
  "parse_amount py v =
     (case v of
        JStr s \<Rightarrow>
          (case parse_decimal py s of
             Some (Fin raw) \<Rightarrow>
               if raw \<le> 0 \<or> raw > 9999999999.99 then None
               else let quantized = quantize_cents raw in if quantized = raw then Some quantized else None
           | _ \<Rightarrow> None)
      | _ \<Rightarrow> None)"

definition is_optional_str :: "json \<Rightarrow> bool" where
  "is_optional_str v \<longleftrightarrow> (case v of JNull \<Rightarrow> True | JStr _ \<Rightarrow> True | _ \<Rightarrow> False)"

definition plain_int :: "json \<Rightarrow> bool" where
  "plain_int v \<longleftrightarrow> (case v of JInt _ \<Rightarrow> True | _ \<Rightarrow> False)"

definition references_known_id :: "json \<Rightarrow> int list \<Rightarrow> bool" where
  "references_known_id v ids \<longleftrightarrow> (case v of JInt i \<Rightarrow> i \<in> set ids | _ \<Rightarrow> False)"

text \<open>\<open>v in ('a', 'b', ...)\<close>.\<close>

definition one_of :: "json \<Rightarrow> string list \<Rightarrow> bool" where
  "one_of v xs \<longleftrightarrow> (case v of JStr s \<Rightarrow> s \<in> ustr ` set xs | _ \<Rightarrow> False)"

text \<open>Readers of a value whose type has been checked.\<close>

definition int_of :: "json \<Rightarrow> int" where "int_of v = (case v of JInt i \<Rightarrow> i | _ \<Rightarrow> 0)"
definition opt_int :: "json \<Rightarrow> int option" where "opt_int v = (case v of JInt i \<Rightarrow> Some i | _ \<Rightarrow> None)"
definition str_of :: "json \<Rightarrow> ustr" where "str_of v = (case v of JStr s \<Rightarrow> s | _ \<Rightarrow> [])"
definition opt_str :: "json \<Rightarrow> ustr option" where "opt_str v = (case v of JStr s \<Rightarrow> Some s | _ \<Rightarrow> None)"
definition is_bool :: "json \<Rightarrow> bool" where "is_bool v \<longleftrightarrow> (case v of JBool _ \<Rightarrow> True | _ \<Rightarrow> False)"
definition bool_of :: "json \<Rightarrow> bool" where "bool_of v = (case v of JBool b \<Rightarrow> b | _ \<Rightarrow> False)"
definition is_str :: "json \<Rightarrow> bool" where "is_str v \<longleftrightarrow> (case v of JStr _ \<Rightarrow> True | _ \<Rightarrow> False)"

definition blank_name :: "json \<Rightarrow> bool" where
  "blank_name v \<longleftrightarrow> (case v of JStr s \<Rightarrow> u_strip s = [] | _ \<Rightarrow> True)"

section \<open>Walking the rows\<close>

type_synonym guard = "bool \<times> string \<times> json list"

text \<open>The first guard that fires.\<close>

fun first_guard :: "guard list \<Rightarrow> (string \<times> json list) option" where
  "first_guard [] = None"
| "first_guard ((c, t) # gs) = (if c then Some t else first_guard gs)"

definition guarded :: "guard list \<Rightarrow> 'a verdict result \<Rightarrow> 'a verdict result" where
  "guarded gs k = (case first_guard gs of Some (t, vs) \<Rightarrow> Inr (Reject t vs) | None \<Rightarrow> k)"

fun rows_from :: "string \<Rightarrow> nat \<Rightarrow> (json_obj \<Rightarrow> 's \<Rightarrow> 's verdict result) \<Rightarrow> json list \<Rightarrow> 's \<times> issue list
    \<Rightarrow> ('s \<times> issue list) result" where
  "rows_from field i body [] acc = Inr acc"
| "rows_from field i body (v # vs) (s, issues) =
     (case v of
        JObj row \<Rightarrow> res_bind (body row s) (\<lambda>r.
          case r of
            Reject t xs \<Rightarrow> rows_from field (Suc i) body vs (s, issues @ [Issue field (Some i) t xs])
          | Accept s' \<Rightarrow> rows_from field (Suc i) body vs (s', issues))
      | _ \<Rightarrow> rows_from field (Suc i) body vs (s, issues @ [Issue field (Some i) '' must be an object'' []]))"

definition each_row :: "string \<Rightarrow> (json_obj \<Rightarrow> 's \<Rightarrow> 's verdict result) \<Rightarrow> json \<Rightarrow> 's \<times> issue list
    \<Rightarrow> ('s \<times> issue list) result" where
  "each_row field body raw acc =
     (case raw of JArr vs \<Rightarrow> rows_from field 0 body vs acc
      | _ \<Rightarrow> Inr (fst acc, snd acc @ [Issue field None '' must be a list'' []]))"

section \<open>The lists\<close>

definition vehicle_row :: "json_obj \<Rightarrow> vehicle_rec list \<times> int list \<Rightarrow> (vehicle_rec list \<times> int list) verdict result" where
  "vehicle_row row acc =
     (let rid = jget row ''$id''; name = jget row ''name'';
          make = jget row ''make''; model = jget row ''model''; plate = jget row ''plate'';
          is_default = jget_or row ''is_default'' (JBool False); active = jget_or row ''active'' (JBool True)
      in guarded
        [(\<not> plain_int rid, ''.$id must be an integer'', []),
         (int_of rid \<in> set (snd acc), ''.$id is a duplicate'', [rid]),
         (blank_name name, ''.name must be a non-empty string'', []),
         (\<not> is_optional_str make, ''.make must be a string or null'', []),
         (\<not> is_optional_str model, ''.model must be a string or null'', []),
         (\<not> is_optional_str plate, ''.plate must be a string or null'', []),
         (\<not> is_bool is_default, ''.is_default must be a boolean'', []),
         (\<not> is_bool active, ''.active must be a boolean'', [])]
        (Inr (Accept
          (fst acc @ [\<lparr>vb_id = int_of rid, vb_name = str_of name, vb_make = opt_str make, vb_model = opt_str model,
              vb_plate = opt_str plate, vb_is_default = bool_of is_default, vb_active = bool_of active\<rparr>],
           int_of rid # snd acc))))"

definition normalize_vehicles :: "json \<Rightarrow> issue list \<Rightarrow> ((vehicle_rec list \<times> int list) \<times> issue list) result" where
  "normalize_vehicles raw issues =
     (if raw = JArr [] then Inr (([], []), issues @ [Issue ''vehicles'' None '' must contain at least one vehicle'' []])
      else res_bind (each_row ''vehicles'' vehicle_row raw (([], []), issues)) (\<lambda>((out, seen), issues).
        let default_count = length (filter vb_is_default out)
        in Inr ((out, seen),
             if default_count > 1
             then issues @ [Issue ''vehicles'' None '': at most one vehicle may have is_default true'' [JInt (int default_count)]]
             else issues)))"

definition place_row :: "json_obj \<Rightarrow> place_rec list \<times> int list \<times> ustr list
    \<Rightarrow> (place_rec list \<times> int list \<times> ustr list) verdict result" where
  "place_row row acc =
     (case acc of (out, seen_ids, seen_names) \<Rightarrow>
      let rid = jget row ''$id''; name = jget row ''name''; kind = jget row ''kind'';
          lat_raw = jget row ''lat''; lon_raw = jget row ''lon''
      in guarded
        [(\<not> plain_int rid, ''.$id must be an integer'', []),
         (int_of rid \<in> set seen_ids, ''.$id is a duplicate'', [rid]),
         (blank_name name, ''.name must be a non-empty string'', []),
         (str_of name \<in> set seen_names, ''.name is a duplicate'', [name]),
         (\<not> one_of kind PLACE_KINDS, ''.kind must be one of the place kinds'', [])]
        (res_bind (parse_finite_number lat_raw None None) (\<lambda>lat0.
         res_bind (if lat0 = None then Inr None else parse_finite_number lon_raw None None) (\<lambda>lon0.
         if lat0 = None \<or> lon0 = None then Inr (Reject ''.lat/lon must be finite numbers'' [])
         else res_bind (parse_finite_number lat_raw (Some (- 90)) (Some 90)) (\<lambda>lat.
         if lat = None then Inr (Reject ''.lat must be between -90 and 90'' [])
         else res_bind (parse_finite_number lon_raw (Some (- 180)) (Some 180)) (\<lambda>lon.
         if lon = None then Inr (Reject ''.lon must be between -180 and 180'' [])
         else res_bind (parse_finite_number (jget_or row ''radius_m'' (JInt 150)) None None) (\<lambda>radius_m.
         if (case radius_m of None \<Rightarrow> True | Some r \<Rightarrow> r \<le> 0) then Inr (Reject ''.radius_m must be a positive number'' [])
         else Inr (Accept
           (out @ [\<lparr>pb_id = int_of rid, pb_name = str_of name, pb_kind = str_of kind,
               pb_lat = the lat, pb_lon = the lon, pb_radius_m = the radius_m\<rparr>],
            int_of rid # seen_ids, str_of name # seen_names)))))))))"

definition normalize_places :: "json \<Rightarrow> issue list \<Rightarrow> ((place_rec list \<times> int list \<times> ustr list) \<times> issue list) result" where
  "normalize_places raw issues = each_row ''places'' place_row raw (([], [], []), issues)"

definition tag_rule_row :: "int list \<Rightarrow> json_obj \<Rightarrow> tag_rule_rec list \<Rightarrow> tag_rule_rec list verdict result" where
  "tag_rule_row place_ids row out =
     (let a_place = jget row ''a_place''; a_kind = jget row ''a_kind'';
          b_place = jget row ''b_place''; b_kind = jget row ''b_kind''; category = jget row ''category''
      in guarded
        [(a_place \<noteq> JNull \<and> \<not> references_known_id a_place place_ids, ''.a_place references unknown place $id'', [a_place]),
         (b_place \<noteq> JNull \<and> \<not> references_known_id b_place place_ids, ''.b_place references unknown place $id'', [b_place]),
         (a_place \<noteq> JNull \<and> a_kind \<noteq> JNull, '' cannot set both a_place and a_kind'', []),
         (b_place \<noteq> JNull \<and> b_kind \<noteq> JNull, '' cannot set both b_place and b_kind'', []),
         (a_kind \<noteq> JNull \<and> \<not> one_of a_kind PLACE_KINDS, ''.a_kind must be one of the place kinds or null'', []),
         (b_kind \<noteq> JNull \<and> \<not> one_of b_kind PLACE_KINDS, ''.b_kind must be one of the place kinds or null'', []),
         (a_place = JNull \<and> a_kind = JNull \<and> b_place = JNull \<and> b_kind = JNull,
            '' must constrain at least one side'', []),
         (\<not> one_of category TAG_RULE_CATEGORIES, ''.category must be one of the rule categories'', [])]
        (Inr (Accept (out @ [\<lparr>gb_a_place = opt_int a_place, gb_a_kind = opt_str a_kind,
           gb_b_place = opt_int b_place, gb_b_kind = opt_str b_kind, gb_category = str_of category\<rparr>]))))"

definition normalize_tag_rules :: "int list \<Rightarrow> json \<Rightarrow> issue list \<Rightarrow> (tag_rule_rec list \<times> issue list) result" where
  "normalize_tag_rules place_ids raw issues = each_row ''tag_rules'' (tag_rule_row place_ids) raw ([], issues)"

definition rate_row :: "json_obj \<Rightarrow> rate_rec list \<times> int list \<Rightarrow> (rate_rec list \<times> int list) verdict result" where
  "rate_row row acc =
     (let year = jget row ''year''; raw_h2_rate = jget row ''rate_h2_per_mi''; h2_month = jget row ''h2_start_month''
      in guarded
        [(\<not> plain_int year, ''.year must be an integer'', []),
         (int_of year \<in> set (snd acc), ''.year is a duplicate'', [year])]
        (res_bind (parse_finite_number (jget row ''rate_per_mi'') None None) (\<lambda>rate.
         if (case rate of None \<Rightarrow> True | Some r \<Rightarrow> r \<le> 0) then Inr (Reject ''.rate_per_mi must be a positive number'' [])
         else if (raw_h2_rate = JNull) \<noteq> (h2_month = JNull)
         then Inr (Reject '': rate_h2_per_mi and h2_start_month must be set together'' [])
         else res_bind (if raw_h2_rate \<noteq> JNull then parse_finite_number raw_h2_rate None None else Inr None) (\<lambda>h2_rate.
         if raw_h2_rate \<noteq> JNull \<and> (case h2_rate of None \<Rightarrow> True | Some r \<Rightarrow> r \<le> 0)
         then Inr (Reject ''.rate_h2_per_mi must be a positive number'' [])
         else if h2_month \<noteq> JNull \<and> \<not> (plain_int h2_month \<and> 1 \<le> int_of h2_month \<and> int_of h2_month \<le> 12)
         then Inr (Reject ''.h2_start_month must be between 1 and 12'' [])
         else Inr (Accept
           (fst acc @ [\<lparr>mb_year = int_of year, mb_rate_per_mi = the rate, mb_rate_h2_per_mi = h2_rate,
               mb_h2_start_month = opt_int h2_month\<rparr>],
            int_of year # snd acc))))))"

definition normalize_mileage_rates :: "json \<Rightarrow> issue list \<Rightarrow> ((rate_rec list \<times> int list) \<times> issue list) result" where
  "normalize_mileage_rates raw issues = each_row ''mileage_rates'' rate_row raw (([], []), issues)"

text \<open>The checks of one endpoint label; \<open>side\<close> is \<open>start\<close> or \<open>end\<close>.\<close>

definition label_guards :: "string \<Rightarrow> json \<Rightarrow> json \<Rightarrow> json \<Rightarrow> guard list" where
  "label_guards side label source place =
     [(\<not> is_optional_str label, ''.'' @ side @ ''_label must be a string or null'', []),
      (label \<noteq> JNull \<and> u_strip (str_of label) = [], ''.'' @ side @ ''_label must be a non-empty string'', []),
      (label \<noteq> JNull \<and> str_of label \<noteq> u_strip (str_of label),
         ''.'' @ side @ ''_label must not have leading or trailing whitespace'', []),
      (label \<noteq> JNull \<and> length (str_of label) > TRIP_LABEL_MAX_LENGTH,
         ''.'' @ side @ ''_label must be 100 characters or fewer'', []),
      (label \<noteq> JNull \<and> source \<noteq> JStr (ustr ''manual''),
         ''.'' @ side @ ''_label is only allowed when source is manual'', []),
      (label \<noteq> JNull \<and> place \<noteq> JNull, '' cannot set both '' @ side @ ''_label and '' @ side @ ''_place'', [])]"

definition trip_bundle_row :: "py_text \<Rightarrow> int list \<Rightarrow> int list \<Rightarrow> json_obj \<Rightarrow> trip_rec list \<times> int list
    \<Rightarrow> (trip_rec list \<times> int list) verdict result" where
  "trip_bundle_row py vehicle_ids place_ids row acc =
     (let rid = jget row ''$id''; device = jget row ''device''; source = jget row ''source'';
          started_at = parse_datetime py (jget row ''started_at''); ended_at = parse_datetime py (jget row ''ended_at'');
          category = jget row ''category''; exclusion = jget row ''exclusion''; tag_source = jget row ''tag_source'';
          has_gap = jget_or row ''has_gap'' (JBool False); purpose = jget row ''purpose''; notes = jget row ''notes'';
          vehicle = jget row ''vehicle''; start_place = jget row ''start_place''; end_place = jget row ''end_place'';
          start_label = jget row ''start_label''; end_label = jget row ''end_label''
      in guarded
        [(\<not> plain_int rid, ''.$id must be an integer'', []),
         (int_of rid \<in> set (snd acc), ''.$id is a duplicate'', [rid]),
         (\<not> is_str device \<or> str_of device = [], ''.device must be a non-empty string'', []),
         (\<not> one_of source TRIP_SOURCES, ''.source must be one of the trip sources'', []),
         (started_at = None, ''.started_at must be an ISO 8601 timestamp with a UTC offset'', []),
         (ended_at = None, ''.ended_at must be an ISO 8601 timestamp with a UTC offset'', []),
         (dt_at (the ended_at) < dt_at (the started_at), ''.ended_at must not be before started_at'', [])]
        (res_bind (parse_finite_number (jget row ''distance_m'') (Some 0) None) (\<lambda>distance_m.
          guarded
           ([(distance_m = None, ''.distance_m must be a non-negative number'', []),
             (\<not> one_of category TRIP_CATEGORIES, ''.category must be one of the trip categories'', []),
             (exclusion \<noteq> JNull \<and> \<not> one_of exclusion TRIP_EXCLUSIONS, ''.exclusion must be one of the exclusions or null'', []),
             (tag_source \<noteq> JNull \<and> \<not> one_of tag_source TAG_SOURCES, ''.tag_source must be one of the tag sources or null'', []),
             (\<not> is_bool has_gap, ''.has_gap must be a boolean'', []),
             (\<not> is_optional_str purpose, ''.purpose must be a string or null'', []),
             (\<not> is_optional_str notes, ''.notes must be a string or null'', []),
             (vehicle \<noteq> JNull \<and> \<not> references_known_id vehicle vehicle_ids, ''.vehicle references unknown vehicle $id'', [vehicle]),
             (start_place \<noteq> JNull \<and> \<not> references_known_id start_place place_ids,
                ''.start_place references unknown place $id'', [start_place]),
             (end_place \<noteq> JNull \<and> \<not> references_known_id end_place place_ids,
                ''.end_place references unknown place $id'', [end_place])]
            @ label_guards ''start'' start_label source start_place @ label_guards ''end'' end_label source end_place)
           (Inr (Accept
             (fst acc @ [\<lparr>tb_id = int_of rid, tb_device = str_of device, tb_source = str_of source,
                 tb_started_at = the started_at, tb_ended_at = the ended_at, tb_distance_m = the distance_m,
                 tb_has_gap = bool_of has_gap, tb_category = str_of category, tb_exclusion = opt_str exclusion,
                 tb_purpose = opt_str purpose, tb_notes = opt_str notes, tb_vehicle = opt_int vehicle,
                 tb_start_place = opt_int start_place, tb_end_place = opt_int end_place,
                 tb_tag_source = opt_str tag_source, tb_start_label = opt_str start_label,
                 tb_end_label = opt_str end_label\<rparr>],
              int_of rid # snd acc))))))"

definition normalize_trips :: "py_text \<Rightarrow> int list \<Rightarrow> int list \<Rightarrow> json \<Rightarrow> issue list
    \<Rightarrow> ((trip_rec list \<times> int list) \<times> issue list) result" where
  "normalize_trips py vehicle_ids place_ids raw issues =
     each_row ''trips'' (trip_bundle_row py vehicle_ids place_ids) raw (([], []), issues)"

definition expense_row :: "py_text \<Rightarrow> int list \<Rightarrow> int list \<Rightarrow> json_obj \<Rightarrow> expense_rec list \<Rightarrow> expense_rec list verdict result" where
  "expense_row py vehicle_ids trip_ids row out =
     (let vehicle = jget row ''vehicle''; incurred_on = parse_date py (jget row ''incurred_on'');
          category = jget row ''category''; treatment = jget row ''treatment'';
          amount = parse_amount py (jget row ''amount''); notes = jget row ''notes''; trip = jget row ''trip''
      in guarded
        [(\<not> references_known_id vehicle vehicle_ids, ''.vehicle references unknown vehicle $id'', [vehicle]),
         (incurred_on = None, ''.incurred_on must be an ISO 8601 date'', []),
         (\<not> one_of category EXPENSE_CATEGORIES, ''.category must be one of the expense categories'', []),
         (\<not> one_of treatment EXPENSE_TREATMENTS, ''.treatment must be one of the expense treatments'', []),
         (amount = None, ''.amount must be a positive decimal string'', []),
         (\<not> is_optional_str notes, ''.notes must be a string or null'', []),
         (trip \<noteq> JNull \<and> \<not> references_known_id trip trip_ids, ''.trip references unknown trip $id'', [trip])]
        (Inr (Accept (out @ [\<lparr>eb_vehicle = int_of vehicle, eb_incurred_on = the incurred_on,
           eb_category = str_of category, eb_amount = the amount, eb_treatment = str_of treatment,
           eb_notes = opt_str notes, eb_trip = opt_int trip\<rparr>]))))"

definition normalize_expenses :: "py_text \<Rightarrow> int list \<Rightarrow> int list \<Rightarrow> json \<Rightarrow> issue list
    \<Rightarrow> (expense_rec list \<times> issue list) result" where
  "normalize_expenses py vehicle_ids trip_ids raw issues =
     each_row ''expenses'' (expense_row py vehicle_ids trip_ids) raw ([], issues)"

text \<open>\<open>seen_pairs\<close> compares datetimes as Python does, by their instant.\<close>

definition odometer_bundle_row :: "py_text \<Rightarrow> int list \<Rightarrow> json_obj \<Rightarrow> odometer_rec list \<times> (int \<times> instant) list
    \<Rightarrow> (odometer_rec list \<times> (int \<times> instant) list) verdict result" where
  "odometer_bundle_row py vehicle_ids row acc =
     (let vehicle = jget row ''vehicle''; recorded_at = parse_datetime py (jget row ''recorded_at''); note = jget row ''note''
      in guarded
        [(\<not> references_known_id vehicle vehicle_ids, ''.vehicle references unknown vehicle $id'', [vehicle]),
         (recorded_at = None, ''.recorded_at must be an ISO 8601 timestamp with a UTC offset'', []),
         ((int_of vehicle, dt_at (the recorded_at)) \<in> set (snd acc),
            '' duplicates an existing (vehicle, recorded_at) pair'', [vehicle])]
        (res_bind (parse_finite_number (jget row ''odometer_m'') (Some 0) None) (\<lambda>odometer_m.
          guarded
            [(odometer_m = None, ''.odometer_m must be a non-negative number'', []),
             (\<not> is_optional_str note, ''.note must be a string or null'', [])]
            (Inr (Accept
              (fst acc @ [\<lparr>ob_vehicle = int_of vehicle, ob_recorded_at = the recorded_at,
                  ob_odometer_m = the odometer_m, ob_note = opt_str note\<rparr>],
               (int_of vehicle, dt_at (the recorded_at)) # snd acc))))))"

definition normalize_odometer_readings :: "py_text \<Rightarrow> int list \<Rightarrow> json \<Rightarrow> issue list
    \<Rightarrow> ((odometer_rec list \<times> (int \<times> instant) list) \<times> issue list) result" where
  "normalize_odometer_readings py vehicle_ids raw issues =
     each_row ''odometer_readings'' (odometer_bundle_row py vehicle_ids) raw (([], []), issues)"

section \<open>Settings and the bundle\<close>

text \<open>\<open>format_version == 3\<close> holds of the float as well.\<close>

definition is_three :: "json \<Rightarrow> bool" where
  "is_three v \<longleftrightarrow> v = JInt 3 \<or> v = JFloat (Fin 3)"

definition normalize_settings :: "py_text \<Rightarrow> json \<Rightarrow> json \<Rightarrow> issue list \<Rightarrow> settings_rec option \<times> issue list" where
  "normalize_settings py format_version raw issues =
     (case raw of
        JObj d \<Rightarrow>
          (let v = jget d ''auto_assign_default_vehicle'';
               display_tz = (if is_three format_version then jget d ''display_tz'' else JNull)
           in if \<not> is_bool v then (None, issues @ [Issue ''settings'' None ''.auto_assign_default_vehicle must be a boolean'' []])
              else (Some \<lparr>sb_auto_assign = bool_of v, sb_display_tz = opt_str display_tz\<rparr>,
                if is_three format_version
                   \<and> (\<not> is_str display_tz \<or> length (str_of display_tz) > 128 \<or> \<not> known_zone py (str_of display_tz))
                then issues @ [Issue ''settings'' None ''.display_tz must be an IANA timezone'' []] else issues))
      | _ \<Rightarrow> (None, issues @ [Issue ''settings'' None '' must be an object'' []]))"

definition header_issues :: "json_obj \<Rightarrow> issue list" where
  "header_issues d =
     (if jget d ''format'' \<noteq> JStr (ustr FORMAT) then [Issue ''format'' None '' must be odograph-portable'' []] else [])
     @ (if \<not> plain_int (jget d ''format_version'')
           \<or> int_of (jget d ''format_version'') \<notin> set SUPPORTED_FORMAT_VERSIONS
        then [Issue ''format_version'' None '' must be one of the supported versions'' []] else [])
     @ (if \<not> plain_int (jget d ''schema_version'')
        then [Issue ''schema_version'' None '' must be an integer'' []] else [])"

definition normalize_bundle :: "py_text \<Rightarrow> json \<Rightarrow> (bundle_rec option \<times> issue list) result" where
  "normalize_bundle py bundle =
     (case bundle of
        JObj d \<Rightarrow>
          res_bind (normalize_vehicles (jget d ''vehicles'') (header_issues d)) (\<lambda>((vehicles, vehicle_ids), issues).
          res_bind (normalize_places (jget d ''places'') issues) (\<lambda>((places, place_ids, place_names), issues).
          res_bind (normalize_tag_rules place_ids (jget d ''tag_rules'') issues) (\<lambda>(tag_rules, issues).
          res_bind (normalize_mileage_rates (jget d ''mileage_rates'') issues) (\<lambda>((mileage_rates, years), issues).
          res_bind (normalize_trips py vehicle_ids place_ids (jget d ''trips'') issues) (\<lambda>((trips, seen_trips), issues).
          res_bind (normalize_expenses py vehicle_ids (map tb_id trips) (jget d ''expenses'') issues) (\<lambda>(expenses, issues).
          res_bind (normalize_odometer_readings py vehicle_ids (jget d ''odometer_readings'') issues) (\<lambda>((readings, pairs), issues).
          case normalize_settings py (jget d ''format_version'') (jget d ''settings'') issues of (settings, issues) \<Rightarrow>
          if issues \<noteq> [] then Inr (None, issues)
          else Inr (Some \<lparr>bb_format_version = int_of (jget d ''format_version''),
                  bb_schema_version = int_of (jget d ''schema_version''), bb_vehicles = vehicles, bb_places = places,
                  bb_tag_rules = tag_rules, bb_mileage_rates = mileage_rates, bb_trips = trips,
                  bb_expenses = expenses, bb_odometer = readings, bb_settings = the settings\<rparr>, []))))))))
      | _ \<Rightarrow> Inr (None, [Issue ''bundle'' None '' must be a JSON object'' []]))"

end
