(* ===== verification/Export.thy ===== *)
theory Export imports Normalize begin

text \<open>
  \<open>app/portable/export.py\<close>: the shaping of an account's rows into a bundle. The rows are those
  the fetch helpers select; their columns are the fields of the records in \<open>PortableTypes\<close>.
\<close>

definition export_vehicle :: "vehicle_rec \<Rightarrow> json_obj" where
  "export_vehicle r =
     [(ustr ''$id'', JInt (vb_id r)), (ustr ''name'', JStr (vb_name r)), (ustr ''make'', opt_json JStr (vb_make r)),
      (ustr ''model'', opt_json JStr (vb_model r)), (ustr ''plate'', opt_json JStr (vb_plate r)),
      (ustr ''is_default'', JBool (vb_is_default r)), (ustr ''active'', JBool (vb_active r))]"

definition export_place :: "place_rec \<Rightarrow> json_obj" where
  "export_place r =
     [(ustr ''$id'', JInt (pb_id r)), (ustr ''name'', JStr (pb_name r)), (ustr ''kind'', JStr (pb_kind r)),
      (ustr ''lat'', JFloat (Fin (pb_lat r))), (ustr ''lon'', JFloat (Fin (pb_lon r))),
      (ustr ''radius_m'', JFloat (Fin (pb_radius_m r)))]"

definition export_tag_rule :: "tag_rule_rec \<Rightarrow> json_obj" where
  "export_tag_rule r =
     [(ustr ''a_place'', opt_json JInt (gb_a_place r)), (ustr ''a_kind'', opt_json JStr (gb_a_kind r)),
      (ustr ''b_place'', opt_json JInt (gb_b_place r)), (ustr ''b_kind'', opt_json JStr (gb_b_kind r)),
      (ustr ''category'', JStr (gb_category r))]"

definition json_float :: "real \<Rightarrow> json" where "json_float r = JFloat (Fin r)"

definition export_mileage_rate :: "rate_rec \<Rightarrow> json_obj" where
  "export_mileage_rate r =
     [(ustr ''year'', JInt (mb_year r)), (ustr ''rate_per_mi'', json_float (mb_rate_per_mi r)),
      (ustr ''rate_h2_per_mi'', opt_json json_float (mb_rate_h2_per_mi r)),
      (ustr ''h2_start_month'', opt_json JInt (mb_h2_start_month r))]"

definition export_trip :: "py_text \<Rightarrow> trip_rec \<Rightarrow> json_obj" where
  "export_trip py r =
     [(ustr ''$id'', JInt (tb_id r)), (ustr ''device'', JStr (tb_device r)), (ustr ''source'', JStr (tb_source r)),
      (ustr ''started_at'', JStr (show_datetime py (tb_started_at r))),
      (ustr ''ended_at'', JStr (show_datetime py (tb_ended_at r))),
      (ustr ''distance_m'', json_float (tb_distance_m r)), (ustr ''has_gap'', JBool (tb_has_gap r)),
      (ustr ''category'', JStr (tb_category r)), (ustr ''exclusion'', opt_json JStr (tb_exclusion r)),
      (ustr ''purpose'', opt_json JStr (tb_purpose r)), (ustr ''notes'', opt_json JStr (tb_notes r)),
      (ustr ''vehicle'', opt_json JInt (tb_vehicle r)), (ustr ''start_place'', opt_json JInt (tb_start_place r)),
      (ustr ''end_place'', opt_json JInt (tb_end_place r)), (ustr ''tag_source'', opt_json JStr (tb_tag_source r)),
      (ustr ''start_label'', opt_json JStr (tb_start_label r)), (ustr ''end_label'', opt_json JStr (tb_end_label r))]"

definition export_expense :: "py_text \<Rightarrow> expense_rec \<Rightarrow> json_obj" where
  "export_expense py r =
     [(ustr ''vehicle'', JInt (eb_vehicle r)), (ustr ''incurred_on'', JStr (show_date py (eb_incurred_on r))),
      (ustr ''category'', JStr (eb_category r)), (ustr ''amount'', JStr (show_decimal py (eb_amount r))),
      (ustr ''treatment'', JStr (eb_treatment r)), (ustr ''notes'', opt_json JStr (eb_notes r)),
      (ustr ''trip'', opt_json JInt (eb_trip r))]"

definition export_odometer_reading :: "py_text \<Rightarrow> odometer_rec \<Rightarrow> json_obj" where
  "export_odometer_reading py r =
     [(ustr ''vehicle'', JInt (ob_vehicle r)), (ustr ''recorded_at'', JStr (show_datetime py (ob_recorded_at r))),
      (ustr ''odometer_m'', json_float (ob_odometer_m r)), (ustr ''note'', opt_json JStr (ob_note r))]"

definition export_rows :: "('a \<Rightarrow> json_obj) \<Rightarrow> 'a list \<Rightarrow> json" where
  "export_rows f xs = JArr (map (\<lambda>x. JObj (f x)) xs)"

text \<open>The rows of an account, as the fetch helpers return them.\<close>

record account_rows =
  ar_vehicles :: "vehicle_rec list"
  ar_places :: "place_rec list"
  ar_tag_rules :: "tag_rule_rec list"
  ar_mileage_rates :: "rate_rec list"
  ar_trips :: "trip_rec list"
  ar_expenses :: "expense_rec list"
  ar_odometer :: "odometer_rec list"
  ar_settings :: settings_rec

definition build_export_bundle :: "py_text \<Rightarrow> account_rows \<Rightarrow> int \<Rightarrow> datetime \<Rightarrow> json" where
  "build_export_bundle py rows schema_version exported_at = JObj
     [(ustr ''format'', JStr (ustr FORMAT)), (ustr ''format_version'', JInt FORMAT_VERSION),
      (ustr ''schema_version'', JInt schema_version), (ustr ''exported_at'', JStr (show_datetime py exported_at)),
      (ustr ''vehicles'', export_rows export_vehicle (ar_vehicles rows)),
      (ustr ''places'', export_rows export_place (ar_places rows)),
      (ustr ''tag_rules'', export_rows export_tag_rule (ar_tag_rules rows)),
      (ustr ''mileage_rates'', export_rows export_mileage_rate (ar_mileage_rates rows)),
      (ustr ''trips'', export_rows (export_trip py) (ar_trips rows)),
      (ustr ''expenses'', export_rows (export_expense py) (ar_expenses rows)),
      (ustr ''odometer_readings'', export_rows (export_odometer_reading py) (ar_odometer rows)),
      (ustr ''settings'', JObj [(ustr ''auto_assign_default_vehicle'', JBool (sb_auto_assign (ar_settings rows))),
         (ustr ''display_tz'', opt_json JStr (sb_display_tz (ar_settings rows)))])]"

end
