(* ===== verification/Portable.thy ===== *)
theory Portable imports Export begin

text \<open>
  What the portable format guarantees: a bundle that \<open>normalize_bundle\<close> accepts is well formed
  (identifiers unique, every reference resolved, every value in range), and the export of a
  well-formed account is accepted and read back row for row. Each normaliser of one list is
  an instance of one contract: it reads a row only into a state that lists one more row that
  is in order, and it reads back every row that is in order from its export.
\<close>

section \<open>Rows in order\<close>

text \<open>Each row is in order after those before it.\<close>

fun rows_ok :: "('a list \<Rightarrow> 'a \<Rightarrow> bool) \<Rightarrow> 'a list \<Rightarrow> 'a list \<Rightarrow> bool" where
  "rows_ok ok ys [] \<longleftrightarrow> True"
| "rows_ok ok ys (x # xs) \<longleftrightarrow> ok ys x \<and> rows_ok ok (ys @ [x]) xs"

lemma rows_ok_local: "rows_ok (\<lambda>_ x. P x) ys xs \<longleftrightarrow> (\<forall>x \<in> set xs. P x)"
  by (induction xs arbitrary: ys) auto

lemma rows_ok_conj: "rows_ok (\<lambda>ys x. A ys x \<and> B ys x) ys xs \<longleftrightarrow> rows_ok A ys xs \<and> rows_ok B ys xs"
  by (induction xs arbitrary: ys) auto

lemma rows_ok_new:
  "rows_ok (\<lambda>ys x. f x \<notin> f ` set ys) ys xs \<longleftrightarrow> distinct (map f xs) \<and> f ` set xs \<inter> f ` set ys = {}"
  by (induction xs arbitrary: ys) auto

text \<open>A value that holds an integer too large for a double.\<close>

fun huge :: "json \<Rightarrow> bool" where
  "huge (JInt i) \<longleftrightarrow> float_limit \<le> \<bar>i\<bar>"
| "huge (JArr vs) \<longleftrightarrow> (\<exists>v \<in> set vs. huge v)"
| "huge (JObj d) \<longleftrightarrow> (\<exists>kv \<in> set d. huge (snd kv))"
| "huge _ \<longleftrightarrow> False"

locale row_reader =
  fixes body :: "json_obj \<Rightarrow> 's \<Rightarrow> 's verdict result"
    and shown :: "'a \<Rightarrow> json_obj"
    and st :: "'a list \<Rightarrow> 's"
    and ok :: "'a list \<Rightarrow> 'a \<Rightarrow> bool"
    and lawful :: bool
  assumes reads: "body row (st ys) = Inr (Accept s) \<Longrightarrow> \<exists>x. s = st (ys @ [x]) \<and> ok ys x"
    and shows_row: "lawful \<Longrightarrow> ok ys x \<Longrightarrow> body (shown x) (st ys) = Inr (Accept (st (ys @ [x])))"
    and raises: "body row s = Inl e \<Longrightarrow> e = OverflowError \<and> huge (JObj row)"
begin

lemma rows_from_sound:
  "rows_from field i body vs (st ys, iss) = Inr (s, iss') \<Longrightarrow>
     \<exists>xs more. s = st (ys @ xs) \<and> rows_ok ok ys xs \<and> iss' = iss @ more \<and> length xs + length more = length vs"
proof (induction vs arbitrary: i ys iss)
  case Nil
  then show ?case by (intro exI [of _ "[]"]) simp
next
  case (Cons v vs)
  have rej: "\<exists>xs more. s = st (ys @ xs) \<and> rows_ok ok ys xs \<and> iss' = iss @ more \<and> length xs + length more = length (v # vs)"
    if "rows_from field (Suc i) body vs (st ys, iss @ [n]) = Inr (s, iss')" for n
  proof -
    from Cons.IH [OF that] obtain xs more where "s = st (ys @ xs)" "rows_ok ok ys xs"
      "iss' = (iss @ [n]) @ more" "length xs + length more = length vs" by blast
    then show ?thesis by (intro exI [of _ xs] exI [of _ "n # more"]) simp
  qed
  show ?case
  proof (cases "\<exists>row. v = JObj row")
    case True
    then obtain row where v: "v = JObj row" by blast
    then obtain r where b: "body row (st ys) = Inr r" using Cons.prems by (cases "body row (st ys)") auto
    show ?thesis
    proof (cases r)
      case (Reject t xs)
      show ?thesis using Cons.prems v b Reject by (intro rej [of "Issue field (Some i) t xs"]) simp
    next
      case (Accept s1)
      obtain x where x: "s1 = st (ys @ [x])" "ok ys x" using reads b Accept by blast
      have "rows_from field (Suc i) body vs (st (ys @ [x]), iss) = Inr (s, iss')"
        using Cons.prems v b Accept x(1) by simp
      from Cons.IH [OF this] obtain xs more where "s = st ((ys @ [x]) @ xs)" "rows_ok ok (ys @ [x]) xs" "iss' = iss @ more"
        "length xs + length more = length vs" by blast
      with x(2) show ?thesis by (intro exI [of _ "x # xs"] exI [of _ more]) simp
    qed
  next
    case False
    then show ?thesis
      using Cons.prems by (intro rej [of "Issue field (Some i) '' must be an object'' []"]) (auto split: json.splits)
  qed
qed

lemma rows_from_shown:
  "lawful \<Longrightarrow> rows_ok ok ys xs \<Longrightarrow>
     rows_from field i body (map (\<lambda>x. JObj (shown x)) xs) (st ys, iss) = Inr (st (ys @ xs), iss)"
  by (induction xs arbitrary: i ys) (simp_all add: shows_row)

lemma each_row_sound:
  assumes "each_row field body raw (st [], iss) = Inr (s, iss')"
  obtains xs more where "s = st xs" "rows_ok ok [] xs" "iss' = iss @ more"
    "more = [] \<longrightarrow> (\<exists>vs. raw = JArr vs \<and> length xs = length vs)"
proof (cases "\<exists>vs. raw = JArr vs")
  case True
  then obtain vs where v: "raw = JArr vs" by blast
  from assms v have "rows_from field 0 body vs (st [], iss) = Inr (s, iss')" by (simp add: each_row_def)
  from rows_from_sound [OF this] obtain xs more where r: "s = st ([] @ xs)" "rows_ok ok [] xs" "iss' = iss @ more"
    "length xs + length more = length vs" by blast
  show thesis by (rule that [of xs more]) (use r v in auto)
next
  case False
  then have r: "s = st []" "iss' = iss @ [Issue field None '' must be a list'' []]"
    using assms by (auto simp: each_row_def split: json.splits)
  show thesis by (rule that [of "[]"]) (use r in auto)
qed

lemma rows_from_raises:
  "rows_from field i body vs acc = Inl e \<Longrightarrow> e = OverflowError \<and> huge (JArr vs)"
proof (induction vs arbitrary: i acc)
  case (Cons v vs)
  obtain s iss where acc: "acc = (s, iss)" by fastforce
  show ?case
  proof (cases v)
    case (JObj row)
    show ?thesis
    proof (cases "body row s")
      case (Inl e')
      then show ?thesis using raises [OF Inl] Cons.prems JObj acc by auto
    next
      case (Inr r)
      then show ?thesis using Cons.prems JObj acc Cons.IH by (cases r) fastforce+
    qed
  qed (use Cons.prems Cons.IH acc in fastforce)+
qed simp

lemma each_row_raises: "each_row field body raw acc = Inl e \<Longrightarrow> e = OverflowError \<and> huge raw"
  using rows_from_raises by (cases raw) (auto simp: each_row_def)

lemma each_row_shown:
  "lawful \<Longrightarrow> rows_ok ok [] xs \<Longrightarrow> each_row field body (export_rows shown xs) (st [], iss) = Inr (st xs, iss)"
  using rows_from_shown [of "[]"] by (simp add: each_row_def export_rows_def)

end

section \<open>Reading a row back\<close>

lemma first_guard_None: "first_guard gs = None \<longleftrightarrow> (\<forall>g \<in> set gs. \<not> fst g)"
  by (induction gs rule: first_guard.induct) auto

lemma guarded_Accept: "guarded gs k = Inr (Accept s) \<longleftrightarrow> (\<forall>g \<in> set gs. \<not> fst g) \<and> k = Inr (Accept s)"
  using first_guard_None [of gs] by (cases "first_guard gs") (auto simp: guarded_def)

lemma guarded_pass: "\<forall>g \<in> set gs. \<not> fst g \<Longrightarrow> guarded gs k = k"
  using first_guard_None [of gs] by (simp add: guarded_def)

lemma guarded_Cons: "\<not> c \<Longrightarrow> guarded ((c, t) # gs) k = guarded gs k" and guarded_Nil [simp]: "guarded [] k = k"
  by (simp_all add: guarded_def)

lemma guarded_append: "guarded (gs @ hs) k = guarded gs (guarded hs k)"
  by (induction gs) (auto simp: guarded_def split: prod.splits)

lemma res_bind_Accept: "res_bind r f = Inr s \<longleftrightarrow> (\<exists>a. r = Inr a \<and> f a = Inr s)"
  by (cases r) auto

lemma parse_float [simp]:
  "parse_finite_number (JFloat (Fin r)) lo hi
     = Inr (if (case lo of Some m \<Rightarrow> r < m | None \<Rightarrow> False) \<or> (case hi of Some m \<Rightarrow> r > m | None \<Rightarrow> False) then None else Some r)"
  by (auto simp: parse_finite_number_def is_number_def to_float_def)

lemma jget_huge:
  "huge (jget row k) \<Longrightarrow> \<exists>kv \<in> set row. huge (snd kv)"
  "huge (jget_or row k (JInt 150)) \<Longrightarrow> \<exists>kv \<in> set row. huge (snd kv)"
proof -
  have m: "\<exists>kv \<in> set row. huge (snd kv)" if "huge (dget row (ustr k) d)" "\<not> huge d" for d
  proof (cases "map_of row (ustr k)")
    case None
    then show ?thesis using that by (simp add: dget_def)
  next
    case (Some v)
    then have "(ustr k, v) \<in> set row" by (rule map_of_SomeD)
    then show ?thesis using that(1) Some by (intro bexI) (simp_all add: dget_def)
  qed
  have "\<not> huge (JInt 150)" by (simp add: float_limit_def)
  then show "huge (jget row k) \<Longrightarrow> \<exists>kv \<in> set row. huge (snd kv)"
    "huge (jget_or row k (JInt 150)) \<Longrightarrow> \<exists>kv \<in> set row. huge (snd kv)"
    using m by (auto simp: jget_def jget_or_def)
qed

lemma parse_huge: "parse_finite_number v lo hi = Inl e \<Longrightarrow> e = OverflowError \<and> huge v"
  using parse_finite_number_error by fastforce

lemma guarded_Inl: "guarded gs k = Inl e \<longleftrightarrow> first_guard gs = None \<and> k = Inl e"
  by (auto simp: guarded_def split: option.splits)

lemma res_bind_Inl: "res_bind r f = Inl e \<longleftrightarrow> r = Inl e \<or> (\<exists>a. r = Inr a \<and> f a = Inl e)"
  by (cases r) auto

lemmas raising = guarded_Inl res_bind_Inl

lemmas readers = plain_int_def int_of_def opt_int_def str_of_def opt_str_def is_bool_def bool_of_def is_str_def
  blank_name_def is_optional_str_def references_known_id_def one_of_def

definition ref_in :: "int option \<Rightarrow> int list \<Rightarrow> bool" where
  "ref_in r ids \<longleftrightarrow> (case r of None \<Rightarrow> True | Some i \<Rightarrow> i \<in> set ids)"

definition opt_in :: "ustr option \<Rightarrow> string list \<Rightarrow> bool" where
  "opt_in v xs \<longleftrightarrow> (case v of None \<Rightarrow> True | Some s \<Rightarrow> s \<in> ustr ` set xs)"

section \<open>The contract of each list\<close>

definition vehicle_ok :: "vehicle_rec list \<Rightarrow> vehicle_rec \<Rightarrow> bool" where
  "vehicle_ok ys x \<longleftrightarrow> vb_id x \<notin> vb_id ` set ys \<and> u_strip (vb_name x) \<noteq> []"

definition vehicle_state :: "vehicle_rec list \<Rightarrow> vehicle_rec list \<times> int list" where
  "vehicle_state ys = (ys, rev (map vb_id ys))"

interpretation vehicles: row_reader vehicle_row export_vehicle vehicle_state vehicle_ok True
proof
  fix row ys s
  assume "vehicle_row row (vehicle_state ys) = Inr (Accept s)"
  then show "\<exists>x. s = vehicle_state (ys @ [x]) \<and> vehicle_ok ys x"
    by (auto simp: vehicle_row_def Let_def guarded_Accept vehicle_state_def vehicle_ok_def readers split: json.splits)
next
  fix ys x
  assume "vehicle_ok ys x"
  then show "vehicle_row (export_vehicle x) (vehicle_state ys) = Inr (Accept (vehicle_state (ys @ [x])))"
    unfolding vehicle_row_def Let_def
    by (subst guarded_pass) (auto simp: export_vehicle_def jget_def jget_or_def dget_def vehicle_state_def vehicle_ok_def readers
      opt_json_def split: option.splits)
next
  show "vehicle_row row s = Inl e \<Longrightarrow> e = OverflowError \<and> huge (JObj row)" for row s e
    by (auto simp: vehicle_row_def Let_def raising)
qed

lemmas shown = jget_def jget_or_def dget_def json_float_def opt_json_def

definition place_ok :: "place_rec list \<Rightarrow> place_rec \<Rightarrow> bool" where
  "place_ok ys x \<longleftrightarrow> pb_id x \<notin> pb_id ` set ys \<and> pb_name x \<notin> pb_name ` set ys \<and> u_strip (pb_name x) \<noteq> []
     \<and> pb_kind x \<in> ustr ` set PLACE_KINDS \<and> - 90 \<le> pb_lat x \<and> pb_lat x \<le> 90
     \<and> - 180 \<le> pb_lon x \<and> pb_lon x \<le> 180 \<and> 0 < pb_radius_m x"

definition place_state :: "place_rec list \<Rightarrow> place_rec list \<times> int list \<times> ustr list" where
  "place_state ys = (ys, rev (map pb_id ys), rev (map pb_name ys))"

lemma place_row_reads:
  assumes "place_row row (place_state ys) = Inr (Accept s)"
  shows "\<exists>x. s = place_state (ys @ [x]) \<and> place_ok ys x"
proof -
  let ?x = "\<lambda>lat lon r. \<lparr>pb_id = int_of (jget row ''$id''), pb_name = str_of (jget row ''name''),
    pb_kind = str_of (jget row ''kind''), pb_lat = lat, pb_lon = lon, pb_radius_m = r\<rparr>"
  note a = assms [unfolded place_row_def place_state_def prod.case Let_def guarded_Accept]
  have g: "plain_int (jget row ''$id'')" "int_of (jget row ''$id'') \<notin> pb_id ` set ys" "\<not> blank_name (jget row ''name'')"
    "str_of (jget row ''name'') \<notin> pb_name ` set ys" "one_of (jget row ''kind'') PLACE_KINDS"
    using a by auto
  obtain lat lon r where p: "parse_finite_number (jget row ''lat'') (Some (- 90)) (Some 90) = Inr (Some lat)"
    "parse_finite_number (jget row ''lon'') (Some (- 180)) (Some 180) = Inr (Some lon)" "0 < r"
    "s = place_state (ys @ [?x lat lon r])"
    using a [THEN conjunct2] by (auto simp: res_bind_Accept place_state_def split: if_splits option.splits)
  have "place_ok ys (?x lat lon r)"
    using g p(3) parse_finite_number_Some [OF p(1)] parse_finite_number_Some [OF p(2)]
    by (auto simp: place_ok_def readers split: json.splits)
  with p(4) show ?thesis by blast
qed

interpretation places: row_reader place_row export_place place_state place_ok True
proof
  show "place_row row (place_state ys) = Inr (Accept s) \<Longrightarrow> \<exists>x. s = place_state (ys @ [x]) \<and> place_ok ys x" for row ys s
    by (rule place_row_reads)
next
  fix ys x
  assume "place_ok ys x"
  then show "place_row (export_place x) (place_state ys) = Inr (Accept (place_state (ys @ [x])))"
    unfolding place_row_def Let_def place_state_def prod.case
    by (subst guarded_pass) (auto simp: export_place_def shown place_ok_def readers)
next
  show "place_row row s = Inl e \<Longrightarrow> e = OverflowError \<and> huge (JObj row)" for row s e
    by (auto simp: place_row_def Let_def raising dest!: parse_huge jget_huge split: prod.splits if_splits)
qed

text \<open>The tag rules of a bundle with these places.\<close>

definition tag_rule_ok :: "int list \<Rightarrow> tag_rule_rec \<Rightarrow> bool" where
  "tag_rule_ok place_ids x \<longleftrightarrow> ref_in (gb_a_place x) place_ids \<and> ref_in (gb_b_place x) place_ids
     \<and> (gb_a_place x = None \<or> gb_a_kind x = None) \<and> (gb_b_place x = None \<or> gb_b_kind x = None)
     \<and> opt_in (gb_a_kind x) PLACE_KINDS \<and> opt_in (gb_b_kind x) PLACE_KINDS
     \<and> \<not> (gb_a_place x = None \<and> gb_a_kind x = None \<and> gb_b_place x = None \<and> gb_b_kind x = None)
     \<and> gb_category x \<in> ustr ` set TAG_RULE_CATEGORIES"

interpretation tag_rules: row_reader "tag_rule_row place_ids" export_tag_rule "\<lambda>ys. ys" "\<lambda>_. tag_rule_ok place_ids" True
  for place_ids
proof
  fix row ys s
  assume "tag_rule_row place_ids row ys = Inr (Accept s)"
  then show "\<exists>x. s = ys @ [x] \<and> tag_rule_ok place_ids x"
    unfolding tag_rule_row_def Let_def guarded_Accept
    by (auto simp: tag_rule_ok_def readers ref_in_def opt_in_def split: json.splits)
next
  fix ys x
  assume "tag_rule_ok place_ids x"
  then show "tag_rule_row place_ids (export_tag_rule x) ys = Inr (Accept (ys @ [x]))"
    unfolding tag_rule_row_def Let_def
    by (subst guarded_pass) (auto simp: export_tag_rule_def shown tag_rule_ok_def readers ref_in_def opt_in_def
      split: option.splits)
next
  show "tag_rule_row place_ids row s = Inl e \<Longrightarrow> e = OverflowError \<and> huge (JObj row)" for row s e
    by (auto simp: tag_rule_row_def Let_def raising)
qed

definition rate_ok :: "rate_rec list \<Rightarrow> rate_rec \<Rightarrow> bool" where
  "rate_ok ys x \<longleftrightarrow> mb_year x \<notin> mb_year ` set ys \<and> 0 < mb_rate_per_mi x
     \<and> (mb_rate_h2_per_mi x = None \<longleftrightarrow> mb_h2_start_month x = None)
     \<and> (case mb_rate_h2_per_mi x of None \<Rightarrow> True | Some r \<Rightarrow> 0 < r)
     \<and> (case mb_h2_start_month x of None \<Rightarrow> True | Some m \<Rightarrow> 1 \<le> m \<and> m \<le> 12)"

definition rate_state :: "rate_rec list \<Rightarrow> rate_rec list \<times> int list" where
  "rate_state ys = (ys, rev (map mb_year ys))"

interpretation rates: row_reader rate_row export_mileage_rate rate_state rate_ok True
proof
  fix row ys s
  assume a: "rate_row row (rate_state ys) = Inr (Accept s)"
  let ?h2 = "jget row ''rate_h2_per_mi''" and ?m = "jget row ''h2_start_month''"
  note a = a [unfolded rate_row_def rate_state_def Let_def guarded_Accept]
  have g: "plain_int (jget row ''year'')" "int_of (jget row ''year'') \<notin> mb_year ` set ys" using a by auto
  obtain r h2 where p: "0 < r" "(?h2 = JNull) = (?m = JNull)" "?h2 = JNull \<longrightarrow> h2 = None"
    "?h2 \<noteq> JNull \<longrightarrow> (\<exists>r2. h2 = Some r2 \<and> 0 < r2)"
    "?m \<noteq> JNull \<longrightarrow> plain_int ?m \<and> 1 \<le> int_of ?m \<and> int_of ?m \<le> 12"
    "s = rate_state (ys @ [\<lparr>mb_year = int_of (jget row ''year''), mb_rate_per_mi = r, mb_rate_h2_per_mi = h2,
      mb_h2_start_month = opt_int ?m\<rparr>])"
    using a [THEN conjunct2] by (auto simp: res_bind_Accept rate_state_def split: if_splits option.splits)
  have "rate_ok ys \<lparr>mb_year = int_of (jget row ''year''), mb_rate_per_mi = r, mb_rate_h2_per_mi = h2,
      mb_h2_start_month = opt_int ?m\<rparr>"
    using g p(1-5) by (auto simp: rate_ok_def readers split: json.splits)
  with p(6) show "\<exists>x. s = rate_state (ys @ [x]) \<and> rate_ok ys x" by blast
next
  fix ys x
  assume "rate_ok ys x"
  then show "rate_row (export_mileage_rate x) (rate_state ys) = Inr (Accept (rate_state (ys @ [x])))"
    unfolding rate_row_def Let_def
    by (subst guarded_pass) (auto simp: export_mileage_rate_def shown rate_ok_def rate_state_def readers split: option.splits)
next
  show "rate_row row s = Inl e \<Longrightarrow> e = OverflowError \<and> huge (JObj row)" for row s e
    by (auto simp: rate_row_def Let_def raising dest!: parse_huge jget_huge split: prod.splits if_splits)
qed


lemma parse_datetime_show:
  "codec py \<Longrightarrow> dt_offset d \<noteq> None \<Longrightarrow> parse_datetime py (JStr (show_datetime py d)) = Some d"
  by (simp add: parse_datetime_def codec_def)

lemma parse_datetime_aware: "parse_datetime py v = Some d \<Longrightarrow> dt_offset d \<noteq> None"
  by (auto simp: parse_datetime_def split: json.splits option.splits if_splits)

definition label_ok :: "ustr option \<Rightarrow> ustr \<Rightarrow> int option \<Rightarrow> bool" where
  "label_ok label source place \<longleftrightarrow> (case label of None \<Rightarrow> True
     | Some s \<Rightarrow> s \<noteq> [] \<and> u_strip s = s \<and> length s \<le> TRIP_LABEL_MAX_LENGTH \<and> source = ustr ''manual'' \<and> place = None)"

lemma label_guards_pass:
  assumes "source = JStr src" "place = opt_json JInt pl"
  shows "(\<forall>g \<in> set (label_guards side label source place). \<not> fst g)
    \<longleftrightarrow> (\<exists>l. label = opt_json JStr l \<and> label_ok l src pl)"
  using assms
  by (cases label) (auto simp: label_guards_def label_ok_def readers opt_json_def split: option.splits)

text \<open>The trips of a bundle with these vehicles and places.\<close>

definition trip_ok :: "int list \<Rightarrow> int list \<Rightarrow> trip_rec \<Rightarrow> bool" where
  "trip_ok vehicle_ids place_ids x \<longleftrightarrow> tb_device x \<noteq> [] \<and> tb_source x \<in> ustr ` set TRIP_SOURCES
     \<and> dt_offset (tb_started_at x) \<noteq> None \<and> dt_offset (tb_ended_at x) \<noteq> None
     \<and> dt_at (tb_started_at x) \<le> dt_at (tb_ended_at x) \<and> 0 \<le> tb_distance_m x
     \<and> tb_category x \<in> ustr ` set TRIP_CATEGORIES \<and> opt_in (tb_exclusion x) TRIP_EXCLUSIONS
     \<and> opt_in (tb_tag_source x) TAG_SOURCES \<and> ref_in (tb_vehicle x) vehicle_ids
     \<and> ref_in (tb_start_place x) place_ids \<and> ref_in (tb_end_place x) place_ids
     \<and> label_ok (tb_start_label x) (tb_source x) (tb_start_place x)
     \<and> label_ok (tb_end_label x) (tb_source x) (tb_end_place x)"

definition trip_state :: "trip_rec list \<Rightarrow> trip_rec list \<times> int list" where
  "trip_state ys = (ys, rev (map tb_id ys))"

lemma ref_json: "v \<noteq> JNull \<longrightarrow> references_known_id v ids \<Longrightarrow> v = opt_json JInt (opt_int v) \<and> ref_in (opt_int v) ids"
  by (auto simp: readers ref_in_def split: json.splits)

lemma opt_str_json: "is_optional_str v \<Longrightarrow> v = opt_json JStr (opt_str v)"
  by (auto simp: readers split: json.splits)

lemma one_of_json: "one_of v xs \<Longrightarrow> v = JStr (str_of v) \<and> str_of v \<in> ustr ` set xs"
  by (auto simp: readers split: json.splits)

lemma opt_of_json: "v \<noteq> JNull \<longrightarrow> one_of v xs \<Longrightarrow> opt_in (opt_str v) xs"
  by (auto simp: readers opt_in_def split: json.splits)

lemma one_of_JStr [simp]: "one_of (JStr s) xs \<longleftrightarrow> s \<in> ustr ` set xs"
  by (simp add: one_of_def)

lemma references_JInt [simp]: "references_known_id (JInt i) ids \<longleftrightarrow> i \<in> set ids"
  by (simp add: references_known_id_def)

lemma opt_in_json: "opt_in v xs \<Longrightarrow> \<not> (opt_json JStr v \<noteq> JNull \<and> \<not> one_of (opt_json JStr v) xs)"
  by (cases v) (simp_all add: readers opt_in_def)

lemma ref_in_json: "ref_in v ids \<Longrightarrow> \<not> (opt_json JInt v \<noteq> JNull \<and> \<not> references_known_id (opt_json JInt v) ids)"
  by (cases v) (simp_all add: readers ref_in_def)

lemma trip_row_reads:
  assumes "trip_bundle_row py vids pids row (trip_state ys) = Inr (Accept s)"
  shows "\<exists>x. s = trip_state (ys @ [x]) \<and> tb_id x \<notin> tb_id ` set ys \<and> trip_ok vids pids x"
proof -
  let ?g = "jget row"
  note a = assms [unfolded trip_bundle_row_def trip_state_def Let_def guarded_Accept res_bind_Accept fst_conv snd_conv]
  obtain sa ea where d: "parse_datetime py (?g ''started_at'') = Some sa" "parse_datetime py (?g ''ended_at'') = Some ea"
    "dt_at sa \<le> dt_at ea" using a [THEN conjunct1] by fastforce
  have g: "plain_int (?g ''$id'')" "int_of (?g ''$id'') \<notin> tb_id ` set ys" "is_str (?g ''device'')" "str_of (?g ''device'') \<noteq> []"
    "one_of (?g ''source'') TRIP_SOURCES"
    using a [THEN conjunct1] by auto
  obtain dist where p: "parse_finite_number (?g ''distance_m'') (Some 0) None = Inr (Some dist)"
    and h: "one_of (?g ''category'') TRIP_CATEGORIES"
      "?g ''exclusion'' \<noteq> JNull \<longrightarrow> one_of (?g ''exclusion'') TRIP_EXCLUSIONS"
      "?g ''tag_source'' \<noteq> JNull \<longrightarrow> one_of (?g ''tag_source'') TAG_SOURCES"
      "?g ''vehicle'' \<noteq> JNull \<longrightarrow> references_known_id (?g ''vehicle'') vids"
      "?g ''start_place'' \<noteq> JNull \<longrightarrow> references_known_id (?g ''start_place'') pids"
      "?g ''end_place'' \<noteq> JNull \<longrightarrow> references_known_id (?g ''end_place'') pids"
    and l: "\<forall>g \<in> set (label_guards ''start'' (?g ''start_label'') (?g ''source'') (?g ''start_place'')). \<not> fst g"
      "\<forall>g \<in> set (label_guards ''end'' (?g ''end_label'') (?g ''source'') (?g ''end_place'')). \<not> fst g"
    and s: "s = trip_state (ys @ [\<lparr>tb_id = int_of (?g ''$id''), tb_device = str_of (?g ''device''), tb_source = str_of (?g ''source''),
        tb_started_at = sa, tb_ended_at = ea, tb_distance_m = dist, tb_has_gap = bool_of (jget_or row ''has_gap'' (JBool False)),
        tb_category = str_of (?g ''category''), tb_exclusion = opt_str (?g ''exclusion''), tb_purpose = opt_str (?g ''purpose''),
        tb_notes = opt_str (?g ''notes''), tb_vehicle = opt_int (?g ''vehicle''), tb_start_place = opt_int (?g ''start_place''),
        tb_end_place = opt_int (?g ''end_place''), tb_tag_source = opt_str (?g ''tag_source''),
        tb_start_label = opt_str (?g ''start_label''), tb_end_label = opt_str (?g ''end_label'')\<rparr>])"
      (is "s = trip_state (ys @ [?x])")
    using a [THEN conjunct2] d(1,2) by (auto simp: trip_state_def)
  have src: "?g ''source'' = JStr (str_of (?g ''source''))" using one_of_json [OF g(5)] by simp
  have lab: "label_ok (opt_str (?g ''start_label'')) (str_of (?g ''source'')) (opt_int (?g ''start_place''))"
    "label_ok (opt_str (?g ''end_label'')) (str_of (?g ''source'')) (opt_int (?g ''end_place''))"
    using label_guards_pass [OF src conjunct1 [OF ref_json [OF h(5)]], of "''start''" "?g ''start_label''"] l(1)
      label_guards_pass [OF src conjunct1 [OF ref_json [OF h(6)]], of "''end''" "?g ''end_label''"] l(2)
    by (auto simp: opt_str_def opt_json_def split: option.splits)
  have "0 \<le> dist" using parse_finite_number_Some [OF p] by simp
  then have "trip_ok vids pids ?x"
    using g(3-5) d parse_datetime_aware [OF d(1)] parse_datetime_aware [OF d(2)] one_of_json [OF h(1)] one_of_json [OF g(5)]
      opt_of_json [OF h(2)] opt_of_json [OF h(3)] ref_json [OF h(4)] ref_json [OF h(5)] ref_json [OF h(6)] lab
    by (simp add: trip_ok_def)
  then show ?thesis using s g(2) by (intro exI [of _ ?x]) simp
qed

interpretation trips: row_reader "trip_bundle_row py vids pids" "export_trip py" trip_state
    "\<lambda>ys x. tb_id x \<notin> tb_id ` set ys \<and> trip_ok vids pids x" "codec py"
  for py vids pids
proof
  show "trip_bundle_row py vids pids row (trip_state ys) = Inr (Accept s) \<Longrightarrow>
    \<exists>x. s = trip_state (ys @ [x]) \<and> tb_id x \<notin> tb_id ` set ys \<and> trip_ok vids pids x" for row ys s
    by (rule trip_row_reads)
next
  fix ys :: "trip_rec list" and x :: trip_rec
  assume c: "codec py" and x: "tb_id x \<notin> tb_id ` set ys \<and> trip_ok vids pids x"
  have lg: "\<forall>g \<in> set (label_guards ''start'' (opt_json JStr (tb_start_label x)) (JStr (tb_source x)) (opt_json JInt (tb_start_place x))). \<not> fst g"
    "\<forall>g \<in> set (label_guards ''end'' (opt_json JStr (tb_end_label x)) (JStr (tb_source x)) (opt_json JInt (tb_end_place x))). \<not> fst g"
    using x label_guards_pass by (auto simp: trip_ok_def)
  have e: "jget (export_trip py x) ''$id'' = JInt (tb_id x)" "jget (export_trip py x) ''device'' = JStr (tb_device x)"
    "jget (export_trip py x) ''source'' = JStr (tb_source x)"
    "jget (export_trip py x) ''started_at'' = JStr (show_datetime py (tb_started_at x))"
    "jget (export_trip py x) ''ended_at'' = JStr (show_datetime py (tb_ended_at x))"
    "jget (export_trip py x) ''distance_m'' = JFloat (Fin (tb_distance_m x))"
    "jget_or (export_trip py x) ''has_gap'' (JBool False) = JBool (tb_has_gap x)"
    "jget (export_trip py x) ''category'' = JStr (tb_category x)"
    "jget (export_trip py x) ''exclusion'' = opt_json JStr (tb_exclusion x)"
    "jget (export_trip py x) ''purpose'' = opt_json JStr (tb_purpose x)"
    "jget (export_trip py x) ''notes'' = opt_json JStr (tb_notes x)"
    "jget (export_trip py x) ''vehicle'' = opt_json JInt (tb_vehicle x)"
    "jget (export_trip py x) ''start_place'' = opt_json JInt (tb_start_place x)"
    "jget (export_trip py x) ''end_place'' = opt_json JInt (tb_end_place x)"
    "jget (export_trip py x) ''tag_source'' = opt_json JStr (tb_tag_source x)"
    "jget (export_trip py x) ''start_label'' = opt_json JStr (tb_start_label x)"
    "jget (export_trip py x) ''end_label'' = opt_json JStr (tb_end_label x)"
    by (simp_all add: export_trip_def jget_def jget_or_def dget_def json_float_def)
  have o: "opt_str (opt_json JStr v) = v" "opt_int (opt_json JInt w) = w" "is_optional_str (opt_json JStr v)" for v w
    by (cases v; cases w; simp add: readers)+
  have dts: "parse_datetime py (JStr (show_datetime py (tb_started_at x))) = Some (tb_started_at x)"
    "parse_datetime py (JStr (show_datetime py (tb_ended_at x))) = Some (tb_ended_at x)"
    using parse_datetime_show [OF c] x by (auto simp: trip_ok_def)
  have n: "\<not> (opt_json JStr (tb_exclusion x) \<noteq> JNull \<and> \<not> one_of (opt_json JStr (tb_exclusion x)) TRIP_EXCLUSIONS)"
    "\<not> (opt_json JStr (tb_tag_source x) \<noteq> JNull \<and> \<not> one_of (opt_json JStr (tb_tag_source x)) TAG_SOURCES)"
    "\<not> (opt_json JInt (tb_vehicle x) \<noteq> JNull \<and> \<not> references_known_id (opt_json JInt (tb_vehicle x)) vids)"
    "\<not> (opt_json JInt (tb_start_place x) \<noteq> JNull \<and> \<not> references_known_id (opt_json JInt (tb_start_place x)) pids)"
    "\<not> (opt_json JInt (tb_end_place x) \<noteq> JNull \<and> \<not> references_known_id (opt_json JInt (tb_end_place x)) pids)"
    using x by (intro opt_in_json ref_in_json; simp add: trip_ok_def)+
  show "trip_bundle_row py vids pids (export_trip py x) (trip_state ys) = Inr (Accept (trip_state (ys @ [x])))"
    unfolding trip_bundle_row_def Let_def e dts
    using x by (simp add: guarded_Cons guarded_append guarded_pass [OF lg(1)] guarded_pass [OF lg(2)] n o(1-3) trip_ok_def
      trip_state_def plain_int_def int_of_def str_of_def is_bool_def bool_of_def is_str_def)
next
  show "trip_bundle_row py vids pids row s = Inl e \<Longrightarrow> e = OverflowError \<and> huge (JObj row)" for row s e
    by (auto simp: trip_bundle_row_def Let_def raising dest!: parse_huge jget_huge split: prod.splits if_splits)
qed


text \<open>The expenses of a bundle with these vehicles and trips.\<close>

definition expense_ok :: "int list \<Rightarrow> int list \<Rightarrow> expense_rec \<Rightarrow> bool" where
  "expense_ok vehicle_ids trip_ids x \<longleftrightarrow> eb_vehicle x \<in> set vehicle_ids \<and> valid_date (eb_incurred_on x)
     \<and> eb_category x \<in> ustr ` set EXPENSE_CATEGORIES \<and> eb_treatment x \<in> ustr ` set EXPENSE_TREATMENTS
     \<and> 0 < eb_amount x \<and> eb_amount x \<le> 9999999999.99 \<and> quantize_cents (eb_amount x) = eb_amount x
     \<and> ref_in (eb_trip x) trip_ids"

lemma parse_date_Some: "parse_date py v = Some d \<Longrightarrow> valid_date d"
  by (auto simp: parse_date_def split: json.splits option.splits if_splits)

lemma parse_date_show: "codec py \<Longrightarrow> valid_date d \<Longrightarrow> parse_date py (JStr (show_date py d)) = Some d"
  by (cases d) (simp add: parse_date_def codec_def)

lemma parse_amount_Some:
  "parse_amount py v = Some r \<Longrightarrow> 0 < r \<and> r \<le> 9999999999.99 \<and> quantize_cents r = r"
  by (auto simp: parse_amount_def Let_def split: json.splits option.splits pyfloat.splits if_splits)

lemma parse_amount_show:
  "codec py \<Longrightarrow> 0 < r \<Longrightarrow> r \<le> 9999999999.99 \<Longrightarrow> quantize_cents r = r \<Longrightarrow>
     parse_amount py (JStr (show_decimal py r)) = Some r"
  by (simp add: parse_amount_def codec_def)

interpretation expenses: row_reader "expense_row py vids tids" "export_expense py" "\<lambda>ys. ys" "\<lambda>_. expense_ok vids tids" "codec py"
  for py vids tids
proof
  fix row ys s
  assume a: "expense_row py vids tids row ys = Inr (Accept s)"
  let ?g = "jget row"
  note a = a [unfolded expense_row_def Let_def guarded_Accept]
  obtain d r where p: "parse_date py (?g ''incurred_on'') = Some d" "parse_amount py (?g ''amount'') = Some r"
    using a [THEN conjunct1] by auto
  have g: "references_known_id (?g ''vehicle'') vids" "one_of (?g ''category'') EXPENSE_CATEGORIES"
    "one_of (?g ''treatment'') EXPENSE_TREATMENTS" "?g ''trip'' \<noteq> JNull \<longrightarrow> references_known_id (?g ''trip'') tids"
    using a [THEN conjunct1] by auto
  have v: "int_of (?g ''vehicle'') \<in> set vids" using g(1) by (auto simp: readers split: json.splits)
  show "\<exists>x. s = ys @ [x] \<and> expense_ok vids tids x"
    using a [THEN conjunct2] p v parse_date_Some [OF p(1)] parse_amount_Some [OF p(2)] one_of_json [OF g(2)] one_of_json [OF g(3)]
      ref_json [OF g(4)]
    by (auto simp: expense_ok_def)
next
  fix ys :: "expense_rec list" and x
  assume c: "codec py" and x: "expense_ok vids tids x"
  have e: "jget (export_expense py x) ''vehicle'' = JInt (eb_vehicle x)"
    "jget (export_expense py x) ''incurred_on'' = JStr (show_date py (eb_incurred_on x))"
    "jget (export_expense py x) ''category'' = JStr (eb_category x)"
    "jget (export_expense py x) ''amount'' = JStr (show_decimal py (eb_amount x))"
    "jget (export_expense py x) ''treatment'' = JStr (eb_treatment x)"
    "jget (export_expense py x) ''notes'' = opt_json JStr (eb_notes x)"
    "jget (export_expense py x) ''trip'' = opt_json JInt (eb_trip x)"
    by (simp_all add: export_expense_def jget_def dget_def)
  have d: "parse_date py (JStr (show_date py (eb_incurred_on x))) = Some (eb_incurred_on x)"
    "parse_amount py (JStr (show_decimal py (eb_amount x))) = Some (eb_amount x)"
    using parse_date_show [OF c] parse_amount_show [OF c] x by (simp_all add: expense_ok_def)
  have n: "\<not> (opt_json JInt (eb_trip x) \<noteq> JNull \<and> \<not> references_known_id (opt_json JInt (eb_trip x)) tids)"
    using x by (intro ref_in_json) (simp add: expense_ok_def)
  have o: "opt_str (opt_json JStr v) = v" "opt_int (opt_json JInt w) = w" "is_optional_str (opt_json JStr v)" for v w
    by (cases v; cases w; simp add: readers)+
  show "expense_row py vids tids (export_expense py x) ys = Inr (Accept (ys @ [x]))"
    unfolding expense_row_def Let_def e d
    using x by (simp add: guarded_Cons n o expense_ok_def int_of_def str_of_def)
next
  show "expense_row py vids tids row s = Inl e \<Longrightarrow> e = OverflowError \<and> huge (JObj row)" for row s e
    by (auto simp: expense_row_def Let_def raising)
qed

definition odometer_ok :: "int list \<Rightarrow> odometer_rec list \<Rightarrow> odometer_rec \<Rightarrow> bool" where
  "odometer_ok vehicle_ids ys x \<longleftrightarrow>
     (ob_vehicle x, dt_at (ob_recorded_at x)) \<notin> (\<lambda>y. (ob_vehicle y, dt_at (ob_recorded_at y))) ` set ys
     \<and> ob_vehicle x \<in> set vehicle_ids \<and> dt_offset (ob_recorded_at x) \<noteq> None \<and> 0 \<le> ob_odometer_m x"

definition odometer_state :: "odometer_rec list \<Rightarrow> odometer_rec list \<times> (int \<times> instant) list" where
  "odometer_state ys = (ys, rev (map (\<lambda>y. (ob_vehicle y, dt_at (ob_recorded_at y))) ys))"

interpretation odometer: row_reader "odometer_bundle_row py vids" "export_odometer_reading py" odometer_state
    "odometer_ok vids" "codec py"
  for py vids
proof
  fix row ys s
  assume a: "odometer_bundle_row py vids row (odometer_state ys) = Inr (Accept s)"
  let ?g = "jget row"
  note a = a [unfolded odometer_bundle_row_def odometer_state_def Let_def guarded_Accept res_bind_Accept fst_conv snd_conv]
  obtain d where p: "parse_datetime py (?g ''recorded_at'') = Some d" using a [THEN conjunct1] by auto
  have g: "references_known_id (?g ''vehicle'') vids"
    "(int_of (?g ''vehicle''), dt_at d) \<notin> (\<lambda>y. (ob_vehicle y, dt_at (ob_recorded_at y))) ` set ys"
    using a [THEN conjunct1] p by auto
  have v: "int_of (?g ''vehicle'') \<in> set vids" using g(1) by (auto simp: readers split: json.splits)
  obtain r where r: "parse_finite_number (?g ''odometer_m'') (Some 0) None = Inr (Some r)"
    "s = odometer_state (ys @ [\<lparr>ob_vehicle = int_of (?g ''vehicle''), ob_recorded_at = d, ob_odometer_m = r,
       ob_note = opt_str (?g ''note'')\<rparr>])"
    using a [THEN conjunct2] p by (auto simp: odometer_state_def)
  have "odometer_ok vids ys \<lparr>ob_vehicle = int_of (?g ''vehicle''), ob_recorded_at = d, ob_odometer_m = r,
       ob_note = opt_str (?g ''note'')\<rparr>"
    using g(2) v parse_datetime_aware [OF p] parse_finite_number_Some [OF r(1)] by (simp add: odometer_ok_def)
  with r(2) show "\<exists>x. s = odometer_state (ys @ [x]) \<and> odometer_ok vids ys x" by blast
next
  fix ys x
  assume c: "codec py" and x: "odometer_ok vids ys x"
  have e: "jget (export_odometer_reading py x) ''vehicle'' = JInt (ob_vehicle x)"
    "jget (export_odometer_reading py x) ''recorded_at'' = JStr (show_datetime py (ob_recorded_at x))"
    "jget (export_odometer_reading py x) ''odometer_m'' = JFloat (Fin (ob_odometer_m x))"
    "jget (export_odometer_reading py x) ''note'' = opt_json JStr (ob_note x)"
    by (simp_all add: export_odometer_reading_def jget_def dget_def json_float_def)
  have d: "parse_datetime py (JStr (show_datetime py (ob_recorded_at x))) = Some (ob_recorded_at x)"
    using parse_datetime_show [OF c] x by (auto simp: odometer_ok_def)
  have o: "opt_str (opt_json JStr v) = v" "is_optional_str (opt_json JStr v)" for v
    by (cases v; simp add: readers)+
  show "odometer_bundle_row py vids (export_odometer_reading py x) (odometer_state ys) = Inr (Accept (odometer_state (ys @ [x])))"
    unfolding odometer_bundle_row_def Let_def e d
    using x by (simp add: guarded_Cons o odometer_ok_def odometer_state_def references_known_id_def int_of_def)
next
  show "odometer_bundle_row py vids row s = Inl e \<Longrightarrow> e = OverflowError \<and> huge (JObj row)" for row s e
    by (auto simp: odometer_bundle_row_def Let_def raising dest!: parse_huge jget_huge split: prod.splits if_splits)
qed

end
