(* ===== verification/PortableBundle.thy ===== *)
theory PortableBundle imports Portable begin

text \<open>
  The properties of a whole bundle: what \<open>normalize_bundle\<close> accepts, when it raises, and the
  round trip with \<open>build_export_bundle\<close>.
\<close>

section \<open>A well-formed bundle\<close>

definition place_in_range :: "place_rec \<Rightarrow> bool" where
  "place_in_range x \<longleftrightarrow> u_strip (pb_name x) \<noteq> [] \<and> pb_kind x \<in> ustr ` set PLACE_KINDS
     \<and> - 90 \<le> pb_lat x \<and> pb_lat x \<le> 90 \<and> - 180 \<le> pb_lon x \<and> pb_lon x \<le> 180 \<and> 0 < pb_radius_m x"

definition rate_in_range :: "rate_rec \<Rightarrow> bool" where
  "rate_in_range x \<longleftrightarrow> 0 < mb_rate_per_mi x \<and> (mb_rate_h2_per_mi x = None \<longleftrightarrow> mb_h2_start_month x = None)
     \<and> (case mb_rate_h2_per_mi x of None \<Rightarrow> True | Some r \<Rightarrow> 0 < r)
     \<and> (case mb_h2_start_month x of None \<Rightarrow> True | Some m \<Rightarrow> 1 \<le> m \<and> m \<le> 12)"

definition odometer_in_range :: "int list \<Rightarrow> odometer_rec \<Rightarrow> bool" where
  "odometer_in_range vehicle_ids x \<longleftrightarrow>
     ob_vehicle x \<in> set vehicle_ids \<and> dt_offset (ob_recorded_at x) \<noteq> None \<and> 0 \<le> ob_odometer_m x"

definition settings_ok :: "py_text \<Rightarrow> int \<Rightarrow> settings_rec \<Rightarrow> bool" where
  "settings_ok py version s \<longleftrightarrow> (if version = 3
     then \<exists>z. sb_display_tz s = Some z \<and> length z \<le> 128 \<and> known_zone py z else sb_display_tz s = None)"

definition rows_in_order :: "account_rows \<Rightarrow> bool" where
  "rows_in_order r \<longleftrightarrow>
     ar_vehicles r \<noteq> [] \<and> distinct (map vb_id (ar_vehicles r)) \<and> (\<forall>v \<in> set (ar_vehicles r). u_strip (vb_name v) \<noteq> [])
     \<and> length (filter vb_is_default (ar_vehicles r)) \<le> 1
     \<and> distinct (map pb_id (ar_places r)) \<and> distinct (map pb_name (ar_places r)) \<and> (\<forall>p \<in> set (ar_places r). place_in_range p)
     \<and> (\<forall>g \<in> set (ar_tag_rules r). tag_rule_ok (map pb_id (ar_places r)) g)
     \<and> distinct (map mb_year (ar_mileage_rates r)) \<and> (\<forall>m \<in> set (ar_mileage_rates r). rate_in_range m)
     \<and> distinct (map tb_id (ar_trips r))
     \<and> (\<forall>t \<in> set (ar_trips r). trip_ok (map vb_id (ar_vehicles r)) (map pb_id (ar_places r)) t)
     \<and> (\<forall>e \<in> set (ar_expenses r). expense_ok (map vb_id (ar_vehicles r)) (map tb_id (ar_trips r)) e)
     \<and> distinct (map (\<lambda>o'. (ob_vehicle o', dt_at (ob_recorded_at o'))) (ar_odometer r))
     \<and> (\<forall>o' \<in> set (ar_odometer r). odometer_in_range (map vb_id (ar_vehicles r)) o')"

definition rows_of :: "bundle_rec \<Rightarrow> account_rows" where
  "rows_of b = \<lparr>ar_vehicles = bb_vehicles b, ar_places = bb_places b, ar_tag_rules = bb_tag_rules b,
     ar_mileage_rates = bb_mileage_rates b, ar_trips = bb_trips b, ar_expenses = bb_expenses b,
     ar_odometer = bb_odometer b, ar_settings = bb_settings b\<rparr>"

definition bundle_ok :: "py_text \<Rightarrow> bundle_rec \<Rightarrow> bool" where
  "bundle_ok py b \<longleftrightarrow> bb_format_version b \<in> set SUPPORTED_FORMAT_VERSIONS \<and> rows_in_order (rows_of b)
     \<and> settings_ok py (bb_format_version b) (bb_settings b)"

lemma vehicle_rows: "rows_ok vehicle_ok [] xs \<longleftrightarrow> distinct (map vb_id xs) \<and> (\<forall>x \<in> set xs. u_strip (vb_name x) \<noteq> [])"
proof -
  have e: "vehicle_ok = (\<lambda>ys x. vb_id x \<notin> vb_id ` set ys \<and> u_strip (vb_name x) \<noteq> [])" by (simp add: fun_eq_iff vehicle_ok_def)
  show ?thesis unfolding e by (simp add: rows_ok_conj rows_ok_new rows_ok_local)
qed

lemma place_rows:
  "rows_ok place_ok [] xs \<longleftrightarrow> distinct (map pb_id xs) \<and> distinct (map pb_name xs) \<and> (\<forall>x \<in> set xs. place_in_range x)"
proof -
  have e: "place_ok = (\<lambda>ys x. pb_id x \<notin> pb_id ` set ys \<and> (pb_name x \<notin> pb_name ` set ys \<and> place_in_range x))"
    by (auto simp: fun_eq_iff place_ok_def place_in_range_def)
  show ?thesis unfolding e by (simp add: rows_ok_conj rows_ok_new rows_ok_local)
qed

lemma rate_rows: "rows_ok rate_ok [] xs \<longleftrightarrow> distinct (map mb_year xs) \<and> (\<forall>x \<in> set xs. rate_in_range x)"
proof -
  have e: "rate_ok = (\<lambda>ys x. mb_year x \<notin> mb_year ` set ys \<and> rate_in_range x)"
    by (auto simp: fun_eq_iff rate_ok_def rate_in_range_def)
  show ?thesis unfolding e by (simp add: rows_ok_conj rows_ok_new rows_ok_local)
qed

lemma trip_rows:
  "rows_ok (\<lambda>ys x. tb_id x \<notin> tb_id ` set ys \<and> trip_ok vids pids x) [] xs
     \<longleftrightarrow> distinct (map tb_id xs) \<and> (\<forall>x \<in> set xs. trip_ok vids pids x)"
  by (simp add: rows_ok_conj rows_ok_new rows_ok_local)

lemma odometer_rows:
  "rows_ok (odometer_ok vids) [] xs \<longleftrightarrow> distinct (map (\<lambda>o'. (ob_vehicle o', dt_at (ob_recorded_at o'))) xs)
     \<and> (\<forall>x \<in> set xs. odometer_in_range vids x)"
proof -
  have e: "odometer_ok vids = (\<lambda>ys x. (ob_vehicle x, dt_at (ob_recorded_at x)) \<notin> (\<lambda>o'. (ob_vehicle o', dt_at (ob_recorded_at o'))) ` set ys
     \<and> odometer_in_range vids x)"
    by (simp add: fun_eq_iff odometer_ok_def odometer_in_range_def)
  show ?thesis unfolding e by (simp add: rows_ok_conj rows_ok_local rows_ok_new [of "\<lambda>o'. (ob_vehicle o', dt_at (ob_recorded_at o'))"])
qed

text \<open>References are looked up in a set.\<close>

lemma ref_in_rev [simp]: "ref_in i (rev ids) = ref_in i ids"
  by (cases i) (simp_all add: ref_in_def)

lemma ids_rev [simp]:
  "tag_rule_ok (rev ps) x = tag_rule_ok ps x" "trip_ok (rev vs) ps' t = trip_ok vs ps' t" "trip_ok vs' (rev ps) t = trip_ok vs' ps t"
  "expense_ok (rev vs) ts e = expense_ok vs ts e" "odometer_in_range (rev vs) d = odometer_in_range vs d"
  by (simp_all add: tag_rule_ok_def trip_ok_def expense_ok_def odometer_in_range_def)

section \<open>Acceptance\<close>

lemma each_row_read:
  assumes "row_reader body shown st ok lawful" "each_row field body raw (st [], iss) = Inr (s, iss')"
  shows "\<exists>xs more. s = st xs \<and> rows_ok ok [] xs \<and> iss' = iss @ more
    \<and> (more = [] \<longrightarrow> (\<exists>vs. raw = JArr vs \<and> length xs = length vs))"
  using row_reader.each_row_sound [OF assms] by metis

lemma normalize_settings_sound:
  "normalize_settings py fv raw iss = (s, []) \<Longrightarrow> iss = [] \<and> (\<exists>s'. s = Some s' \<and> settings_ok py (if is_three fv then 3 else 0) s')"
  by (auto simp: normalize_settings_def Let_def settings_ok_def readers split: json.splits if_splits)

lemma is_three_int: "plain_int v \<Longrightarrow> is_three v \<longleftrightarrow> int_of v = 3"
  by (auto simp: readers is_three_def split: json.splits)

lemma header_issues_Nil: "header_issues d = [] \<Longrightarrow>
  plain_int (jget d ''format_version'') \<and> int_of (jget d ''format_version'') \<in> set SUPPORTED_FORMAT_VERSIONS"
  by (auto simp: header_issues_def split: if_splits)

text \<open>Each normaliser appends issues, and one that appends none read every row of its list.\<close>

definition all_read :: "json \<Rightarrow> 'a list \<Rightarrow> bool" where
  "all_read raw xs \<longleftrightarrow> (\<exists>vs. raw = JArr vs \<and> length xs = length vs)"

lemma vehicles_read:
  assumes "normalize_vehicles raw iss = Inr ((out, seen), iss')"
  shows "\<exists>more. iss' = iss @ more \<and> (more = [] \<longrightarrow> all_read raw out \<and> out \<noteq> [] \<and> rows_ok vehicle_ok [] out
    \<and> seen = rev (map vb_id out) \<and> length (filter vb_is_default out) \<le> 1)"
proof (cases "raw = JArr []")
  case True
  with assms show ?thesis by (auto simp: normalize_vehicles_def)
next
  case False
  with assms obtain iss1 where e: "each_row ''vehicles'' vehicle_row raw (vehicle_state [], iss) = Inr ((out, seen), iss1)"
    and i: "iss' = (if length (filter vb_is_default out) > 1
      then iss1 @ [Issue ''vehicles'' None '': at most one vehicle may have is_default true'' [JInt (int (length (filter vb_is_default out)))]]
      else iss1)"
    by (auto simp: normalize_vehicles_def res_bind_Accept vehicle_state_def Let_def)
  from vehicles.each_row_sound [OF e] obtain xs more where r: "(out, seen) = vehicle_state xs" "rows_ok vehicle_ok [] xs"
    "iss1 = iss @ more" "more = [] \<longrightarrow> (\<exists>vs. raw = JArr vs \<and> length xs = length vs)" .
  have x: "out = xs" "seen = rev (map vb_id xs)" using r(1) by (simp_all add: vehicle_state_def)
  show ?thesis
  proof (cases "length (filter vb_is_default out) > 1")
    case True
    then show ?thesis using i r(3) by simp
  next
    case d: False
    have "out \<noteq> []" if "more = []" using r(4) that x(1) False by auto
    then show ?thesis using d i r x by (intro exI [of _ more]) (auto simp: all_read_def)
  qed
qed

lemma places_read:
  assumes "normalize_places raw iss = Inr ((out, ids, names), iss')"
  shows "\<exists>more. iss' = iss @ more \<and> (more = [] \<longrightarrow> all_read raw out \<and> rows_ok place_ok [] out \<and> ids = rev (map pb_id out))"
proof -
  have "each_row ''places'' place_row raw (place_state [], iss) = Inr ((out, ids, names), iss')"
    using assms by (simp add: normalize_places_def place_state_def)
  show ?thesis by (rule places.each_row_sound [OF \<open>each_row _ _ _ _ = _\<close>]) (auto simp: place_state_def all_read_def)
qed

lemma tag_rules_read:
  assumes "normalize_tag_rules pids raw iss = Inr (out, iss')"
  shows "\<exists>more. iss' = iss @ more \<and> (more = [] \<longrightarrow> all_read raw out \<and> (\<forall>x \<in> set out. tag_rule_ok pids x))"
proof -
  show ?thesis by (rule tag_rules.each_row_sound [OF assms [unfolded normalize_tag_rules_def]]) (auto simp: all_read_def rows_ok_local)
qed

lemma rates_read:
  assumes "normalize_mileage_rates raw iss = Inr ((out, years), iss')"
  shows "\<exists>more. iss' = iss @ more \<and> (more = [] \<longrightarrow> all_read raw out \<and> rows_ok rate_ok [] out)"
proof -
  have "each_row ''mileage_rates'' rate_row raw (rate_state [], iss) = Inr ((out, years), iss')"
    using assms by (simp add: normalize_mileage_rates_def rate_state_def)
  show ?thesis by (rule rates.each_row_sound [OF \<open>each_row _ _ _ _ = _\<close>]) (auto simp: rate_state_def all_read_def)
qed

lemma trips_read:
  assumes "normalize_trips py vids pids raw iss = Inr ((out, seen), iss')"
  shows "\<exists>more. iss' = iss @ more \<and> (more = [] \<longrightarrow> all_read raw out \<and> distinct (map tb_id out) \<and> (\<forall>x \<in> set out. trip_ok vids pids x))"
proof -
  have "each_row ''trips'' (trip_bundle_row py vids pids) raw (trip_state [], iss) = Inr ((out, seen), iss')"
    using assms by (simp add: normalize_trips_def trip_state_def)
  show ?thesis by (rule trips.each_row_sound [OF \<open>each_row _ _ _ _ = _\<close>]) (auto simp: trip_state_def all_read_def trip_rows)
qed

lemma expenses_read:
  assumes "normalize_expenses py vids tids raw iss = Inr (out, iss')"
  shows "\<exists>more. iss' = iss @ more \<and> (more = [] \<longrightarrow> all_read raw out \<and> (\<forall>x \<in> set out. expense_ok vids tids x))"
  by (rule expenses.each_row_sound [OF assms [unfolded normalize_expenses_def]]) (auto simp: all_read_def rows_ok_local)

lemma odometer_read:
  assumes "normalize_odometer_readings py vids raw iss = Inr ((out, seen), iss')"
  shows "\<exists>more. iss' = iss @ more \<and> (more = [] \<longrightarrow> all_read raw out \<and> rows_ok (odometer_ok vids) [] out)"
proof -
  have "each_row ''odometer_readings'' (odometer_bundle_row py vids) raw (odometer_state [], iss) = Inr ((out, seen), iss')"
    using assms by (simp add: normalize_odometer_readings_def odometer_state_def)
  show ?thesis by (rule odometer.each_row_sound [OF \<open>each_row _ _ _ _ = _\<close>]) (auto simp: odometer_state_def all_read_def)
qed

text \<open>The steps of a run that answers.\<close>

lemma normalize_steps:
  assumes "normalize_bundle py (JObj d) = Inr (r, issues)"
  obtains vs vids i1 ps pids pn i2 gs i3 ms ys i4 ts seen i5 es i6 os prs i7 st i8 where
    "normalize_vehicles (jget d ''vehicles'') (header_issues d) = Inr ((vs, vids), i1)"
    "normalize_places (jget d ''places'') i1 = Inr ((ps, pids, pn), i2)"
    "normalize_tag_rules pids (jget d ''tag_rules'') i2 = Inr (gs, i3)"
    "normalize_mileage_rates (jget d ''mileage_rates'') i3 = Inr ((ms, ys), i4)"
    "normalize_trips py vids pids (jget d ''trips'') i4 = Inr ((ts, seen), i5)"
    "normalize_expenses py vids (map tb_id ts) (jget d ''expenses'') i5 = Inr (es, i6)"
    "normalize_odometer_readings py vids (jget d ''odometer_readings'') i6 = Inr ((os, prs), i7)"
    "normalize_settings py (jget d ''format_version'') (jget d ''settings'') i7 = (st, i8)"
    "issues = i8"
    "r = (if i8 \<noteq> [] then None else Some \<lparr>bb_format_version = int_of (jget d ''format_version''),
        bb_schema_version = int_of (jget d ''schema_version''), bb_vehicles = vs, bb_places = ps, bb_tag_rules = gs,
        bb_mileage_rates = ms, bb_trips = ts, bb_expenses = es, bb_odometer = os, bb_settings = the st\<rparr>)"
proof -
  note a = assms [unfolded normalize_bundle_def json.case res_bind_Accept]
  from a obtain vs vids i1 where 1: "normalize_vehicles (jget d ''vehicles'') (header_issues d) = Inr ((vs, vids), i1)"
    by auto
  from a 1 obtain ps pids pn i2 where 2: "normalize_places (jget d ''places'') i1 = Inr ((ps, pids, pn), i2)" by (auto simp: res_bind_Accept)
  from a 1 2 obtain gs i3 where 3: "normalize_tag_rules pids (jget d ''tag_rules'') i2 = Inr (gs, i3)" by (auto simp: res_bind_Accept)
  from a 1 2 3 obtain ms ys i4 where 4: "normalize_mileage_rates (jget d ''mileage_rates'') i3 = Inr ((ms, ys), i4)" by (auto simp: res_bind_Accept)
  from a 1 2 3 4 obtain ts seen i5 where 5: "normalize_trips py vids pids (jget d ''trips'') i4 = Inr ((ts, seen), i5)" by (auto simp: res_bind_Accept)
  from a 1 2 3 4 5 obtain es i6 where 6: "normalize_expenses py vids (map tb_id ts) (jget d ''expenses'') i5 = Inr (es, i6)" by (auto simp: res_bind_Accept)
  from a 1 2 3 4 5 6 obtain os prs i7 where
    7: "normalize_odometer_readings py vids (jget d ''odometer_readings'') i6 = Inr ((os, prs), i7)" by (auto simp: res_bind_Accept)
  obtain st i8 where 8: "normalize_settings py (jget d ''format_version'') (jget d ''settings'') i7 = (st, i8)" by fastforce
  have "issues = i8 \<and> r = (if i8 \<noteq> [] then None else Some \<lparr>bb_format_version = int_of (jget d ''format_version''),
        bb_schema_version = int_of (jget d ''schema_version''), bb_vehicles = vs, bb_places = ps, bb_tag_rules = gs,
        bb_mileage_rates = ms, bb_trips = ts, bb_expenses = es, bb_odometer = os, bb_settings = the st\<rparr>)"
    using a 1 2 3 4 5 6 7 8 by (auto simp: res_bind_Accept split: if_splits)
  with that [OF 1 2 3 4 5 6 7 8] show thesis by blast
qed

section \<open>Properties\<close>

text \<open>
  C17. A bundle is refused with its issues or accepted without any, never both, and an accepted
  bundle is fit to insert: its version is supported; it has at least one vehicle and at most
  one default; identifiers, place names, rate years and the pairs of vehicle and reading
  time are unique; every reference of a rule, trip, expense or reading resolves inside the
  bundle; coordinates, rates, amounts, distances, labels and time spans are in range; and no
  row was left out, since each list has as many rows as the bundle.\<close>

theorem normalize_accepts_sound:
  assumes "normalize_bundle py j = Inr (r, issues)"
  shows "(r = None \<longleftrightarrow> issues \<noteq> []) \<and>
    (case r of None \<Rightarrow> True | Some b \<Rightarrow> bundle_ok py b
      \<and> (\<exists>d. j = JObj d \<and> all_read (jget d ''vehicles'') (bb_vehicles b) \<and> all_read (jget d ''places'') (bb_places b)
           \<and> all_read (jget d ''tag_rules'') (bb_tag_rules b) \<and> all_read (jget d ''mileage_rates'') (bb_mileage_rates b)
           \<and> all_read (jget d ''trips'') (bb_trips b) \<and> all_read (jget d ''expenses'') (bb_expenses b)
           \<and> all_read (jget d ''odometer_readings'') (bb_odometer b)))"
proof (cases "\<exists>d. j = JObj d")
  case False
  then have "r = None \<and> issues \<noteq> []" using assms by (auto simp: normalize_bundle_def split: json.splits)
  then show ?thesis by simp
next
  case True
  then obtain d where j: "j = JObj d" by blast
  from normalize_steps [OF assms [unfolded j]]
  obtain vs vids i1 ps pids pn i2 gs i3 ms ys i4 ts seen i5 es i6 os prs i7 st i8 where n:
    "normalize_vehicles (jget d ''vehicles'') (header_issues d) = Inr ((vs, vids), i1)"
    "normalize_places (jget d ''places'') i1 = Inr ((ps, pids, pn), i2)"
    "normalize_tag_rules pids (jget d ''tag_rules'') i2 = Inr (gs, i3)"
    "normalize_mileage_rates (jget d ''mileage_rates'') i3 = Inr ((ms, ys), i4)"
    "normalize_trips py vids pids (jget d ''trips'') i4 = Inr ((ts, seen), i5)"
    "normalize_expenses py vids (map tb_id ts) (jget d ''expenses'') i5 = Inr (es, i6)"
    "normalize_odometer_readings py vids (jget d ''odometer_readings'') i6 = Inr ((os, prs), i7)"
    "normalize_settings py (jget d ''format_version'') (jget d ''settings'') i7 = (st, i8)"
    and iss: "issues = i8"
    and r: "r = (if i8 \<noteq> [] then None else Some \<lparr>bb_format_version = int_of (jget d ''format_version''),
        bb_schema_version = int_of (jget d ''schema_version''), bb_vehicles = vs, bb_places = ps, bb_tag_rules = gs,
        bb_mileage_rates = ms, bb_trips = ts, bb_expenses = es, bb_odometer = os, bb_settings = the st\<rparr>)" .
  show ?thesis
  proof (cases "i8 = []")
    case False
    then show ?thesis using r iss by simp
  next
    case nil: True
    obtain s' where s': "st = Some s'" "settings_ok py (if is_three (jget d ''format_version'') then 3 else 0) s'" "i7 = []"
      using normalize_settings_sound [OF n(8) [unfolded nil]] by blast
    have h: "header_issues d = []" and ok:
      "all_read (jget d ''vehicles'') vs" "vs \<noteq> []" "rows_ok vehicle_ok [] vs" "vids = rev (map vb_id vs)"
      "length (filter vb_is_default vs) \<le> 1" "all_read (jget d ''places'') ps" "rows_ok place_ok [] ps" "pids = rev (map pb_id ps)"
      "all_read (jget d ''tag_rules'') gs" "\<forall>x \<in> set gs. tag_rule_ok pids x" "all_read (jget d ''mileage_rates'') ms"
      "rows_ok rate_ok [] ms" "all_read (jget d ''trips'') ts" "distinct (map tb_id ts)" "\<forall>x \<in> set ts. trip_ok vids pids x"
      "all_read (jget d ''expenses'') es" "\<forall>x \<in> set es. expense_ok vids (map tb_id ts) x"
      "all_read (jget d ''odometer_readings'') os" "rows_ok (odometer_ok vids) [] os"
      using vehicles_read [OF n(1)] places_read [OF n(2)] tag_rules_read [OF n(3)] rates_read [OF n(4)] trips_read [OF n(5)]
        expenses_read [OF n(6)] odometer_read [OF n(7)] s'(3) by auto
    have v: "int_of (jget d ''format_version'') \<in> set SUPPORTED_FORMAT_VERSIONS"
      "is_three (jget d ''format_version'') \<longleftrightarrow> int_of (jget d ''format_version'') = 3"
      using header_issues_Nil [OF h] is_three_int by blast+
    have "settings_ok py (int_of (jget d ''format_version'')) s'" using s'(2) v(2) by (auto simp: settings_ok_def)
    moreover have "rows_in_order \<lparr>ar_vehicles = vs, ar_places = ps, ar_tag_rules = gs, ar_mileage_rates = ms, ar_trips = ts,
        ar_expenses = es, ar_odometer = os, ar_settings = s'\<rparr>"
      using ok by (simp add: rows_in_order_def vehicle_rows place_rows rate_rows odometer_rows)
    ultimately show ?thesis
      using ok v(1) j s'(1) r iss nil by (simp add: bundle_ok_def rows_of_def)
  qed
qed

text \<open>
  C20. Validation answers with issues and does not raise, with one exception: a bundle that
  holds an integer too large for a double makes \<open>parse_finite_number\<close> raise
  \<open>OverflowError\<close> out of it, whatever issues were collected.\<close>

theorem normalize_raises_only_overflow:
  assumes "normalize_bundle py j = Inl e"
  shows "e = OverflowError \<and> huge j"
proof -
  obtain d where j: "j = JObj d" using assms by (auto simp: normalize_bundle_def split: json.splits)
  have top: "\<exists>kv \<in> set d. huge (snd kv)" if "huge (jget d k)" for k using jget_huge(1) that .
  have step: "e = OverflowError \<and> huge (jget d k)" if "each_row field body (jget d k) acc = Inl e" "row_reader body sh st ok l"
    for field body k acc sh st ok l
    using row_reader.each_row_raises [OF that(2,1)] .
  note steps = step [OF _ vehicles.row_reader_axioms] step [OF _ places.row_reader_axioms] step [OF _ tag_rules.row_reader_axioms]
    step [OF _ rates.row_reader_axioms] step [OF _ trips.row_reader_axioms] step [OF _ expenses.row_reader_axioms]
    step [OF _ odometer.row_reader_axioms]
  have "e = OverflowError \<and> (\<exists>k. huge (jget d k))"
    using assms unfolding j normalize_bundle_def normalize_vehicles_def normalize_places_def normalize_tag_rules_def
      normalize_mileage_rates_def normalize_trips_def normalize_expenses_def normalize_odometer_readings_def
    by (auto simp: res_bind_Inl Let_def case_prod_beta dest!: steps split: if_splits)
  then show ?thesis using top j by auto
qed

text \<open>The concrete form of the codec used by the witnesses: every value as a list of numbers.\<close>

definition sample_text :: py_text where
  "sample_text = \<lparr>
     parse_datetime_iso = (\<lambda>s. case s of [a, z] \<Rightarrow> Some \<lparr>dt_at = a, dt_offset = Some z\<rparr>
       | [a] \<Rightarrow> Some \<lparr>dt_at = a, dt_offset = None\<rparr> | _ \<Rightarrow> None),
     parse_date_iso = (\<lambda>s. case s of [y, m, d] \<Rightarrow> Some (y, m, d) | _ \<Rightarrow> None),
     parse_decimal = (\<lambda>s. case s of [n] \<Rightarrow> Some (Fin (of_int n / 100)) | _ \<Rightarrow> None),
     known_zone = (\<lambda>s. s \<noteq> []),
     show_datetime = (\<lambda>d. dt_at d # (case dt_offset d of None \<Rightarrow> [] | Some z \<Rightarrow> [z])),
     show_date = (\<lambda>(y, m, d). [y, m, d]),
     show_decimal = (\<lambda>r. [round_half_even (r * 100)])\<rparr>"

lemma sample_codec: "codec sample_text"
proof -
  have "parse_datetime_iso sample_text (show_datetime sample_text d) = Some d" for d
    by (cases d; cases "dt_offset d") (simp_all add: sample_text_def)
  then show ?thesis by (simp add: codec_def sample_text_def quantize_cents_def)
qed

definition sample_datetime :: "int \<Rightarrow> datetime" where
  "sample_datetime n = \<lparr>dt_at = n, dt_offset = Some 0\<rparr>"

definition sample_rows :: account_rows where
  "sample_rows = \<lparr>
     ar_vehicles = [\<lparr>vb_id = 7, vb_name = ustr ''Car'', vb_make = None, vb_model = Some (ustr ''T''), vb_plate = None,
       vb_is_default = True, vb_active = True\<rparr>],
     ar_places = [\<lparr>pb_id = 3, pb_name = ustr ''Home'', pb_kind = ustr ''home'', pb_lat = 51, pb_lon = - 1, pb_radius_m = 150\<rparr>],
     ar_tag_rules = [\<lparr>gb_a_place = Some 3, gb_a_kind = None, gb_b_place = None, gb_b_kind = Some (ustr ''work''),
       gb_category = ustr ''business''\<rparr>],
     ar_mileage_rates = [\<lparr>mb_year = 2024, mb_rate_per_mi = 67 / 100, mb_rate_h2_per_mi = None, mb_h2_start_month = None\<rparr>],
     ar_trips = [\<lparr>tb_id = 12, tb_device = ustr ''phone'', tb_source = ustr ''manual'', tb_started_at = sample_datetime 0,
       tb_ended_at = sample_datetime 600, tb_distance_m = 1500, tb_has_gap = False, tb_category = ustr ''business'',
       tb_exclusion = None, tb_purpose = Some (ustr ''visit''), tb_notes = None, tb_vehicle = Some 7,
       tb_start_place = Some 3, tb_end_place = None, tb_tag_source = Some (ustr ''human''), tb_start_label = None,
       tb_end_label = Some (ustr ''Depot'')\<rparr>],
     ar_expenses = [\<lparr>eb_vehicle = 7, eb_incurred_on = (2024, 2, 29), eb_category = ustr ''tolls'', eb_amount = 425 / 100,
       eb_treatment = ustr ''fully_business'', eb_notes = None, eb_trip = Some 12\<rparr>],
     ar_odometer = [\<lparr>ob_vehicle = 7, ob_recorded_at = sample_datetime 0, ob_odometer_m = 1000, ob_note = None\<rparr>],
     ar_settings = \<lparr>sb_auto_assign = True, sb_display_tz = Some (ustr ''UTC'')\<rparr>\<rparr>"

lemma sample_rows_ok: "rows_in_order sample_rows" "settings_ok sample_text 3 (ar_settings sample_rows)"
proof -
  show "rows_in_order sample_rows" by code_simp
  show "settings_ok sample_text 3 (ar_settings sample_rows)"
    by (simp add: settings_ok_def sample_rows_def sample_text_def ustr_def)
qed

section \<open>The round trip\<close>

definition bundle_of :: "account_rows \<Rightarrow> int \<Rightarrow> bundle_rec" where
  "bundle_of r schema_version = \<lparr>bb_format_version = 3, bb_schema_version = schema_version, bb_vehicles = ar_vehicles r,
     bb_places = ar_places r, bb_tag_rules = ar_tag_rules r, bb_mileage_rates = ar_mileage_rates r, bb_trips = ar_trips r,
     bb_expenses = ar_expenses r, bb_odometer = ar_odometer r, bb_settings = ar_settings r\<rparr>"

lemma vehicles_shown:
  assumes "xs \<noteq> []" "rows_ok vehicle_ok [] xs" "length (filter vb_is_default xs) \<le> 1"
  shows "normalize_vehicles (export_rows export_vehicle xs) iss = Inr ((xs, rev (map vb_id xs)), iss)"
proof -
  have "export_rows export_vehicle xs \<noteq> JArr []" using assms(1) by (simp add: export_rows_def)
  then show ?thesis
    using vehicles.each_row_shown [OF TrueI assms(2)] assms(3) by (simp add: normalize_vehicles_def vehicle_state_def)
qed

lemma settings_shown:
  "settings_ok py 3 s \<Longrightarrow> normalize_settings py (JInt 3)
     (JObj [(ustr ''auto_assign_default_vehicle'', JBool (sb_auto_assign s)), (ustr ''display_tz'', opt_json JStr (sb_display_tz s))]) iss
     = (Some s, iss)"
  by (auto simp: settings_ok_def normalize_settings_def is_three_def jget_def dget_def readers)

text \<open>
  C18. The portable format loses nothing: for an account whose rows are in order, the exported
  bundle is accepted without an issue, and what the importer gets to insert is exactly the
  account's rows, every identifier, reference, instant, amount and optional field included.
  The only assumption on the library is that its parsers invert its printers.\<close>

theorem portable_roundtrip:
  assumes "codec py" and "rows_in_order r" and "settings_ok py 3 (ar_settings r)"
  shows "normalize_bundle py (build_export_bundle py r schema_version exported_at)
    = Inr (Some (bundle_of r schema_version), [])"
proof -
  note o = assms(2) [unfolded rows_in_order_def]
  obtain d where j: "build_export_bundle py r schema_version exported_at = JObj d"
    and e: "jget d ''vehicles'' = export_rows export_vehicle (ar_vehicles r)"
      "jget d ''places'' = export_rows export_place (ar_places r)"
      "jget d ''tag_rules'' = export_rows export_tag_rule (ar_tag_rules r)"
      "jget d ''mileage_rates'' = export_rows export_mileage_rate (ar_mileage_rates r)"
      "jget d ''trips'' = export_rows (export_trip py) (ar_trips r)"
      "jget d ''expenses'' = export_rows (export_expense py) (ar_expenses r)"
      "jget d ''odometer_readings'' = export_rows (export_odometer_reading py) (ar_odometer r)"
      "jget d ''settings'' = JObj [(ustr ''auto_assign_default_vehicle'', JBool (sb_auto_assign (ar_settings r))),
         (ustr ''display_tz'', opt_json JStr (sb_display_tz (ar_settings r)))]"
      "jget d ''format_version'' = JInt 3" "jget d ''schema_version'' = JInt schema_version" "header_issues d = []"
    by (simp add: build_export_bundle_def FORMAT_VERSION_def header_issues_def SUPPORTED_FORMAT_VERSIONS_def readers
        jget_def dget_def)
  have 1: "normalize_vehicles (export_rows export_vehicle (ar_vehicles r)) []
      = Inr ((ar_vehicles r, rev (map vb_id (ar_vehicles r))), [])"
    using o by (intro vehicles_shown) (simp_all add: vehicle_rows)
  have 2: "normalize_places (export_rows export_place (ar_places r)) []
      = Inr ((ar_places r, rev (map pb_id (ar_places r)), rev (map pb_name (ar_places r))), [])"
    using places.each_row_shown [OF TrueI, of "ar_places r" "''places''"] o by (simp add: place_rows normalize_places_def place_state_def)
  have 3: "normalize_tag_rules (rev (map pb_id (ar_places r))) (export_rows export_tag_rule (ar_tag_rules r)) [] = Inr (ar_tag_rules r, [])"
    using tag_rules.each_row_shown [OF TrueI] o by (simp add: normalize_tag_rules_def rows_ok_local)
  have 4: "normalize_mileage_rates (export_rows export_mileage_rate (ar_mileage_rates r)) []
      = Inr ((ar_mileage_rates r, rev (map mb_year (ar_mileage_rates r))), [])"
    using rates.each_row_shown [OF TrueI, of "ar_mileage_rates r" "''mileage_rates''"] o
    by (simp add: rate_rows normalize_mileage_rates_def rate_state_def)
  have 5: "normalize_trips py (rev (map vb_id (ar_vehicles r))) (rev (map pb_id (ar_places r))) (export_rows (export_trip py) (ar_trips r)) []
      = Inr ((ar_trips r, rev (map tb_id (ar_trips r))), [])"
    using trips.each_row_shown [OF assms(1), of "rev (map vb_id (ar_vehicles r))" "rev (map pb_id (ar_places r))" "ar_trips r" "''trips''"] o
    by (simp add: trip_rows normalize_trips_def trip_state_def)
  have 6: "normalize_expenses py (rev (map vb_id (ar_vehicles r))) (map tb_id (ar_trips r)) (export_rows (export_expense py) (ar_expenses r)) []
      = Inr (ar_expenses r, [])"
    using expenses.each_row_shown [OF assms(1)] o by (simp add: normalize_expenses_def rows_ok_local)
  obtain prs where 7: "normalize_odometer_readings py (rev (map vb_id (ar_vehicles r)))
      (export_rows (export_odometer_reading py) (ar_odometer r)) [] = Inr ((ar_odometer r, prs), [])"
    using odometer.each_row_shown [OF assms(1), of "rev (map vb_id (ar_vehicles r))" "ar_odometer r" "''odometer_readings''"] o
    by (simp add: odometer_rows normalize_odometer_readings_def odometer_state_def)
  show ?thesis
    unfolding j normalize_bundle_def json.case e 1 2 3 4 res_bind_simps prod.case
    by (simp add: 5 6 7 settings_shown [OF assms(3)] bundle_of_def readers)
qed

theorem portable_roundtrip_witness:
  "normalize_bundle sample_text (build_export_bundle sample_text sample_rows 51 (sample_datetime 0))
    = Inr (Some (bundle_of sample_rows 51), [])"
  by (rule portable_roundtrip [OF sample_codec sample_rows_ok])

theorem normalize_accepts_sound_witness:
  "bundle_ok sample_text (bundle_of sample_rows 51)"
proof -
  have "normalize_bundle sample_text (build_export_bundle sample_text sample_rows 51 (sample_datetime 0))
    = Inr (Some (bundle_of sample_rows 51), [])"
    by code_simp
  from normalize_accepts_sound [OF this] show ?thesis by simp
qed

definition huge_bundle :: json where
  "huge_bundle = JObj [(ustr ''vehicles'', JArr []), (ustr ''mileage_rates'', JArr [JObj [(ustr ''year'', JInt 2024),
     (ustr ''rate_per_mi'', JInt (10 ^ 400))]])]"

theorem normalize_raises_only_overflow_witness:
  "normalize_bundle sample_text huge_bundle = Inl OverflowError \<and> huge huge_bundle"
proof -
  have "normalize_bundle sample_text huge_bundle = Inl OverflowError" by code_simp
  with normalize_raises_only_overflow [OF this] show ?thesis by simp
qed

end
