(* ===== verification/Importer.thy ===== *)
theory Importer imports Export begin

text \<open>
  \<open>app/portable/importer.py\<close>: the import of a normalized bundle into one account, as a step on
  the account's part of the database. The ids that \<open>INSERT ... RETURNING id\<close> answers with, the
  instance's reference rates and whether a statement after the checks fails are parameters
  (\<open>import_env\<close>); an error leaves the database as it was, since the route runs the import in
  one transaction. A subscript of an id map with an unknown key is \<open>KeyError\<close>.
\<close>

section \<open>The target\<close>

record target_db =
  tg_rows :: account_rows
  tg_imported :: "int list"
  tg_points :: nat
  tg_stays :: nat
  tg_overrides :: nat
  tg_detector_progressed :: bool
  tg_schema_version :: int

record import_env =
  new_vehicle_id :: "nat \<Rightarrow> int"
  new_place_id :: "nat \<Rightarrow> int"
  new_trip_id :: "nat \<Rightarrow> int"
  reference_rates :: "rate_rec list"
  statement_fails :: bool

datatype import_error = SchemaVersionMismatch | TargetNotClean "string list" | InsertFailed | KeyError int

text \<open>Format version, schema of the bundle and schema of the target.\<close>

definition compatible_transition :: "int \<Rightarrow> int \<Rightarrow> int \<Rightarrow> bool" where
  "compatible_transition version source target \<longleftrightarrow> 29 \<le> target \<and> target \<le> 51
     \<and> (version = 1 \<and> source = 21 \<or> version = 2 \<and> 22 \<le> source \<and> source \<le> 25
        \<or> version = 3 \<and> 26 \<le> source \<and> source \<le> target)"

section \<open>The clean-target check\<close>

definition seeded_vehicle :: vehicle_rec where
  "seeded_vehicle = \<lparr>vb_id = 0, vb_name = ustr ''My Car'', vb_make = None, vb_model = None, vb_plate = None,
     vb_is_default = True, vb_active = True\<rparr>"

definition seeded_tag_rules :: "tag_rule_rec list" where
  "seeded_tag_rules =
     [\<lparr>gb_a_place = None, gb_a_kind = Some (ustr ''home''), gb_b_place = None, gb_b_kind = Some (ustr ''work''),
        gb_category = ustr ''personal''\<rparr>,
      \<lparr>gb_a_place = None, gb_a_kind = Some (ustr ''work''), gb_b_place = None, gb_b_kind = Some (ustr ''work''),
        gb_category = ustr ''business''\<rparr>]"

definition or_default :: "'a option \<Rightarrow> 'a \<Rightarrow> 'a" where
  "or_default v d = (case v of None \<Rightarrow> d | Some x \<Rightarrow> x)"

definition tag_rule_sort_key :: "tag_rule_rec \<Rightarrow> int \<times> ustr \<times> int \<times> ustr \<times> ustr" where
  "tag_rule_sort_key r = (or_default (gb_a_place r) 0, or_default (gb_a_kind r) [],
     or_default (gb_b_place r) 0, or_default (gb_b_kind r) [], gb_category r)"

definition check_clean_target :: "rate_rec list \<Rightarrow> target_db \<Rightarrow> string list" where
  "check_clean_target reference db =
     (let r = tg_rows db
      in map fst (filter (\<lambda>(table, count). count \<noteq> 0)
           [(''trips'', length (ar_trips r)), (''expenses'', length (ar_expenses r)),
            (''odometer_readings'', length (ar_odometer r)), (''places'', length (ar_places r)),
            (''points'', tg_points db), (''stays'', tg_stays db), (''trip_boundary_overrides'', tg_overrides db)])
         @ (if tg_detector_progressed db then [''detector_state''] else [])
         @ (if map (vb_id_update (\<lambda>_. 0)) (ar_vehicles r) \<noteq> [seeded_vehicle] then [''vehicles''] else [])
         @ (if sort_key tag_rule_sort_key (ar_tag_rules r) \<noteq> sort_key tag_rule_sort_key seeded_tag_rules
            then [''tag_rules''] else [])
         @ (if \<exists>m \<in> set (ar_mileage_rates r). m \<notin> set reference then [''mileage_rates''] else []))"

section \<open>The inserts\<close>

text \<open>\<open>id_map[row["$id"]] = new id\<close>, with the id of the k-th insert.\<close>

fun insert_rows :: "('a \<Rightarrow> int) \<Rightarrow> (int \<Rightarrow> 'a \<Rightarrow> 'a) \<Rightarrow> (nat \<Rightarrow> int) \<Rightarrow> nat \<Rightarrow> 'a list
    \<Rightarrow> 'a list \<times> (int, int) dict \<Rightarrow> 'a list \<times> (int, int) dict" where
  "insert_rows key setid new_id k [] acc = acc"
| "insert_rows key setid new_id k (r # rs) (table, m) =
     insert_rows key setid new_id (Suc k) rs (table @ [setid (new_id k) r], dset m (key r) (new_id k))"

definition insert_vehicles :: "(nat \<Rightarrow> int) \<Rightarrow> vehicle_rec list \<Rightarrow> vehicle_rec list \<times> (int, int) dict" where
  "insert_vehicles new_id rows = insert_rows vb_id (\<lambda>i. vb_id_update (\<lambda>_. i)) new_id 0 rows ([], [])"

definition insert_places :: "(nat \<Rightarrow> int) \<Rightarrow> place_rec list \<Rightarrow> place_rec list \<times> (int, int) dict" where
  "insert_places new_id rows = insert_rows pb_id (\<lambda>i. pb_id_update (\<lambda>_. i)) new_id 0 rows ([], [])"

text \<open>\<open>id_map[v]\<close>, and \<open>id_map[v] if v is not None else None\<close>.\<close>

definition map_id :: "(int, int) dict \<Rightarrow> int \<Rightarrow> import_error + int" where
  "map_id m i = (case map_of m i of None \<Rightarrow> Inl (KeyError i) | Some j \<Rightarrow> Inr j)"

definition bind :: "'e + 'a \<Rightarrow> ('a \<Rightarrow> 'e + 'b) \<Rightarrow> 'e + 'b" where
  "bind r f = (case r of Inl e \<Rightarrow> Inl e | Inr a \<Rightarrow> f a)"

definition map_ref :: "(int, int) dict \<Rightarrow> int option \<Rightarrow> import_error + int option" where
  "map_ref m v = (case v of None \<Rightarrow> Inr None | Some i \<Rightarrow> bind (map_id m i) (\<lambda>j. Inr (Some j)))"

fun each :: "('a \<Rightarrow> 'e + 'b) \<Rightarrow> 'a list \<Rightarrow> 'e + 'b list" where
  "each f [] = Inr []"
| "each f (x # xs) = bind (f x) (\<lambda>y. bind (each f xs) (\<lambda>ys. Inr (y # ys)))"

definition insert_tag_rules :: "(int, int) dict \<Rightarrow> tag_rule_rec list \<Rightarrow> import_error + tag_rule_rec list" where
  "insert_tag_rules places rows = each (\<lambda>r.
     bind (map_ref places (gb_a_place r)) (\<lambda>a. bind (map_ref places (gb_b_place r)) (\<lambda>b.
       Inr (r\<lparr>gb_a_place := a, gb_b_place := b\<rparr>)))) rows"

text \<open>\<open>ON CONFLICT (account_id, year) DO UPDATE\<close>.\<close>

fun upsert_mileage_rates :: "rate_rec list \<Rightarrow> rate_rec list \<Rightarrow> rate_rec list" where
  "upsert_mileage_rates table [] = table"
| "upsert_mileage_rates table (r # rs) =
     upsert_mileage_rates
       (if \<exists>q \<in> set table. mb_year q = mb_year r
        then map (\<lambda>q. if mb_year q = mb_year r then r else q) table else table @ [r]) rs"

definition trip_refs :: "(int, int) dict \<Rightarrow> (int, int) dict \<Rightarrow> trip_rec \<Rightarrow> import_error + trip_rec" where
  "trip_refs vehicles places r =
     bind (map_ref vehicles (tb_vehicle r)) (\<lambda>v. bind (map_ref places (tb_start_place r)) (\<lambda>s.
       bind (map_ref places (tb_end_place r)) (\<lambda>e.
         Inr (r\<lparr>tb_vehicle := v, tb_start_place := s, tb_end_place := e\<rparr>))))"

definition insert_trips :: "(nat \<Rightarrow> int) \<Rightarrow> (int, int) dict \<Rightarrow> (int, int) dict \<Rightarrow> trip_rec list
    \<Rightarrow> import_error + trip_rec list \<times> (int, int) dict" where
  "insert_trips new_id vehicles places rows =
     bind (each (trip_refs vehicles places) rows) (\<lambda>params.
       Inr (insert_rows tb_id (\<lambda>i. tb_id_update (\<lambda>_. i)) new_id 0 params ([], [])))"

definition insert_expenses :: "(int, int) dict \<Rightarrow> (int, int) dict \<Rightarrow> expense_rec list \<Rightarrow> import_error + expense_rec list" where
  "insert_expenses vehicles trips rows = each (\<lambda>r.
     bind (map_id vehicles (eb_vehicle r)) (\<lambda>v. bind (map_ref trips (eb_trip r)) (\<lambda>t.
       Inr (r\<lparr>eb_vehicle := v, eb_trip := t\<rparr>)))) rows"

definition insert_odometer_readings :: "(int, int) dict \<Rightarrow> odometer_rec list \<Rightarrow> import_error + odometer_rec list" where
  "insert_odometer_readings vehicles rows = each (\<lambda>r.
     bind (map_id vehicles (ob_vehicle r)) (\<lambda>v. Inr (r\<lparr>ob_vehicle := v\<rparr>))) rows"

definition update_settings :: "settings_rec \<Rightarrow> settings_rec \<Rightarrow> settings_rec" where
  "update_settings new old = old\<lparr>sb_auto_assign := sb_auto_assign new,
     sb_display_tz := (case sb_display_tz new of None \<Rightarrow> sb_display_tz old | Some z \<Rightarrow> Some z)\<rparr>"

section \<open>\<open>_apply_import\<close>\<close>

definition apply_import :: "import_env \<Rightarrow> bundle_rec \<Rightarrow> target_db \<Rightarrow> import_error + (string \<times> nat) list \<times> target_db" where
  "apply_import env b db =
     (if \<not> compatible_transition (bb_format_version b) (bb_schema_version b) (tg_schema_version db)
      then Inl SchemaVersionMismatch
      else let conflicts = check_clean_target (reference_rates env) db
      in if conflicts \<noteq> [] then Inl (TargetNotClean conflicts)
      else if statement_fails env then Inl InsertFailed
      else let (vehicles, vehicle_map) = insert_vehicles (new_vehicle_id env) (bb_vehicles b);
               (places, place_map) = insert_places (new_place_id env) (bb_places b)
      in bind (insert_tag_rules place_map (bb_tag_rules b)) (\<lambda>tag_rules.
         bind (insert_trips (new_trip_id env) vehicle_map place_map (bb_trips b)) (\<lambda>(trips, trip_map).
         bind (insert_expenses vehicle_map trip_map (bb_expenses b)) (\<lambda>expenses.
         bind (insert_odometer_readings vehicle_map (bb_odometer b)) (\<lambda>readings.
           let r = tg_rows db
           in Inr ([(''vehicles'', length vehicle_map), (''places'', length place_map),
                    (''tag_rules'', length tag_rules), (''mileage_rates'', length (bb_mileage_rates b)),
                    (''trips'', length trips), (''expenses'', length expenses), (''odometer_readings'', length readings)],
                db\<lparr>tg_rows := \<lparr>ar_vehicles = vehicles, ar_places = ar_places r @ places, ar_tag_rules = tag_rules,
                       ar_mileage_rates = upsert_mileage_rates [] (bb_mileage_rates b),
                       ar_trips = ar_trips r @ trips, ar_expenses = ar_expenses r @ expenses,
                       ar_odometer = ar_odometer r @ readings,
                       ar_settings = update_settings (bb_settings b) (ar_settings r)\<rparr>,
                   tg_imported := tg_imported db @ map tb_id trips\<rparr>))))))"

end
