(* ===== verification/PortableImport.thy ===== *)
theory PortableImport imports PortableBundle Importer begin

text \<open>
  What an import does: into a clean target it inserts exactly the bundle's rows under fresh
  ids, with every reference following its row, and the result is again an account whose rows
  are in order; every refusal names its reason. With the round trip of \<open>PortableBundle\<close> this
  moves an account between instances without loss.
\<close>

section \<open>Renaming the ids of an account\<close>

definition rename_rows :: "(int \<Rightarrow> int) \<Rightarrow> (int \<Rightarrow> int) \<Rightarrow> (int \<Rightarrow> int) \<Rightarrow> account_rows \<Rightarrow> account_rows" where
  "rename_rows fv fp ft r = r\<lparr>
     ar_vehicles := map (\<lambda>v. v\<lparr>vb_id := fv (vb_id v)\<rparr>) (ar_vehicles r),
     ar_places := map (\<lambda>p. p\<lparr>pb_id := fp (pb_id p)\<rparr>) (ar_places r),
     ar_tag_rules := map (\<lambda>g. g\<lparr>gb_a_place := map_option fp (gb_a_place g), gb_b_place := map_option fp (gb_b_place g)\<rparr>) (ar_tag_rules r),
     ar_trips := map (\<lambda>t. t\<lparr>tb_id := ft (tb_id t), tb_vehicle := map_option fv (tb_vehicle t),
       tb_start_place := map_option fp (tb_start_place t), tb_end_place := map_option fp (tb_end_place t)\<rparr>) (ar_trips r),
     ar_expenses := map (\<lambda>e. e\<lparr>eb_vehicle := fv (eb_vehicle e), eb_trip := map_option ft (eb_trip e)\<rparr>) (ar_expenses r),
     ar_odometer := map (\<lambda>d. d\<lparr>ob_vehicle := fv (ob_vehicle d)\<rparr>) (ar_odometer r)\<rparr>"

lemma ref_in_map: "ref_in v ids \<Longrightarrow> ref_in (map_option f v) (map f ids)"
  by (cases v) (auto simp: ref_in_def)

lemma label_map: "label_ok l s v \<Longrightarrow> label_ok l s (map_option f v)"
  by (cases l) (auto simp: label_ok_def)

lemma row_map:
  "tag_rule_ok ps g \<Longrightarrow>
     tag_rule_ok (map fp ps) (g\<lparr>gb_a_place := map_option fp (gb_a_place g), gb_b_place := map_option fp (gb_b_place g)\<rparr>)"
  "trip_ok vs ps t \<Longrightarrow> trip_ok (map fv vs) (map fp ps) (t\<lparr>tb_id := i, tb_vehicle := map_option fv (tb_vehicle t),
     tb_start_place := map_option fp (tb_start_place t), tb_end_place := map_option fp (tb_end_place t)\<rparr>)"
  "expense_ok vs ts e \<Longrightarrow>
     expense_ok (map fv vs) (map ft ts) (e\<lparr>eb_vehicle := fv (eb_vehicle e), eb_trip := map_option ft (eb_trip e)\<rparr>)"
  "odometer_in_range vs d \<Longrightarrow> odometer_in_range (map fv vs) (d\<lparr>ob_vehicle := fv (ob_vehicle d)\<rparr>)"
  by (simp_all add: tag_rule_ok_def trip_ok_def expense_ok_def odometer_in_range_def ref_in_map label_map)

lemma rename_in_order:
  assumes r: "rows_in_order r" and v: "inj_on fv (vb_id ` set (ar_vehicles r))" and p: "inj_on fp (pb_id ` set (ar_places r))"
    and t: "inj_on ft (tb_id ` set (ar_trips r))"
  shows "rows_in_order (rename_rows fv fp ft r)"
proof -
  let ?vs = "map vb_id (ar_vehicles r)" and ?ps = "map pb_id (ar_places r)" and ?ts = "map tb_id (ar_trips r)"
  note o = r [unfolded rows_in_order_def]
  have ids: "map vb_id (ar_vehicles (rename_rows fv fp ft r)) = map fv ?vs"
    "map pb_id (ar_places (rename_rows fv fp ft r)) = map fp ?ps" "map tb_id (ar_trips (rename_rows fv fp ft r)) = map ft ?ts"
    by (simp_all add: rename_rows_def)
  have d: "distinct (map fv ?vs)" "distinct (map fp ?ps)" "distinct (map ft ?ts)"
    using o v p t by (simp_all add: distinct_map inj_on_def)
  have rules: "\<forall>g \<in> set (ar_tag_rules (rename_rows fv fp ft r)). tag_rule_ok (map fp ?ps) g"
    using o by (simp add: rename_rows_def row_map del: map_map)
  have trips: "\<forall>g \<in> set (ar_trips (rename_rows fv fp ft r)). trip_ok (map fv ?vs) (map fp ?ps) g"
    using o by (simp add: rename_rows_def row_map del: map_map)
  have exps: "\<forall>g \<in> set (ar_expenses (rename_rows fv fp ft r)). expense_ok (map fv ?vs) (map ft ?ts) g"
    using o by (simp add: rename_rows_def row_map del: map_map)
  have odo: "\<forall>g \<in> set (ar_odometer (rename_rows fv fp ft r)). odometer_in_range (map fv ?vs) g"
    using o by (simp add: rename_rows_def row_map del: map_map)
  have pairs: "distinct (map (\<lambda>o'. (ob_vehicle o', dt_at (ob_recorded_at o'))) (ar_odometer (rename_rows fv fp ft r)))"
  proof -
    have "inj_on (\<lambda>(a, b). (fv a, b)) ((\<lambda>o'. (ob_vehicle o', dt_at (ob_recorded_at o'))) ` set (ar_odometer r))"
    proof (rule inj_on_subset)
      have "(\<lambda>o'. (ob_vehicle o', dt_at (ob_recorded_at o'))) x \<in> set ?vs \<times> UNIV" if "x \<in> set (ar_odometer r)" for x
        using o that by (simp add: odometer_in_range_def)
      then show "(\<lambda>o'. (ob_vehicle o', dt_at (ob_recorded_at o'))) ` set (ar_odometer r) \<subseteq> set ?vs \<times> UNIV" by blast
      show "inj_on (\<lambda>(a, b). (fv a, b)) (set ?vs \<times> UNIV)"
        using v by (simp add: inj_on_def)
    qed
    then have "distinct (map (\<lambda>(a, b). (fv a, b)) (map (\<lambda>o'. (ob_vehicle o', dt_at (ob_recorded_at o'))) (ar_odometer r)))"
      unfolding distinct_map [of "\<lambda>(a, b). (fv a, b)"] set_map using o by (elim conjE, intro conjI)
    then show ?thesis by (simp add: rename_rows_def comp_def)
  qed
  show ?thesis
    unfolding rows_in_order_def ids
    using o d rules trips exps odo pairs
    by (simp add: rename_rows_def place_in_range_def filter_map comp_def)
qed

section \<open>The inserts\<close>

lemma update_new: "k \<notin> fst ` set m \<Longrightarrow> AList.update k v m = m @ [(k, v)]"
  by (induction m) auto

lemma insert_rows_all:
  assumes "distinct (map key rs)" "key ` set rs \<inter> fst ` set m = {}"
  shows "insert_rows key setid new k rs (table, m)
    = (table @ map (\<lambda>(j, r). setid (new j) r) (zip [k..<k + length rs] rs), m @ zip (map key rs) (map new [k..<k + length rs]))"
  using assms
proof (induction rs arbitrary: k table m)
  case (Cons r rs)
  have "[k..<k + length (r # rs)] = k # [Suc k..<Suc k + length rs]" by (simp add: upt_rec)
  moreover have "AList.update (key r) (new k) m = m @ [(key r, new k)]" using Cons.prems(2) by (intro update_new) auto
  moreover have "key ` set rs \<inter> fst ` set (m @ [(key r, new k)]) = {}" using Cons.prems by auto
  ultimately show ?case using Cons.IH [of "m @ [(key r, new k)]"] Cons.prems(1) by simp
qed simp

text \<open>The id map of an insert, as a function on the rows' ids.\<close>

definition id_fun :: "(int, int) dict \<Rightarrow> int \<Rightarrow> int" where
  "id_fun m i = (case map_of m i of None \<Rightarrow> i | Some j \<Rightarrow> j)"

lemma inserted:
  assumes "distinct (map key rs)" and "inj new" and "insert_rows key setid new 0 rs ([], []) = (table, m)"
  shows "table = map (\<lambda>r. setid (id_fun m (key r)) r) rs" "inj_on (id_fun m) (key ` set rs)"
    "i \<in> key ` set rs \<Longrightarrow> map_of m i = Some (id_fun m i)" "length m = length rs"
proof -
  have tm: "table = map (\<lambda>(j, r). setid (new j) r) (zip [0..<length rs] rs)" "m = zip (map key rs) (map new [0..<length rs])"
    using assms(3) insert_rows_all [OF assms(1), of "[]" setid new 0 "[]"] by simp_all
  have at: "map_of m (key (rs ! j)) = Some (new j)" if "j < length rs" for j
    using map_of_zip_nth [of "map key rs" "map new [0..<length rs]" j] assms(1) that by (simp add: tm(2))
  have f: "id_fun m (key (rs ! j)) = new j" if "j < length rs" for j using at [OF that] by (simp add: id_fun_def)
  show "table = map (\<lambda>r. setid (id_fun m (key r)) r) rs"
    by (rule nth_equalityI) (simp_all add: tm(1) f)
  show "inj_on (id_fun m) (key ` set rs)"
  proof (rule inj_onI)
    fix x y assume "x \<in> key ` set rs" "y \<in> key ` set rs" "id_fun m x = id_fun m y"
    then obtain j k where "j < length rs" "k < length rs" "x = key (rs ! j)" "y = key (rs ! k)" "new j = new k"
      by (auto simp: in_set_conv_nth f)
    then show "x = y" using assms(2) by (auto dest: injD)
  qed
  show "i \<in> key ` set rs \<Longrightarrow> map_of m i = Some (id_fun m i)" by (auto simp: in_set_conv_nth at f)
  show "length m = length rs" by (simp add: tm(2))
qed

lemma bind_simps [simp]: "bind (Inr a) f = f a" "bind (Inl e) f = Inl e"
  by (simp_all add: bind_def)

lemma each_Inr: "(\<And>x. x \<in> set xs \<Longrightarrow> f x = Inr (g x)) \<Longrightarrow> each f xs = Inr (map g xs)"
  by (induction xs) auto

lemma map_ref_known:
  "(\<And>i. i \<in> set ids \<Longrightarrow> map_of m i = Some (f i)) \<Longrightarrow> ref_in v ids \<Longrightarrow> map_ref m v = Inr (map_option f v)"
  by (cases v) (simp_all add: map_ref_def map_id_def ref_in_def)

lemma upsert_new:
  "distinct (map mb_year rs) \<Longrightarrow> mb_year ` set rs \<inter> mb_year ` set table = {} \<Longrightarrow> upsert_mileage_rates table rs = table @ rs"
proof (induction rs arbitrary: table)
  case (Cons r rs)
  have "\<not> (\<exists>q \<in> set table. mb_year q = mb_year r)" using Cons.prems(2) by (auto simp: image_iff)
  moreover have "mb_year ` set rs \<inter> mb_year ` set (table @ [r]) = {}" using Cons.prems by auto
  ultimately show ?case using Cons.IH [of "table @ [r]"] Cons.prems(1) by simp
qed simp

lemma clean_target_empty:
  "check_clean_target ref db = [] \<Longrightarrow> ar_trips (tg_rows db) = [] \<and> ar_expenses (tg_rows db) = []
     \<and> ar_odometer (tg_rows db) = [] \<and> ar_places (tg_rows db) = []"
  by (simp add: check_clean_target_def Let_def split: if_splits)

section \<open>The import\<close>

text \<open>What the account holds afterwards: the bundle's rows renamed, its time zone kept if the bundle has none.\<close>

definition imported_rows :: "(int \<Rightarrow> int) \<Rightarrow> (int \<Rightarrow> int) \<Rightarrow> (int \<Rightarrow> int) \<Rightarrow> bundle_rec \<Rightarrow> target_db \<Rightarrow> account_rows" where
  "imported_rows fv fp ft b db = (rename_rows fv fp ft (rows_of b))\<lparr>ar_settings :=
     update_settings (bb_settings b) (ar_settings (tg_rows db))\<rparr>"

text \<open>
  C19. An import carries out its bundle. Of a bundle that validation accepted, with a listed
  schema transition, a clean target and no failing statement, every row is inserted once
  under the fresh id the database gave it; every reference of a rule, trip, expense or
  reading leads to the row inserted for the one it named, so no id map ever misses a key;
  the account's rows are in order afterwards, so it can be exported again; every imported
  trip is flagged, and the counts reported are those of the bundle.\<close>

theorem import_renames:
  assumes "bundle_ok py b" and "compatible_transition (bb_format_version b) (bb_schema_version b) (tg_schema_version db)"
    and "check_clean_target (reference_rates env) db = []" and "\<not> statement_fails env"
    and "inj (new_vehicle_id env)" "inj (new_place_id env)" "inj (new_trip_id env)"
  shows "\<exists>fv fp ft db'. apply_import env b db = Inr ([(''vehicles'', length (bb_vehicles b)), (''places'', length (bb_places b)),
        (''tag_rules'', length (bb_tag_rules b)), (''mileage_rates'', length (bb_mileage_rates b)),
        (''trips'', length (bb_trips b)), (''expenses'', length (bb_expenses b)),
        (''odometer_readings'', length (bb_odometer b))], db')
    \<and> inj_on fv (vb_id ` set (bb_vehicles b)) \<and> inj_on fp (pb_id ` set (bb_places b)) \<and> inj_on ft (tb_id ` set (bb_trips b))
    \<and> tg_rows db' = imported_rows fv fp ft b db \<and> rows_in_order (tg_rows db')
    \<and> tb_id ` set (ar_trips (tg_rows db')) \<subseteq> set (tg_imported db')"
proof -
  have o: "rows_in_order (rows_of b)" using assms(1) by (simp add: bundle_ok_def)
  note o' = o [unfolded rows_in_order_def rows_of_def account_rows.simps]
  obtain vs vm where v: "insert_vehicles (new_vehicle_id env) (bb_vehicles b) = (vs, vm)" by fastforce
  obtain ps pm where p: "insert_places (new_place_id env) (bb_places b) = (ps, pm)" by fastforce
  have dv: "distinct (map vb_id (bb_vehicles b))" "distinct (map pb_id (bb_places b))" "distinct (map tb_id (bb_trips b))"
    using o' by simp_all
  note iv = inserted [OF dv(1) assms(5) v [unfolded insert_vehicles_def]]
  note ip = inserted [OF dv(2) assms(6) p [unfolded insert_places_def]]
  let ?fv = "id_fun vm" and ?fp = "id_fun pm"
  have mv: "map_of vm i = Some (?fv i)" if "i \<in> set (map vb_id (bb_vehicles b))" for i using iv(3) that by simp
  have kv: "map_ref vm w = Inr (map_option ?fv w)" if "ref_in w (map vb_id (bb_vehicles b))" for w
    using map_ref_known [of "map vb_id (bb_vehicles b)" vm ?fv] mv that by blast
  have mp: "map_of pm i = Some (?fp i)" if "i \<in> set (map pb_id (bb_places b))" for i using ip(3) that by simp
  have kp: "map_ref pm w = Inr (map_option ?fp w)" if "ref_in w (map pb_id (bb_places b))" for w
    using map_ref_known [of "map pb_id (bb_places b)" pm ?fp] mp that by blast
  have tags: "insert_tag_rules pm (bb_tag_rules b)
      = Inr (map (\<lambda>g. g\<lparr>gb_a_place := map_option ?fp (gb_a_place g), gb_b_place := map_option ?fp (gb_b_place g)\<rparr>) (bb_tag_rules b))"
    unfolding insert_tag_rules_def
  proof (rule each_Inr)
    fix g assume "g \<in> set (bb_tag_rules b)"
    then have "ref_in (gb_a_place g) (map pb_id (bb_places b))" "ref_in (gb_b_place g) (map pb_id (bb_places b))"
      using o' by (simp_all add: tag_rule_ok_def)
    then show "bind (map_ref pm (gb_a_place g)) (\<lambda>a. bind (map_ref pm (gb_b_place g)) (\<lambda>b. Inr (g\<lparr>gb_a_place := a, gb_b_place := b\<rparr>)))
      = Inr (g\<lparr>gb_a_place := map_option ?fp (gb_a_place g), gb_b_place := map_option ?fp (gb_b_place g)\<rparr>)"
      using kp by simp
  qed
  let ?refs = "\<lambda>t. t\<lparr>tb_vehicle := map_option ?fv (tb_vehicle t), tb_start_place := map_option ?fp (tb_start_place t),
    tb_end_place := map_option ?fp (tb_end_place t)\<rparr>"
  have params: "each (trip_refs vm pm) (bb_trips b) = Inr (map ?refs (bb_trips b))"
  proof (rule each_Inr)
    fix t assume "t \<in> set (bb_trips b)"
    then have "ref_in (tb_vehicle t) (map vb_id (bb_vehicles b))" "ref_in (tb_start_place t) (map pb_id (bb_places b))"
      "ref_in (tb_end_place t) (map pb_id (bb_places b))"
      using o' by (simp_all add: trip_ok_def)
    then show "trip_refs vm pm t = Inr (?refs t)" using kv kp by (simp add: trip_refs_def)
  qed
  obtain ts tm where t: "insert_rows tb_id (\<lambda>i. tb_id_update (\<lambda>_. i)) (new_trip_id env) 0 (map ?refs (bb_trips b)) ([], []) = (ts, tm)"
    by fastforce
  have dt: "distinct (map tb_id (map ?refs (bb_trips b)))" using dv(3) by (simp add: comp_def)
  note it = inserted [OF dt assms(7) t]
  let ?ft = "id_fun tm"
  have mt: "map_of tm i = Some (?ft i)" if "i \<in> set (map tb_id (bb_trips b))" for i using it(3) that by (simp add: image_image)
  have kt: "map_ref tm w = Inr (map_option ?ft w)" if "ref_in w (map tb_id (bb_trips b))" for w
    using map_ref_known [of "map tb_id (bb_trips b)" tm ?ft] mt that by blast
  have trips: "insert_trips (new_trip_id env) vm pm (bb_trips b) = Inr (ts, tm)"
    by (simp add: insert_trips_def params t)
  have exps: "insert_expenses vm tm (bb_expenses b)
      = Inr (map (\<lambda>e. e\<lparr>eb_vehicle := ?fv (eb_vehicle e), eb_trip := map_option ?ft (eb_trip e)\<rparr>) (bb_expenses b))"
    unfolding insert_expenses_def
  proof (rule each_Inr)
    fix e assume "e \<in> set (bb_expenses b)"
    then have "ref_in (eb_trip e) (map tb_id (bb_trips b))" "eb_vehicle e \<in> set (map vb_id (bb_vehicles b))"
      using o' by (simp_all add: expense_ok_def)
    then show "bind (map_id vm (eb_vehicle e)) (\<lambda>v. bind (map_ref tm (eb_trip e)) (\<lambda>t. Inr (e\<lparr>eb_vehicle := v, eb_trip := t\<rparr>)))
      = Inr (e\<lparr>eb_vehicle := ?fv (eb_vehicle e), eb_trip := map_option ?ft (eb_trip e)\<rparr>)"
      using kt mv by (simp add: map_id_def)
  qed
  have odo: "insert_odometer_readings vm (bb_odometer b) = Inr (map (\<lambda>d. d\<lparr>ob_vehicle := ?fv (ob_vehicle d)\<rparr>) (bb_odometer b))"
    unfolding insert_odometer_readings_def
  proof (rule each_Inr)
    fix d assume "d \<in> set (bb_odometer b)"
    then have "ob_vehicle d \<in> set (map vb_id (bb_vehicles b))" using o' by (simp add: odometer_in_range_def)
    then show "bind (map_id vm (ob_vehicle d)) (\<lambda>v. Inr (d\<lparr>ob_vehicle := v\<rparr>)) = Inr (d\<lparr>ob_vehicle := ?fv (ob_vehicle d)\<rparr>)"
      using mv by (simp add: map_id_def)
  qed
  have rates: "upsert_mileage_rates [] (bb_mileage_rates b) = bb_mileage_rates b" using upsert_new o' by simp
  note empty = clean_target_empty [OF assms(3)]
  let ?rows = "imported_rows ?fv ?fp ?ft b db"
  have rows: "?rows = \<lparr>ar_vehicles = vs, ar_places = ps,
      ar_tag_rules = map (\<lambda>g. g\<lparr>gb_a_place := map_option ?fp (gb_a_place g), gb_b_place := map_option ?fp (gb_b_place g)\<rparr>) (bb_tag_rules b),
      ar_mileage_rates = bb_mileage_rates b, ar_trips = ts,
      ar_expenses = map (\<lambda>e. e\<lparr>eb_vehicle := ?fv (eb_vehicle e), eb_trip := map_option ?ft (eb_trip e)\<rparr>) (bb_expenses b),
      ar_odometer = map (\<lambda>d. d\<lparr>ob_vehicle := ?fv (ob_vehicle d)\<rparr>) (bb_odometer b),
      ar_settings = update_settings (bb_settings b) (ar_settings (tg_rows db))\<rparr>"
    by (simp add: imported_rows_def rename_rows_def rows_of_def iv(1) ip(1) it(1) comp_def)
  have inj: "inj_on ?fv (vb_id ` set (bb_vehicles b))" "inj_on ?fp (pb_id ` set (bb_places b))" "inj_on ?ft (tb_id ` set (bb_trips b))"
    using iv(2) ip(2) it(2) by (simp_all add: image_image)
  have ord: "rows_in_order ?rows"
    using rename_in_order [OF o, of ?fv ?fp ?ft] inj by (simp add: imported_rows_def rows_in_order_def rows_of_def)
  have "apply_import env b db = Inr ([(''vehicles'', length (bb_vehicles b)), (''places'', length (bb_places b)),
        (''tag_rules'', length (bb_tag_rules b)), (''mileage_rates'', length (bb_mileage_rates b)),
        (''trips'', length (bb_trips b)), (''expenses'', length (bb_expenses b)),
        (''odometer_readings'', length (bb_odometer b))],
        db\<lparr>tg_rows := ?rows, tg_imported := tg_imported db @ map tb_id ts\<rparr>)"
    unfolding apply_import_def rows
    using assms(2,3,4) iv(4) ip(4) it(1) by (simp add: v p tags trips exps odo rates empty)
  moreover have "tb_id ` set (ar_trips ?rows) \<subseteq> set (tg_imported db @ map tb_id ts)" by (simp add: rows)
  ultimately show ?thesis
    using inj ord
    by (intro exI [of _ ?fv] exI [of _ ?fp] exI [of _ ?ft] exI [of _ "db\<lparr>tg_rows := ?rows, tg_imported := tg_imported db @ map tb_id ts\<rparr>"]) simp
qed

lemma rows_of_bundle: "rows_of (bundle_of r v) = r"
  by (cases r) (simp add: rows_of_def bundle_of_def)

definition fresh_target :: target_db where
  "fresh_target = \<lparr>tg_rows = \<lparr>ar_vehicles = [seeded_vehicle\<lparr>vb_id := 41\<rparr>], ar_places = [], ar_tag_rules = rev seeded_tag_rules,
     ar_mileage_rates = [], ar_trips = [], ar_expenses = [], ar_odometer = [],
     ar_settings = \<lparr>sb_auto_assign = False, sb_display_tz = None\<rparr>\<rparr>,
   tg_imported = [], tg_points = 0, tg_stays = 0, tg_overrides = 0, tg_detector_progressed = False, tg_schema_version = 51\<rparr>"

definition sample_env :: import_env where
  "sample_env = \<lparr>new_vehicle_id = (\<lambda>k. 100 + int k), new_place_id = (\<lambda>k. 200 + int k), new_trip_id = (\<lambda>k. 300 + int k),
     reference_rates = [], statement_fails = False\<rparr>"

theorem import_renames_witness:
  "\<exists>counts db'. apply_import sample_env (bundle_of sample_rows 51) fresh_target = Inr (counts, db')
     \<and> rows_in_order (tg_rows db')"
proof -
  have "bundle_ok sample_text (bundle_of sample_rows 51)"
    using sample_rows_ok rows_of_bundle [of sample_rows 51]
    by (simp add: bundle_ok_def SUPPORTED_FORMAT_VERSIONS_def) (simp add: bundle_of_def)
  moreover have "compatible_transition (bb_format_version (bundle_of sample_rows 51)) (bb_schema_version (bundle_of sample_rows 51))
      (tg_schema_version fresh_target)"
    by code_simp
  moreover have "check_clean_target (reference_rates sample_env) fresh_target = []" by code_simp
  moreover have "\<not> statement_fails sample_env" "inj (new_vehicle_id sample_env)" "inj (new_place_id sample_env)"
    "inj (new_trip_id sample_env)" by (simp_all add: sample_env_def inj_def)
  ultimately show ?thesis using import_renames [of sample_text "bundle_of sample_rows 51" fresh_target sample_env] by blast
qed

end
