(* ===== verification/RunnerTypes.thy ===== *)
theory RunnerTypes imports Detector Reconcile Autotag begin

text \<open>
  \<open>app/detector/runner.py\<close>: a detector run against the database. The state is the part of one
  account's tables the runner reads and writes, a list of rows per table; every SQL
  statement of the source is a function on it, and a transaction is the composition of its
  statements, which commits when no step raises. \<open>re_geo\<close> and \<open>re_simplify\<close> stand for the
  PostGIS distance and line simplification, \<open>now\<close> for the database's clock. Timestamps of
  rows (\<open>created_at\<close>, \<open>updated_at\<close>) and log lines are left out.
\<close>

section \<open>Tables\<close>

type_synonym lonlat = "real \<times> real"

record device_row =
  dv_id :: int
  dv_label :: string
  dv_enabled :: bool
  dv_revoked_at :: "instant option"

record checkpoint_row =
  ck_device :: int
  ck_last_run_at :: "instant option"
  ck_version :: int

record fix_row =
  fx_id :: int
  fx_device :: int
  fx_recorded_at :: instant
  fx_received_at :: instant
  fx_lat :: real
  fx_lon :: real
  fx_accuracy_m :: "real option"
  fx_velocity_kmh :: "real option"
  fx_trigger :: "string option"
  fx_trip_id :: "int option"

record stay_row =
  sr_device :: int
  sr_label :: string
  sr_started_at :: instant
  sr_ended_at :: instant
  sr_lon :: real
  sr_lat :: real
  sr_point_count :: nat

record snap_cols =
  snap_status :: "string option"
  snap_capacity_needed_bytes :: int
  snap_attempted_at :: "instant option"
  path_snapped :: "lonlat list option"
  distance_snapped_m :: "real option"
  snapped_at :: "instant option"

record stored_trip =
  tp_id :: int
  tp_device :: "int option"
  tp_label :: string
  tp_source :: string
  tp_imported :: bool
  tp_started_at :: instant
  tp_ended_at :: instant
  tp_start_geom :: "lonlat option"
  tp_end_geom :: "lonlat option"
  tp_distance_m :: real
  tp_point_count :: nat
  tp_has_gap :: bool
  tp_version :: int
  tp_category :: string
  tp_tag_source :: "string option"
  tp_start_place_id :: "int option"
  tp_end_place_id :: "int option"
  tp_vehicle_id :: "int option"
  tp_purpose :: "string option"
  tp_notes :: "string option"
  tp_path :: "lonlat list option"
  tp_snap :: snap_cols

record place_row =
  pl_id :: int
  pl_kind :: string
  pl_geom :: lonlat
  pl_radius_m :: real

record car_row =
  cr_id :: int
  cr_is_default :: bool
  cr_active :: bool

record override_row =
  ovr_device :: int
  ovr_override :: override

record expense_link =
  el_id :: int
  el_trip_id :: "int option"

record stream_db =
  db_devices :: "device_row list"
  db_checkpoints :: "checkpoint_row list"
  db_fixes :: "fix_row list"
  db_stays :: "stay_row list"
  db_trips :: "stored_trip list"
  db_overrides :: "override_row list"
  db_places :: "place_row list"
  db_rules :: "rule list"
  db_cars :: "car_row list"
  db_auto_assign :: bool
  db_expenses :: "expense_link list"
  db_next_trip_id :: int

record runner_env =
  re_dst :: "point \<Rightarrow> point \<Rightarrow> real"
  re_params :: params
  re_turn_max_points :: int
  re_geo :: "lonlat \<Rightarrow> lonlat \<Rightarrow> real"
  re_simplify :: "lonlat list \<Rightarrow> lonlat list"

definition DETECTOR_VERSION :: int where "DETECTOR_VERSION = 3"

definition EPOCH :: instant where "EPOCH = 0"

definition RUN_OVERLAP_MARGIN :: int where "RUN_OVERLAP_MARGIN = seconds 60"

section \<open>Pending devices\<close>

text \<open>\<open>received_at > COALESCE(last_run_at, '-infinity')\<close>.\<close>

definition received_after :: "instant option \<Rightarrow> fix_row \<Rightarrow> bool" where
  "received_after last_run_at p = (case last_run_at of None \<Rightarrow> True | Some u \<Rightarrow> u < fx_received_at p)"

text \<open>\<open>source = 'detected' AND NOT imported\<close>, for one device.\<close>

definition detected_of :: "int \<Rightarrow> stored_trip \<Rightarrow> bool" where
  "detected_of device t \<longleftrightarrow> tp_device t = Some device \<and> tp_source t = ''detected'' \<and> \<not> tp_imported t"

definition is_pending :: "stream_db \<Rightarrow> device_row \<Rightarrow> checkpoint_row \<Rightarrow> bool" where
  "is_pending db d s =
     (dv_enabled d \<and> dv_revoked_at d = None
      \<and> (ck_version s \<noteq> DETECTOR_VERSION
         \<or> list_ex (\<lambda>p. fx_device p = dv_id d \<and> received_after (ck_last_run_at s) p) (db_fixes db))
      \<and> (ck_last_run_at s \<noteq> None \<or> ck_version s \<noteq> 0
         \<or> list_ex (\<lambda>p. fx_device p = dv_id d) (db_fixes db)
         \<or> list_ex (detected_of (dv_id d)) (db_trips db)
         \<or> list_ex (\<lambda>ov. ovr_device ov = dv_id d) (db_overrides db)))"

type_synonym pending_row = "int \<times> instant option \<times> int"

definition pending_rows :: "stream_db \<Rightarrow> pending_row list" where
  "pending_rows db =
     concat (map (\<lambda>d. map (\<lambda>s. (dv_id d, ck_last_run_at s, ck_version s))
                (filter (\<lambda>s. ck_device s = dv_id d \<and> is_pending db d s) (db_checkpoints db)))
       (db_devices db))"

text \<open>\<open>ORDER BY last_run_at NULLS FIRST, id\<close>.\<close>

definition nulls_first :: "pending_row \<Rightarrow> nat \<times> int \<times> int" where
  "nulls_first r = (case r of (i, None, _) \<Rightarrow> (0, 0, i) | (i, Some u, _) \<Rightarrow> (1, u, i))"

definition oldest_first :: "stream_db \<Rightarrow> pending_row list" where
  "oldest_first db = sort_key nulls_first (pending_rows db)"

definition pending_devices :: "stream_db \<Rightarrow> int list" where
  "pending_devices db = map fst (oldest_first db)"

definition admit_device :: "stream_db \<Rightarrow> int \<Rightarrow> string option" where
  "admit_device db device =
     map_option dv_label
       (List.find (\<lambda>d. dv_id d = device \<and> dv_enabled d \<and> dv_revoked_at d = None) (db_devices db))"

section \<open>The window\<close>

definition rewind_start :: "stream_db \<Rightarrow> int \<Rightarrow> instant \<Rightarrow> bool \<Rightarrow> instant" where
  "rewind_start db device dirty_from full =
     (if full then EPOCH
      else case sort_key (\<lambda>s. - sr_ended_at s)
             (filter (\<lambda>s. sr_device s = device \<and> sr_ended_at s < dirty_from) (db_stays db)) of
          [] \<Rightarrow> EPOCH
        | s # _ \<Rightarrow> sr_started_at s)"

definition window_fixes :: "stream_db \<Rightarrow> int \<Rightarrow> instant \<Rightarrow> fix_row list" where
  "window_fixes db device t0 =
     sort_key fx_recorded_at (filter (\<lambda>p. fx_device p = device \<and> t0 \<le> fx_recorded_at p) (db_fixes db))"

text \<open>The counted rows end at \<open>LIMIT limit + 1\<close>.\<close>

definition count_window :: "stream_db \<Rightarrow> int \<Rightarrow> instant \<Rightarrow> int \<Rightarrow> int" where
  "count_window db device t0 limit =
     int (length (take (nat (limit + 1)) (window_fixes db device t0)))"

definition point_of_row :: "fix_row \<Rightarrow> point" where
  "point_of_row p =
     \<lparr>pt_t = fx_recorded_at p, pt_lat = fx_lat p, pt_lon = fx_lon p, pt_accuracy_m = fx_accuracy_m p,
      pt_velocity_kmh = fx_velocity_kmh p, pt_id = Some (fx_id p), pt_trigger = fx_trigger p\<rparr>"

definition load_points :: "stream_db \<Rightarrow> int \<Rightarrow> instant \<Rightarrow> point list" where
  "load_points db device t0 = map point_of_row (window_fixes db device t0)"

definition load_overrides :: "stream_db \<Rightarrow> int \<Rightarrow> override list" where
  "load_overrides db device = map ovr_override (filter (\<lambda>ov. ovr_device ov = device) (db_overrides db))"

definition in_window :: "int \<Rightarrow> instant \<Rightarrow> stored_trip \<Rightarrow> bool" where
  "in_window device t0 t \<longleftrightarrow> detected_of device t \<and> t0 \<le> tp_started_at t"

definition existing_of_row :: "stored_trip \<Rightarrow> existing_trip" where
  "existing_of_row t =
     \<lparr>ex_id = tp_id t, ex_started_at = tp_started_at t, ex_ended_at = tp_ended_at t,
      ex_category = tp_category t, ex_tag_source = tp_tag_source t\<rparr>"

definition load_existing :: "stream_db \<Rightarrow> int \<Rightarrow> instant \<Rightarrow> existing_trip list" where
  "load_existing db device t0 = map existing_of_row (filter (in_window device t0) (db_trips db))"

section \<open>Snap inputs\<close>

type_synonym snap_input = "int option \<times> instant \<times> real \<times> real \<times> real option"

definition snap_input_of_row :: "fix_row \<Rightarrow> snap_input" where
  "snap_input_of_row p = (Some (fx_id p), fx_recorded_at p, fx_lat p, fx_lon p, fx_accuracy_m p)"

definition snap_input_of_point :: "point \<Rightarrow> snap_input" where
  "snap_input_of_point p = (pt_id p, pt_t p, pt_lat p, pt_lon p, pt_accuracy_m p)"

text \<open>The fixes of a stored trip by its time range, \<open>ORDER BY recorded_at, id\<close>.\<close>

definition fixes_between :: "stream_db \<Rightarrow> stored_trip \<Rightarrow> fix_row list" where
  "fixes_between db t =
     sort_key (\<lambda>p. (fx_recorded_at p, fx_id p))
       (filter (\<lambda>p. tp_device t = Some (fx_device p) \<and> tp_started_at t \<le> fx_recorded_at p
          \<and> fx_recorded_at p \<le> tp_ended_at t \<and> fx_trip_id p \<noteq> None) (db_fixes db))"

definition previous_snap_inputs :: "stream_db \<Rightarrow> int \<Rightarrow> snap_input list" where
  "previous_snap_inputs db trip_id =
     concat (map (\<lambda>t. map snap_input_of_row (fixes_between db t))
       (filter (\<lambda>t. tp_id t = trip_id) (db_trips db)))"

text \<open>\<open>load_trip_points\<close>: the same range join, for the snap worker and the split picker.\<close>

definition load_trip_points :: "stream_db \<Rightarrow> int \<Rightarrow> snap_input list" where
  "load_trip_points db trip_id = previous_snap_inputs db trip_id"

section \<open>Writes\<close>

definition delete_stays :: "int \<Rightarrow> instant \<Rightarrow> stream_db \<Rightarrow> stream_db" where
  "delete_stays device t0 db =
     db\<lparr>db_stays := filter (\<lambda>s. \<not> (sr_device s = device \<and> t0 \<le> sr_started_at s)) (db_stays db)\<rparr>"

definition stay_row_of :: "int \<Rightarrow> string \<Rightarrow> stay \<Rightarrow> stay_row" where
  "stay_row_of device label s =
     \<lparr>sr_device = device, sr_label = label, sr_started_at = st_started_at s, sr_ended_at = st_ended_at s,
      sr_lon = st_lon s, sr_lat = st_lat s, sr_point_count = point_count s\<rparr>"

definition insert_stays :: "int \<Rightarrow> string \<Rightarrow> stay list \<Rightarrow> stream_db \<Rightarrow> stream_db" where
  "insert_stays device label stays db =
     db\<lparr>db_stays := db_stays db @ map (stay_row_of device label) (filter (\<lambda>s. \<not> provisional s) stays)\<rparr>"

definition unlink_points :: "int \<Rightarrow> instant \<Rightarrow> int list \<Rightarrow> stream_db \<Rightarrow> stream_db" where
  "unlink_points device t0 kept_ids db =
     db\<lparr>db_fixes := map (\<lambda>p.
          if fx_device p = device \<and> t0 < fx_recorded_at p
             \<and> (case fx_trip_id p of None \<Rightarrow> True | Some i \<Rightarrow> i \<notin> set kept_ids)
          then p\<lparr>fx_trip_id := None\<rparr> else p) (db_fixes db)\<rparr>"

text \<open>
  \<open>DELETE FROM trips\<close>; the foreign keys of \<open>points\<close> and \<open>expenses\<close> are
  \<open>ON DELETE SET NULL (trip_id)\<close>.
\<close>

definition delete_trip :: "int \<Rightarrow> stream_db \<Rightarrow> stream_db" where
  "delete_trip i db =
     db\<lparr>db_trips := filter (\<lambda>t. tp_id t \<noteq> i) (db_trips db),
        db_fixes := map (\<lambda>p. if fx_trip_id p = Some i then p\<lparr>fx_trip_id := None\<rparr> else p) (db_fixes db),
        db_expenses := map (\<lambda>e. if el_trip_id e = Some i then e\<lparr>el_trip_id := None\<rparr> else e)
          (db_expenses db)\<rparr>"

definition pending_snap :: snap_cols where
  "pending_snap = \<lparr>snap_status = Some ''pending'', snap_capacity_needed_bytes = 0, snap_attempted_at = None,
     path_snapped = None, distance_snapped_m = None, snapped_at = None\<rparr>"

definition default_vehicle :: "stream_db \<Rightarrow> int option" where
  "default_vehicle db =
     (if db_auto_assign db
      then map_option cr_id (List.find (\<lambda>v. cr_is_default v \<and> cr_active v) (db_cars db)) else None)"

definition point_ids :: "trip \<Rightarrow> int list" where
  "point_ids tr = List.map_filter pt_id (tr_points tr)"

text \<open>\<open>ST_Simplify(ST_MakeLine(geom ORDER BY recorded_at, id))\<close> over the trip's fixes.\<close>

definition raw_path :: "runner_env \<Rightarrow> stream_db \<Rightarrow> int \<Rightarrow> int list \<Rightarrow> lonlat list option" where
  "raw_path env db device ids =
     (case sort_key (\<lambda>p. (fx_recorded_at p, fx_id p))
             (filter (\<lambda>p. fx_device p = device \<and> fx_id p \<in> set ids) (db_fixes db)) of
        [] \<Rightarrow> None
      | ps \<Rightarrow> Some (re_simplify env (map (\<lambda>p. (fx_lon p, fx_lat p)) ps)))"

definition inserted_trip :: "stream_db \<Rightarrow> int \<Rightarrow> string \<Rightarrow> trip \<Rightarrow> stored_trip" where
  "inserted_trip db device label tr =
     \<lparr>tp_id = db_next_trip_id db, tp_device = Some device, tp_label = label, tp_source = ''detected'',
      tp_imported = False, tp_started_at = tr_started_at tr, tp_ended_at = tr_ended_at tr,
      tp_start_geom = Some (start_lon tr, start_lat tr), tp_end_geom = Some (end_lon tr, end_lat tr),
      tp_distance_m = distance_m tr, tp_point_count = length (tr_points tr), tp_has_gap = has_gap tr,
      tp_version = DETECTOR_VERSION, tp_category = ''unclassified'', tp_tag_source = None,
      tp_start_place_id = None, tp_end_place_id = None, tp_vehicle_id = default_vehicle db,
      tp_purpose = None, tp_notes = None, tp_path = None, tp_snap = pending_snap\<rparr>"

text \<open>The columns of \<open>prior.preserve_snap\<close>; a \<open>NULL\<close> snap status is never preserved.\<close>

definition preserve_snap :: "bool \<Rightarrow> trip \<Rightarrow> stored_trip \<Rightarrow> bool" where
  "preserve_snap same_inputs tr t =
     (same_inputs \<and> snap_status (tp_snap t) \<noteq> None
      \<and> tp_started_at t = tr_started_at tr \<and> tp_ended_at t = tr_ended_at tr
      \<and> tp_distance_m t = distance_m tr \<and> tp_point_count t = length (tr_points tr)
      \<and> tp_start_geom t = Some (start_lon tr, start_lat tr) \<and> tp_end_geom t = Some (end_lon tr, end_lat tr))"

definition updated_trip :: "bool \<Rightarrow> lonlat list option \<Rightarrow> trip \<Rightarrow> stored_trip \<Rightarrow> stored_trip" where
  "updated_trip same_inputs path tr t =
     t\<lparr>tp_started_at := tr_started_at tr, tp_ended_at := tr_ended_at tr,
       tp_start_geom := Some (start_lon tr, start_lat tr), tp_end_geom := Some (end_lon tr, end_lat tr),
       tp_distance_m := distance_m tr, tp_point_count := length (tr_points tr), tp_has_gap := has_gap tr,
       tp_version := DETECTOR_VERSION, tp_path := path,
       tp_snap := (if preserve_snap same_inputs tr t then tp_snap t else pending_snap)\<rparr>"

definition update_trips :: "(stored_trip \<Rightarrow> bool) \<Rightarrow> (stored_trip \<Rightarrow> stored_trip) \<Rightarrow> stream_db \<Rightarrow> stream_db" where
  "update_trips sel f db = db\<lparr>db_trips := map (\<lambda>t. if sel t then f t else t) (db_trips db)\<rparr>"

definition link_points :: "int \<Rightarrow> int \<Rightarrow> int list \<Rightarrow> stream_db \<Rightarrow> stream_db" where
  "link_points device trip_id ids db =
     db\<lparr>db_fixes := map (\<lambda>p. if fx_device p = device \<and> fx_id p \<in> set ids
          then p\<lparr>fx_trip_id := Some trip_id\<rparr> else p) (db_fixes db)\<rparr>"

text \<open>\<open>_write_trip\<close> for a new trip, and for a matched one with its previous snap inputs.\<close>

definition insert_trip :: "runner_env \<Rightarrow> int \<Rightarrow> string \<Rightarrow> trip \<Rightarrow> stream_db \<Rightarrow> stream_db \<times> int" where
  "insert_trip env device label tr db =
     (let trip_id = db_next_trip_id db;
          db1 = db\<lparr>db_trips := db_trips db @ [inserted_trip db device label tr],
                   db_next_trip_id := trip_id + 1\<rparr>;
          db2 = link_points device trip_id (point_ids tr) db1
      in (update_trips (\<lambda>t. tp_device t = Some device \<and> tp_id t = trip_id)
            (\<lambda>t. t\<lparr>tp_path := raw_path env db2 device (point_ids tr)\<rparr>) db2, trip_id))"

definition update_trip ::
  "runner_env \<Rightarrow> int \<Rightarrow> trip \<Rightarrow> int \<Rightarrow> snap_input list \<Rightarrow> stream_db \<Rightarrow> stream_db \<times> int" where
  "update_trip env device tr trip_id previous db =
     (let same_inputs = (previous = map snap_input_of_point (tr_points tr));
          db1 = update_trips (\<lambda>t. tp_device t = Some device \<and> tp_id t = trip_id)
                  (updated_trip same_inputs (raw_path env db device (point_ids tr)) tr) db
      in (link_points device trip_id (point_ids tr) db1, trip_id))"

definition write_trip ::
  "runner_env \<Rightarrow> int \<Rightarrow> string \<Rightarrow> trip \<Rightarrow> (int \<times> snap_input list) option \<Rightarrow> stream_db \<Rightarrow> stream_db \<times> int" where
  "write_trip env device label tr target db =
     (case target of
        None \<Rightarrow> insert_trip env device label tr db
      | Some (trip_id, previous) \<Rightarrow> update_trip env device tr trip_id previous db)"

text \<open>The loop over matches and inserts, collecting \<open>touched_ids\<close>.\<close>

fun write_trips ::
  "runner_env \<Rightarrow> int \<Rightarrow> string \<Rightarrow> (trip \<times> (int \<times> snap_input list) option) list \<Rightarrow> stream_db \<Rightarrow> stream_db \<times> int list"
where
  "write_trips env device label [] db = (db, [])"
| "write_trips env device label ((tr, target) # rest) db =
     (let (db1, i) = write_trip env device label tr target db;
          (db2, ids) = write_trips env device label rest db1
      in (db2, i # ids))"

section \<open>Places and auto-tags\<close>

definition nearest_place :: "runner_env \<Rightarrow> place_row list \<Rightarrow> lonlat option \<Rightarrow> int option" where
  "nearest_place env places geom =
     (case geom of
        None \<Rightarrow> None
      | Some g \<Rightarrow>
          (case sort_key (\<lambda>p. re_geo env g (pl_geom p))
                  (filter (\<lambda>p. re_geo env g (pl_geom p) \<le> pl_radius_m p) places) of
             [] \<Rightarrow> None
           | p # _ \<Rightarrow> Some (pl_id p)))"

definition autotaggable :: "int list \<Rightarrow> stored_trip \<Rightarrow> bool" where
  "autotaggable trip_ids t \<longleftrightarrow> tp_id t \<in> set trip_ids \<and> tp_source t = ''detected'' \<and> \<not> tp_imported t"

definition resolve_places :: "runner_env \<Rightarrow> int list \<Rightarrow> stream_db \<Rightarrow> stream_db" where
  "resolve_places env trip_ids db =
     update_trips (autotaggable trip_ids)
       (\<lambda>t. t\<lparr>tp_start_place_id := nearest_place env (db_places db) (tp_start_geom t),
              tp_end_place_id := nearest_place env (db_places db) (tp_end_geom t)\<rparr>) db"

text \<open>The \<open>LEFT JOIN places\<close>: a place reference carries the kind of its row.\<close>

definition place_ref_of :: "stream_db \<Rightarrow> int option \<Rightarrow> place_ref" where
  "place_ref_of db place_id =
     (case place_id of
        None \<Rightarrow> None
      | Some i \<Rightarrow> map_option (\<lambda>p. (i, pl_kind p)) (List.find (\<lambda>p. pl_id p = i) (db_places db)))"

definition autotag_trip_of :: "stream_db \<Rightarrow> stored_trip \<Rightarrow> autotag_trip" where
  "autotag_trip_of db t =
     \<lparr>at_id = tp_id t, at_category = tp_category t, at_tag_source = tp_tag_source t,
      at_start_place = place_ref_of db (tp_start_place_id t),
      at_end_place = place_ref_of db (tp_end_place_id t)\<rparr>"

definition apply_tag :: "stream_db \<Rightarrow> autotag_result \<Rightarrow> stream_db" where
  "apply_tag db r =
     update_trips (\<lambda>t. tp_id t = ar_trip_id r \<and> tp_tag_source t \<noteq> Some ''human'')
       (\<lambda>t. t\<lparr>tp_category := ar_category r, tp_tag_source := ar_tag_source r\<rparr>) db"

definition resolve_and_autotag :: "runner_env \<Rightarrow> int list \<Rightarrow> stream_db \<Rightarrow> stream_db" where
  "resolve_and_autotag env trip_ids db =
     (if trip_ids = [] then db
      else let db1 = resolve_places env trip_ids db;
               trips = map (autotag_trip_of db1) (filter (autotaggable trip_ids) (db_trips db1))
           in foldl apply_tag db1 (plan_autotags trips (sort_key ru_id (db_rules db1))))"

definition reprocess_places_in :: "runner_env \<Rightarrow> stream_db \<Rightarrow> stream_db" where
  "reprocess_places_in env db =
     resolve_and_autotag env
       (map tp_id (filter (\<lambda>t. tp_source t = ''detected'' \<and> \<not> tp_imported t) (db_trips db))) db"

section \<open>A run of one device\<close>

definition device_plan :: "stream_db \<Rightarrow> int \<Rightarrow> instant \<Rightarrow> stay list \<Rightarrow> trip list \<Rightarrow> reconcile_plan" where
  "device_plan db device t0 stays trips =
     plan_reconcile (load_existing db device t0) (map (\<lambda>t. (tr_started_at t, tr_ended_at t)) trips)
       (if stays = [] then None else Some (st_started_at (last stays)))"

definition write_targets ::
  "stream_db \<Rightarrow> reconcile_plan \<Rightarrow> trip list \<Rightarrow> (trip \<times> (int \<times> snap_input list) option) list" where
  "write_targets db plan trips =
     map (\<lambda>(i, ni). (trips ! ni, Some (i, previous_snap_inputs db i))) (rp_matches plan)
     @ map (\<lambda>ni. (trips ! ni, None)) (rp_inserts plan)"

text \<open>
  The writes of \<open>_process_device\<close> after \<open>detect\<close>. The previous snap inputs are read before the
  points are unlinked; the plan refers to the stored trips as they were loaded.
\<close>

definition write_detection ::
  "runner_env \<Rightarrow> int \<Rightarrow> string \<Rightarrow> instant \<Rightarrow> stay list \<Rightarrow> trip list \<Rightarrow> stream_db \<Rightarrow> stream_db" where
  "write_detection env device label t0 stays trips db =
     (let db1 = insert_stays device label stays (delete_stays device t0 db);
          plan = device_plan db1 device t0 stays trips;
          targets = write_targets db1 plan trips;
          db2 = unlink_points device t0 (map ex_id (rp_kept plan)) db1;
          db3 = fold delete_trip (map ex_id (rp_deletes plan)) db2;
          (db4, touched_ids) = write_trips env device label targets db3
      in resolve_and_autotag env touched_ids db4)"

definition process_device ::
  "runner_env \<Rightarrow> int \<Rightarrow> instant \<Rightarrow> bool \<Rightarrow> stream_db \<Rightarrow> stream_db result" where
  "process_device env device dirty_from full db =
     (case admit_device db device of
        None \<Rightarrow> Inl (ValueError ''No such tracking device'')
      | Some label \<Rightarrow>
          (let t0 = rewind_start db device dirty_from full
           in res_bind (detect (re_dst env) (load_points db device t0) (re_params env) (load_overrides db device))
                (\<lambda>(stays, trips). Inr (write_detection env device label t0 stays trips db))))"

datatype run_error = WindowDeferred int "instant option" int | RunError py_error

text \<open>\<open>SELECT min(recorded_at)\<close> of the fixes received since the last run.\<close>

definition dirty_from :: "stream_db \<Rightarrow> int \<Rightarrow> instant option \<Rightarrow> instant option" where
  "dirty_from db device last_run_at =
     (case map fx_recorded_at (filter (\<lambda>p. fx_device p = device \<and> received_after last_run_at p) (db_fixes db)) of
        [] \<Rightarrow> None
      | t # ts \<Rightarrow> Some (foldl min t ts))"

definition set_checkpoint :: "int \<Rightarrow> instant \<Rightarrow> stream_db \<Rightarrow> stream_db" where
  "set_checkpoint device u db =
     db\<lparr>db_checkpoints := map (\<lambda>s. if ck_device s = device
          then s\<lparr>ck_last_run_at := Some u, ck_version := DETECTOR_VERSION\<rparr> else s) (db_checkpoints db)\<rparr>"

definition over_turn_limit :: "runner_env \<Rightarrow> stream_db \<Rightarrow> int \<Rightarrow> instant \<Rightarrow> bool \<Rightarrow> bool" where
  "over_turn_limit env db device from full =
     (let limit = re_turn_max_points env
      in limit > 0 \<and> count_window db device (rewind_start db device from full) limit > limit)"

definition run_device :: "runner_env \<Rightarrow> instant \<Rightarrow> int \<Rightarrow> stream_db \<Rightarrow> run_error + (bool \<times> stream_db)" where
  "run_device env now device db =
     (case List.find (\<lambda>s. ck_device s = device) (db_checkpoints db) of
        None \<Rightarrow> Inl (RunError (ValueError ''Tracking device has no detector checkpoint''))
      | Some s \<Rightarrow>
          (let full = (ck_version s \<noteq> DETECTOR_VERSION);
               from = (if full then Some EPOCH else dirty_from db device (ck_last_run_at s));
               done = (\<lambda>db'. Inr (from \<noteq> None, set_checkpoint device (now - RUN_OVERLAP_MARGIN) db'))
           in case from of
                None \<Rightarrow> done db
              | Some d \<Rightarrow>
                  if over_turn_limit env db device d full
                  then Inl (WindowDeferred (re_turn_max_points env) (ck_last_run_at s) (ck_version s))
                  else (case process_device env device d full db of
                          Inl e \<Rightarrow> Inl (RunError e)
                        | Inr db' \<Rightarrow> done db')))"

definition reprocess_device_in :: "runner_env \<Rightarrow> int \<Rightarrow> stream_db \<Rightarrow> stream_db result" where
  "reprocess_device_in env device db =
     (if admit_device db device = None then Inl (ValueError ''No such tracking device'')
      else process_device env device EPOCH True db)"

end
