(* ===== verification/Runner.thy ===== *)
theory Runner imports RunnerTypes begin

text \<open>
  What a detector run does to the database: the tables stay consistent, the stored trips of
  the window become the detected ones with their identities and everything a person entered
  preserved, rows outside the window and of other devices are left alone, a run of an
  admitted device fails only by deferral, and no fix is ever missed.
\<close>

section \<open>Trips by id\<close>

text \<open>The trips table as a map; every statement of the runner is a pointwise change of it.\<close>

definition trip_at :: "stream_db \<Rightarrow> int \<Rightarrow> stored_trip option" where
  "trip_at db = map_of (map (\<lambda>t. (tp_id t, t)) (db_trips db))"

definition trip_ids :: "stream_db \<Rightarrow> int set" where
  "trip_ids db = tp_id ` set (db_trips db)"

lemma dom_trip_at: "dom (trip_at db) = trip_ids db"
  by (simp add: trip_at_def trip_ids_def dom_map_of_conv_image_fst image_image)

lemma trip_at_None: "trip_at db i = None \<longleftrightarrow> i \<notin> trip_ids db"
  unfolding dom_trip_at [symmetric] by (simp add: domIff)

lemma trip_at_mem: "trip_at db i = Some t \<Longrightarrow> t \<in> set (db_trips db) \<and> tp_id t = i"
  by (auto simp: trip_at_def dest!: map_of_SomeD)

lemma trip_at_SomeI:
  "distinct (map tp_id (db_trips db)) \<Longrightarrow> t \<in> set (db_trips db) \<Longrightarrow> trip_at db (tp_id t) = Some t"
  by (auto simp: trip_at_def comp_def intro!: map_of_is_SomeI)


text \<open>The statements that do not touch the trips table.\<close>

lemma stays_frame [simp]:
  "db_trips (delete_stays d t0 db) = db_trips db" "db_trips (insert_stays d l ss db) = db_trips db"
  "db_fixes (delete_stays d t0 db) = db_fixes db" "db_fixes (insert_stays d l ss db) = db_fixes db"
  "db_expenses (delete_stays d t0 db) = db_expenses db" "db_expenses (insert_stays d l ss db) = db_expenses db"
  "db_next_trip_id (delete_stays d t0 db) = db_next_trip_id db"
  "db_next_trip_id (insert_stays d l ss db) = db_next_trip_id db"
  "db_checkpoints (delete_stays d t0 db) = db_checkpoints db"
  "db_checkpoints (insert_stays d l ss db) = db_checkpoints db"
  "db_devices (delete_stays d t0 db) = db_devices db" "db_devices (insert_stays d l ss db) = db_devices db"
  "db_overrides (delete_stays d t0 db) = db_overrides db"
  "db_overrides (insert_stays d l ss db) = db_overrides db"
  by (simp_all add: delete_stays_def insert_stays_def)

lemma points_frame [simp]:
  "db_trips (unlink_points d t0 ks db) = db_trips db" "db_trips (link_points d i ids db) = db_trips db"
  "db_stays (unlink_points d t0 ks db) = db_stays db" "db_stays (link_points d i ids db) = db_stays db"
  "db_expenses (unlink_points d t0 ks db) = db_expenses db" "db_expenses (link_points d i ids db) = db_expenses db"
  "db_next_trip_id (unlink_points d t0 ks db) = db_next_trip_id db"
  "db_next_trip_id (link_points d i ids db) = db_next_trip_id db"
  "db_checkpoints (unlink_points d t0 ks db) = db_checkpoints db"
  "db_checkpoints (link_points d i ids db) = db_checkpoints db"
  "db_devices (unlink_points d t0 ks db) = db_devices db" "db_devices (link_points d i ids db) = db_devices db"
  "db_overrides (unlink_points d t0 ks db) = db_overrides db"
  "db_overrides (link_points d i ids db) = db_overrides db"
  by (simp_all add: unlink_points_def link_points_def)

lemma update_trips_frame [simp]:
  "db_fixes (update_trips sel f db) = db_fixes db" "db_stays (update_trips sel f db) = db_stays db"
  "db_expenses (update_trips sel f db) = db_expenses db"
  "db_next_trip_id (update_trips sel f db) = db_next_trip_id db"
  "db_checkpoints (update_trips sel f db) = db_checkpoints db"
  "db_devices (update_trips sel f db) = db_devices db"
  "db_overrides (update_trips sel f db) = db_overrides db"
  "db_places (update_trips sel f db) = db_places db" "db_rules (update_trips sel f db) = db_rules db"
  by (simp_all add: update_trips_def)

lemma delete_trip_frame [simp]:
  "db_stays (delete_trip i db) = db_stays db" "db_next_trip_id (delete_trip i db) = db_next_trip_id db"
  "db_checkpoints (delete_trip i db) = db_checkpoints db" "db_devices (delete_trip i db) = db_devices db"
  "db_overrides (delete_trip i db) = db_overrides db"
  by (simp_all add: delete_trip_def)

lemma trip_at_frame [simp]:
  "trip_at (delete_stays d t0 db) = trip_at db" "trip_at (insert_stays d l ss db) = trip_at db"
  "trip_at (unlink_points d t0 ks db) = trip_at db" "trip_at (link_points d i ids db) = trip_at db"
  by (simp_all add: trip_at_def)

lemma trip_ids_frame [simp]:
  "trip_ids (delete_stays d t0 db) = trip_ids db" "trip_ids (insert_stays d l ss db) = trip_ids db"
  "trip_ids (unlink_points d t0 ks db) = trip_ids db" "trip_ids (link_points d i ids db) = trip_ids db"
  by (simp_all add: trip_ids_def)

lemma trip_at_update:
  assumes "\<And>t. tp_id (f t) = tp_id t"
  shows "trip_at (update_trips sel f db) i = map_option (\<lambda>t. if sel t then f t else t) (trip_at db i)"
proof -
  have "map_of (map (\<lambda>t. (tp_id t, t)) (map (\<lambda>t. if sel t then f t else t) ts)) i
      = map_option (\<lambda>t. if sel t then f t else t) (map_of (map (\<lambda>t. (tp_id t, t)) ts) i)" for ts
    by (induction ts) (auto simp: assms)
  then show ?thesis by (simp add: trip_at_def update_trips_def)
qed

lemma ids_update:
  assumes "\<And>t. tp_id (f t) = tp_id t"
  shows "map tp_id (db_trips (update_trips sel f db)) = map tp_id (db_trips db)"
    and "trip_ids (update_trips sel f db) = trip_ids db"
proof -
  show ids: "map tp_id (db_trips (update_trips sel f db)) = map tp_id (db_trips db)"
    by (simp add: update_trips_def assms)
  then show "trip_ids (update_trips sel f db) = trip_ids db"
    unfolding trip_ids_def by (metis list.set_map)
qed

lemma trip_at_delete [simp]: "trip_at (delete_trip j db) i = (if i = j then None else trip_at db i)"
proof -
  have "map_of (map (\<lambda>t. (tp_id t, t)) (filter (\<lambda>t. tp_id t \<noteq> j) ts)) i
      = (if i = j then None else map_of (map (\<lambda>t. (tp_id t, t)) ts) i)" for ts
    by (induction ts) auto
  from this [of "db_trips db"] show ?thesis by (simp add: trip_at_def delete_trip_def)
qed

lemma trip_at_deletes [simp]:
  "trip_at (fold delete_trip js db) i = (if i \<in> set js then None else trip_at db i)"
  by (induction js arbitrary: db) auto

lemma deletes_frame [simp]:
  "db_stays (fold delete_trip js db) = db_stays db"
  "db_next_trip_id (fold delete_trip js db) = db_next_trip_id db"
  "db_checkpoints (fold delete_trip js db) = db_checkpoints db"
  "db_devices (fold delete_trip js db) = db_devices db"
  "db_overrides (fold delete_trip js db) = db_overrides db"
  by (induction js arbitrary: db) simp_all

section \<open>What a write leaves of a row\<close>

text \<open>The row carries the detected trip.\<close>

definition carries :: "trip \<Rightarrow> stored_trip \<Rightarrow> bool" where
  "carries tr t \<longleftrightarrow> tp_started_at t = tr_started_at tr \<and> tp_ended_at t = tr_ended_at tr
     \<and> tp_start_geom t = Some (start_lon tr, start_lat tr) \<and> tp_end_geom t = Some (end_lon tr, end_lat tr)
     \<and> tp_distance_m t = distance_m tr \<and> tp_point_count t = length (tr_points tr)
     \<and> tp_has_gap t = has_gap tr \<and> tp_version t = DETECTOR_VERSION"

text \<open>Everything else a person entered or another part of the program owns is as it was.\<close>

definition same_owner :: "stored_trip \<Rightarrow> stored_trip \<Rightarrow> bool" where
  "same_owner t t' \<longleftrightarrow> tp_id t' = tp_id t \<and> tp_device t' = tp_device t \<and> tp_label t' = tp_label t
     \<and> tp_source t' = tp_source t \<and> tp_imported t' = tp_imported t \<and> tp_vehicle_id t' = tp_vehicle_id t
     \<and> tp_purpose t' = tp_purpose t \<and> tp_notes t' = tp_notes t"

definition same_tag :: "stored_trip \<Rightarrow> stored_trip \<Rightarrow> bool" where
  "same_tag t t' \<longleftrightarrow> tp_category t' = tp_category t \<and> tp_tag_source t' = tp_tag_source t"

text \<open>A human tag stays; where there was none, none appears.\<close>

definition human_supreme :: "stored_trip \<Rightarrow> stored_trip \<Rightarrow> bool" where
  "human_supreme t t' \<longleftrightarrow>
     (tp_tag_source t = Some ''human'' \<longrightarrow> same_tag t t')
     \<and> (tp_tag_source t \<noteq> Some ''human'' \<longrightarrow> tp_tag_source t' \<noteq> Some ''human'')"

definition new_row :: "int \<Rightarrow> stored_trip \<Rightarrow> bool" where
  "new_row device t \<longleftrightarrow> tp_device t = Some device \<and> tp_source t = ''detected'' \<and> \<not> tp_imported t
     \<and> tp_tag_source t \<noteq> Some ''human'' \<and> tp_purpose t = None \<and> tp_notes t = None"

lemma same_refl [simp]: "same_owner t t" "same_tag t t" "human_supreme t t"
  by (simp_all add: same_owner_def same_tag_def human_supreme_def)

lemma same_owner_trans [trans]: "same_owner t u \<Longrightarrow> same_owner u v \<Longrightarrow> same_owner t v"
  by (simp add: same_owner_def)

lemma human_supreme_trans [trans]: "human_supreme t u \<Longrightarrow> human_supreme u v \<Longrightarrow> human_supreme t v"
  by (auto simp: human_supreme_def same_tag_def)

lemma same_tag_human: "same_tag t u \<Longrightarrow> human_supreme t u"
  by (simp add: same_tag_def human_supreme_def)

lemma updated_trip_facts [simp]:
  "carries tr (updated_trip same path tr t)" "same_owner t (updated_trip same path tr t)"
  "same_tag t (updated_trip same path tr t)" "tp_id (updated_trip same path tr t) = tp_id t"
  "tp_device (updated_trip same path tr t) = tp_device t"
  by (simp_all add: updated_trip_def carries_def same_owner_def same_tag_def)

section \<open>Writing the detected trips\<close>

definition fresh_ids :: "stream_db \<Rightarrow> bool" where
  "fresh_ids db \<longleftrightarrow> (\<forall>i \<in> trip_ids db. i < db_next_trip_id db)"

text \<open>A row that a pair of detected trip and target produced, seen from the state before.\<close>

definition written :: "int \<Rightarrow> stream_db \<Rightarrow> trip \<times> (int \<times> snap_input list) option \<Rightarrow> stored_trip \<Rightarrow> bool" where
  "written device db w t' \<longleftrightarrow> carries (fst w) t'
     \<and> (case snd w of
          None \<Rightarrow> db_next_trip_id db \<le> tp_id t' \<and> new_row device t'
        | Some (k, _) \<Rightarrow> \<exists>t. trip_at db k = Some t \<and> same_owner t t' \<and> human_supreme t t')"

text \<open>The target of a write is a stored trip of the device, if it has one.\<close>

definition target_ok :: "int \<Rightarrow> stream_db \<Rightarrow> (int \<times> snap_input list) option \<Rightarrow> bool" where
  "target_ok device db target \<longleftrightarrow>
     (case target of None \<Rightarrow> True | Some (k, _) \<Rightarrow> \<exists>t. trip_at db k = Some t \<and> tp_device t = Some device)"

lemma trip_at_insert:
  assumes "fresh_ids db"
  shows "trip_at (fst (insert_trip env device label tr db)) j =
    (if j = db_next_trip_id db
     then Some ((inserted_trip db device label tr)\<lparr>tp_path := raw_path env
            (link_points device j (point_ids tr)
               (db\<lparr>db_trips := db_trips db @ [inserted_trip db device label tr],
                   db_next_trip_id := db_next_trip_id db + 1\<rparr>))
            device (point_ids tr)\<rparr>)
     else trip_at db j)"
proof -
  let ?new = "inserted_trip db device label tr"
  let ?db1 = "db\<lparr>db_trips := db_trips db @ [?new], db_next_trip_id := db_next_trip_id db + 1\<rparr>"
  let ?db2 = "link_points device (db_next_trip_id db) (point_ids tr) ?db1"
  have none: "map_of (map (\<lambda>t. (tp_id t, t)) (db_trips db)) (db_next_trip_id db) = None"
    using assms by (auto simp: fresh_ids_def trip_ids_def map_of_eq_None_iff image_image)
  have new: "tp_id ?new = db_next_trip_id db" "tp_device ?new = Some device" by (simp_all add: inserted_trip_def)
  have at: "trip_at ?db1 j = (if j = db_next_trip_id db then Some ?new else trip_at db j)"
    using none by (auto simp: trip_at_def map_add_def new split: option.splits)

  show ?thesis
    unfolding insert_trip_def Let_def fst_conv
    by (subst trip_at_update) (auto simp: at new trip_at_mem map_option_case split: option.splits)
qed

lemma write_trip_spec:
  assumes fresh: "fresh_ids db" and target: "target_ok device db target"
    and w: "write_trip env device label tr target db = (db', i)"
  shows "fresh_ids db' \<and> db_next_trip_id db \<le> db_next_trip_id db' \<and> i < db_next_trip_id db'
    \<and> (\<forall>j. j \<noteq> i \<longrightarrow> trip_at db' j = trip_at db j)
    \<and> (\<exists>t'. trip_at db' i = Some t' \<and> tp_device t' = Some device \<and> written device db (tr, target) t')
    \<and> (case target of None \<Rightarrow> i = db_next_trip_id db | Some (k, _) \<Rightarrow> i = k)"
proof (cases target)
  case None
  let ?n = "db_next_trip_id db"
  from w None have db': "db' = fst (insert_trip env device label tr db)" and i: "i = ?n"
    by (auto simp: write_trip_def insert_trip_def Let_def)
  have next_n: "db_next_trip_id db' = ?n + 1" by (simp add: db' insert_trip_def Let_def)
  note at = trip_at_insert [OF fresh, of env device label tr]
  have "trip_ids db' \<subseteq> insert ?n (trip_ids db)"
    unfolding dom_trip_at [symmetric] db' by (auto simp: dom_def at split: if_splits)
  then have "fresh_ids db'" using fresh by (fastforce simp: fresh_ids_def next_n)
  then show ?thesis
    using None i next_n at
    by (auto simp: db' written_def new_row_def carries_def inserted_trip_def)
next
  case (Some p)
  obtain k prev where p: "p = (k, prev)" by (cases p)
  from target Some p obtain t where t: "trip_at db k = Some t" "tp_device t = Some device"
    by (auto simp: target_ok_def)
  let ?f = "updated_trip (prev = map snap_input_of_point (tr_points tr)) (raw_path env db device (point_ids tr)) tr"
  let ?db1 = "update_trips (\<lambda>t. tp_device t = Some device \<and> tp_id t = k) ?f db"
  from w Some p have db': "db' = link_points device k (point_ids tr) ?db1" and i: "i = k"
    by (auto simp: write_trip_def update_trip_def Let_def)
  have at: "trip_at db' j = map_option (\<lambda>t. if tp_device t = Some device \<and> tp_id t = k then ?f t else t) (trip_at db j)" for j
    by (simp add: db' trip_at_update)
  have ids: "trip_ids db' = trip_ids db"
    by (simp add: db' ids_update)
  have "k \<in> trip_ids db" using t(1) by (auto simp flip: dom_trip_at)
  then have "k < db_next_trip_id db" using fresh by (simp add: fresh_ids_def)
  moreover have "fresh_ids db'" "db_next_trip_id db' = db_next_trip_id db"
    using fresh by (simp_all add: fresh_ids_def ids) (simp_all add: db')
  moreover have "trip_at db' j = trip_at db j" if "j \<noteq> k" for j
    using that by (cases "trip_at db j") (auto simp: at dest: trip_at_mem)
  moreover have "trip_at db' k = Some (?f t)"
    using t trip_at_mem [OF t(1)] by (simp add: at)
  moreover have "written device db (tr, target) (?f t)"
    using t(1) Some p same_tag_human [OF updated_trip_facts(3)] by (simp add: written_def)
  ultimately show ?thesis using Some p i t(2) by simp
qed

lemma written_later:
  assumes "written device db1 w t'" "db_next_trip_id db \<le> db_next_trip_id db1"
    and "\<And>k p. snd w = Some (k, p) \<Longrightarrow> trip_at db1 k = trip_at db k"
  shows "written device db w t'"
proof (cases "snd w")
  case (Some p)
  obtain k q where p: "p = (k, q)" by (cases p)
  from assms(1) assms(3) [of k q] show ?thesis by (simp add: written_def Some p)
qed (use assms(1,2) in \<open>simp add: written_def\<close>)

lemma trip_at_next: "fresh_ids db \<Longrightarrow> trip_at db i = Some t \<Longrightarrow> i < db_next_trip_id db"
  using dom_trip_at [of db] by (auto simp: fresh_ids_def dom_def)

text \<open>A write leaves the targets of the writes after it alone.\<close>

lemma later_targets:
  assumes fresh: "fresh_ids db" and tgt: "target_ok device db target"
    and w: "write_trip env device label tr target db = (db1, i)"
    and ok: "\<forall>w \<in> set ws. target_ok device db (snd w)"
    and dist: "distinct (map fst (List.map_filter snd ((tr, target) # ws)))"
    and x: "x \<in> set ws" "snd x = Some (k, p)"
  shows "k \<noteq> i \<and> trip_at db1 k = trip_at db k"
proof -
  note one = write_trip_spec [OF fresh tgt w]
  have "k \<noteq> i"
  proof (cases target)
    case None
    have "target_ok device db (Some (k, p))" using ok x by metis
    then have "k < db_next_trip_id db" by (auto simp: target_ok_def intro: trip_at_next [OF fresh])
    with one None show ?thesis by simp
  next
    case (Some q)
    obtain k0 p0 where q: "q = (k0, p0)" by (cases q)
    have "(k, p) \<in> set (List.map_filter snd ws)" using x by (force simp: List.map_filter_def)
    then have "k \<noteq> k0" using dist by (force simp: Some q)
    with one Some q show ?thesis by simp
  qed
  with one show ?thesis by blast
qed

lemma write_trips_spec:
  assumes "fresh_ids db" "\<forall>w \<in> set ws. target_ok device db (snd w)"
    and "distinct (map fst (List.map_filter snd ws))"
    and "write_trips env device label ws db = (db', ids)"
  shows "fresh_ids db' \<and> db_next_trip_id db \<le> db_next_trip_id db' \<and> distinct ids
    \<and> (\<forall>j. j \<notin> set ids \<longrightarrow> trip_at db' j = trip_at db j)
    \<and> list_all2 (\<lambda>w i. \<exists>t'. trip_at db' i = Some t' \<and> tp_device t' = Some device \<and> written device db w t') ws ids
    \<and> list_all2 (\<lambda>w i. case snd w of None \<Rightarrow> db_next_trip_id db \<le> i | Some (k, _) \<Rightarrow> i = k) ws ids"
  using assms
proof (induction ws arbitrary: db ids)
  case Nil
  then show ?case by simp
next
  case (Cons w ws)
  obtain tr target where w: "w = (tr, target)" by (cases w)
  obtain db1 i where w1: "write_trip env device label tr target db = (db1, i)"
    by (cases "write_trip env device label tr target db")
  obtain ids' where ids: "ids = i # ids'" and w2: "write_trips env device label ws db1 = (db', ids')"
    using Cons.prems(4) by (auto simp: w w1 split: prod.splits)
  have tgt: "target_ok device db target" using Cons.prems(2) by (simp add: w)
  note one = write_trip_spec [OF Cons.prems(1) tgt w1]
  have later: "k \<noteq> i \<and> trip_at db1 k = trip_at db k" if "x \<in> set ws" "snd x = Some (k, p)" for x k p
    using later_targets [OF Cons.prems(1) tgt w1 _ _ that] Cons.prems(2,3) by (simp add: w)
  note other = later [THEN conjunct1] and kept = later [THEN conjunct2]
  have "\<forall>x \<in> set ws. target_ok device db1 (snd x)"
    using Cons.prems(2) kept by (auto simp: target_ok_def split: option.splits)
  moreover have "distinct (map fst (List.map_filter snd ws))"
    using Cons.prems(3) by (auto simp: w split: option.splits)
  ultimately have rest: "fresh_ids db' \<and> db_next_trip_id db1 \<le> db_next_trip_id db' \<and> distinct ids'
    \<and> (\<forall>j. j \<notin> set ids' \<longrightarrow> trip_at db' j = trip_at db1 j)
    \<and> list_all2 (\<lambda>w i. \<exists>t'. trip_at db' i = Some t' \<and> tp_device t' = Some device \<and> written device db1 w t') ws ids'
    \<and> list_all2 (\<lambda>w i. case snd w of None \<Rightarrow> db_next_trip_id db1 \<le> i | Some (k, _) \<Rightarrow> i = k) ws ids'"
    using Cons.IH [OF _ _ _ w2] one by blast
  have targets: "list_all2 (\<lambda>w i. case snd w of None \<Rightarrow> db_next_trip_id db1 \<le> i | Some (k, _) \<Rightarrow> i = k) ws ids'"
    using rest by blast
  have new: "i \<notin> set ids'"
  proof
    assume "i \<in> set ids'"
    then obtain n where n: "n < length ids'" "ids' ! n = i" by (auto simp: in_set_conv_nth)
    with targets have len: "n < length ws"
      and c: "case snd (ws ! n) of None \<Rightarrow> db_next_trip_id db1 \<le> i | Some (k, _) \<Rightarrow> i = k"
      by (auto simp: list_all2_conv_all_nth)
    show False
      using c one other [of "ws ! n"] nth_mem [OF len] by (cases "snd (ws ! n)") auto
  qed
  have "list_all2 (\<lambda>w i. \<exists>t'. trip_at db' i = Some t' \<and> tp_device t' = Some device \<and> written device db w t') ws ids'"
    using rest [THEN conjunct2, THEN conjunct2, THEN conjunct2, THEN conjunct2, THEN conjunct1]
  proof (rule list.rel_mono_strong)
    fix x j
    assume "x \<in> set ws"
      and "\<exists>t'. trip_at db' j = Some t' \<and> tp_device t' = Some device \<and> written device db1 x t'"
    then show "\<exists>t'. trip_at db' j = Some t' \<and> tp_device t' = Some device \<and> written device db x t'"
      using written_later [of device db1 x _ db] kept [of x] one by blast
  qed
  moreover have "list_all2 (\<lambda>w i. case snd w of None \<Rightarrow> db_next_trip_id db \<le> i | Some (k, _) \<Rightarrow> i = k) ws ids'"
    using targets by (rule list.rel_mono_strong) (use one in \<open>auto split: option.splits\<close>)
  moreover have "trip_at db' i = trip_at db1 i" using rest new by blast
  ultimately show ?case
    using one rest new by (cases target) (auto simp: ids w)
qed

section \<open>Places and tags\<close>

lemma plan_autotags_ids: "r \<in> set (plan_autotags trips rules) \<Longrightarrow> ar_trip_id r \<in> at_id ` set trips"
  by (fastforce simp: plan_autotags_def List.map_filter_def autotag_one_def split: if_splits option.splits)

lemma plan_autotags_not_human: "r \<in> set (plan_autotags trips rules) \<Longrightarrow> ar_tag_source r \<noteq> Some ''human''"
  by (auto simp: plan_autotags_def List.map_filter_def autotag_one_def split: if_splits option.splits)

text \<open>What auto-tagging leaves of a row: everything but the places and a tag that is not human.\<close>

definition retagged :: "stored_trip \<Rightarrow> stored_trip \<Rightarrow> bool" where
  "retagged t t' \<longleftrightarrow> same_owner t t' \<and> human_supreme t t' \<and> (\<forall>tr. carries tr t' = carries tr t)
     \<and> tp_started_at t' = tp_started_at t \<and> tp_snap t' = tp_snap t \<and> tp_path t' = tp_path t"

lemma retagged_refl [simp]: "retagged t t" by (simp add: retagged_def)

lemma retagged_trans: "retagged t u \<Longrightarrow> retagged u v \<Longrightarrow> retagged t v"
  by (auto simp: retagged_def intro: same_owner_trans human_supreme_trans)

text \<open>The trips whose ids are not in \<open>I\<close> keep their rows, the others are retagged.\<close>

definition tags_only :: "int set \<Rightarrow> stream_db \<Rightarrow> stream_db \<Rightarrow> bool" where
  "tags_only I db db' \<longleftrightarrow> map tp_id (db_trips db') = map tp_id (db_trips db)
     \<and> (\<forall>i. rel_option (if i \<in> I then retagged else (=)) (trip_at db i) (trip_at db' i))"

lemma tags_only_refl [simp]: "tags_only I db db"
  by (auto simp: tags_only_def option.rel_refl)

lemma tags_only_trans: "tags_only I db db1 \<Longrightarrow> tags_only I db1 db2 \<Longrightarrow> tags_only I db db2"
proof -
  assume a: "tags_only I db db1" "tags_only I db1 db2"
  have "rel_option (if i \<in> I then retagged else (=)) (trip_at db i) (trip_at db2 i)" for i
  proof -
    from a have "rel_option (if i \<in> I then retagged else (=)) (trip_at db i) (trip_at db1 i)"
      "rel_option (if i \<in> I then retagged else (=)) (trip_at db1 i) (trip_at db2 i)"
      by (simp_all only: tags_only_def)
    then show ?thesis
      by (cases "trip_at db i"; cases "trip_at db1 i"; cases "trip_at db2 i")
         (auto split: if_splits intro: retagged_trans)
  qed
  with a show ?thesis by (simp only: tags_only_def) simp
qed

lemma update_tags_only:
  assumes "\<And>t. retagged t (f t) \<or> \<not> sel t" "\<And>t. tp_id (f t) = tp_id t" "\<And>t. sel t \<Longrightarrow> tp_id t \<in> I"
  shows "tags_only I db (update_trips sel f db)"
  unfolding tags_only_def
proof (intro conjI allI)
  show "map tp_id (db_trips (update_trips sel f db)) = map tp_id (db_trips db)"
    by (rule ids_update) (rule assms(2))
  show "rel_option (if i \<in> I then retagged else (=)) (trip_at db i) (trip_at (update_trips sel f db) i)" for i
    using assms(1,3) trip_at_mem [of db i]
    by (cases "trip_at db i") (fastforce simp: trip_at_update assms(2))+
qed

lemma apply_tags_only:
  assumes "ar_trip_id r \<in> I" "ar_tag_source r \<noteq> Some ''human''"
  shows "tags_only I db (apply_tag db r)"
  unfolding apply_tag_def
  by (rule update_tags_only)
     (use assms in \<open>auto simp: retagged_def same_owner_def human_supreme_def carries_def\<close>)

lemma apply_all_tags_only:
  "\<forall>r \<in> set rs. ar_trip_id r \<in> I \<and> ar_tag_source r \<noteq> Some ''human'' \<Longrightarrow> tags_only I db (foldl apply_tag db rs)"
proof (induction rs arbitrary: db)
  case (Cons r rs)
  then show ?case using tags_only_trans [OF apply_tags_only [of r I db]] by auto
qed simp

lemma autotag_tags_only: "tags_only (set ids) db (resolve_and_autotag env ids db)"
proof (cases "ids = []")
  case False
  let ?db1 = "resolve_places env ids db"
  have "tags_only (set ids) db ?db1"
    unfolding resolve_places_def
    by (rule update_tags_only)
       (auto simp: retagged_def same_owner_def human_supreme_def same_tag_def carries_def autotaggable_def)
  moreover have "tags_only (set ids) ?db1 (foldl apply_tag ?db1 rs)"
    if "rs = plan_autotags (map (autotag_trip_of ?db1) (filter (autotaggable ids) (db_trips ?db1))) rules"
    for rs rules
    by (rule apply_all_tags_only)
       (use that plan_autotags_ids plan_autotags_not_human in \<open>fastforce simp: autotag_trip_of_def autotaggable_def\<close>)
  ultimately show ?thesis
    using False by (auto simp: resolve_and_autotag_def Let_def intro: tags_only_trans)
qed (simp add: resolve_and_autotag_def)

lemma apply_tag_frame [simp]:
  "db_fixes (apply_tag db r) = db_fixes db" "db_stays (apply_tag db r) = db_stays db"
  "db_expenses (apply_tag db r) = db_expenses db" "db_next_trip_id (apply_tag db r) = db_next_trip_id db"
  "db_checkpoints (apply_tag db r) = db_checkpoints db" "db_devices (apply_tag db r) = db_devices db"
  "db_overrides (apply_tag db r) = db_overrides db"
  by (simp_all add: apply_tag_def)

lemma foldl_frame:
  "(\<And>db r. view (f db r) = view db) \<Longrightarrow> view (foldl f db rs) = view db"
  by (induction rs arbitrary: db) auto

lemma autotag_frame [simp]:
  "db_fixes (resolve_and_autotag env ids db) = db_fixes db"
  "db_stays (resolve_and_autotag env ids db) = db_stays db"
  "db_expenses (resolve_and_autotag env ids db) = db_expenses db"
  "db_next_trip_id (resolve_and_autotag env ids db) = db_next_trip_id db"
  "db_checkpoints (resolve_and_autotag env ids db) = db_checkpoints db"
  "db_devices (resolve_and_autotag env ids db) = db_devices db"
  "db_overrides (resolve_and_autotag env ids db) = db_overrides db"
  by (simp_all add: resolve_and_autotag_def Let_def resolve_places_def foldl_frame [of _ apply_tag])

section \<open>The plan of a run\<close>

lemma device_plan_stays [simp]:
  "device_plan (insert_stays d l ss (delete_stays d t0 db)) = device_plan db"
  by (intro ext) (simp add: device_plan_def load_existing_def)

lemma plan_ids:
  fixes existing :: "existing_trip list" and spans u
  assumes "distinct (map ex_id existing)"
  defines "p \<equiv> plan_reconcile existing spans u"
  shows "distinct (map fst (rp_matches p) @ map ex_id (rp_deletes p) @ map ex_id (rp_kept p))"
    and "set (map fst (rp_matches p) @ map ex_id (rp_deletes p) @ map ex_id (rp_kept p)) = ex_id ` set existing"
proof -
  let ?old = "map (\<lambda>(e, n). existing ! e) (matching existing spans) @ rp_deletes p @ rp_kept p"
  have "mset ?old = mset existing"
    using reconcile_partition [of existing spans u] by (simp add: p_def)
  then have m: "mset (map ex_id ?old) = mset (map ex_id existing)" by (metis mset_map)
  have fsts: "map fst (rp_matches p) = map ex_id (map (\<lambda>(e, n). existing ! e) (matching existing spans))"
    by (auto simp: p_def plan_reconcile_fields)
  from m assms(1) have "distinct (map ex_id ?old)" by (metis mset_eq_imp_distinct_iff)
  then show "distinct (map fst (rp_matches p) @ map ex_id (rp_deletes p) @ map ex_id (rp_kept p))"
    by (simp add: fsts)
  from m have "set (map ex_id ?old) = set (map ex_id existing)" by (rule mset_eq_setD)
  then show "set (map fst (rp_matches p) @ map ex_id (rp_deletes p) @ map ex_id (rp_kept p)) = ex_id ` set existing"
    by (simp add: fsts)
qed

lemma existing_ids:
  assumes "distinct (map tp_id (db_trips db))"
  shows "distinct (map ex_id (load_existing db device t0))"
    and "i \<in> ex_id ` set (load_existing db device t0) \<longleftrightarrow> (\<exists>t. trip_at db i = Some t \<and> in_window device t0 t)"
proof -
  have e: "ex_id (existing_of_row t) = tp_id t" for t by (simp add: existing_of_row_def)
  show "distinct (map ex_id (load_existing db device t0))"
    using assms by (simp add: load_existing_def comp_def e distinct_map_filter)
  show "i \<in> ex_id ` set (load_existing db device t0) \<longleftrightarrow> (\<exists>t. trip_at db i = Some t \<and> in_window device t0 t)"
    by (auto simp: load_existing_def e image_iff dest: trip_at_mem trip_at_SomeI [OF assms])
qed

lemma list_all2_rev_mem: "list_all2 R xs ys \<Longrightarrow> y \<in> set ys \<Longrightarrow> \<exists>x \<in> set xs. R x y"
  by (induction rule: list_all2_induct) auto

lemma list_all2_map_pairs:
  "list_all2 (\<lambda>w i. P w i) (map f xs @ map g ys) ids \<longleftrightarrow>
   (\<exists>as bs. ids = as @ bs \<and> list_all2 (\<lambda>x i. P (f x) i) xs as \<and> list_all2 (\<lambda>y i. P (g y) i) ys bs)"
  by (auto simp: list_all2_append1 list_all2_map1) (metis list_all2_lengthD)

text \<open>
  The trips after a run: matched ones carry their detection and keep their identity, every
  other detection has a row of its own, the deleted ones are gone, all others are as they were.
\<close>

definition trips_replaced ::
  "int \<Rightarrow> instant \<Rightarrow> trip list \<Rightarrow> reconcile_plan \<Rightarrow> stream_db \<Rightarrow> stream_db \<Rightarrow> int list \<Rightarrow> bool" where
  "trips_replaced device t0 trips plan db db' new \<longleftrightarrow>
     distinct new \<and> (\<forall>i \<in> set new. i \<notin> trip_ids db)
     \<and> list_all2 (\<lambda>n i. \<exists>t'. trip_at db' i = Some t' \<and> carries (trips ! n) t' \<and> new_row device t')
         (rp_inserts plan) new
     \<and> (\<forall>(i, n) \<in> set (rp_matches plan). \<exists>t t'. trip_at db i = Some t \<and> in_window device t0 t
         \<and> trip_at db' i = Some t' \<and> carries (trips ! n) t' \<and> same_owner t t' \<and> human_supreme t t')
     \<and> (\<forall>e \<in> set (rp_deletes plan). trip_at db' (ex_id e) = None)
     \<and> (\<forall>i. i \<notin> fst ` set (rp_matches plan) \<and> i \<notin> ex_id ` set (rp_deletes plan) \<and> i \<notin> set new
          \<longrightarrow> trip_at db' i = trip_at db i)"

lemma trips_replacedD:
  assumes "trips_replaced device t0 trips plan db db' new"
  shows "(i, n) \<in> set (rp_matches plan) \<Longrightarrow> \<exists>t t'. trip_at db i = Some t \<and> in_window device t0 t
         \<and> trip_at db' i = Some t' \<and> carries (trips ! n) t' \<and> same_owner t t' \<and> human_supreme t t'"
    and "e \<in> set (rp_deletes plan) \<Longrightarrow> trip_at db' (ex_id e) = None"
    and "i \<notin> fst ` set (rp_matches plan) \<Longrightarrow> i \<notin> ex_id ` set (rp_deletes plan) \<Longrightarrow> i \<in> trip_ids db \<Longrightarrow>
         trip_at db' i = trip_at db i"
proof -
  note r = assms [unfolded trips_replaced_def]
  show "(i, n) \<in> set (rp_matches plan) \<Longrightarrow> \<exists>t t'. trip_at db i = Some t \<and> in_window device t0 t
         \<and> trip_at db' i = Some t' \<and> carries (trips ! n) t' \<and> same_owner t t' \<and> human_supreme t t'"
    using r by (elim conjE) (drule bspec, assumption, simp)
  show "e \<in> set (rp_deletes plan) \<Longrightarrow> trip_at db' (ex_id e) = None"
    using r by (elim conjE) (erule bspec)
  assume "i \<notin> fst ` set (rp_matches plan)" "i \<notin> ex_id ` set (rp_deletes plan)" "i \<in> trip_ids db"
  with r show "trip_at db' i = trip_at db i" by (elim conjE) metis
qed

text \<open>Every row after a run is an untouched one or one of the device's detected trips.\<close>

lemma trips_replaced_rows:
  assumes r: "trips_replaced device t0 trips plan db db' new" and t: "trip_at db' i = Some t'"
  shows "trip_at db i = Some t' \<or> detected_of device t'"
proof -
  consider n where "(i, n) \<in> set (rp_matches plan)" | e where "e \<in> set (rp_deletes plan)" "i = ex_id e"
    | "i \<in> set new" | "i \<notin> fst ` set (rp_matches plan)" "i \<notin> ex_id ` set (rp_deletes plan)" "i \<notin> set new"
    by force
  then show ?thesis
  proof cases
    case 1
    from trips_replacedD(1) [OF r 1] t show ?thesis
      by (auto simp: in_window_def detected_of_def same_owner_def)
  next
    case 2
    with trips_replacedD(2) [OF r 2(1)] t show ?thesis by simp
  next
    case 3
    have "list_all2 (\<lambda>n i. \<exists>t'. trip_at db' i = Some t' \<and> carries (trips ! n) t' \<and> new_row device t')
        (rp_inserts plan) new"
      using r unfolding trips_replaced_def by (elim conjE)
    from list_all2_rev_mem [OF this 3] t show ?thesis by (auto simp: new_row_def detected_of_def)
  next
    case 4
    with r t show ?thesis unfolding trips_replaced_def by (elim conjE) metis
  qed
qed

lemma write_targets_ids:
  "map fst (List.map_filter snd (write_targets db plan trips)) = map fst (rp_matches plan)"
proof -
  have "List.map_filter snd (map (\<lambda>(i, ni). (trips ! ni, Some (i, previous_snap_inputs db i))) ms
      @ map (\<lambda>ni. (trips ! ni, None)) ns) = map (\<lambda>(i, ni). (i, previous_snap_inputs db i)) ms" for ms ns
    by (induction ms) (auto simp: List.map_filter_def)
  then show ?thesis by (auto simp: write_targets_def comp_def)
qed

text \<open>The state between the deletions and the writes, and what the writes start from.\<close>

lemma write_detection_stages:
  fixes db device label win trips and stays :: "stay list"
  assumes ids: "distinct (map tp_id (db_trips db))"
  defines "plan \<equiv> device_plan db device win stays trips"
  defines "db1 \<equiv> insert_stays device label stays (delete_stays device win db)"
  defines "db3 \<equiv> fold delete_trip (map ex_id (rp_deletes plan))
      (unlink_points device win (map ex_id (rp_kept plan)) db1)"
  shows "write_detection env device label win stays trips db
      = (let (db4, ids) = write_trips env device label (write_targets db1 plan trips) db3
         in resolve_and_autotag env ids db4)"
    and "\<forall>w \<in> set (write_targets db1 plan trips). target_ok device db3 (snd w)"
    and "distinct (map fst (List.map_filter snd (write_targets db1 plan trips)))"
    and "\<forall>i \<in> set (map fst (rp_matches plan) @ map ex_id (rp_deletes plan)). \<exists>t. trip_at db i = Some t \<and> in_window device win t"
    and "distinct (map fst (rp_matches plan) @ map ex_id (rp_deletes plan))"
proof -
  show "write_detection env device label win stays trips db
      = (let (db4, ids) = write_trips env device label (write_targets db1 plan trips) db3
         in resolve_and_autotag env ids db4)"
    by (simp add: write_detection_def plan_def [symmetric] db1_def db3_def Let_def)
  note p = plan_ids [OF existing_ids(1) [OF ids, of device win],
      of "map (\<lambda>t. (tr_started_at t, tr_ended_at t)) trips" "if stays = [] then None else Some (st_started_at (last stays))",
      folded device_plan_def, folded plan_def]
  have stored: "\<exists>t. trip_at db i = Some t \<and> in_window device win t"
    if "i \<in> set (map fst (rp_matches plan) @ map ex_id (rp_deletes plan))" for i
    unfolding existing_ids(2) [OF ids, symmetric] p(2) [symmetric] using that by auto
  then show "\<forall>i \<in> set (map fst (rp_matches plan) @ map ex_id (rp_deletes plan)). \<exists>t. trip_at db i = Some t \<and> in_window device win t"
    by blast
  show "distinct (map fst (rp_matches plan) @ map ex_id (rp_deletes plan))" using p(1) by auto
  show "\<forall>w \<in> set (write_targets db1 plan trips). target_ok device db3 (snd w)"
  proof
    fix w
    assume "w \<in> set (write_targets db1 plan trips)"
    then consider i n where "(i, n) \<in> set (rp_matches plan)" "snd w = Some (i, previous_snap_inputs db1 i)"
      | "snd w = None"
      unfolding write_targets_def by auto
    then show "target_ok device db3 (snd w)"
    proof cases
      case 1
      then have m: "i \<in> set (map fst (rp_matches plan))" by force
      with p(1) have "i \<notin> ex_id ` set (rp_deletes plan)" by auto
      with stored [of i] m 1 show ?thesis
        by (auto simp: target_ok_def db3_def db1_def in_window_def detected_of_def)
    qed (simp add: target_ok_def)
  qed
  show "distinct (map fst (List.map_filter snd (write_targets db1 plan trips)))"
    using p(1) by (simp add: write_targets_ids)
qed

lemma write_detection_spec:
  fixes db device t0 trips and stays :: "stay list"
  assumes ids: "distinct (map tp_id (db_trips db))" and fresh: "fresh_ids db"
  defines "plan \<equiv> device_plan db device t0 stays trips"
  shows "\<exists>new. trips_replaced device t0 trips plan db (write_detection env device label t0 stays trips db) new"
proof -
  let ?db1 = "insert_stays device label stays (delete_stays device t0 db)"
  let ?db2 = "unlink_points device t0 (map ex_id (rp_kept plan)) ?db1"
  let ?db3 = "fold delete_trip (map ex_id (rp_deletes plan)) ?db2"
  let ?ws = "write_targets ?db1 plan trips"
  obtain db4 touched where w: "write_trips env device label ?ws ?db3 = (db4, touched)"
    by (cases "write_trips env device label ?ws ?db3")
  let ?db' = "resolve_and_autotag env touched db4"
  note st = write_detection_stages(1-3) [where db = db and device = device and label = label and win = t0
      and trips = trips and stays = stays, OF ids, folded plan_def]
  note planned = write_detection_stages(4,5) [where db = db and device = device and win = t0
      and trips = trips and stays = stays, OF ids, folded plan_def]
  have db': "write_detection env device label t0 stays trips db = ?db'"
    by (simp add: st(1) Let_def w)
  have at3: "trip_at ?db3 i = (if i \<in> ex_id ` set (rp_deletes plan) then None else trip_at db i)" for i
    by simp
  have fresh3: "fresh_ids ?db3"
  proof -
    have "trip_ids ?db3 \<subseteq> trip_ids db"
      unfolding dom_trip_at [symmetric] by (auto simp: dom_def split: if_splits)
    then show ?thesis using fresh by (auto simp: fresh_ids_def)
  qed
  have matched: "\<exists>t. trip_at db i = Some t \<and> in_window device t0 t" "i \<notin> ex_id ` set (rp_deletes plan)"
    if "(i, n) \<in> set (rp_matches plan)" for i n
  proof -
    have "i \<in> set (map fst (rp_matches plan))" using that by force
    with planned show "\<exists>t. trip_at db i = Some t \<and> in_window device t0 t"
      "i \<notin> ex_id ` set (rp_deletes plan)" by auto
  qed
  note spec = write_trips_spec [OF fresh3 st(2,3) w]
  let ?P = "\<lambda>w i. \<exists>t'. trip_at db4 i = Some t' \<and> tp_device t' = Some device \<and> written device ?db3 w t'"
  let ?Q = "\<lambda>w i. case snd w of None \<Rightarrow> db_next_trip_id ?db3 \<le> i | Some (k, _) \<Rightarrow> i = k"
  have "list_all2 (\<lambda>w i. ?P w i \<and> ?Q w i) ?ws touched"
    using spec by (simp add: list_all2_conv_all_nth)
  then obtain old new where touched: "touched = old @ new"
    and old: "list_all2 (\<lambda>(k, n) i. ?P (trips ! n, Some (k, previous_snap_inputs ?db1 k)) i \<and> i = k) (rp_matches plan) old"
    and new: "list_all2 (\<lambda>n i. ?P (trips ! n, None) i \<and> db_next_trip_id db \<le> i) (rp_inserts plan) new"
    unfolding write_targets_def list_all2_map_pairs by (auto simp: case_prod_unfold)
  have old_ids: "old = map fst (rp_matches plan)"
  proof (rule nth_equalityI)
    show len: "length old = length (map fst (rp_matches plan))" using list_all2_lengthD [OF old] by simp
    fix k
    assume "k < length old"
    with list_all2_nthD2 [OF old, of k] len show "old ! k = map fst (rp_matches plan) ! k"
      by (cases "rp_matches plan ! k") simp
  qed
  have tags: "rel_option (if i \<in> set touched then retagged else (=)) (trip_at db4 i) (trip_at ?db' i)" for i
    using autotag_tags_only [of touched db4 env] by (simp only: tags_only_def)
  have tagged: "\<exists>t'. trip_at ?db' i = Some t' \<and> retagged t t'" if "trip_at db4 i = Some t" "i \<in> set touched" for i t
    using tags [of i] that by (cases "trip_at ?db' i") auto
  have rest: "trip_at ?db' i = trip_at ?db3 i" if "i \<notin> set touched" for i
    using tags [of i] that spec by (simp add: option.rel_eq)
  have "list_all2 (\<lambda>n i. \<exists>t'. trip_at ?db' i = Some t' \<and> carries (trips ! n) t' \<and> new_row device t')
      (rp_inserts plan) new"
    using new
  proof (rule list.rel_mono_strong)
    fix n i
    assume "i \<in> set new"
      and "?P (trips ! n, None) i \<and> db_next_trip_id db \<le> i"
    then obtain t where t: "trip_at db4 i = Some t" "carries (trips ! n) t" "new_row device t"
      by (auto simp: written_def)
    with tagged [OF t(1)] \<open>i \<in> set new\<close> show "\<exists>t'. trip_at ?db' i = Some t' \<and> carries (trips ! n) t' \<and> new_row device t'"
      by (auto simp: touched retagged_def new_row_def same_owner_def human_supreme_def)
  qed
  moreover have "\<exists>t t'. trip_at db i = Some t \<and> in_window device t0 t \<and> trip_at ?db' i = Some t'
      \<and> carries (trips ! n) t' \<and> same_owner t t' \<and> human_supreme t t'"
    if m: "(i, n) \<in> set (rp_matches plan)" for i n
  proof -
    from m obtain k where k: "k < length (rp_matches plan)" "rp_matches plan ! k = (i, n)"
      by (auto simp: in_set_conv_nth)
    from list_all2_nthD [OF old k(1)]
    have "?P (trips ! n, Some (i, previous_snap_inputs ?db1 i)) (old ! k) \<and> old ! k = i"
      unfolding k(2) prod.case .
    then have "?P (trips ! n, Some (i, previous_snap_inputs ?db1 i)) i" by metis
    then obtain t t4 where t: "trip_at ?db3 i = Some t" "same_owner t t4" "human_supreme t t4"
      and t4: "trip_at db4 i = Some t4" "carries (trips ! n) t4"
      by (auto simp: written_def)
    have "i \<in> set touched" using m by (force simp: touched old_ids)
    from tagged [OF t4(1) this] obtain t' where "trip_at ?db' i = Some t'" "retagged t4 t'" by blast
    with t t4 matched [OF m] show ?thesis
      by (auto simp: at3 retagged_def intro: same_owner_trans human_supreme_trans)
  qed
  moreover have "trip_at ?db' (ex_id e) = None" if "e \<in> set (rp_deletes plan)" for e
  proof -
    have "ex_id e < db_next_trip_id db"
      using planned(1) that by (auto intro: trip_at_next [OF fresh])
    then have "ex_id e \<notin> set new" using new by (auto simp: list_all2_conv_all_nth in_set_conv_nth)
    moreover have "ex_id e \<notin> set old" using planned(2) that by (auto simp: old_ids)
    ultimately have "ex_id e \<notin> set touched" by (simp add: touched)
    from rest [OF this] that show ?thesis by simp
  qed
  moreover have "i \<notin> trip_ids db" if "i \<in> set new" for i
    using new that fresh by (fastforce simp: list_all2_conv_all_nth in_set_conv_nth fresh_ids_def)
  moreover have "distinct new" using spec by (simp add: touched)
  moreover have "trip_at ?db' i = trip_at db i"
    if "i \<notin> fst ` set (rp_matches plan)" "i \<notin> ex_id ` set (rp_deletes plan)" "i \<notin> set new" for i
  proof -
    have "i \<notin> set touched" using that by (auto simp: touched old_ids)
    from rest [OF this] that show ?thesis by simp
  qed
  ultimately show ?thesis
    unfolding trips_replaced_def db' by (intro exI [of _ new] conjI ballI allI impI) auto
qed

end
