(* ===== verification/RunnerInv.thy ===== *)
theory RunnerInv imports Runner begin

text \<open>
  The consistency of the runner's tables: ids are unique and below the sequence, a fix or an
  expense links to a trip that exists (a fix to one of its own device), stays and fixes have
  sensible times, and overrides satisfy the table's check constraint. Every statement of a
  run keeps it, and a run changes no fix but its link.
\<close>

section \<open>References\<close>

definition fix_refs :: "stream_db \<Rightarrow> (int \<times> int) set" where
  "fix_refs db = {(fx_device p, i) |p i. p \<in> set (db_fixes db) \<and> fx_trip_id p = Some i}"

definition trip_owners :: "stream_db \<Rightarrow> (int \<times> int) set" where
  "trip_owners db = {(d, tp_id t) |d t. t \<in> set (db_trips db) \<and> tp_device t = Some d}"

definition expense_refs :: "stream_db \<Rightarrow> int set" where
  "expense_refs db = {i. \<exists>e \<in> set (db_expenses db). el_trip_id e = Some i}"

definition refs_ok :: "stream_db \<Rightarrow> bool" where
  "refs_ok db \<longleftrightarrow> distinct (map tp_id (db_trips db)) \<and> fresh_ids db
     \<and> fix_refs db \<subseteq> trip_owners db \<and> expense_refs db \<subseteq> trip_ids db"

lemma refs_cong:
  "db_fixes db' = db_fixes db \<Longrightarrow> fix_refs db' = fix_refs db"
  "db_trips db' = db_trips db \<Longrightarrow> trip_owners db' = trip_owners db"
  "db_expenses db' = db_expenses db \<Longrightarrow> expense_refs db' = expense_refs db"
  by (simp_all add: fix_refs_def trip_owners_def expense_refs_def)

lemma refs_okI:
  assumes "refs_ok db" "distinct (map tp_id (db_trips db'))" "fresh_ids db'"
    and "fix_refs db' \<subseteq> trip_owners db'" "expense_refs db' \<subseteq> trip_ids db'"
  shows "refs_ok db'"
  using assms by (simp add: refs_ok_def)

lemma refs_ok_parts:
  assumes "refs_ok db"
  shows "distinct (map tp_id (db_trips db))" "fresh_ids db" "fix_refs db \<subseteq> trip_owners db"
    "expense_refs db \<subseteq> trip_ids db"
  using assms by (simp_all add: refs_ok_def)

lemma refs_ok_unlink [simp]: "refs_ok db \<Longrightarrow> refs_ok (unlink_points d t0 ks db)"
proof -
  assume ok: "refs_ok db"
  have "fix_refs (unlink_points d t0 ks db) \<subseteq> fix_refs db"
    unfolding fix_refs_def unlink_points_def by (auto split: if_splits)
  with refs_ok_parts [OF ok] show ?thesis
    by (auto simp: refs_ok_def fresh_ids_def
        refs_cong(2,3) [of "unlink_points d t0 ks db" db])
qed

lemma refs_ok_stays [simp]:
  "refs_ok (insert_stays d l ss db) = refs_ok db" "refs_ok (delete_stays d t0 db) = refs_ok db"
  by (simp_all add: refs_ok_def fix_refs_def trip_owners_def expense_refs_def fresh_ids_def)

lemma refs_ok_delete: "refs_ok db \<Longrightarrow> refs_ok (delete_trip j db)"
proof -
  assume ok: "refs_ok db"
  have "fix_refs (delete_trip j db) \<subseteq> {r \<in> fix_refs db. snd r \<noteq> j}"
    by (auto simp: fix_refs_def delete_trip_def split: if_splits)
  moreover have "{r \<in> trip_owners db. snd r \<noteq> j} \<subseteq> trip_owners (delete_trip j db)"
    by (auto simp: trip_owners_def delete_trip_def)
  moreover have "expense_refs (delete_trip j db) \<subseteq> expense_refs db - {j}"
    by (auto simp: expense_refs_def delete_trip_def split: if_splits)
  moreover have "trip_ids (delete_trip j db) = trip_ids db - {j}"
    by (auto simp: trip_ids_def delete_trip_def)
  moreover have "distinct (map tp_id (db_trips (delete_trip j db)))"
    using ok by (simp add: refs_ok_def delete_trip_def distinct_map_filter)
  moreover have "{r \<in> fix_refs db. snd r \<noteq> j} \<subseteq> {r \<in> trip_owners db. snd r \<noteq> j}"
    using refs_ok_parts(3) [OF ok] by auto
  ultimately show ?thesis
    using refs_ok_parts [OF ok] by (intro refs_okI [OF ok]) (auto simp: fresh_ids_def intro: order_trans)
qed

lemma refs_ok_deletes: "refs_ok db \<Longrightarrow> refs_ok (fold delete_trip js db)"
  by (induction js arbitrary: db) (auto intro: refs_ok_delete)

lemma trip_owners_update:
  assumes "\<And>t. tp_id (f t) = tp_id t" "\<And>t. tp_device (f t) = tp_device t"
  shows "trip_owners (update_trips sel f db) = trip_owners db"
proof -
  have pairs: "trip_owners x = {(d, i). (i, Some d) \<in> set (map (\<lambda>t. (tp_id t, tp_device t)) (db_trips x))}" for x
    by (auto simp: trip_owners_def)
  have "map (\<lambda>t. (tp_id t, tp_device t)) (db_trips (update_trips sel f db))
      = map (\<lambda>t. (tp_id t, tp_device t)) (db_trips db)"
    by (simp add: update_trips_def assms)
  then show ?thesis unfolding pairs by (simp only:)
qed

lemma refs_ok_update:
  assumes "\<And>t. tp_id (f t) = tp_id t" "\<And>t. tp_device (f t) = tp_device t"
  shows "refs_ok (update_trips sel f db) = refs_ok db"
  by (simp add: refs_ok_def fresh_ids_def ids_update trip_owners_update fix_refs_def expense_refs_def assms)

lemma refs_ok_link:
  assumes "refs_ok db" "(d, i) \<in> trip_owners db"
  shows "refs_ok (link_points d i ids db)"
proof -
  have "fix_refs (link_points d i ids db) \<subseteq> insert (d, i) (fix_refs db)"
    unfolding fix_refs_def link_points_def by (auto split: if_splits)
  moreover have "insert (d, i) (fix_refs db) \<subseteq> trip_owners (link_points d i ids db)"
    using assms refs_ok_parts(3) [OF assms(1)] refs_cong(2) [of "link_points d i ids db" db] by auto
  ultimately have "fix_refs (link_points d i ids db) \<subseteq> trip_owners (link_points d i ids db)" by (rule order_trans)
  then show ?thesis
    using refs_ok_parts [OF assms(1)]
    by (simp add: refs_ok_def fresh_ids_def refs_cong(3) [of "link_points d i ids db" db])
qed

lemma refs_ok_append:
  assumes "refs_ok db" "tp_id t = db_next_trip_id db"
  shows "refs_ok (db\<lparr>db_trips := db_trips db @ [t], db_next_trip_id := db_next_trip_id db + 1\<rparr>)"
proof -
  let ?db' = "db\<lparr>db_trips := db_trips db @ [t], db_next_trip_id := db_next_trip_id db + 1\<rparr>"
  note ok = refs_ok_parts [OF assms(1)]
  have ids: "trip_ids ?db' = insert (db_next_trip_id db) (trip_ids db)"
    using assms(2) by (auto simp: trip_ids_def)
  have "db_next_trip_id db \<notin> tp_id ` set (db_trips db)"
    using ok(2) by (force simp: fresh_ids_def trip_ids_def)
  then have "distinct (map tp_id (db_trips ?db'))" using ok(1) assms(2) by simp
  moreover have "fresh_ids ?db'" using ok(2) unfolding fresh_ids_def ids by fastforce
  moreover have "trip_owners db \<subseteq> trip_owners ?db'" by (auto simp: trip_owners_def)
  ultimately show ?thesis
    using ok(3,4) ids refs_cong(1) [of ?db' db] refs_cong(3) [of ?db' db] by (auto simp: refs_ok_def)
qed

lemma refs_ok_insert_trip: "refs_ok db \<Longrightarrow> refs_ok (fst (insert_trip env d l tr db))"
proof -
  assume ok: "refs_ok db"
  let ?new = "inserted_trip db d l tr"
  let ?db1 = "db\<lparr>db_trips := db_trips db @ [?new], db_next_trip_id := db_next_trip_id db + 1\<rparr>"
  have new: "tp_id ?new = db_next_trip_id db" "tp_device ?new = Some d" by (simp_all add: inserted_trip_def)
  have "(d, db_next_trip_id db) \<in> trip_owners ?db1" using new by (force simp: trip_owners_def)
  from refs_ok_link [OF refs_ok_append [OF ok new(1)] this] show ?thesis
    by (simp add: insert_trip_def Let_def refs_ok_update)
qed

lemma refs_ok_update_trip:
  assumes "refs_ok db" "target_ok d db (Some (k, prev))"
  shows "refs_ok (fst (update_trip env d tr k prev db))"
proof -
  let ?f = "updated_trip (prev = map snap_input_of_point (tr_points tr)) (raw_path env db d (point_ids tr)) tr"
  let ?db1 = "update_trips (\<lambda>t. tp_device t = Some d \<and> tp_id t = k) ?f db"
  from assms(2) have "(d, k) \<in> trip_owners db"
    by (auto simp: target_ok_def trip_owners_def dest: trip_at_mem)
  then have "(d, k) \<in> trip_owners ?db1" by (simp add: trip_owners_update)
  from refs_ok_link [OF _ this] assms(1) show ?thesis
    by (simp add: update_trip_def Let_def refs_ok_update)
qed

lemma refs_ok_write_trips:
  assumes "refs_ok db" "\<forall>w \<in> set ws. target_ok device db (snd w)"
    and "distinct (map fst (List.map_filter snd ws))"
  shows "refs_ok (fst (write_trips env device label ws db))"
  using assms
proof (induction ws arbitrary: db)
  case (Cons w ws)
  obtain tr target where w: "w = (tr, target)" by (cases w)
  obtain db1 i where w1: "write_trip env device label tr target db = (db1, i)"
    by (cases "write_trip env device label tr target db")
  have tgt: "target_ok device db target" using Cons.prems(2) by (simp add: w)
  have fresh: "fresh_ids db" using Cons.prems(1) by (simp add: refs_ok_def)
  note one = write_trip_spec [OF fresh tgt w1]
  have db1: "db1 = fst (write_trip env device label tr target db)" by (simp add: w1)
  have ok1: "refs_ok db1"
  proof (cases target)
    case None
    with refs_ok_insert_trip [OF Cons.prems(1)] show ?thesis by (simp add: db1 write_trip_def)
  next
    case (Some p)
    with refs_ok_update_trip [OF Cons.prems(1)] tgt show ?thesis
      by (cases p) (simp add: db1 write_trip_def)
  qed
  have keep: "target_ok device db1 (snd x)" if "x \<in> set ws" for x
    using later_targets [OF fresh tgt w1 _ _ that] Cons.prems(2,3) that
    by (cases "snd x") (auto simp: w target_ok_def split: option.splits)
  have "distinct (map fst (List.map_filter snd ws))"
    using Cons.prems(3) by (auto simp: w split: option.splits)
  from Cons.IH [OF ok1 _ this] keep show ?case
    by (simp add: w w1 case_prod_unfold Let_def)
qed simp

lemma refs_ok_tags:
  assumes "refs_ok db"
  shows "refs_ok (resolve_and_autotag env ids db)"
proof -
  have tag: "refs_ok (apply_tag x r) = refs_ok x" for x r
    unfolding apply_tag_def by (rule refs_ok_update) simp_all
  have place: "refs_ok (resolve_places env ids db)"
    unfolding resolve_places_def by (subst refs_ok_update) (use assms in simp_all)
  show ?thesis
    unfolding resolve_and_autotag_def Let_def
    using assms place foldl_frame [of refs_ok apply_tag, OF tag] by auto
qed

section \<open>A whole detection\<close>

lemma refs_ok_write_detection:
  assumes "refs_ok db"
  shows "refs_ok (write_detection env device label t0 stays trips db)"
proof -
  let ?db1 = "insert_stays device label stays (delete_stays device t0 db)"
  let ?plan = "device_plan db device t0 stays trips"
  have ids: "distinct (map tp_id (db_trips db))" using assms by (simp add: refs_ok_def)
  have "refs_ok (fold delete_trip (map ex_id (rp_deletes ?plan))
      (unlink_points device t0 (map ex_id (rp_kept ?plan)) ?db1))"
    by (rule refs_ok_deletes) (simp add: assms)
  from refs_ok_write_trips [OF this write_detection_stages(2,3) [OF ids]] show ?thesis
    unfolding write_detection_stages(1) [OF ids] Let_def by (simp add: case_prod_unfold refs_ok_tags)
qed

text \<open>What the trip writes leave alone.\<close>

lemma write_trip_frame:
  "db_stays (fst (write_trip env d l tr tgt db)) = db_stays db"
  "db_expenses (fst (write_trip env d l tr tgt db)) = db_expenses db"
  "db_checkpoints (fst (write_trip env d l tr tgt db)) = db_checkpoints db"
  "db_devices (fst (write_trip env d l tr tgt db)) = db_devices db"
  "db_overrides (fst (write_trip env d l tr tgt db)) = db_overrides db"
  by (simp_all add: write_trip_def insert_trip_def update_trip_def Let_def split: option.splits prod.splits)

lemma write_trips_view:
  assumes "\<And>tr tgt db. view (fst (write_trip env d l tr tgt db)) = view db"
  shows "view (fst (write_trips env d l ws db)) = view db"
proof (induction ws arbitrary: db)
  case (Cons w ws)
  then show ?case using assms by (cases w) (simp add: case_prod_unfold Let_def)
qed simp

lemma write_trips_frame [simp]:
  "db_stays (fst (write_trips env d l ws db)) = db_stays db"
  "db_expenses (fst (write_trips env d l ws db)) = db_expenses db"
  "db_checkpoints (fst (write_trips env d l ws db)) = db_checkpoints db"
  "db_devices (fst (write_trips env d l ws db)) = db_devices db"
  "db_overrides (fst (write_trips env d l ws db)) = db_overrides db"
  by (rule write_trips_view, rule write_trip_frame)+

lemma detection_frame:
  assumes "distinct (map tp_id (db_trips db))"
  shows "db_stays (write_detection env device label t0 stays trips db)
      = db_stays (insert_stays device label stays (delete_stays device t0 db))"
    "db_checkpoints (write_detection env device label t0 stays trips db) = db_checkpoints db"
    "db_devices (write_detection env device label t0 stays trips db) = db_devices db"
    "db_overrides (write_detection env device label t0 stays trips db) = db_overrides db"
  unfolding write_detection_stages(1) [OF assms] Let_def by (simp_all add: case_prod_unfold)

end
