(* ===== verification/RunnerRuns.thy ===== *)
theory RunnerRuns imports RunnerInv begin

text \<open>
  The properties of a detector run of \<open>app/detector/runner.py\<close>: \<open>_run\<close> and \<open>_process_device\<close>
  as transactions on the account's tables.
\<close>

section \<open>Consistency\<close>

definition db_ok :: "stream_db \<Rightarrow> bool" where
  "db_ok db \<longleftrightarrow> refs_ok db
     \<and> (\<forall>ov \<in> set (db_overrides db). overrides_ok [ovr_override ov])
     \<and> (\<forall>s \<in> set (db_stays db). sr_started_at s \<le> sr_ended_at s)
     \<and> (\<forall>p \<in> set (db_fixes db). EPOCH \<le> fx_recorded_at p)"

lemma db_ok_parts:
  assumes "db_ok db"
  shows "refs_ok db" "distinct (map tp_id (db_trips db))" "fresh_ids db"
    "overrides_ok (load_overrides db device)"
  using assms by (auto simp: db_ok_def refs_ok_def overrides_ok_def load_overrides_def)

lemma stay_times:
  assumes "overrides_ok ovs" "detect dst points ps ovs = Inr (stays, trips)" "s \<in> set stays"
  shows "st_started_at s \<le> st_ended_at s"
    and "\<forall>p \<in> set points. t0 \<le> pt_t p \<Longrightarrow> t0 \<le> st_started_at s"
proof -
  let ?pts = "filter_points dst ps (pinned_ids ovs) points"
  have ok: "first_idx s \<le> last_idx s" "last_idx s < length ?pts"
    "st_started_at s = pt_t (?pts ! first_idx s)" "st_ended_at s = pt_t (?pts ! last_idx s)"
    using detect_stages_of(2) [OF assms(1,2)] assms(3) by (auto simp: stay_ok_def)
  show "st_started_at s \<le> st_ended_at s"
    unfolding ok(3,4)
    using sorted_nth_mono [OF filter_points_sorted ok(1)] ok(1,2) by simp
  assume "\<forall>p \<in> set points. t0 \<le> pt_t p"
  moreover have "?pts ! first_idx s \<in> set ?pts" using ok(1,2) by simp
  ultimately show "t0 \<le> st_started_at s"
    unfolding ok(3) using filter_points_set by blast
qed

section \<open>Fixes are only linked\<close>

definition relinked :: "int \<Rightarrow> fix_row \<Rightarrow> fix_row \<Rightarrow> bool" where
  "relinked device p p' \<longleftrightarrow> p' = p \<or> fx_device p = device \<and> p' = p\<lparr>fx_trip_id := fx_trip_id p'\<rparr>"

definition fixes_relinked :: "int \<Rightarrow> stream_db \<Rightarrow> stream_db \<Rightarrow> bool" where
  "fixes_relinked device db db' \<longleftrightarrow> list_all2 (relinked device) (db_fixes db) (db_fixes db')"

lemma relinked_facts:
  assumes "relinked device p p'"
  shows "fx_device p' = fx_device p" "fx_recorded_at p' = fx_recorded_at p" "fx_id p' = fx_id p"
    "fx_received_at p' = fx_received_at p"
  using assms by (auto simp: relinked_def) (metis fix_row.ext_inject fix_row.surjective fix_row.update_convs(10))+

lemma relinked_trans: "relinked d p q \<Longrightarrow> relinked d q r \<Longrightarrow> relinked d p r"
  by (cases p; cases q; cases r) (auto simp: relinked_def)

lemma fixes_relinked_refl [simp]: "fixes_relinked d db db"
  by (auto simp: fixes_relinked_def relinked_def intro: list.rel_refl)

lemma fixes_relinked_trans: "fixes_relinked d a b \<Longrightarrow> fixes_relinked d b c \<Longrightarrow> fixes_relinked d a c"
  unfolding fixes_relinked_def by (rule list_all2_trans [OF relinked_trans])

lemma fixes_relinked_map:
  assumes "db_fixes db' = map f (db_fixes db)" "\<And>p. p \<in> set (db_fixes db) \<Longrightarrow> relinked d p (f p)"
  shows "fixes_relinked d db db'"
  using assms by (auto simp: fixes_relinked_def list_all2_conv_all_nth)

lemma fixes_relinked_cong: "db_fixes db' = db_fixes db \<Longrightarrow> fixes_relinked d db db'"
  by (auto simp: fixes_relinked_def relinked_def intro: list.rel_refl)

lemma relinked_unlink: "fixes_relinked d db (unlink_points d t0 ks db)"
  by (auto simp: fixes_relinked_def unlink_points_def list_all2_conv_all_nth relinked_def)

lemma relinked_link: "fixes_relinked d db (link_points d i ids db)"
  by (auto simp: fixes_relinked_def link_points_def list_all2_conv_all_nth relinked_def)

lemma relinked_write_trip: "fixes_relinked d db (fst (write_trip env d l tr tgt db))"
proof (cases tgt)
  case None
  let ?db1 = "db\<lparr>db_trips := db_trips db @ [inserted_trip db d l tr], db_next_trip_id := db_next_trip_id db + 1\<rparr>"
  have "fixes_relinked d db ?db1" by (rule fixes_relinked_cong) simp
  from fixes_relinked_trans [OF this relinked_link] show ?thesis
    using None fixes_relinked_trans [OF _ fixes_relinked_cong]
    by (simp add: write_trip_def insert_trip_def Let_def fixes_relinked_def)
next
  case (Some p)
  have "fixes_relinked d db (update_trips sel f db)" for sel f by (rule fixes_relinked_cong) simp
  from fixes_relinked_trans [OF this relinked_link] Some show ?thesis
    by (cases p) (simp add: write_trip_def update_trip_def Let_def)
qed

lemma relinked_write_trips: "fixes_relinked d db (fst (write_trips env d l ws db))"
proof (induction ws arbitrary: db)
  case (Cons w ws)
  obtain tr tgt where w: "w = (tr, tgt)" by (cases w)
  from fixes_relinked_trans [OF relinked_write_trip Cons.IH] show ?case
    by (simp add: w case_prod_unfold Let_def)
qed simp

lemma relinked_delete:
  assumes "refs_ok db" "\<And>t. trip_at db j = Some t \<Longrightarrow> tp_device t = Some d"
  shows "fixes_relinked d db (delete_trip j db)"
proof (rule fixes_relinked_map)
  show "db_fixes (delete_trip j db)
      = map (\<lambda>p. if fx_trip_id p = Some j then p\<lparr>fx_trip_id := None\<rparr> else p) (db_fixes db)"
    by (simp add: delete_trip_def)
  fix p
  assume p: "p \<in> set (db_fixes db)"
  have "fx_device p = d" if j: "fx_trip_id p = Some j"
  proof -
    from p j have "(fx_device p, j) \<in> fix_refs db" by (auto simp: fix_refs_def)
    with refs_ok_parts(3) [OF assms(1)]
    obtain t where t: "t \<in> set (db_trips db)" "tp_id t = j" "tp_device t = Some (fx_device p)"
      by (auto simp: trip_owners_def)
    from trip_at_SomeI [OF refs_ok_parts(1) [OF assms(1)] t(1)] t(2,3) assms(2) show ?thesis by auto
  qed
  then show "relinked d p (if fx_trip_id p = Some j then p\<lparr>fx_trip_id := None\<rparr> else p)"
    by (auto simp: relinked_def)
qed

lemma relinked_deletes:
  "refs_ok db \<Longrightarrow> (\<And>j t. j \<in> set js \<Longrightarrow> trip_at db j = Some t \<Longrightarrow> tp_device t = Some d) \<Longrightarrow>
   fixes_relinked d db (fold delete_trip js db)"
proof (induction js arbitrary: db)
  case (Cons j js)
  have "fixes_relinked d db (delete_trip j db)"
    by (rule relinked_delete [OF Cons.prems(1)]) (use Cons.prems(2) in auto)
  moreover have "fixes_relinked d (delete_trip j db) (fold delete_trip js (delete_trip j db))"
    by (rule Cons.IH [OF refs_ok_delete [OF Cons.prems(1)]]) (use Cons.prems(2) in \<open>auto split: if_splits\<close>)
  ultimately show ?case by (auto intro: fixes_relinked_trans)
qed simp

lemma relinked_write_detection:
  assumes ok: "refs_ok db"
  shows "fixes_relinked device db (write_detection env device label t0 stays trips db)"
proof -
  let ?plan = "device_plan db device t0 stays trips"
  let ?db1 = "insert_stays device label stays (delete_stays device t0 db)"
  let ?db2 = "unlink_points device t0 (map ex_id (rp_kept ?plan)) ?db1"
  let ?db3 = "fold delete_trip (map ex_id (rp_deletes ?plan)) ?db2"
  note ids = refs_ok_parts(1) [OF ok]
  have "fixes_relinked device db ?db1" by (rule fixes_relinked_cong) simp
  then have "fixes_relinked device db ?db2" by (rule fixes_relinked_trans [OF _ relinked_unlink])
  moreover have "fixes_relinked device ?db2 ?db3"
  proof (rule relinked_deletes)
    show "refs_ok ?db2" by (simp add: ok)
    fix j t
    assume j: "j \<in> set (map ex_id (rp_deletes ?plan))" and t: "trip_at ?db2 j = Some t"
    from j have "j \<in> set (map fst (rp_matches ?plan) @ map ex_id (rp_deletes ?plan))" by simp
    from bspec [OF write_detection_stages(4) [OF ids] this] t have "in_window device t0 t" by simp
    then show "tp_device t = Some device" by (simp add: in_window_def detected_of_def)
  qed
  ultimately have "fixes_relinked device db ?db3" by (rule fixes_relinked_trans)
  from fixes_relinked_trans [OF this relinked_write_trips [of device ?db3 env label "write_targets ?db1 ?plan trips"]]
  show ?thesis
    unfolding write_detection_stages(1) [OF ids] Let_def
    by (simp add: case_prod_unfold fixes_relinked_def)
qed

section \<open>The parts of a run\<close>

lemma process_device_Inr:
  assumes "process_device env device d full db = Inr db'"
  obtains label stays trips where "admit_device db device = Some label"
    "detect (re_dst env) (load_points db device (rewind_start db device d full)) (re_params env)
       (load_overrides db device) = Inr (stays, trips)"
    "db' = write_detection env device label (rewind_start db device d full) stays trips db"
  using assms by (auto simp: process_device_def Let_def res_bind_def split: option.splits sum.splits)

lemma run_device_Inr:
  assumes "run_device env now device db = Inr (b, db')"
  obtains s where "List.find (\<lambda>s. ck_device s = device) (db_checkpoints db) = Some s"
    "\<not> b" "db' = set_checkpoint device (now - RUN_OVERLAP_MARGIN) db"
    "ck_version s = DETECTOR_VERSION" "dirty_from db device (ck_last_run_at s) = None"
  | s d full db1 where "List.find (\<lambda>s. ck_device s = device) (db_checkpoints db) = Some s"
    "b" "full = (ck_version s \<noteq> DETECTOR_VERSION)"
    "process_device env device d full db = Inr db1"
    "db' = set_checkpoint device (now - RUN_OVERLAP_MARGIN) db1"
    "if full then d = EPOCH else dirty_from db device (ck_last_run_at s) = Some d"
  using assms
  by (auto simp: run_device_def Let_def split: option.splits sum.splits if_splits)

lemma set_checkpoint_frame [simp]:
  "db_fixes (set_checkpoint device u db) = db_fixes db" "db_stays (set_checkpoint device u db) = db_stays db"
  "db_trips (set_checkpoint device u db) = db_trips db"
  "db_expenses (set_checkpoint device u db) = db_expenses db"
  "db_devices (set_checkpoint device u db) = db_devices db"
  "db_overrides (set_checkpoint device u db) = db_overrides db"
  "db_next_trip_id (set_checkpoint device u db) = db_next_trip_id db"
  by (simp_all add: set_checkpoint_def)

lemma trip_at_checkpoint [simp]: "trip_at (set_checkpoint device u db) = trip_at db"
  by (simp add: trip_at_def)

lemma db_ok_checkpoint [simp]: "db_ok (set_checkpoint device u db) = db_ok db"
  by (simp add: db_ok_def refs_ok_def fix_refs_def trip_owners_def expense_refs_def trip_ids_def fresh_ids_def)


lemma process_device_ok:
  assumes ok: "db_ok db" and run: "process_device env device d full db = Inr db'"
  shows "db_ok db'"
proof -
  from process_device_Inr [OF run] obtain label stays trips where
    det: "detect (re_dst env) (load_points db device (rewind_start db device d full)) (re_params env)
       (load_overrides db device) = Inr (stays, trips)"
    and db': "db' = write_detection env device label (rewind_start db device d full) stays trips db"
    by blast
  note parts = db_ok_parts [OF ok]
  note frame = detection_frame [OF parts(2)]
  have "\<forall>s \<in> set (db_stays db'). sr_started_at s \<le> sr_ended_at s"
    using ok stay_times(1) [OF parts(4) det]
    by (auto simp: db' frame insert_stays_def delete_stays_def stay_row_of_def db_ok_def)
  moreover have "\<forall>p \<in> set (db_fixes db'). EPOCH \<le> fx_recorded_at p"
  proof
    fix p'
    assume "p' \<in> set (db_fixes db')"
    with list_all2_rev_mem [OF relinked_write_detection [OF parts(1), unfolded fixes_relinked_def]]
    obtain p where "p \<in> set (db_fixes db)" "relinked device p p'" unfolding db' by blast
    with ok relinked_facts(2) [of device p p'] show "EPOCH \<le> fx_recorded_at p'" by (simp add: db_ok_def)
  qed
  ultimately show ?thesis
    using ok refs_ok_write_detection [OF parts(1)] by (simp add: db' frame db_ok_def)
qed

lemma run_device_ok:
  assumes "db_ok db" "run_device env now device db = Inr (b, db')"
  shows "db_ok db'"
  using assms(2)
proof (cases rule: run_device_Inr)
  case (1 s)
  with assms(1) show ?thesis by simp
next
  case (2 s d full db1)
  with process_device_ok [OF assms(1)] show ?thesis by simp
qed

lemma run_device_frame:
  assumes "db_ok db" "run_device env now device db = Inr (b, db')"
  shows "list_all2 (\<lambda>p p'. p' = p \<or> fx_device p = device \<and> p' = p\<lparr>fx_trip_id := fx_trip_id p'\<rparr>)
        (db_fixes db) (db_fixes db')
    \<and> filter (\<lambda>s. sr_device s \<noteq> device) (db_stays db') = filter (\<lambda>s. sr_device s \<noteq> device) (db_stays db)
    \<and> filter (\<lambda>s. ck_device s \<noteq> device) (db_checkpoints db')
        = filter (\<lambda>s. ck_device s \<noteq> device) (db_checkpoints db)
    \<and> {t \<in> set (db_trips db'). \<not> detected_of device t} = {t \<in> set (db_trips db). \<not> detected_of device t}
    \<and> db_devices db' = db_devices db \<and> db_overrides db' = db_overrides db"
proof -
  have checkpoints: "filter (\<lambda>s. ck_device s \<noteq> device) (db_checkpoints (set_checkpoint device u x))
      = filter (\<lambda>s. ck_device s \<noteq> device) (db_checkpoints x)" for u x
  proof -
    have "filter (\<lambda>s. ck_device s \<noteq> device) (map (\<lambda>s. if ck_device s = device
          then s\<lparr>ck_last_run_at := Some u, ck_version := DETECTOR_VERSION\<rparr> else s) cs)
        = filter (\<lambda>s. ck_device s \<noteq> device) cs" for cs
      by (induction cs) auto
    then show ?thesis by (simp add: set_checkpoint_def)
  qed
  have "fixes_relinked device db db'
    \<and> filter (\<lambda>s. sr_device s \<noteq> device) (db_stays db') = filter (\<lambda>s. sr_device s \<noteq> device) (db_stays db)
    \<and> filter (\<lambda>s. ck_device s \<noteq> device) (db_checkpoints db')
        = filter (\<lambda>s. ck_device s \<noteq> device) (db_checkpoints db)
    \<and> {t \<in> set (db_trips db'). \<not> detected_of device t} = {t \<in> set (db_trips db). \<not> detected_of device t}
    \<and> db_devices db' = db_devices db \<and> db_overrides db' = db_overrides db"
    using assms(2)
  proof (cases rule: run_device_Inr)
    case (1 s)
    then show ?thesis by (auto simp: checkpoints intro: fixes_relinked_cong)
  next
    case run: (2 s d full db1)
    let ?t0 = "rewind_start db device d full"
    note parts = db_ok_parts [OF assms(1)]
    from process_device_Inr [OF run(4)] obtain label stays trips where
      db1: "db1 = write_detection env device label ?t0 stays trips db" by blast
    let ?plan = "device_plan db device ?t0 stays trips"
    from write_detection_spec [OF parts(2,3)] obtain new where
      r: "trips_replaced device ?t0 trips ?plan db db1 new" unfolding db1 by blast
    have "t \<in> set (db_trips db1)" if t: "t \<in> set (db_trips db)" "\<not> detected_of device t" for t
    proof -
      have at: "trip_at db (tp_id t) = Some t" by (rule trip_at_SomeI [OF parts(2) t(1)])
      have "tp_id t \<notin> set (map fst (rp_matches ?plan) @ map ex_id (rp_deletes ?plan))"
        using write_detection_stages(4) [OF parts(2), of device ?t0 stays trips] at t(2)
        unfolding in_window_def by (metis option.inject)
      moreover have "tp_id t \<in> trip_ids db" using t(1) by (simp add: trip_ids_def)
      ultimately have "trip_at db1 (tp_id t) = Some t" using trips_replacedD(3) [OF r, of "tp_id t"] at by simp
      then show ?thesis by (simp add: trip_at_mem)
    qed
    moreover have "t \<in> set (db_trips db)" if t: "t \<in> set (db_trips db1)" "\<not> detected_of device t" for t
    proof -
      have "refs_ok db1" unfolding db1 by (rule refs_ok_write_detection [OF parts(1)])
      then have "trip_at db1 (tp_id t) = Some t" by (intro trip_at_SomeI refs_ok_parts(1) t(1))
      from trips_replaced_rows [OF r this] t(2) show ?thesis by (simp add: trip_at_mem)
    qed
    moreover have "fixes_relinked device db db1"
      unfolding db1 by (rule relinked_write_detection [OF parts(1)])
    moreover have "filter (\<lambda>s. sr_device s \<noteq> device) (db_stays db1) = filter (\<lambda>s. sr_device s \<noteq> device) (db_stays db)"
      by (auto simp: db1 detection_frame [OF parts(2)] insert_stays_def delete_stays_def stay_row_of_def
          filter_empty_conv intro: filter_cong)
    moreover have "db_checkpoints db1 = db_checkpoints db" "db_devices db1 = db_devices db"
      "db_overrides db1 = db_overrides db"
      by (simp_all add: db1 detection_frame [OF parts(2)])
    ultimately show ?thesis by (auto simp: run(5) checkpoints fixes_relinked_def)
  qed
  then show ?thesis unfolding fixes_relinked_def relinked_def by (elim conjE) (intro conjI; assumption)
qed

lemma run_device_checkpoints:
  assumes "db_ok db" "run_device env now device db = Inr (b, db')"
  shows "db_checkpoints db' = map (\<lambda>s. if ck_device s = device
      then s\<lparr>ck_last_run_at := Some (now - RUN_OVERLAP_MARGIN), ck_version := DETECTOR_VERSION\<rparr> else s)
      (db_checkpoints db)"
  using assms(2)
proof (cases rule: run_device_Inr)
  case (1 s)
  then show ?thesis by (simp add: set_checkpoint_def)
next
  case (2 s d full db1)
  from process_device_Inr [OF 2(4)] detection_frame(2) [OF db_ok_parts(2) [OF assms(1)]]
  have "db_checkpoints db1 = db_checkpoints db" by metis
  with 2(5) show ?thesis by (simp add: set_checkpoint_def)
qed

lemma run_device_checkpoint:
  assumes "db_ok db" "run_device env now device db = Inr (b, db')"
  shows "\<exists>s \<in> set (db_checkpoints db'). ck_device s = device
    \<and> ck_last_run_at s = Some (now - RUN_OVERLAP_MARGIN) \<and> ck_version s = DETECTOR_VERSION"
proof -
  obtain s where "s \<in> set (db_checkpoints db)" "ck_device s = device"
    using assms(2) by (cases rule: run_device_Inr) (use find_SomeD in \<open>fastforce\<close>)+
  then show ?thesis
    unfolding run_device_checkpoints [OF assms]
    by (intro bexI [of _ "s\<lparr>ck_last_run_at := Some (now - RUN_OVERLAP_MARGIN), ck_version := DETECTOR_VERSION\<rparr>"])
       (auto simp: image_iff)
qed


section \<open>A concrete account\<close>

definition demo_env :: runner_env where
  "demo_env = \<lparr>re_dst = flat_dist, re_params = default_params, re_turn_max_points = 0,
     re_geo = (\<lambda>a b. \<bar>snd a - snd b\<bar>), re_simplify = (\<lambda>path. path)\<rparr>"

definition row_at :: "int \<Rightarrow> int \<Rightarrow> real \<Rightarrow> fix_row" where
  "row_at i sec metres =
     \<lparr>fx_id = i, fx_device = 1, fx_recorded_at = seconds sec, fx_received_at = seconds sec, fx_lat = metres,
      fx_lon = 0, fx_accuracy_m = None, fx_velocity_kmh = None, fx_trigger = None, fx_trip_id = None\<rparr>"

text \<open>A stored drive a person tagged, which the next run detects a little longer.\<close>

definition tagged_drive :: stored_trip where
  "tagged_drive =
     \<lparr>tp_id = 7, tp_device = Some 1, tp_label = ''phone'', tp_source = ''detected'', tp_imported = False,
      tp_started_at = seconds 600, tp_ended_at = seconds 720, tp_start_geom = None, tp_end_geom = None,
      tp_distance_m = 2000, tp_point_count = 2, tp_has_gap = False, tp_version = 2,
      tp_category = ''business'', tp_tag_source = Some ''human'', tp_start_place_id = None,
      tp_end_place_id = None, tp_vehicle_id = Some 4, tp_purpose = Some ''client'', tp_notes = None,
      tp_path = None, tp_snap = pending_snap\<rparr>"

definition demo_db :: stream_db where
  "demo_db =
     \<lparr>db_devices = [\<lparr>dv_id = 1, dv_label = ''phone'', dv_enabled = True, dv_revoked_at = None\<rparr>],
      db_checkpoints = [\<lparr>ck_device = 1, ck_last_run_at = None, ck_version = 2\<rparr>],
      db_fixes = [row_at 1 0 0, row_at 2 600 0, row_at 3 720 2000, row_at 4 840 4000, row_at 5 1440 4000],
      db_stays = [], db_trips = [tagged_drive], db_overrides = [],
      db_places = [\<lparr>pl_id = 5, pl_kind = ''home'', pl_geom = (0, 0), pl_radius_m = 100\<rparr>],
      db_rules = [], db_cars = [], db_auto_assign = False,
      db_expenses = [\<lparr>el_id = 1, el_trip_id = Some 7\<rparr>], db_next_trip_id = 8\<rparr>"

lemma demo_ok: "db_ok demo_db"
  by (auto simp: db_ok_def refs_ok_def fix_refs_def trip_owners_def expense_refs_def trip_ids_def
      fresh_ids_def demo_db_def tagged_drive_def row_at_def seconds_def EPOCH_def)

lemma demo_run:
  "case run_device demo_env (seconds 2000) 1 demo_db of
     Inl _ \<Rightarrow> False
   | Inr (b, db') \<Rightarrow> b \<and> map (\<lambda>t. (tp_id t, tp_ended_at t, tp_tag_source t, tp_start_place_id t)) (db_trips db')
        = [(7, seconds 840, Some ''human'', Some 5)]
      \<and> map fx_trip_id (db_fixes db') = [None, Some 7, Some 7, Some 7, None]
      \<and> length (db_stays db') = 2"
  by code_simp

lemma demo_run_Inr:
  obtains db' where "run_device demo_env (seconds 2000) 1 demo_db = Inr (True, db')"
    "map (\<lambda>t. (tp_id t, tp_tag_source t)) (db_trips db') = [(7, Some ''human'')]"
    "length (db_stays db') = 2"
proof -
  from demo_run obtain db' where r: "run_device demo_env (seconds 2000) 1 demo_db = Inr (True, db')"
    and t: "map (\<lambda>t. (tp_id t, tp_ended_at t, tp_tag_source t, tp_start_place_id t)) (db_trips db')
        = [(7, seconds 840, Some ''human'', Some 5)]" "length (db_stays db') = 2"
    by (auto split: sum.splits)
  from t(1) have "map (\<lambda>t. (tp_id t, tp_tag_source t)) (db_trips db') = [(7, Some ''human'')]" by auto
  from that [OF r this t(2)] show thesis .
qed


section \<open>Properties\<close>

text \<open>
  C7. A run keeps the tables consistent: after a committed run trip ids are unique and below
  the sequence, every fix links to a trip of its own device or to none, every expense to an
  existing trip or to none, and stays end after they start.
\<close>

theorem run_consistent:
  assumes "db_ok db" "run_device env now device db = Inr (b, db')"
  shows "db_ok db'"
  by (rule run_device_ok [OF assms])

theorem run_consistent_witness:
  "case run_device demo_env (seconds 2000) 1 demo_db of Inl _ \<Rightarrow> False | Inr (b, db') \<Rightarrow> db_ok db'"
proof (rule demo_run_Inr)
  fix db'
  assume r: "run_device demo_env (seconds 2000) 1 demo_db = Inr (True, db')"
  from run_consistent [OF demo_ok r] show ?thesis by (simp add: r)
qed





text \<open>
  C10. A run is confined to its device: the fixes of other devices are untouched and its own
  change in nothing but the trip they link to, the stays and checkpoints of other devices,
  and every trip that is manual, imported or of another device, stay as they are.
\<close>

theorem run_confined:
  assumes "db_ok db" "run_device env now device db = Inr (b, db')"
  shows "list_all2 (\<lambda>p p'. p' = p \<or> fx_device p = device \<and> p' = p\<lparr>fx_trip_id := fx_trip_id p'\<rparr>)
        (db_fixes db) (db_fixes db')
    \<and> filter (\<lambda>s. sr_device s \<noteq> device) (db_stays db') = filter (\<lambda>s. sr_device s \<noteq> device) (db_stays db)
    \<and> filter (\<lambda>s. ck_device s \<noteq> device) (db_checkpoints db')
        = filter (\<lambda>s. ck_device s \<noteq> device) (db_checkpoints db)
    \<and> {t \<in> set (db_trips db'). \<not> detected_of device t} = {t \<in> set (db_trips db). \<not> detected_of device t}
    \<and> db_devices db' = db_devices db \<and> db_overrides db' = db_overrides db"
  by (rule run_device_frame [OF assms])

theorem run_confined_witness:
  "case run_device demo_env (seconds 2000) 1 demo_db of
     Inl _ \<Rightarrow> False
   | Inr (b, db') \<Rightarrow> length (db_fixes db') = 5 \<and> db_devices db' = db_devices demo_db"
proof (rule demo_run_Inr)
  fix db'
  assume r: "run_device demo_env (seconds 2000) 1 demo_db = Inr (True, db')"
  have "length (db_fixes demo_db) = 5" by (simp add: demo_db_def)
  moreover have "length (db_fixes demo_db) = length (db_fixes db')"
    by (rule list_all2_lengthD) (rule run_confined [OF demo_ok r, THEN conjunct1])
  moreover have "db_devices db' = db_devices demo_db" using run_confined [OF demo_ok r] by (elim conjE)
  ultimately show ?thesis by (simp add: r)
qed



lemma foldl_min_le: "foldl min (a::int) xs \<le> a \<and> (\<forall>x \<in> set xs. foldl min a xs \<le> x)"
proof (induction xs arbitrary: a)
  case (Cons x xs)
  from Cons.IH [of "min a x"] show ?case by auto
qed simp

lemma foldl_min_mem: "foldl min (a::int) xs \<in> insert a (set xs)"
proof (induction xs arbitrary: a)
  case (Cons x xs)
  from Cons.IH [of "min a x"] show ?case by (auto simp: min_def split: if_splits)
qed simp

lemma dirty_from_Some:
  assumes "p \<in> set (db_fixes db)" "fx_device p = device" "received_after u p"
  shows "\<exists>d. dirty_from db device u = Some d \<and> d \<le> fx_recorded_at p
    \<and> (\<exists>q \<in> set (db_fixes db). d = fx_recorded_at q)"
proof -
  let ?ts = "map fx_recorded_at (filter (\<lambda>p. fx_device p = device \<and> received_after u p) (db_fixes db))"
  have mem: "fx_recorded_at p \<in> set ?ts" using assms by auto
  then obtain t ts where ts: "?ts = t # ts" by (cases ?ts) auto
  have "foldl min t ts \<le> fx_recorded_at p" using mem foldl_min_le [of t ts] unfolding ts by auto
  moreover have "foldl min t ts \<in> set ?ts" using foldl_min_mem [of t ts] unfolding ts by simp
  then have "\<exists>q \<in> set (db_fixes db). foldl min t ts = fx_recorded_at q" by auto
  ultimately show ?thesis unfolding dirty_from_def ts list.case by blast
qed

lemma rewind_start_le:
  assumes "\<forall>s \<in> set (db_stays db). sr_started_at s \<le> sr_ended_at s" "EPOCH \<le> d"
  shows "rewind_start db device d full \<le> d"
proof -
  let ?ss = "sort_key (\<lambda>s. - sr_ended_at s)
    (filter (\<lambda>s. sr_device s = device \<and> sr_ended_at s < d) (db_stays db))"
  show ?thesis
  proof (cases ?ss)
    case (Cons s rest)
    then have "s \<in> set ?ss" by simp
    with assms(1) have "sr_started_at s \<le> d" by fastforce
    with Cons assms(2) show ?thesis by (simp add: rewind_start_def)
  qed (use assms(2) in \<open>simp add: rewind_start_def\<close>)
qed

text \<open>
  C12. No fix is missed: a fix of the device that arrives after a run, or that was being inserted
  while it ran (received up to the overlap margin before its start), makes an enabled device
  pending again, and the window the next run loads contains it.
\<close>

theorem late_fix_is_processed:
  assumes "db_ok db" "run_device env now device db = Inr (b, db')"
    and "d \<in> set (db_devices db)" "dv_id d = device" "dv_enabled d" "dv_revoked_at d = None"
    and "fx_device p = device" "now - RUN_OVERLAP_MARGIN < fx_received_at p" "EPOCH \<le> fx_recorded_at p"
  defines "late \<equiv> db'\<lparr>db_fixes := db_fixes db' @ [p]\<rparr>"
  shows "device \<in> set (pending_devices late)
    \<and> (\<exists>u. dirty_from late device (Some (now - RUN_OVERLAP_MARGIN)) = Some u
         \<and> p \<in> set (window_fixes late device (rewind_start late device u False)))"
proof -
  have ok: "db_ok db'" by (rule run_device_ok [OF assms(1,2)])
  obtain s where s: "s \<in> set (db_checkpoints db')" "ck_device s = device"
    "ck_last_run_at s = Some (now - RUN_OVERLAP_MARGIN)" "ck_version s = DETECTOR_VERSION"
    using run_device_checkpoint [OF assms(1,2)] by blast
  have p: "p \<in> set (db_fixes late)" "received_after (Some (now - RUN_OVERLAP_MARGIN)) p"
    using assms(8) by (simp_all add: late_def received_after_def)
  have "is_pending late d s"
    using assms(4-7) s p by (auto simp: is_pending_def list_ex_iff)
  then have "(dv_id d, ck_last_run_at s, ck_version s) \<in> set (pending_rows late)"
    using assms(3,4) s(1,2) run_device_frame [OF assms(1,2)]
    by (auto simp: pending_rows_def late_def)
  then have pend: "device \<in> set (pending_devices late)"
    using assms(4) by (force simp: pending_devices_def oldest_first_def)
  obtain u where u: "dirty_from late device (Some (now - RUN_OVERLAP_MARGIN)) = Some u"
    "u \<le> fx_recorded_at p" "\<exists>q \<in> set (db_fixes late). u = fx_recorded_at q"
    using dirty_from_Some [OF p(1) assms(7) p(2)] by blast
  have "EPOCH \<le> u" using u(3) ok assms(9) by (auto simp: late_def db_ok_def)
  then have "rewind_start late device u False \<le> u"
    by (rule rewind_start_le [rotated]) (use ok in \<open>simp add: late_def db_ok_def\<close>)
  then have "p \<in> set (window_fixes late device (rewind_start late device u False))"
    using p(1) assms(7) u(2) by (simp add: window_fixes_def)
  with u(1) pend show ?thesis by blast
qed

theorem late_fix_is_processed_witness:
  "case run_device demo_env (seconds 2000) 1 demo_db of
     Inl _ \<Rightarrow> False
   | Inr (b, db') \<Rightarrow> 1 \<in> set (pending_devices (db'\<lparr>db_fixes := db_fixes db' @ [row_at 6 1950 4000]\<rparr>))"
proof (rule demo_run_Inr)
  fix db'
  assume r: "run_device demo_env (seconds 2000) 1 demo_db = Inr (True, db')"
  have "\<lparr>dv_id = 1, dv_label = ''phone'', dv_enabled = True, dv_revoked_at = None\<rparr> \<in> set (db_devices demo_db)"
    by (simp add: demo_db_def)
  moreover have "fx_device (row_at 6 1950 4000) = 1" "EPOCH \<le> fx_recorded_at (row_at 6 1950 4000)"
    "seconds 2000 - RUN_OVERLAP_MARGIN < fx_received_at (row_at 6 1950 4000)"
    by (simp_all add: row_at_def RUN_OVERLAP_MARGIN_def EPOCH_def seconds_def)
  ultimately have "1 \<in> set (pending_devices (db'\<lparr>db_fixes := db_fixes db' @ [row_at 6 1950 4000]\<rparr>))"
    using late_fix_is_processed [OF demo_ok r] by simp
  then show ?thesis by (simp only: r sum.case prod.case)
qed

end
