(* ===== verification/DetectorSchedule.thy ===== *)
theory DetectorSchedule imports RunnerRuns PyData begin

text \<open>
  The scheduling side of \<open>app/detector/runner.py\<close>: the in-memory deferrals of devices whose
  window exceeds the turn limit, one background turn (\<open>run_turn\<close>), the sweep over all pending
  devices (\<open>run_once\<close>) and the operator's run (\<open>run_pending_in\<close>). The two transactions of a
  turn see the database at two moments; the readings of the monotonic clock and the outcome
  of the try-lock are inputs.
\<close>

section \<open>Deferrals\<close>

record deferral =
  df_recheck_at :: real
  df_limit :: int
  df_last_run_at :: "instant option"
  df_version :: int

record deferrals =
  dq_recheck_s :: real
  dq_entries :: "(int \<times> int, deferral) dict"
  dq_bound :: bool
  dq_status :: "(int \<times> int) list"

definition deferred_devices :: "deferrals \<Rightarrow> (int \<times> int) list" where
  "deferred_devices q = sort (keys (dq_entries q))"

definition publish :: "deferrals \<Rightarrow> deferrals" where
  "publish q = (if dq_bound q then q\<lparr>dq_status := deferred_devices q\<rparr> else q)"

definition bind_status :: "deferrals \<Rightarrow> deferrals" where
  "bind_status q = publish (q\<lparr>dq_bound := True\<rparr>)"

definition drop_entries :: "(int \<times> int \<Rightarrow> bool) \<Rightarrow> deferrals \<Rightarrow> deferrals" where
  "drop_entries stale q =
     (if list_ex stale (keys (dq_entries q))
      then publish (q\<lparr>dq_entries := filter (\<lambda>(k, _). \<not> stale k) (dq_entries q)\<rparr>) else q)"

definition clear_deferral :: "int \<Rightarrow> int \<Rightarrow> deferrals \<Rightarrow> deferrals" where
  "clear_deferral owner device = drop_entries (\<lambda>k. k = (owner, device))"

definition retain_accounts :: "int set \<Rightarrow> deferrals \<Rightarrow> deferrals" where
  "retain_accounts enabled = drop_entries (\<lambda>k. fst k \<notin> enabled)"

definition prune_deferrals :: "int \<Rightarrow> int \<Rightarrow> int set \<Rightarrow> deferrals \<Rightarrow> deferrals" where
  "prune_deferrals owner after seen = drop_entries (\<lambda>k. fst k = owner \<and> snd k > after \<and> snd k \<notin> seen)"

definition should_skip ::
  "int \<Rightarrow> pending_row \<Rightarrow> int \<Rightarrow> real \<Rightarrow> deferrals \<Rightarrow> bool \<times> deferrals" where
  "should_skip owner row limit clock q =
     (case row of (device, last_run_at, version) \<Rightarrow>
       (case map_of (dq_entries q) (owner, device) of
          None \<Rightarrow> (False, q)
        | Some e \<Rightarrow>
            if limit \<noteq> df_limit e \<or> last_run_at \<noteq> df_last_run_at e \<or> version \<noteq> df_version e
            then (False, clear_deferral owner device q)
            else (clock < df_recheck_at e, q)))"

definition defer_device ::
  "int \<Rightarrow> int \<Rightarrow> int \<Rightarrow> instant option \<Rightarrow> int \<Rightarrow> real \<Rightarrow> deferrals \<Rightarrow> bool \<times> deferrals" where
  "defer_device owner device limit last_run_at version clock q =
     (map_of (dq_entries q) (owner, device) = None,
      publish (q\<lparr>dq_entries := dset (dq_entries q) (owner, device)
        \<lparr>df_recheck_at = clock + dq_recheck_s q, df_limit = limit, df_last_run_at = last_run_at,
         df_version = version\<rparr>\<rparr>))"

definition skip_deferred :: "runner_env \<Rightarrow> int \<Rightarrow> pending_row \<Rightarrow> real \<Rightarrow> deferrals \<Rightarrow> bool \<times> deferrals" where
  "skip_deferred env owner row clock q =
     (if re_turn_max_points env = 0 then (False, clear_deferral owner (fst row) q)
      else should_skip owner row (re_turn_max_points env) clock q)"

section \<open>Turns\<close>

record turn_outcome =
  to_attempted :: nat
  to_completed :: nat
  to_failures :: nat
  to_failure_type :: "run_error option"
  to_ready :: bool
  to_cursor :: "int option"
  to_skipped :: bool

definition idle_turn :: turn_outcome where
  "idle_turn = \<lparr>to_attempted = 0, to_completed = 0, to_failures = 0, to_failure_type = None,
     to_ready = False, to_cursor = None, to_skipped = False\<rparr>"

text \<open>\<open>cursor or 0\<close>.\<close>

definition past :: "int option \<Rightarrow> int" where
  "past cursor = (case cursor of None \<Rightarrow> 0 | Some c \<Rightarrow> c)"

text \<open>\<open>AND d.id > %s ORDER BY d.id LIMIT 1\<close>.\<close>

definition next_pending :: "stream_db \<Rightarrow> int option \<Rightarrow> pending_row option" where
  "next_pending db cursor =
     (case sort_key fst (filter (\<lambda>r. past cursor < fst r) (pending_rows db)) of
        [] \<Rightarrow> None
      | r # _ \<Rightarrow> Some r)"

lemma next_pending_Some:
  assumes "next_pending db cursor = Some r"
  shows "r \<in> set (pending_rows db) \<and> past cursor < fst r
    \<and> (\<forall>x \<in> set (pending_rows db). past cursor < fst x \<longrightarrow> fst r \<le> fst x)"
proof -
  let ?xs = "filter (\<lambda>r. past cursor < fst r) (pending_rows db)"
  from assms obtain rest where s: "sort_key fst ?xs = r # rest"
    by (auto simp: next_pending_def split: list.splits)
  have "set (r # rest) = set ?xs" by (simp flip: s)
  moreover have "sorted (map fst (r # rest))" by (simp flip: s)
  ultimately show ?thesis by auto
qed

lemma next_pending_None: "next_pending db cursor = None \<longleftrightarrow> (\<forall>x \<in> set (pending_rows db). fst x \<le> past cursor)"
proof -
  let ?xs = "filter (\<lambda>r. past cursor < fst r) (pending_rows db)"
  have "next_pending db cursor = None \<longleftrightarrow> sort_key fst ?xs = []"
    by (auto simp: next_pending_def split: list.splits)
  also have "\<dots> \<longleftrightarrow> ?xs = []" by (metis length_0_conv length_sort)
  finally show ?thesis by (auto simp: filter_empty_conv not_less)
qed

lemma length_filter_less_strict:
  "x \<in> set xs \<Longrightarrow> \<not> P x \<Longrightarrow> Q x \<Longrightarrow> (\<And>y. P y \<Longrightarrow> Q y) \<Longrightarrow> length (filter P xs) < length (filter Q xs)"
proof (induction xs)
  case (Cons y ys)
  have le: "length (filter P ys) \<le> length (filter Q ys)"
    using Cons.prems(4) by (induction ys) auto
  from Cons le show ?case by (cases "x = y") auto
qed simp

text \<open>
  The lookup loop of \<open>run_turn\<close>: the first pending device past the cursor that is not
  skipped, with the cursor, the devices seen and the deferrals when the loop ends.
\<close>

function turn_lookup ::
  "runner_env \<Rightarrow> int \<Rightarrow> real \<Rightarrow> stream_db \<Rightarrow> int option \<Rightarrow> int set \<Rightarrow> deferrals
   \<Rightarrow> pending_row option \<times> int option \<times> int set \<times> deferrals" where
  "turn_lookup env owner clock db cursor seen q =
     (case next_pending db cursor of
        None \<Rightarrow> (None, cursor, seen, q)
      | Some row \<Rightarrow>
          (let (skip, q') = skip_deferred env owner row clock q
           in if skip then turn_lookup env owner clock db (Some (fst row)) (insert (fst row) seen) q'
              else (Some row, cursor, insert (fst row) seen, q')))"
  by pat_completeness auto
termination
proof (relation "measure (\<lambda>(env, owner, clock, db, cursor, seen, q).
    length (filter (\<lambda>r. past cursor < fst r) (pending_rows db)))", goal_cases)
  case (2 env owner clock db cursor seen q row x skip q')
  from next_pending_Some [OF 2(1)] have r: "row \<in> set (pending_rows db)" "past cursor < fst row" by simp_all
  have "length (filter (\<lambda>r. fst row < fst r) (pending_rows db))
      < length (filter (\<lambda>r. past cursor < fst r) (pending_rows db))"
    by (rule length_filter_less_strict [OF r(1)]) (use r(2) in auto)
  then show ?case by (simp add: past_def)
qed simp

declare turn_lookup.simps [simp del]

text \<open>A turn that completed its device, or failed on it.\<close>

definition turn_done :: "int \<Rightarrow> turn_outcome" where
  "turn_done device = idle_turn\<lparr>to_attempted := 1, to_completed := 1, to_ready := True, to_cursor := Some device\<rparr>"

definition turn_failed :: "int \<Rightarrow> run_error \<Rightarrow> turn_outcome" where
  "turn_failed device e =
     idle_turn\<lparr>to_attempted := 1, to_failures := 1, to_failure_type := Some e, to_ready := True,
       to_cursor := Some device\<rparr>"

text \<open>
  \<open>run_turn\<close>: \<open>seen_db\<close> is what the lookup reads, \<open>db\<close> the state the second transaction
  starts from; \<open>clock\<close> and \<open>clock'\<close> are the readings in the lookup and in a deferral. The
  answer is the outcome, \<open>produced_work\<close>, the deferrals and the committed state.
\<close>

definition run_turn ::
  "runner_env \<Rightarrow> int \<Rightarrow> int option \<Rightarrow> real \<Rightarrow> real \<Rightarrow> instant \<Rightarrow> bool \<Rightarrow> stream_db \<Rightarrow> deferrals \<Rightarrow> stream_db
   \<Rightarrow> turn_outcome \<times> bool \<times> deferrals \<times> stream_db" where
  "run_turn env owner cursor clock clock' now locked seen_db q db =
     (case turn_lookup env owner clock seen_db cursor {} q of
        (None, _, seen, q1) \<Rightarrow> (idle_turn, False, prune_deferrals owner (past cursor) seen q1, db)
      | (Some row, cursor1, seen, q1) \<Rightarrow>
          (let device = fst row
           in if \<not> locked then (idle_turn\<lparr>to_cursor := cursor1, to_skipped := True\<rparr>, False, q1, db)
              else if admit_device db device = None
              then (idle_turn\<lparr>to_ready := True, to_cursor := Some device\<rparr>, False, q1, db)
              else (case run_device env now device db of
                      Inr (processed, db') \<Rightarrow> (turn_done device, processed, clear_deferral owner device q1, db')
                    | Inl (WindowDeferred limit last_run_at version) \<Rightarrow>
                        (idle_turn\<lparr>to_ready := True, to_cursor := Some device\<rparr>, False,
                         snd (defer_device owner device limit last_run_at version clock' q1), db)
                    | Inl (RunError e) \<Rightarrow>
                        (turn_failed device (RunError e), False, clear_deferral owner device q1, db))))"




definition run_pending_in ::
  "runner_env \<Rightarrow> instant \<Rightarrow> int \<Rightarrow> stream_db \<Rightarrow> run_error + (bool option \<times> stream_db)" where
  "run_pending_in env now device db =
     (if admit_device db device = None
      then Inl (RunError (ValueError ''No enabled tracking device has that ID in this account.''))
      else if device \<notin> fst ` set (pending_rows db) then Inr (None, db)
      else map_sum id (map_prod Some id) (run_device env now device db))"

section \<open>What the lookup finds\<close>

lemma turn_lookup_spec:
  "turn_lookup env owner clock db cursor seen q = (found, cursor', seen', q') \<Longrightarrow>
     past cursor \<le> past cursor' \<and> seen \<subseteq> seen'
     \<and> (\<forall>x \<in> set (pending_rows db). past cursor < fst x \<and> fst x \<le> past cursor' \<longrightarrow> fst x \<in> seen')
     \<and> (\<forall>row. found = Some row \<longrightarrow> row \<in> set (pending_rows db) \<and> past cursor' < fst row)
     \<and> (found = None \<longrightarrow> (\<forall>x \<in> set (pending_rows db). fst x \<le> past cursor'))"
proof (induction env owner clock db cursor seen q arbitrary: found cursor' seen' q' rule: turn_lookup.induct)
  case (1 env owner clock db cursor seen q)
  show ?case
  proof (cases "next_pending db cursor")
    case None
    with "1.prems" show ?thesis
      by (auto simp: turn_lookup.simps [of env owner clock db cursor] next_pending_None)
  next
    case (Some row)
    obtain skip q1 where s: "skip_deferred env owner row clock q = (skip, q1)"
      by (cases "skip_deferred env owner row clock q")
    note np = next_pending_Some [OF Some]
    show ?thesis
    proof (cases skip)
      case True
      with "1.prems" Some s have
        "turn_lookup env owner clock db (Some (fst row)) (insert (fst row) seen) q1 = (found, cursor', seen', q')"
        by (simp add: turn_lookup.simps [of env owner clock db cursor])
      from "1.IH" [OF Some s [symmetric] refl True this]
      have ih: "fst row \<le> past cursor'" "insert (fst row) seen \<subseteq> seen'"
        "\<And>x. x \<in> set (pending_rows db) \<Longrightarrow> fst row < fst x \<Longrightarrow> fst x \<le> past cursor' \<Longrightarrow> fst x \<in> seen'"
        "\<forall>row. found = Some row \<longrightarrow> row \<in> set (pending_rows db) \<and> past cursor' < fst row"
        "found = None \<longrightarrow> (\<forall>x \<in> set (pending_rows db). fst x \<le> past cursor')"
        by (simp_all add: past_def)
      have "fst x \<in> seen'" if x: "x \<in> set (pending_rows db)" "past cursor < fst x" "fst x \<le> past cursor'" for x
      proof (cases "fst x = fst row")
        case False
        with np x have "fst row < fst x" by (metis order_neq_le_trans)
        from ih(3) [OF x(1) this x(3)] show ?thesis .
      qed (use ih(2) in auto)
      with ih np show ?thesis by auto
    next
      case False
      with "1.prems" Some s np show ?thesis
        by (auto simp: turn_lookup.simps [of env owner clock db cursor])
    qed
  qed
qed

lemma skip_keeps: "skip_deferred env owner row clock q = (True, q') \<Longrightarrow> q' = q"
  by (auto simp: skip_deferred_def should_skip_def split: prod.splits option.splits if_splits)

lemma turn_lookup_idle:
  "turn_lookup env owner clock db cursor seen q = (None, cursor', seen', q') \<Longrightarrow>
     q' = q \<and> (\<forall>x \<in> set (pending_rows db). past cursor < fst x \<longrightarrow>
       (\<exists>r \<in> set (pending_rows db). fst r = fst x \<and> fst (skip_deferred env owner r clock q)))"
proof (induction env owner clock db cursor seen q rule: turn_lookup.induct)
  case (1 env owner clock db cursor seen q)
  show ?case
  proof (cases "next_pending db cursor")
    case None
    with "1.prems" show ?thesis
      by (auto simp: turn_lookup.simps [of env owner clock db cursor] next_pending_None)
  next
    case (Some row)
    obtain skip q1 where s: "skip_deferred env owner row clock q = (skip, q1)"
      by (cases "skip_deferred env owner row clock q")
    note np = next_pending_Some [OF Some]
    have True: skip
      using "1.prems" Some s by (auto simp: turn_lookup.simps [of env owner clock db cursor] split: if_splits)
    then have q1: "q1 = q" using s skip_keeps [of env owner row clock q q1] by simp
    from "1.prems" Some s True have
      "turn_lookup env owner clock db (Some (fst row)) (insert (fst row) seen) q1 = (None, cursor', seen', q')"
      by (simp add: turn_lookup.simps [of env owner clock db cursor])
    from "1.IH" [OF Some s [symmetric] refl True this]
    have ih: "q' = q" "\<And>x. x \<in> set (pending_rows db) \<Longrightarrow> fst row < fst x \<Longrightarrow>
       \<exists>r \<in> set (pending_rows db). fst r = fst x \<and> fst (skip_deferred env owner r clock q)"
      by (auto simp: past_def q1)
    have "\<exists>r \<in> set (pending_rows db). fst r = fst x \<and> fst (skip_deferred env owner r clock q)"
      if x: "x \<in> set (pending_rows db)" "past cursor < fst x" for x
    proof (cases "fst x = fst row")
      case True
      with np s \<open>skip\<close> show ?thesis by (intro bexI [of _ row]) simp_all
    next
      case False
      with np x have "fst row < fst x" by (metis order_neq_le_trans)
      from ih(2) [OF x(1) this] show ?thesis .
    qed
    with ih(1) show ?thesis by blast
  qed
qed

lemma pending_rows_devices: "r \<in> set (pending_rows db) \<Longrightarrow> fst r \<in> dv_id ` set (db_devices db)"
  by (auto simp: pending_rows_def)

text \<open>A ready turn moves the cursor to a pending device beyond it.\<close>

lemma turn_advances:
  assumes "run_turn env owner cursor clock clock' now locked seen_db q db = (out, produced, q', db')" "to_ready out"
  shows "\<exists>device. to_cursor out = Some device \<and> past cursor < device \<and> device \<in> fst ` set (pending_rows seen_db)"
proof -
  obtain found cursor1 seen q1 where l: "turn_lookup env owner clock seen_db cursor {} q = (found, cursor1, seen, q1)"
    by (cases "turn_lookup env owner clock seen_db cursor {} q")
  note spec = turn_lookup_spec [OF l]
  from assms l obtain row where row: "found = Some row" "to_cursor out = Some (fst row)"
    by (auto simp: run_turn_def idle_turn_def turn_done_def turn_failed_def Let_def
        split: option.splits if_splits sum.splits prod.splits run_error.splits)
  with spec have "row \<in> set (pending_rows seen_db)" "past cursor < fst row" by auto
  with row(2) show ?thesis by auto
qed

section \<open>Properties\<close>

text \<open>
  The ready turns of one wake cycle of an account whose devices are all in \<open>devs\<close>: each
  continues from the cursor of the one before; the tables, the clock and the lock may be
  anything at each turn.
\<close>

inductive wake_cycle :: "int set \<Rightarrow> int list \<Rightarrow> int option \<Rightarrow> bool" for devs :: "int set" where
  start: "wake_cycle devs [] None"
| turn: "wake_cycle devs visited cursor \<Longrightarrow>
    run_turn env owner cursor clock clock' now locked seen_db q db = (out, produced, q', db') \<Longrightarrow>
    dv_id ` set (db_devices seen_db) \<subseteq> devs \<Longrightarrow> to_ready out \<Longrightarrow> to_cursor out = Some device \<Longrightarrow>
    wake_cycle devs (visited @ [device]) (Some device)"

definition no_deferrals :: deferrals where
  "no_deferrals = \<lparr>dq_recheck_s = 300, dq_entries = [], dq_bound = False, dq_status = []\<rparr>"

definition one_deferral :: deferrals where
  "one_deferral = no_deferrals\<lparr>dq_entries :=
     [((9, 1), \<lparr>df_recheck_at = 100, df_limit = 4, df_last_run_at = None, df_version = 2\<rparr>)]\<rparr>"

text \<open>
  C14. A wake cycle ends: whatever happens between its turns, the devices it visits strictly
  increase, so it visits each device at most once and has no more turns than devices.
\<close>

theorem wake_cycle_ends:
  assumes "finite devs" "wake_cycle devs visited cursor"
  shows "sorted_wrt (<) visited \<and> set visited \<subseteq> devs \<and> length visited \<le> card devs"
proof -
  have chain: "sorted_wrt (<) visited \<and> set visited \<subseteq> devs \<and> (\<forall>v \<in> set visited. v \<le> past cursor)"
    using assms(2)
  proof induction
    case (turn visited cursor env owner clock clock' now locked seen_db q db out produced q' db' device)
    from turn_advances [OF turn.hyps(2,4)] turn.hyps(5) have
      "past cursor < device" "device \<in> fst ` set (pending_rows seen_db)" by auto
    moreover from this(2) turn.hyps(3) pending_rows_devices have "device \<in> devs" by blast
    ultimately show ?case using turn.IH by (auto simp: sorted_wrt_append past_def)
  qed simp
  then have "distinct visited" by (simp add: strict_sorted_iff)
  then have "length visited = card (set visited)" by (simp add: distinct_card)
  with chain assms(1) show ?thesis by (simp add: card_mono)
qed

theorem wake_cycle_ends_witness:
  "wake_cycle {1} [1] (Some 1) \<and> length [1 :: int] \<le> card {1 :: int}"
proof -
  let ?gone = "demo_db\<lparr>db_devices := []\<rparr>"
  have r: "run_turn demo_env 9 None 0 0 (seconds 2000) True demo_db no_deferrals ?gone
      = (idle_turn\<lparr>to_ready := True, to_cursor := Some 1\<rparr>, False, no_deferrals, ?gone)"
    by code_simp
  have "wake_cycle {1} ([] @ [1]) (Some 1)"
    by (rule wake_cycle.turn [OF wake_cycle.start r]) (simp_all add: demo_db_def)
  then have c: "wake_cycle {1} [1] (Some 1)" by simp
  from wake_cycle_ends [OF _ c] c show ?thesis by simp
qed

text \<open>
  An idle turn leaves nothing due behind: when a turn reports that it is idle, every
  pending device beyond its cursor is deferred under the current turn limit with an
  unchanged checkpoint and is not yet due for a recheck; the tables are untouched.
\<close>

theorem idle_turn_leaves_nothing_due:
  assumes "run_turn env owner cursor clock clock' now locked seen_db q db = (out, produced, q', db')"
    and "\<not> to_ready out" "\<not> to_skipped out"
    and "(device, last_run_at, version) \<in> set (pending_rows seen_db)" "past cursor < device"
  shows "db' = db \<and> re_turn_max_points env \<noteq> 0
    \<and> (\<exists>last version e. (device, last, version) \<in> set (pending_rows seen_db)
         \<and> map_of (dq_entries q) (owner, device) = Some e \<and> clock < df_recheck_at e
         \<and> df_limit e = re_turn_max_points env \<and> df_last_run_at e = last \<and> df_version e = version)"
proof -
  obtain found cursor1 seen q1 where l: "turn_lookup env owner clock seen_db cursor {} q = (found, cursor1, seen, q1)"
    by (cases "turn_lookup env owner clock seen_db cursor {} q")
  from assms(1-3) l have "found = None" "db' = db"
    by (auto simp: run_turn_def idle_turn_def turn_done_def turn_failed_def Let_def
        split: option.splits if_splits sum.splits prod.splits run_error.splits)
  with turn_lookup_idle [of env owner clock seen_db cursor "{}" q] l assms(4,5) obtain r where
    r: "r \<in> set (pending_rows seen_db)" "fst r = device" "fst (skip_deferred env owner r clock q)"
    by fastforce
  obtain last v where "r = (device, last, v)" using r(2) by (metis prod.collapse)
  with r \<open>db' = db\<close> show ?thesis
    by (auto simp: skip_deferred_def should_skip_def split: option.splits if_splits)
qed

theorem idle_turn_leaves_nothing_due_witness:
  "\<exists>e. map_of (dq_entries one_deferral) (9, 1) = Some e \<and> 50 < df_recheck_at e \<and> df_limit e = 4"
proof -
  let ?env = "demo_env\<lparr>re_turn_max_points := 4\<rparr>"
  have r: "run_turn ?env 9 None 50 60 (seconds 2000) True demo_db one_deferral demo_db
      = (idle_turn, False, one_deferral, demo_db)"
    by code_simp
  have "pending_rows demo_db = [(1, None, 2)]" by code_simp
  then have row: "(1, None, 2) \<in> set (pending_rows demo_db)" by simp
  from idle_turn_leaves_nothing_due [OF r _ _ row] show ?thesis
    by (auto simp: idle_turn_def past_def)
qed

section \<open>A sweep\<close>







end
