(* ===== verification/Bytes.thy ===== *)
theory Bytes imports Prelude "HOL-Library.Word" begin

unbundle bit_operations_syntax

text \<open>
  Bytes as \<open>8 word\<close>s and Python's \<open>struct\<close> on them: a slice never raises, unpacking a slice of
  the wrong length does, packing an integer out of range does.
\<close>

section \<open>Bytes\<close>

type_synonym bytes = "8 word list"

abbreviation sub :: "'a list \<Rightarrow> nat \<Rightarrow> nat \<Rightarrow> 'a list" where
  "sub \<equiv> Prelude.slice"

definition be_nat :: "bytes \<Rightarrow> nat" where
  "be_nat bs = foldl (\<lambda>a b. 256 * a + unat b) 0 bs"

definition le_nat :: "bytes \<Rightarrow> nat" where
  "le_nat bs = be_nat (rev bs)"

definition ascii :: "string \<Rightarrow> bytes" where
  "ascii s = map of_char s"

definition unpack_error :: py_error where
  "unpack_error = ValueError ''unpack''"

text \<open>\<open>struct.unpack\<close> of one unsigned integer of \<open>n\<close> bytes.\<close>

definition unpack_be :: "nat \<Rightarrow> bytes \<Rightarrow> nat result" where
  "unpack_be n bs = (if length bs = n then Inr (be_nat bs) else Inl unpack_error)"

definition unpack_le :: "nat \<Rightarrow> bytes \<Rightarrow> nat result" where
  "unpack_le n bs = (if length bs = n then Inr (le_nat bs) else Inl unpack_error)"

text \<open>\<open>data[i]\<close>, and the slice \<open>data[i:j]\<close> unpacked into exactly \<open>n\<close> names.\<close>

definition byte_at :: "bytes \<Rightarrow> nat \<Rightarrow> nat result" where
  "byte_at data i = (if i < length data then Inr (unat (data ! i)) else Inl IndexError)"

definition unpack_names :: "nat \<Rightarrow> bytes \<Rightarrow> nat list result" where
  "unpack_names n bs = (if length bs = n then Inr (map unat bs) else Inl unpack_error)"

text \<open>\<open>struct.pack\<close> of an unsigned integer of \<open>n\<close> bytes, and of a signed one of eight.\<close>

primrec be_bytes :: "nat \<Rightarrow> nat \<Rightarrow> bytes" where
  "be_bytes 0 v = []"
| "be_bytes (Suc n) v = be_bytes n (v div 256) @ [of_nat v]"

definition pack_error :: py_error where
  "pack_error = ValueError ''pack''"

definition pack_be :: "nat \<Rightarrow> int \<Rightarrow> bytes result" where
  "pack_be n v = (if 0 \<le> v \<and> v < 256 ^ n then Inr (be_bytes n (nat v)) else Inl pack_error)"

definition pack_q :: "int \<Rightarrow> bytes result" where
  "pack_q v = (if - (2 ^ 63) \<le> v \<and> v < 2 ^ 63 then Inr (be_bytes 8 (nat (v mod 2 ^ 64))) else Inl pack_error)"

definition signed_q :: "bytes \<Rightarrow> int" where
  "signed_q bs = (let u = int (be_nat bs) in if u < 2 ^ 63 then u else u - 2 ^ 64)"

lemma be_nat_simps [simp]:
  "be_nat [] = 0" "be_nat (bs @ [b]) = 256 * be_nat bs + unat b"
  by (simp_all add: be_nat_def)

lemma length_be_bytes [simp]: "length (be_bytes n v) = n"
  by (induction n arbitrary: v) simp_all

lemma be_nat_be_bytes: "be_nat (be_bytes n v) = v mod 256 ^ n"
proof (induction n arbitrary: v)
  case (Suc n)
  have "v mod 256 ^ Suc n = 256 * (v div 256 mod 256 ^ n) + v mod 256"
    by (simp add: mod_mult2_eq)
  then show ?case by (simp add: Suc unat_of_nat)
qed simp

lemma be_nat_less: "be_nat bs < 256 ^ length bs"
proof (induction bs rule: rev_induct)
  case (snoc b bs)
  have "unat b < 256" using unsigned_less [of b] by simp
  then show ?case using snoc by simp
qed simp

lemma be_bytes_be_nat: "length bs = n \<Longrightarrow> be_bytes n (be_nat bs) = bs"
proof (induction bs arbitrary: n rule: rev_induct)
  case (snoc b bs)
  have b: "unat b < 256" using unsigned_less [of b] by simp
  have "(256 * be_nat bs + unat b) div 256 = be_nat bs" using b by simp
  moreover have "(of_nat (256 * be_nat bs + unat b) :: 8 word) = of_nat (unat b)"
    by (simp only: word_of_nat_eq_iff) (simp add: take_bit_eq_mod)
  ultimately show ?case using snoc by auto
qed simp

lemma mod_signed: "- (2 ^ 63) \<le> v \<Longrightarrow> v < 2 ^ 63 \<Longrightarrow> v mod 2 ^ 64 = (if 0 \<le> v then v else v + 2 ^ 64)" for v :: int
  by (auto simp: mod_pos_pos_trivial intro!: int_mod_pos_eq [where q = "- 1"] split: if_splits)

lemma signed_q_pack: "pack_q v = Inr bs \<Longrightarrow> length bs = 8 \<and> signed_q bs = v"
  using mod_signed [of v] by (auto simp: pack_q_def signed_q_def be_nat_be_bytes Let_def split: if_splits)

lemma pack_signed_q: "length bs = 8 \<Longrightarrow> pack_q (signed_q bs) = Inr bs"
  using be_nat_less [of bs] by (auto simp: pack_q_def signed_q_def Let_def be_bytes_be_nat)

section \<open>Results\<close>

lemma res_bind_cong [fundef_cong]:
  "r = r' \<Longrightarrow> (\<And>a. r' = Inr a \<Longrightarrow> f a = g a) \<Longrightarrow> res_bind r f = res_bind r' g"
  by (cases r') auto

lemma res_bind_eq_Inr: "res_bind r f = Inr b \<longleftrightarrow> (\<exists>a. r = Inr a \<and> f a = Inr b)"
  by (cases r) auto

definition returns :: "'a result \<Rightarrow> bool" where
  "returns r \<longleftrightarrow> (\<exists>a. r = Inr a)"

text \<open>Rules for "no exception", by the structure of the code.\<close>

named_theorems returning

lemma returns_Inr [returning]: "returns (Inr a)"
  by (simp add: returns_def)

lemma returns_bind [returning]:
  "returns r \<Longrightarrow> (\<And>a. r = Inr a \<Longrightarrow> returns (f a)) \<Longrightarrow> returns (res_bind r f)"
  by (auto simp: returns_def)

lemma returns_map [returning]: "returns r \<Longrightarrow> returns (map_sum id f r)"
  by (auto simp: returns_def)

lemma returns_if [returning]: "(b \<Longrightarrow> returns r) \<Longrightarrow> (\<not> b \<Longrightarrow> returns s) \<Longrightarrow> returns (if b then r else s)"
  by simp

lemma returns_option [returning]:
  "(x = None \<Longrightarrow> returns r) \<Longrightarrow> (\<And>a. x = Some a \<Longrightarrow> returns (f a)) \<Longrightarrow>
   returns (case x of None \<Rightarrow> r | Some a \<Rightarrow> f a)"
  by (cases x) simp_all

lemma returns_sum [returning]:
  "(\<And>a. x = Inl a \<Longrightarrow> returns (f a)) \<Longrightarrow> (\<And>a. x = Inr a \<Longrightarrow> returns (g a)) \<Longrightarrow>
   returns (case x of Inl a \<Rightarrow> f a | Inr a \<Rightarrow> g a)"
  by (cases x) simp_all

lemma returns_unpack_be [returning]: "length bs = n \<Longrightarrow> returns (unpack_be n bs)"
  by (simp add: returns_def unpack_be_def)

lemma returns_unpack_le [returning]: "length bs = n \<Longrightarrow> returns (unpack_le n bs)"
  by (simp add: returns_def unpack_le_def)

lemma returns_unpack_names [returning]: "length bs = n \<Longrightarrow> returns (unpack_names n bs)"
  by (simp add: returns_def unpack_names_def)

lemma returns_byte_at [returning]: "i < length bs \<Longrightarrow> returns (byte_at bs i)"
  by (simp add: returns_def byte_at_def)

lemma unpack_be_eq: "length bs = n \<Longrightarrow> unpack_be n bs = Inr (be_nat bs)"
  by (simp add: unpack_be_def)

lemma sub_sub: "a + j \<le> b \<Longrightarrow> sub (sub xs a b) i j = sub xs (a + i) (a + j)"
  by (auto simp: Prelude.slice_def drop_take min_def add.commute)


end
