(* ===== verification/AvatarTypes.thy ===== *)
theory AvatarTypes imports Bytes begin

text \<open>
  The byte-level validation of \<open>app/avatar_images.py\<close>: PNG, JPEG and WebP containers.
  \<open>zlib.crc32\<close> is defined here; the decompressor is the sequence of its calls' results, an
  argument of the check of the image data.
\<close>

section \<open>Helpers of the language\<close>

text \<open>\<open>range(a, b, step)\<close>.\<close>

definition py_range :: "nat \<Rightarrow> nat \<Rightarrow> nat \<Rightarrow> nat list" where
  "py_range a b step = map (\<lambda>i. a + step * i) [0..<(b - a + step - 1) div step]"

text \<open>\<open>zlib.crc32\<close>.\<close>

definition crc_step :: "32 word \<Rightarrow> 32 word" where
  "crc_step c = (if bit c 0 then drop_bit 1 c XOR 0xEDB88320 else drop_bit 1 c)"

definition crc_byte :: "32 word \<Rightarrow> 8 word \<Rightarrow> 32 word" where
  "crc_byte c b = (crc_step ^^ 8) (c XOR ucast b)"

definition crc32 :: "bytes \<Rightarrow> nat" where
  "crc32 bs = unat (foldl crc_byte 0xFFFFFFFF bs XOR 0xFFFFFFFF)"

text \<open>Evaluation by rewriting, one step at a time.\<close>

lemma crc_byte_unroll:
  "crc_byte c b = crc_step (crc_step (crc_step (crc_step (crc_step (crc_step (crc_step (crc_step (c XOR ucast b))))))))"
  by (simp add: crc_byte_def numeral_eq_Suc)

lemma crc_step_numeral:
  "crc_step (numeral n) = (if bit (numeral n :: 32 word) 0
     then drop_bit 1 (numeral n) XOR 0xEDB88320 else drop_bit 1 (numeral n))"
  "crc_step 0 = 0" "crc_step 1 = 0xEDB88320"
  by (simp_all add: crc_step_def)

lemmas crc_eval = crc32_def crc_byte_unroll crc_step_numeral

lemma crc32_check: "crc32 (ascii ''123456789'') = 0xCBF43926"
  by (simp add: crc_eval ascii_def of_char_def)

section \<open>Results\<close>

definition MAX_AVATAR_PIXELS :: nat where "MAX_AVATAR_PIXELS = 16777216"

definition MAX_AVATAR_SIDE :: nat where "MAX_AVATAR_SIDE = 8192"

datatype status = Valid | TooLarge | Invalid

definition exceeds_caps :: "nat \<Rightarrow> nat \<Rightarrow> bool" where
  "exceeds_caps width height \<longleftrightarrow>
     width * height > MAX_AVATAR_PIXELS \<or> width > MAX_AVATAR_SIDE \<or> height > MAX_AVATAR_SIDE"

section \<open>PNG image data\<close>

text \<open>The four numbers of a pass: start and step in both directions.\<close>

type_synonym png_pass = "nat \<times> nat \<times> nat \<times> nat"

definition png_passes :: "nat \<Rightarrow> png_pass list" where
  "png_passes interlace =
     (if interlace = 0 then [(0, 0, 1, 1)]
      else [(0, 0, 8, 8), (4, 0, 8, 8), (0, 4, 4, 8), (2, 0, 4, 4), (0, 2, 2, 4), (1, 0, 2, 2), (0, 1, 1, 2)])"

text \<open>Other colour types were refused with the header.\<close>

definition channels :: "nat \<Rightarrow> nat" where
  "channels color_type =
     (case map_of [(0, 1), (2, 3), (3, 1), (4, 2), (6, 4)] color_type of Some n \<Rightarrow> n | None \<Rightarrow> 0)"

definition pass_extent :: "nat \<Rightarrow> nat \<Rightarrow> nat \<Rightarrow> nat" where
  "pass_extent side start step = (if side > start then (side - start + step - 1) div step else 0)"

definition pass_row_bytes :: "nat \<Rightarrow> nat \<Rightarrow> nat \<Rightarrow> png_pass \<Rightarrow> nat" where
  "pass_row_bytes width bit_depth color_type p =
     (case p of (start_x, _, step_x, _) \<Rightarrow>
       (pass_extent width start_x step_x * channels color_type * bit_depth + 7) div 8)"

definition pass_height :: "nat \<Rightarrow> png_pass \<Rightarrow> nat" where
  "pass_height height p = (case p of (_, start_y, _, step_y) \<Rightarrow> pass_extent height start_y step_y)"

definition expected_size :: "nat \<Rightarrow> nat \<Rightarrow> nat \<Rightarrow> nat \<Rightarrow> nat \<Rightarrow> nat" where
  "expected_size width height bit_depth color_type interlace =
     sum_list (map (\<lambda>p. pass_height height p * (1 + pass_row_bytes width bit_depth color_type p))
       (png_passes interlace))"

definition rows_total :: "nat \<Rightarrow> nat \<Rightarrow> nat" where
  "rows_total height interlace =
     sum_list (map (\<lambda>p. case p of (_, start_y, _, step_y) \<Rightarrow> (height - start_y + step_y - 1) div step_y)
       (filter (\<lambda>(_, start_y, _, _). height > start_y) (png_passes interlace)))"

text \<open>What \<open>row_bytes_iter\<close> yields.\<close>

definition row_bytes_iter :: "nat \<Rightarrow> nat \<Rightarrow> nat \<Rightarrow> nat \<Rightarrow> nat \<Rightarrow> nat list" where
  "row_bytes_iter width height bit_depth color_type interlace =
     concat (map (\<lambda>p. replicate (pass_height height p) (pass_row_bytes width bit_depth color_type p))
       (png_passes interlace))"

text \<open>The \<open>nonlocal\<close> variables of \<open>consume\<close> with the rows the iterator has left.\<close>

record row_walk =
  raw_offset :: nat
  row_remaining :: nat
  rows_remaining :: nat
  rows_left :: "nat list"

text \<open>\<open>next(row_bytes)\<close> raises \<open>StopIteration\<close> when no row is left.\<close>

function consume_loop :: "nat \<Rightarrow> bytes \<Rightarrow> nat \<Rightarrow> row_walk \<Rightarrow> (bool \<times> row_walk) result" where
  "consume_loop expected raw offset w =
     (if offset < length raw then
        if raw_offset w \<ge> expected then Inr (False, w)
        else if row_remaining w = 0 then
          if unat (raw ! offset) > 4 \<or> rows_remaining w = 0 then Inr (False, w)
          else (case rows_left w of
                  [] \<Rightarrow> Inl (ValueError ''StopIteration'')
                | r # rs \<Rightarrow> consume_loop expected raw (offset + 1)
                    \<lparr>raw_offset = raw_offset w + 1, row_remaining = r, rows_remaining = rows_remaining w - 1,
                     rows_left = rs\<rparr>)
        else
          (let skipped = min (row_remaining w) (length raw - offset)
           in consume_loop expected raw (offset + skipped)
                (w\<lparr>row_remaining := row_remaining w - skipped, raw_offset := raw_offset w + skipped\<rparr>))
      else Inr (True, w))"
  by pat_completeness auto
termination by (relation "measure (\<lambda>(expected, raw, offset, w). length raw - offset)") auto

declare consume_loop.simps [simp del]

definition consume :: "nat \<Rightarrow> bytes \<Rightarrow> row_walk \<Rightarrow> (bool \<times> row_walk) result" where
  "consume expected raw w = consume_loop expected raw 0 w"

text \<open>
  The decompressor, as the results of the successive calls on one compressed stream: the
  \<open>decompress\<close> calls until nothing is pending, each with whether \<open>unused_data\<close> is then
  non-empty; the \<open>flush\<close> calls until the end of the stream; what is left afterwards.
\<close>

datatype zlib_call = Returned bytes | ZlibError

record zlib_calls =
  zc_decompress :: "(zlib_call \<times> bool) list"
  zc_flush :: "zlib_call list"
  zc_leftover :: bool

fun decompress_loop :: "nat \<Rightarrow> (zlib_call \<times> bool) list \<Rightarrow> row_walk \<Rightarrow> row_walk option result" where
  "decompress_loop expected [] w = Inr (Some w)"
| "decompress_loop expected ((ZlibError, _) # calls) w = Inr None"
| "decompress_loop expected ((Returned raw, unused) # calls) w =
     res_bind (consume expected raw w)
       (\<lambda>(ok, w'). if \<not> ok \<or> unused then Inr None else decompress_loop expected calls w')"

fun flush_loop :: "nat \<Rightarrow> zlib_call list \<Rightarrow> row_walk \<Rightarrow> row_walk option result" where
  "flush_loop expected [] w = Inr (Some w)"
| "flush_loop expected (ZlibError # calls) w = Inr None"
| "flush_loop expected (Returned raw # calls) w =
     (if raw = [] then Inr None
      else res_bind (consume expected raw w) (\<lambda>(ok, w'). if \<not> ok then Inr None else flush_loop expected calls w'))"

definition png_image_data_is_valid ::
  "(bytes \<Rightarrow> zlib_calls) \<Rightarrow> bytes \<Rightarrow> nat \<Rightarrow> nat \<Rightarrow> nat \<Rightarrow> nat \<Rightarrow> nat \<Rightarrow> bool result" where
  "png_image_data_is_valid zlib compressed width height bit_depth color_type interlace =
     (let expected = expected_size width height bit_depth color_type interlace;
          w0 = \<lparr>raw_offset = 0, row_remaining = 0, rows_remaining = rows_total height interlace,
                rows_left = row_bytes_iter width height bit_depth color_type interlace\<rparr>
      in res_bind (decompress_loop expected (zc_decompress (zlib compressed)) w0)
           (\<lambda>r. case r of
              None \<Rightarrow> Inr False
            | Some w1 \<Rightarrow> res_bind (flush_loop expected (zc_flush (zlib compressed)) w1)
                (\<lambda>r. case r of
                   None \<Rightarrow> Inr False
                 | Some w \<Rightarrow> Inr (raw_offset w = expected \<and> row_remaining w = 0 \<and> rows_remaining w = 0
                     \<and> \<not> zc_leftover (zlib compressed)))))"

end
