(* ===== verification/Avatar.thy ===== *)
theory Avatar imports AvatarTypes begin

text \<open>
  The three detectors of \<open>app/avatar_images.py\<close> and \<open>detect_avatar\<close>. A loop over the file is a
  function of the offset; the branches of its body are in the order of the source.
\<close>

section \<open>PNG\<close>

record png =
  saw_ihdr :: bool
  saw_idat :: bool
  saw_plte :: bool
  ended_idat :: bool
  png_oversized :: bool
  idat_parts :: "bytes list"
  png_width :: nat
  png_height :: nat
  png_bit_depth :: nat
  png_color_type :: nat
  png_interlace :: nat

definition new_png :: png where
  "new_png = \<lparr>saw_ihdr = False, saw_idat = False, saw_plte = False, ended_idat = False,
     png_oversized = False, idat_parts = [], png_width = 0, png_height = 0, png_bit_depth = 0,
     png_color_type = 0, png_interlace = 0\<rparr>"

definition valid_depths :: "nat \<Rightarrow> nat set" where
  "valid_depths color_type =
     (case map_of [(0, {1, 2, 4, 8, 16}), (2, {8, 16}), (3, {1, 2, 4, 8}), (4, {8, 16}), (6, {8, 16})] color_type
      of None \<Rightarrow> {} | Some ds \<Rightarrow> ds)"

text \<open>A branch ends the loop with a status or goes on with a new state.\<close>

definition png_header :: "bytes \<Rightarrow> nat \<Rightarrow> bytes \<Rightarrow> png \<Rightarrow> (status + png) result" where
  "png_header chunk_type len payload st =
     (if chunk_type \<noteq> ascii ''IHDR'' \<or> len \<noteq> 13 then Inr (Inl Invalid)
      else res_bind (unpack_be 4 (sub payload 0 4)) (\<lambda>width.
        res_bind (unpack_be 4 (sub payload 4 8)) (\<lambda>height.
        res_bind (unpack_names 5 (drop 8 payload)) (\<lambda>rest.
          (let bit_depth = rest ! 0; color_type = rest ! 1; compression = rest ! 2;
               filter_method = rest ! 3; interlace = rest ! 4
           in if width = 0 \<or> height = 0 \<or> bit_depth \<notin> valid_depths color_type
                 \<or> compression \<noteq> 0 \<or> filter_method \<noteq> 0 \<or> interlace \<notin> {0, 1}
              then Inr (Inl Invalid)
              else Inr (Inr (st\<lparr>saw_ihdr := True, png_oversized := exceeds_caps width height,
                png_width := width, png_height := height, png_bit_depth := bit_depth,
                png_color_type := color_type, png_interlace := interlace\<rparr>)))))))"

definition png_end :: "(bytes \<Rightarrow> zlib_calls) \<Rightarrow> nat \<Rightarrow> bool \<Rightarrow> png \<Rightarrow> status result" where
  "png_end zlib len at_end st =
     (if \<not> (saw_idat st \<and> (png_color_type st \<noteq> 3 \<or> saw_plte st) \<and> len = 0 \<and> at_end) then Inr Invalid
      else if png_oversized st then Inr TooLarge
      else res_bind (png_image_data_is_valid zlib (concat (idat_parts st)) (png_width st) (png_height st)
             (png_bit_depth st) (png_color_type st) (png_interlace st))
           (\<lambda>ok. Inr (if ok then Valid else Invalid)))"

definition png_chunk ::
  "(bytes \<Rightarrow> zlib_calls) \<Rightarrow> bytes \<Rightarrow> nat \<Rightarrow> bytes \<Rightarrow> bool \<Rightarrow> png \<Rightarrow> (status + png) result" where
  "png_chunk zlib chunk_type len payload at_end st =
     (if \<not> saw_ihdr st then png_header chunk_type len payload st
      else if chunk_type = ascii ''IDAT'' then
        if ended_idat st then Inr (Inl Invalid)
        else Inr (Inr (st\<lparr>saw_idat := True, idat_parts := idat_parts st @ [payload]\<rparr>))
      else if chunk_type = ascii ''PLTE'' then
        if saw_plte st \<or> saw_idat st \<or> png_color_type st \<in> {0, 4} \<or> len = 0 \<or> len mod 3 \<noteq> 0 \<or> len > 768
        then Inr (Inl Invalid) else Inr (Inr (st\<lparr>saw_plte := True\<rparr>))
      else if chunk_type = ascii ''IEND'' then res_bind (png_end zlib len at_end st) (\<lambda>s. Inr (Inl s))
      else res_bind (byte_at chunk_type 0) (\<lambda>b.
        if \<not> bit b 5 then Inr (Inl Invalid)
        else if saw_idat st then Inr (Inr (st\<lparr>ended_idat := True\<rparr>))
        else Inr (Inr st)))"

function png_loop :: "(bytes \<Rightarrow> zlib_calls) \<Rightarrow> bytes \<Rightarrow> nat \<Rightarrow> png \<Rightarrow> status result" where
  "png_loop zlib data offset st =
     (if offset < length data then
        if length data - offset < 12 then Inr Invalid
        else res_bind (unpack_be 4 (sub data offset (offset + 4))) (\<lambda>len.
          (let chunk_type = sub data (offset + 4) (offset + 8);
               chunk_end = offset + 12 + len;
               payload = sub data (offset + 8) (offset + 8 + len)
           in if chunk_end > length data then Inr Invalid
              else res_bind (unpack_be 4 (sub data (offset + 8 + len) chunk_end)) (\<lambda>expected_crc.
                if crc32 (chunk_type @ payload) \<noteq> expected_crc then Inr Invalid
                else res_bind (png_chunk zlib chunk_type len payload (chunk_end = length data) st)
                  (\<lambda>r. case r of Inl s \<Rightarrow> Inr s | Inr st' \<Rightarrow> png_loop zlib data chunk_end st'))))
      else Inr Invalid)"
  by pat_completeness auto
termination by (relation "measure (\<lambda>(zlib, data, offset, st). length data - offset)") auto

definition png_signature :: bytes where
  "png_signature = [0x89, 0x50, 0x4E, 0x47, 0x0D, 0x0A, 0x1A, 0x0A]"

definition detect_png :: "(bytes \<Rightarrow> zlib_calls) \<Rightarrow> bytes \<Rightarrow> status option result" where
  "detect_png zlib data =
     (if take 8 data \<noteq> png_signature then Inr None
      else map_sum id Some (png_loop zlib data 8 new_png))"

section \<open>JPEG\<close>

text \<open>The tables a file has defined; a \<open>False\<close> of the source's checks is \<open>None\<close>.\<close>

function quantization_tables :: "bytes \<Rightarrow> nat \<Rightarrow> nat set \<Rightarrow> nat set option result" where
  "quantization_tables payload offset tables =
     (if offset < length payload then
        res_bind (byte_at payload offset) (\<lambda>table_info.
          (let precision = table_info div 16; table_id = table_info mod 16;
               n = 64 * (if precision \<noteq> 0 then 2 else 1)
           in if precision > 1 \<or> table_id > 3 \<or> offset + 1 + n > length payload then Inr None
              else quantization_tables payload (offset + 1 + n) (insert table_id tables)))
      else Inr (if offset = length payload then Some tables else None))"
  by pat_completeness auto
termination by (relation "measure (\<lambda>(payload, offset, tables). length payload - offset)") auto

function huffman_tables :: "bytes \<Rightarrow> nat \<Rightarrow> (nat \<times> nat) set \<Rightarrow> (nat \<times> nat) set option result" where
  "huffman_tables payload offset tables =
     (if offset < length payload then
        if offset + 17 > length payload then Inr None
        else res_bind (byte_at payload offset) (\<lambda>table_info.
          (let table_class = table_info div 16; table_id = table_info mod 16;
               symbol_count = sum_list (map unat (sub payload (offset + 1) (offset + 17)))
           in if table_class > 1 \<or> table_id > 3 then Inr None
              else if offset + 17 + symbol_count > length payload then Inr None
              else huffman_tables payload (offset + 17 + symbol_count) (insert (table_class, table_id) tables)))
      else Inr (if offset = length payload then Some tables else None))"
  by pat_completeness auto
termination by (relation "measure (\<lambda>(payload, offset, tables). length payload - offset)") auto

record jpeg =
  frame_components :: "nat set option"
  quantization :: "nat set"
  huffman :: "(nat \<times> nat) set"
  saw_scan :: bool
  jpeg_oversized :: bool

definition new_jpeg :: jpeg where
  "new_jpeg = \<lparr>frame_components = None, quantization = {}, huffman = {}, saw_scan = False, jpeg_oversized = False\<rparr>"

text \<open>\<open>while offset < len(data) and data[offset] == 0xFF\<close>.\<close>

function skip_fill :: "bytes \<Rightarrow> nat \<Rightarrow> nat" where
  "skip_fill data offset =
     (if offset < length data \<and> data ! offset = 0xFF then skip_fill data (offset + 1) else offset)"
  by pat_completeness auto
termination by (relation "measure (\<lambda>(data, offset). length data - offset)") auto

text \<open>The components of a frame, and of a scan; \<open>None\<close> is the early return of \<open>"invalid"\<close>.\<close>

fun frame_loop :: "bytes \<Rightarrow> nat set \<Rightarrow> nat list \<Rightarrow> nat set \<Rightarrow> nat set option result" where
  "frame_loop payload quant [] seen = Inr (Some seen)"
| "frame_loop payload quant (p # ps) seen =
     res_bind (unpack_names 3 (sub payload p (p + 3))) (\<lambda>c.
       (let component_id = c ! 0; sampling = c ! 1; table = c ! 2
        in if component_id \<in> seen \<or> sampling = 0 \<or> table div 16 > 3 \<or> table mod 16 > 3
              \<or> table mod 16 \<notin> quant
           then Inr None else frame_loop payload quant ps (insert component_id seen)))"

fun scan_loop ::
  "bytes \<Rightarrow> nat set \<Rightarrow> (nat \<times> nat) set \<Rightarrow> nat \<Rightarrow> nat \<Rightarrow> nat list \<Rightarrow> nat set \<Rightarrow> bool result" where
  "scan_loop payload frame huff s_start s_end [] seen = Inr True"
| "scan_loop payload frame huff s_start s_end (p # ps) seen =
     res_bind (unpack_names 2 (sub payload p (p + 2))) (\<lambda>c.
       (let component_id = c ! 0; tables = c ! 1
        in if component_id \<notin> frame \<or> component_id \<in> seen then Inr False
           else if s_start = 0 \<and> (0, tables div 16) \<notin> huff then Inr False
           else if s_end > 0 \<and> (1, tables mod 16) \<notin> huff then Inr False
           else scan_loop payload frame huff s_start s_end ps (insert component_id seen)))"

text \<open>The entropy-coded data after a scan header: \<open>None\<close> when it ends inside a marker.\<close>

function skip_entropy :: "bytes \<Rightarrow> nat \<Rightarrow> bool \<Rightarrow> (nat \<times> bool) option" where
  "skip_entropy data offset saw =
     (if offset < length data then
        if data ! offset \<noteq> 0xFF then skip_entropy data (offset + 1) True
        else if offset + 1 \<ge> length data then None
        else (let next_byte = unat (data ! (offset + 1))
              in if next_byte = 0 \<or> (0xD0 \<le> next_byte \<and> next_byte \<le> 0xD7)
                 then skip_entropy data (offset + 2) True else Some (offset, saw))
      else Some (offset, saw))"
  by pat_completeness auto
termination by (relation "measure (\<lambda>(data, offset, saw). length data - offset)") auto

declare png_loop.simps [simp del] quantization_tables.simps [simp del] huffman_tables.simps [simp del]
declare skip_fill.simps [simp del] skip_entropy.simps [simp del]

lemma skip_fill_ge: "offset \<le> skip_fill data offset"
proof (induction data offset rule: skip_fill.induct)
  case (1 data offset)
  then show ?case by (subst skip_fill.simps) auto
qed

lemma skip_entropy_ge: "skip_entropy data offset saw = Some r \<Longrightarrow> offset \<le> fst r"
proof (induction data offset saw rule: skip_entropy.induct)
  case (1 data offset saw)
  have "skip_entropy data (offset + 1) True = Some r \<Longrightarrow> offset + 1 \<le> fst r"
    if "offset < length data" "data ! offset \<noteq> 0xFF"
    using 1(1) that by blast
  moreover have "skip_entropy data (offset + 2) True = Some r \<Longrightarrow> offset + 2 \<le> fst r"
    if "offset < length data" "data ! offset = 0xFF" "offset + 1 < length data"
      "unat (data ! (offset + 1)) = 0 \<or> 0xD0 \<le> unat (data ! (offset + 1)) \<and> unat (data ! (offset + 1)) \<le> 0xD7"
    using 1(2) that by (metis not_le)
  ultimately show ?case
    using 1(3) by (subst (asm) skip_entropy.simps) (auto simp: Let_def split: if_splits)
qed

definition reads_tables :: "nat \<Rightarrow> bytes \<Rightarrow> jpeg \<Rightarrow> jpeg option result" where
  "reads_tables marker payload st =
     (if marker = 0xDB then
        map_sum id (map_option (\<lambda>ts. st\<lparr>quantization := ts\<rparr>)) (quantization_tables payload 0 (quantization st))
      else if marker = 0xC4 then
        map_sum id (map_option (\<lambda>ts. st\<lparr>huffman := ts\<rparr>)) (huffman_tables payload 0 (huffman st))
      else Inr (Some st))"

definition frame_markers :: "nat set" where
  "frame_markers = {0xC0..<0xC4} \<union> {0xC5..<0xC8} \<union> {0xC9..<0xCC} \<union> {0xCD..<0xD0}"

definition standalone_markers :: "nat set" where
  "standalone_markers = {0xD0..<0xD8} \<union> {0xD8, 0x01}"

definition reads_frame :: "nat \<Rightarrow> bytes \<Rightarrow> jpeg \<Rightarrow> jpeg option result" where
  "reads_frame marker payload st =
     (if marker \<notin> frame_markers then Inr (Some st)
      else if length payload < 9 then Inr None
      else res_bind (unpack_be 2 (sub payload 1 3)) (\<lambda>height.
        res_bind (unpack_be 2 (sub payload 3 5)) (\<lambda>width.
        res_bind (byte_at payload 5) (\<lambda>component_count.
          if width = 0 \<or> height = 0 \<or> length payload \<noteq> 6 + 3 * component_count then Inr None
          else map_sum id (map_option (\<lambda>seen. st\<lparr>frame_components := Some seen,
                   jpeg_oversized := (jpeg_oversized st \<or> exceeds_caps width height)\<rparr>))
                 (frame_loop payload (quantization st) (py_range 6 (length payload) 3) {})))))"

text \<open>The header of a scan: whether it is valid.\<close>

definition reads_scan :: "bytes \<Rightarrow> jpeg \<Rightarrow> bool result" where
  "reads_scan payload st =
     (case frame_components st of
        None \<Rightarrow> Inr False
      | Some frame \<Rightarrow>
          if length payload < 6 then Inr False
          else res_bind (byte_at payload 0) (\<lambda>scan_count.
            if length payload \<noteq> 4 + 2 * scan_count \<or> scan_count = 0 then Inr False
            else res_bind (unpack_names 3 (drop (length payload - 3) payload)) (\<lambda>c.
              (let spectral_start = c ! 0; spectral_end = c ! 1; approximation = c ! 2
               in if spectral_start > spectral_end \<or> spectral_end > 63 \<or> approximation div 16 > 13
                  then Inr False
                  else scan_loop payload frame (huffman st) spectral_start spectral_end
                         (py_range 1 (1 + 2 * scan_count) 2) {}))))"

text \<open>
  What follows a marker that starts a segment: the status that ends the loop, or the new
  offset and state.
\<close>

definition jpeg_segment :: "bytes \<Rightarrow> nat \<Rightarrow> nat \<Rightarrow> jpeg \<Rightarrow> (status + nat \<times> jpeg) result" where
  "jpeg_segment data marker offset st =
     (if offset + 2 > length data then Inr (Inl Invalid)
      else res_bind (unpack_be 2 (sub data offset (offset + 2))) (\<lambda>len.
        (let segment_end = offset + len; payload = sub data (offset + 2) segment_end
         in if len < 2 \<or> segment_end > length data then Inr (Inl Invalid)
            else res_bind (reads_tables marker payload st) (\<lambda>r. case r of
              None \<Rightarrow> Inr (Inl Invalid)
            | Some st1 \<Rightarrow> res_bind (reads_frame marker payload st1) (\<lambda>r. case r of
                None \<Rightarrow> Inr (Inl Invalid)
              | Some st2 \<Rightarrow>
                  if marker \<noteq> 0xDA then Inr (Inr (segment_end, st2))
                  else res_bind (reads_scan payload st2) (\<lambda>ok.
                    if \<not> ok then Inr (Inl Invalid)
                    else (case skip_entropy data segment_end False of
                            None \<Rightarrow> Inr (Inl Invalid)
                          | Some (offset', saw) \<Rightarrow> Inr (Inr (offset', st2\<lparr>saw_scan := saw\<rparr>)))))))))"

lemma jpeg_segment_advances:
  assumes "jpeg_segment data marker offset st = Inr (Inr (offset', st'))"
  shows "offset \<le> offset'"
  using assms skip_entropy_ge
  by (fastforce simp: jpeg_segment_def Let_def res_bind_eq_Inr split: if_splits option.splits prod.splits)

function jpeg_loop :: "bytes \<Rightarrow> nat \<Rightarrow> jpeg \<Rightarrow> status result" where
  "jpeg_loop data offset st =
     (if offset < length data then
        if data ! offset \<noteq> 0xFF then Inr Invalid
        else if skip_fill data offset \<ge> length data then Inr Invalid
        else (let marker = unat (data ! skip_fill data offset); next_offset = skip_fill data offset + 1
              in if marker = 0xD9 then
                   if \<not> (frame_components st \<noteq> None \<and> saw_scan st \<and> next_offset = length data) then Inr Invalid
                   else Inr (if jpeg_oversized st then TooLarge else Valid)
                 else if marker \<in> standalone_markers then jpeg_loop data next_offset st
                 else (case jpeg_segment data marker next_offset st of
                         Inl e \<Rightarrow> Inl e
                       | Inr (Inl s) \<Rightarrow> Inr s
                       | Inr (Inr (offset', st')) \<Rightarrow> jpeg_loop data offset' st'))
      else Inr Invalid)"
  by pat_completeness auto
termination
proof (relation "measure (\<lambda>(data, offset, st). length data - offset)", goal_cases)
  case (2 data offset st)
  then show ?case using skip_fill_ge [of offset data] by simp
next
  case (3 data offset st)
  then show ?case using skip_fill_ge [of offset data] jpeg_segment_advances by fastforce
qed simp

declare jpeg_loop.simps [simp del]

definition detect_jpeg :: "bytes \<Rightarrow> status option result" where
  "detect_jpeg data =
     (if take 2 data \<noteq> [0xFF, 0xD8] then Inr None else map_sum id Some (jpeg_loop data 2 new_jpeg))"

section \<open>WebP\<close>

record webp =
  saw_image :: bool
  saw_extended_header :: bool
  webp_oversized :: bool

definition new_webp :: webp where
  "new_webp = \<lparr>saw_image = False, saw_extended_header = False, webp_oversized = False\<rparr>"

text \<open>The three image chunks; \<open>None\<close> is the early return of \<open>"invalid"\<close>.\<close>

definition webp_lossy :: "bytes \<Rightarrow> webp \<Rightarrow> webp option result" where
  "webp_lossy payload st =
     (if length payload < 10 \<or> sub payload 3 6 \<noteq> [0x9D, 0x01, 0x2A] then Inr None
      else (let frame_tag = le_nat (take 3 payload); first_partition_length = frame_tag div 32
            in if odd frame_tag \<or> first_partition_length = 0 \<or> 10 + first_partition_length > length payload
               then Inr None
               else res_bind (unpack_le 2 (sub payload 6 8)) (\<lambda>w.
                 res_bind (unpack_le 2 (sub payload 8 10)) (\<lambda>h.
                   (let width = w mod 2 ^ 14; height = h mod 2 ^ 14
                    in if width = 0 \<or> height = 0 then Inr None
                       else Inr (Some (st\<lparr>webp_oversized := (webp_oversized st \<or> exceeds_caps width height),
                                         saw_image := True\<rparr>)))))))"

definition webp_lossless :: "bytes \<Rightarrow> webp \<Rightarrow> webp option result" where
  "webp_lossless payload st =
     (if length payload < 5 then Inr None
      else res_bind (byte_at payload 0) (\<lambda>b.
        if b \<noteq> 0x2F then Inr None
        else (let dimensions = le_nat (sub payload 1 5);
                  width = dimensions mod 2 ^ 14 + 1; height = dimensions div 2 ^ 14 mod 2 ^ 14 + 1
              in if dimensions div 2 ^ 29 \<noteq> 0 then Inr None
                 else Inr (Some (st\<lparr>webp_oversized := (webp_oversized st \<or> exceeds_caps width height),
                                   saw_image := True\<rparr>)))))"

definition webp_extended :: "nat \<Rightarrow> bytes \<Rightarrow> webp \<Rightarrow> webp option result" where
  "webp_extended offset payload st =
     (if saw_extended_header st \<or> offset \<noteq> 12 \<or> length payload \<noteq> 10 then Inr None
      else (let width = le_nat (sub payload 4 7) + 1; height = le_nat (sub payload 7 10) + 1
            in if width = 0 \<or> height = 0 then Inr None
               else Inr (Some (st\<lparr>webp_oversized := (webp_oversized st \<or> exceeds_caps width height),
                                 saw_extended_header := True\<rparr>))))"

definition webp_chunk :: "bytes \<Rightarrow> nat \<Rightarrow> bytes \<Rightarrow> webp \<Rightarrow> webp option result" where
  "webp_chunk chunk_type offset payload st =
     (if chunk_type = ascii ''VP8 '' then webp_lossy payload st
      else if chunk_type = ascii ''VP8L'' then webp_lossless payload st
      else if chunk_type = ascii ''VP8X'' then webp_extended offset payload st
      else Inr (Some st))"

function webp_loop :: "bytes \<Rightarrow> nat \<Rightarrow> webp \<Rightarrow> status result" where
  "webp_loop data offset st =
     (if offset < length data then
        if length data - offset < 8 then Inr Invalid
        else res_bind (unpack_le 4 (sub data (offset + 4) (offset + 8))) (\<lambda>len.
          (let payload_end = offset + 8 + len; padded_end = payload_end + len mod 2
           in if padded_end > length data then Inr Invalid
              else res_bind (webp_chunk (sub data offset (offset + 4)) offset (sub data (offset + 8) payload_end) st)
                (\<lambda>r. case r of None \<Rightarrow> Inr Invalid | Some st' \<Rightarrow> webp_loop data padded_end st')))
      else Inr (if \<not> (saw_image st \<and> offset = length data) then Invalid
                else if webp_oversized st then TooLarge else Valid))"
  by pat_completeness auto
termination by (relation "measure (\<lambda>(data, offset, st). length data - offset)") auto

declare webp_loop.simps [simp del]

definition detect_webp :: "bytes \<Rightarrow> status option result" where
  "detect_webp data =
     (if length data < 12 \<or> take 4 data \<noteq> ascii ''RIFF'' \<or> sub data 8 12 \<noteq> ascii ''WEBP'' then Inr None
      else res_bind (unpack_le 4 (sub data 4 8)) (\<lambda>n.
        if n + 8 \<noteq> length data then Inr (Some Invalid)
        else map_sum id Some (webp_loop data 12 new_webp)))"

section \<open>Detection\<close>

datatype reason = ReasonTooLarge | ReasonUnsupported

record detection =
  det_mime :: "string option"
  det_reason :: "reason option"

text \<open>The loop over the formats and their detectors.\<close>

fun try_detectors :: "(string \<times> (bytes \<Rightarrow> status option result)) list \<Rightarrow> bytes \<Rightarrow> detection result" where
  "try_detectors [] data = Inr \<lparr>det_mime = None, det_reason = Some ReasonUnsupported\<rparr>"
| "try_detectors ((mime, detector) # ds) data =
     res_bind (detector data) (\<lambda>s. case s of
       Some Valid \<Rightarrow> Inr \<lparr>det_mime = Some mime, det_reason = None\<rparr>
     | Some TooLarge \<Rightarrow> Inr \<lparr>det_mime = Some mime, det_reason = Some ReasonTooLarge\<rparr>
     | Some Invalid \<Rightarrow> Inr \<lparr>det_mime = None, det_reason = Some ReasonUnsupported\<rparr>
     | None \<Rightarrow> try_detectors ds data)"

definition detect_avatar :: "(bytes \<Rightarrow> zlib_calls) \<Rightarrow> bytes \<Rightarrow> detection result" where
  "detect_avatar zlib data =
     try_detectors [(''image/png'', detect_png zlib), (''image/jpeg'', detect_jpeg), (''image/webp'', detect_webp)] data"

definition detect_avatar_mime :: "(bytes \<Rightarrow> zlib_calls) \<Rightarrow> bytes \<Rightarrow> string option result" where
  "detect_avatar_mime zlib data =
     map_sum id (\<lambda>r. if det_reason r = None then det_mime r else None) (detect_avatar zlib data)"

end
