(* ===== verification/AvatarRows.thy ===== *)
theory AvatarRows imports Avatar begin

text \<open>
  The check of PNG image data against a reference on the whole decompressed stream: the walk over
  the pieces the decompressor returns keeps its place in the rows, so the check does not depend on
  where the stream is cut. Then the rows themselves, against the passes of the PNG standard.
\<close>

section \<open>The walk and its reference\<close>

text \<open>The stream is one filter byte of at most 4 and \<open>r\<close> bytes for every row of \<open>r\<close> bytes.\<close>

fun rows_ok :: "nat list \<Rightarrow> bytes \<Rightarrow> bool" where
  "rows_ok [] raw \<longleftrightarrow> raw = []"
| "rows_ok (r # rs) raw \<longleftrightarrow> 1 + r \<le> length raw \<and> unat (hd raw) \<le> 4 \<and> rows_ok rs (drop (1 + r) raw)"

definition stream_size :: "nat list \<Rightarrow> nat" where
  "stream_size rows = sum_list (map Suc rows)"

lemma stream_size_simps [simp]:
  "stream_size [] = 0" "stream_size (r # rs) = Suc r + stream_size rs"
  "stream_size (xs @ ys) = stream_size xs + stream_size ys"
  by (simp_all add: stream_size_def)

lemma rows_ok_length: "rows_ok rows raw \<Longrightarrow> length raw = stream_size rows"
  by (induction rows raw rule: rows_ok.induct) auto

text \<open>What the rest of the stream has to be, seen from a place in the walk.\<close>

definition rest_ok :: "row_walk \<Rightarrow> bytes \<Rightarrow> bool" where
  "rest_ok w raw \<longleftrightarrow> row_remaining w \<le> length raw \<and> rows_ok (rows_left w) (drop (row_remaining w) raw)"

definition walk_inv :: "nat \<Rightarrow> row_walk \<Rightarrow> bool" where
  "walk_inv expected w \<longleftrightarrow> rows_remaining w = length (rows_left w)
     \<and> raw_offset w + row_remaining w + stream_size (rows_left w) = expected"

lemma rest_ok_end: "walk_inv expected w \<Longrightarrow>
  rest_ok w [] \<longleftrightarrow> raw_offset w = expected \<and> row_remaining w = 0 \<and> rows_remaining w = 0"
  by (cases "rows_left w") (auto simp: rest_ok_def walk_inv_def)

text \<open>One call: the walk goes on with what is left of the stream, or the stream is wrong.\<close>

definition consumed :: "nat \<Rightarrow> bytes \<Rightarrow> row_walk \<Rightarrow> (bool \<times> row_walk) result \<Rightarrow> bool" where
  "consumed expected raw w r \<longleftrightarrow>
     (\<exists>w'. r = Inr (True, w') \<and> walk_inv expected w' \<and> (\<forall>later. rest_ok w (raw @ later) \<longleftrightarrow> rest_ok w' later))
     \<or> (\<exists>w'. r = Inr (False, w') \<and> (\<forall>later. \<not> rest_ok w (raw @ later)))"

lemma consumed_step:
  assumes "consumed expected raw' w' r"
    and "\<And>later. rest_ok w (raw @ later) \<longleftrightarrow> rest_ok w' (raw' @ later)"
  shows "consumed expected raw w r"
  using assms by (auto simp: consumed_def)

lemma rest_ok_skip:
  assumes "skipped \<le> row_remaining w" "skipped \<le> length raw"
  shows "rest_ok w (raw @ later) \<longleftrightarrow>
    rest_ok (w\<lparr>row_remaining := row_remaining w - skipped, raw_offset := raw_offset w + skipped\<rparr>)
      (drop skipped raw @ later)"
  using assms by (auto simp: rest_ok_def)

lemma rest_ok_filter_byte:
  assumes "row_remaining w = 0" "rows_left w = r # rs" "raw \<noteq> []" "unat (hd raw) \<le> 4"
  shows "rest_ok w (raw @ later) \<longleftrightarrow>
    rest_ok \<lparr>raw_offset = a, row_remaining = r, rows_remaining = b, rows_left = rs\<rparr> (tl raw @ later)"
  using assms by (cases raw) (auto simp: rest_ok_def)

lemma consume_loop_consumed:
  "walk_inv expected w \<Longrightarrow> consumed expected (drop offset raw) w (consume_loop expected raw offset w)"
proof (induction expected raw offset w rule: consume_loop.induct)
  case (1 expected raw offset w)
  note inv = 1(3)
  let ?raw = "drop offset raw"
  show ?case
  proof (cases "offset < length raw")
    case False
    then show ?thesis using inv by (simp add: consume_loop.simps [of _ raw offset] consumed_def)
  next
    case inside: True
    then have raw: "?raw = raw ! offset # drop (Suc offset) raw" by (simp add: Cons_nth_drop_Suc)
    consider (full) "expected \<le> raw_offset w"
      | (bad_filter) "raw_offset w < expected" "row_remaining w = 0"
          "unat (raw ! offset) > 4 \<or> rows_remaining w = 0"
      | (filter_byte) "raw_offset w < expected" "row_remaining w = 0"
          "unat (raw ! offset) \<le> 4" "rows_remaining w \<noteq> 0"
      | (skip) "raw_offset w < expected" "row_remaining w \<noteq> 0"
      by linarith
    then show ?thesis
    proof cases
      case full
      then have "row_remaining w = 0" "rows_left w = []"
        using inv by (cases "rows_left w"; simp add: walk_inv_def)+
      then show ?thesis
        using inside full raw by (simp add: consume_loop.simps [of _ raw offset] consumed_def rest_ok_def)
    next
      case bad_filter
      have "\<not> rest_ok w (?raw @ later)" for later
        using bad_filter inv raw by (cases "rows_left w") (auto simp: rest_ok_def walk_inv_def)
      then show ?thesis
        using inside bad_filter by (simp add: consume_loop.simps [of _ raw offset] consumed_def)
    next
      case filter_byte
      obtain r rs where left: "rows_left w = r # rs"
        using filter_byte inv by (cases "rows_left w") (auto simp: walk_inv_def)
      let ?w = "\<lparr>raw_offset = raw_offset w + 1, row_remaining = r, rows_remaining = rows_remaining w - 1,
                 rows_left = rs\<rparr>"
      have "walk_inv expected ?w" using inv left filter_byte by (simp add: walk_inv_def)
      then have "consumed expected (drop (offset + 1) raw) ?w (consume_loop expected raw (offset + 1) ?w)"
        using 1(1) inside filter_byte left by (metis not_le not_less)
      moreover have "rest_ok w (?raw @ later) = rest_ok ?w (drop (offset + 1) raw @ later)" for later
        using rest_ok_filter_byte [of w r rs ?raw] filter_byte left raw by simp
      ultimately have "consumed expected ?raw w (consume_loop expected raw (offset + 1) ?w)"
        by (rule consumed_step)
      then show ?thesis using inside filter_byte left by (simp add: consume_loop.simps [of _ raw offset])
    next
      case skip
      let ?n = "min (row_remaining w) (length raw - offset)"
      let ?w = "w\<lparr>row_remaining := row_remaining w - ?n, raw_offset := raw_offset w + ?n\<rparr>"
      have "walk_inv expected ?w" using inv by (auto simp: walk_inv_def)
      then have "consumed expected (drop (offset + ?n) raw) ?w (consume_loop expected raw (offset + ?n) ?w)"
        using 1(2) inside skip by (metis not_le)
      moreover have "rest_ok w (?raw @ later) = rest_ok ?w (drop (offset + ?n) raw @ later)" for later
        using rest_ok_skip [of ?n w ?raw later] by (simp add: add.commute)
      ultimately have "consumed expected ?raw w (consume_loop expected raw (offset + ?n) ?w)"
        by (rule consumed_step)
      then show ?thesis using inside skip by (simp add: consume_loop.simps [of _ raw offset] Let_def)
    qed
  qed
qed

lemma consume_cases:
  assumes "walk_inv expected w"
  obtains (goes_on) w' where "consume expected raw w = Inr (True, w')" "walk_inv expected w'"
      "\<And>later. rest_ok w (raw @ later) \<longleftrightarrow> rest_ok w' later"
    | (wrong) w' where "consume expected raw w = Inr (False, w')" "\<And>later. \<not> rest_ok w (raw @ later)"
  using consume_loop_consumed [OF assms, of 0 raw] by (auto simp: consumed_def consume_def)


section \<open>The whole stream\<close>

primrec piece :: "zlib_call \<Rightarrow> bytes" where
  "piece (Returned raw) = raw"
| "piece ZlibError = []"

definition zlib_stream :: "zlib_calls \<Rightarrow> bytes" where
  "zlib_stream z = concat (map (piece \<circ> fst) (zc_decompress z)) @ concat (map piece (zc_flush z))"

definition zlib_clean :: "zlib_calls \<Rightarrow> bool" where
  "zlib_clean z \<longleftrightarrow> list_all (\<lambda>(c, unused). c \<noteq> ZlibError \<and> \<not> unused) (zc_decompress z)
     \<and> list_all (\<lambda>c. c \<noteq> ZlibError \<and> c \<noteq> Returned []) (zc_flush z) \<and> \<not> zc_leftover z"

text \<open>The two loops agree with the walk on the concatenated pieces.\<close>

definition walked :: "nat \<Rightarrow> bool \<Rightarrow> bytes \<Rightarrow> row_walk \<Rightarrow> row_walk option result \<Rightarrow> bool" where
  "walked expected clean raw w r \<longleftrightarrow>
     (\<exists>w'. r = Inr (Some w') \<and> clean \<and> walk_inv expected w' \<and> (\<forall>later. rest_ok w (raw @ later) \<longleftrightarrow> rest_ok w' later))
     \<or> (r = Inr None \<and> (clean \<longrightarrow> (\<forall>later. \<not> rest_ok w (raw @ later))))"

lemma walked_unclean: "walked expected False raw w (Inr None)"
  by (simp add: walked_def)

lemma walked_wrong: "(\<And>later. \<not> rest_ok w (raw @ later)) \<Longrightarrow> walked expected clean (raw @ raws) w (Inr None)"
  by (simp add: walked_def)

lemma walked_Cons:
  assumes "walked expected clean raws w' r" "\<And>later. rest_ok w (raw @ later) \<longleftrightarrow> rest_ok w' later"
  shows "walked expected clean (raw @ raws) w r"
  using assms by (auto simp: walked_def)

lemma decompress_loop_walked:
  "walk_inv expected w \<Longrightarrow>
   walked expected (list_all (\<lambda>(c, unused). c \<noteq> ZlibError \<and> \<not> unused) calls)
     (concat (map (piece \<circ> fst) calls)) w (decompress_loop expected calls w)"
proof (induction expected calls w rule: decompress_loop.induct)
  case (1 expected w)
  then show ?case by (simp add: walked_def)
next
  case (2 expected uu calls w)
  then show ?case by (simp add: walked_unclean)
next
  case (3 expected raw unused calls w)
  show ?case
    using 3(2)
  proof (cases rule: consume_cases [where raw = raw])
    case (goes_on w')
    then show ?thesis
      using 3(1) [OF goes_on(1) refl] by (cases unused) (auto simp: walked_unclean intro: walked_Cons)
  next
    case (wrong w')
    then show ?thesis by (simp add: walked_wrong)
  qed
qed

lemma flush_loop_walked:
  "walk_inv expected w \<Longrightarrow>
   walked expected (list_all (\<lambda>c. c \<noteq> ZlibError \<and> c \<noteq> Returned []) calls)
     (concat (map piece calls)) w (flush_loop expected calls w)"
proof (induction expected calls w rule: flush_loop.induct)
  case (1 expected w)
  then show ?case by (simp add: walked_def)
next
  case (2 expected calls w)
  then show ?case by (simp add: walked_unclean)
next
  case (3 expected raw calls w)
  show ?case
    using 3(2)
  proof (cases rule: consume_cases [where raw = raw])
    case (goes_on w')
    then show ?thesis
      using 3(1) [OF _ goes_on(1) refl] by (cases "raw = []") (auto simp: walked_unclean intro: walked_Cons)
  next
    case (wrong w')
    then show ?thesis by (cases "raw = []") (simp_all add: walked_wrong walked_unclean)
  qed
qed

section \<open>The rows of an image\<close>

lemma row_bytes_iter_length: "length (row_bytes_iter width height bit_depth color_type interlace) = rows_total height interlace"
  by (simp add: row_bytes_iter_def rows_total_def length_concat pass_height_def pass_extent_def png_passes_def)

lemma row_bytes_iter_size:
  "stream_size (row_bytes_iter width height bit_depth color_type interlace) =
   expected_size width height bit_depth color_type interlace"
proof -
  have "stream_size (replicate n r) = n * (1 + r)" for n r
    by (induction n) simp_all
  then show ?thesis
    by (simp add: row_bytes_iter_def expected_size_def png_passes_def)
qed

text \<open>
  The standard's rows (PNG, section 8.2): a pass that has no columns or no rows is empty, with no
  filter bytes.
\<close>

definition standard_rows :: "nat \<Rightarrow> nat \<Rightarrow> nat \<Rightarrow> nat \<Rightarrow> nat \<Rightarrow> nat list" where
  "standard_rows width height bit_depth color_type interlace =
     concat (map (\<lambda>p. replicate (pass_height height p) (pass_row_bytes width bit_depth color_type p))
       (filter (\<lambda>(start_x, _, step_x, _). pass_extent width start_x step_x > 0) (png_passes interlace)))"

lemma standard_rows_wide:
  assumes "0 < width" "interlace = 0 \<or> 4 < width"
  shows "row_bytes_iter width height bit_depth color_type interlace =
    standard_rows width height bit_depth color_type interlace"
  using assms by (auto simp: row_bytes_iter_def standard_rows_def png_passes_def pass_extent_def div_greater_zero_iff)

lemma standard_rows_narrow:
  assumes "0 < width" "0 < height" "interlace \<noteq> 0" "width \<le> 4"
  shows "stream_size (standard_rows width height bit_depth color_type interlace)
    < expected_size width height bit_depth color_type interlace"
proof -
  have rep: "stream_size (replicate n r) = n * (1 + r)" for n r
    by (induction n) simp_all
  have pos: "0 < pass_height height (4, 0, 8, 8)"
    using assms by (simp add: pass_height_def pass_extent_def div_greater_zero_iff)
  show ?thesis
    using assms pos
    by (auto simp: standard_rows_def expected_size_def png_passes_def rep pass_extent_def)
qed

lemma png_image_data_spec:
  "png_image_data_is_valid zlib compressed width height bit_depth color_type interlace =
     Inr (zlib_clean (zlib compressed)
       \<and> rows_ok (row_bytes_iter width height bit_depth color_type interlace) (zlib_stream (zlib compressed)))"
proof -
  let ?z = "zlib compressed"
  let ?e = "expected_size width height bit_depth color_type interlace"
  let ?rows = "row_bytes_iter width height bit_depth color_type interlace"
  let ?w0 = "\<lparr>raw_offset = 0, row_remaining = 0, rows_remaining = rows_total height interlace, rows_left = ?rows\<rparr>"
  let ?d = "decompress_loop ?e (zc_decompress ?z) ?w0"
  have inv0: "walk_inv ?e ?w0" by (simp add: walk_inv_def row_bytes_iter_length row_bytes_iter_size)
  have rows: "rows_ok ?rows raw \<longleftrightarrow> rest_ok ?w0 raw" for raw by (simp add: rest_ok_def)
  note d = decompress_loop_walked [OF inv0, of "zc_decompress ?z"]
  show ?thesis
  proof (cases "?d = Inr None")
    case True
    then have "\<not> (zlib_clean ?z \<and> rows_ok ?rows (zlib_stream ?z))"
      using d by (auto simp: walked_def zlib_clean_def zlib_stream_def rows)
    then show ?thesis using True by (simp add: png_image_data_is_valid_def Let_def)
  next
    case False
    then obtain w1 where w1: "?d = Inr (Some w1)" "walk_inv ?e w1"
        "list_all (\<lambda>(c, unused). c \<noteq> ZlibError \<and> \<not> unused) (zc_decompress ?z)"
        "\<And>later. rest_ok ?w0 (concat (map (piece \<circ> fst) (zc_decompress ?z)) @ later) \<longleftrightarrow> rest_ok w1 later"
      using d by (auto simp: walked_def)
    let ?f = "flush_loop ?e (zc_flush ?z) w1"
    note f = flush_loop_walked [OF w1(2), of "zc_flush ?z"]
    show ?thesis
    proof (cases "?f = Inr None")
      case True
      then have "\<not> (zlib_clean ?z \<and> rest_ok w1 (concat (map piece (zc_flush ?z))))"
        using f by (auto simp: walked_def zlib_clean_def) (metis append_Nil2)
      then show ?thesis
        using True w1 by (auto simp: png_image_data_is_valid_def Let_def rows zlib_stream_def)
    next
      case False
      then obtain w where w: "?f = Inr (Some w)" "walk_inv ?e w"
          "list_all (\<lambda>c. c \<noteq> ZlibError \<and> c \<noteq> Returned []) (zc_flush ?z)"
          "\<And>later. rest_ok w1 (concat (map piece (zc_flush ?z)) @ later) \<longleftrightarrow> rest_ok w later"
        using f by (auto simp: walked_def)
      have "rows_ok ?rows (zlib_stream ?z) \<longleftrightarrow> rest_ok w []"
        using w1(4) w(4) [of "[]"] by (simp add: rows zlib_stream_def)
      then show ?thesis
        using w1 w rest_ok_end [OF w(2)]
        by (auto simp: png_image_data_is_valid_def Let_def zlib_clean_def)
    qed
  qed
qed

end
