(* ===== verification/AvatarChecks.thy ===== *)
theory AvatarChecks imports AvatarRows begin

text \<open>
  What \<open>detect_avatar\<close> promises: it returns for every upload; the images it accepts are within the
  caps; an image over the caps is never inflated; the PNG image data it accepts is exactly the rows
  it counts, which are the standard's unless the image is interlaced and at most four pixels wide.
\<close>

section \<open>No exception\<close>

lemma png_image_data_returns [returning]:
  "returns (png_image_data_is_valid zlib compressed width height bit_depth color_type interlace)"
  by (simp add: returns_def png_image_data_spec)

lemma png_header_returns:
  "length payload = len \<Longrightarrow> returns (png_header chunk_type len payload st)"
  unfolding png_header_def Let_def by (intro returning) simp_all

lemma png_chunk_returns:
  "length chunk_type = 4 \<Longrightarrow> length payload = len \<Longrightarrow> returns (png_chunk zlib chunk_type len payload at_end st)"
  unfolding png_chunk_def png_end_def by (intro returning png_header_returns) simp_all

lemma png_loop_returns: "returns (png_loop zlib data offset st)"
proof (induction zlib data offset st rule: png_loop.induct)
  case (1 zlib data offset st)
  show ?case
    by (subst png_loop.simps, unfold Let_def, intro returning png_chunk_returns 1) (simp_all add: min_def)
qed


lemma quantization_tables_returns [returning]: "returns (quantization_tables payload offset tables)"
proof (induction payload offset tables rule: quantization_tables.induct)
  case (1 payload offset tables)
  show ?case by (subst quantization_tables.simps, unfold Let_def, intro returning 1) auto
qed

lemma huffman_tables_returns [returning]: "returns (huffman_tables payload offset tables)"
proof (induction payload offset tables rule: huffman_tables.induct)
  case (1 payload offset tables)
  show ?case by (subst huffman_tables.simps, unfold Let_def, intro returning 1) auto
qed

lemma frame_loop_returns:
  "(\<And>p. p \<in> set ps \<Longrightarrow> p + 3 \<le> length payload) \<Longrightarrow> returns (frame_loop payload quant ps seen)"
proof (induction payload quant ps seen rule: frame_loop.induct)
  case (2 payload quant p ps seen)
  have "3 \<le> length payload - p" using 2(2) [of p] by simp
  then show ?case
    by (simp only: frame_loop.simps Let_def, intro returning 2) (auto simp: 2 min_def)
qed (simp add: returning)

lemma scan_loop_returns:
  "(\<And>p. p \<in> set ps \<Longrightarrow> p + 2 \<le> length payload) \<Longrightarrow> returns (scan_loop payload frame huff s e ps seen)"
proof (induction payload frame huff s e ps seen rule: scan_loop.induct)
  case (2 payload frame huff s e p ps seen)
  have "2 \<le> length payload - p" using 2(2) [of p] by simp
  then show ?case
    by (simp only: scan_loop.simps Let_def, intro returning 2) (auto simp: 2 min_def)
qed (simp add: returning)

lemma reads_tables_returns [returning]: "returns (reads_tables marker payload st)"
  unfolding reads_tables_def by (intro returning)

lemma py_range_last: "p \<in> set (py_range a b step) \<Longrightarrow> 0 < step \<Longrightarrow> step dvd b - a \<Longrightarrow> p + step \<le> b"
proof -
  assume p: "p \<in> set (py_range a b step)" and "0 < step" "step dvd b - a"
  then obtain k where k: "b - a = step * k" by (auto simp: dvd_def)
  have "(b - a + step - 1) div step = k"
    using \<open>0 < step\<close> by (intro div_nat_eqI) (auto simp: k algebra_simps)
  then obtain i where i: "i < k" "p = a + step * i" using p by (auto simp: py_range_def)
  have "step * Suc i \<le> step * k" using i by (intro mult_le_mono2) simp
  moreover have "0 < k" using i by simp
  ultimately show ?thesis using i k \<open>0 < step\<close> by (cases "a \<le> b") auto
qed

lemma reads_frame_returns [returning]: "returns (reads_frame marker payload st)"
proof -
  have "returns (frame_loop payload quant (py_range 6 (length payload) 3) {})"
    if "length payload = 6 + 3 * n" for quant n
    by (rule frame_loop_returns, erule py_range_last) (simp_all add: that)
  then show ?thesis
    unfolding reads_frame_def by (intro returning) (auto simp: not_less)
qed

lemma reads_scan_returns [returning]: "returns (reads_scan payload st)"
proof -
  have "returns (scan_loop payload frame huff s e (py_range 1 (1 + 2 * n) 2) {})"
    if "length payload = 4 + 2 * n" for frame huff s e n
    by (rule scan_loop_returns, drule py_range_last) (simp_all add: that)
  then show ?thesis
    unfolding reads_scan_def Let_def by (intro returning) auto
qed

lemma jpeg_segment_returns: "returns (jpeg_segment data marker offset st)"
  unfolding jpeg_segment_def Let_def
  by (intro returning) (auto simp: returns_def split: option.splits)

lemma jpeg_loop_returns: "returns (jpeg_loop data offset st)"
proof (induction data offset st rule: jpeg_loop.induct)
  case (1 data offset st)
  let ?m = "unat (data ! skip_fill data offset)"
  let ?n = "skip_fill data offset + 1"
  obtain r where r: "jpeg_segment data ?m ?n st = Inr r"
    using jpeg_segment_returns [of data ?m ?n st] by (auto simp: returns_def)
  show ?case
  proof (cases r)
    case (Inl s)
    then show ?thesis
      by (subst jpeg_loop.simps, unfold Let_def r, intro returning 1) (simp_all add: returns_Inr)
  next
    case (Inr p)
    then obtain offset' st' where p: "r = Inr (offset', st')" by (cases p) simp
    show ?thesis
      by (subst jpeg_loop.simps, unfold Let_def r p sum.case prod.case, intro returning 1) (use r p in simp_all)
  qed
qed

lemma webp_chunk_returns [returning]: "returns (webp_chunk chunk_type offset payload st)"
  unfolding webp_chunk_def webp_lossy_def webp_lossless_def webp_extended_def Let_def
  by (intro returning) (auto simp: min_def)

lemma webp_loop_returns [returning]: "returns (webp_loop data offset st)"
proof (induction data offset st rule: webp_loop.induct)
  case (1 data offset st)
  show ?case by (subst webp_loop.simps, unfold Let_def, intro returning 1) (simp_all add: min_def)
qed

lemma detect_png_returns [returning]: "returns (detect_png zlib data)"
  unfolding detect_png_def by (intro returning png_loop_returns)

lemma detect_jpeg_returns [returning]: "returns (detect_jpeg data)"
  unfolding detect_jpeg_def by (intro returning jpeg_loop_returns)

lemma detect_webp_returns [returning]: "returns (detect_webp data)"
  unfolding detect_webp_def by (intro returning) auto

text \<open>A detection's two fields: a type on success and when too large, none when unsupported.\<close>

definition detection_wf :: "detection \<Rightarrow> bool" where
  "detection_wf d \<longleftrightarrow>
     (case det_mime d of
        None \<Rightarrow> det_reason d = Some ReasonUnsupported
      | Some m \<Rightarrow> det_reason d \<noteq> Some ReasonUnsupported \<and> m \<in> {''image/png'', ''image/jpeg'', ''image/webp''})"

lemma try_detectors_wf:
  "(\<And>m f. (m, f) \<in> set ds \<Longrightarrow> m \<in> {''image/png'', ''image/jpeg'', ''image/webp''} \<and> returns (f data)) \<Longrightarrow>
   \<exists>d. try_detectors ds data = Inr d \<and> detection_wf d"
proof (induction ds data rule: try_detectors.induct)
  case (1 data)
  then show ?case by (simp add: detection_wf_def)
next
  case (2 mime detector ds data)
  obtain s where s: "detector data = Inr s" using 2(2) [of mime detector] by (auto simp: returns_def)
  have mime: "mime \<in> {''image/png'', ''image/jpeg'', ''image/webp''}" using 2(2) [of mime detector] by simp
  show ?case
  proof (cases s)
    case None
    have "\<exists>d. try_detectors ds data = Inr d \<and> detection_wf d"
      using 2(2) by (intro 2(1) [OF s None]) auto
    then show ?thesis by (simp add: s None)
  next
    case (Some st)
    then show ?thesis using mime by (cases st) (simp_all add: s detection_wf_def)
  qed
qed

text \<open>
  Whatever the upload and whatever the decompressor does, \<open>detect_avatar\<close> returns: no unpacking
  of a short slice, no index out of range and no \<open>StopIteration\<close> from the row iterator. Its result is
  one of the three types accepted or too large, or no type and \<open>unsupported\<close>, and
  \<open>detect_avatar_mime\<close> is the type exactly when the image was accepted.
\<close>

theorem avatar_detection_total:
  "\<exists>d. detect_avatar zlib data = Inr d \<and> detection_wf d
     \<and> detect_avatar_mime zlib data = Inr (if det_reason d = None then det_mime d else None)"
proof -
  have "\<exists>d. detect_avatar zlib data = Inr d \<and> detection_wf d"
    unfolding detect_avatar_def by (rule try_detectors_wf) (auto intro: returning)
  then show ?thesis by (auto simp: detect_avatar_mime_def)
qed


section \<open>Accepted PNG images\<close>

text \<open>The header's fields, once read, are not read again.\<close>

definition same_header :: "png \<Rightarrow> png \<Rightarrow> bool" where
  "same_header st st' \<longleftrightarrow> saw_ihdr st' = saw_ihdr st \<and> png_oversized st' = png_oversized st
     \<and> png_width st' = png_width st \<and> png_height st' = png_height st
     \<and> png_bit_depth st' = png_bit_depth st \<and> png_color_type st' = png_color_type st
     \<and> png_interlace st' = png_interlace st"

lemma png_chunk_same_header:
  "png_chunk zlib chunk_type len payload at_end st = Inr (Inr st') \<Longrightarrow> saw_ihdr st \<Longrightarrow> same_header st st'"
  by (auto simp: png_chunk_def same_header_def res_bind_eq_Inr split: if_splits)

lemma same_header_trans: "same_header a b \<Longrightarrow> same_header b c \<Longrightarrow> same_header a c"
  by (simp add: same_header_def)

text \<open>One turn of the loop, from the outcome and towards it.\<close>

definition chunk_checks :: "bytes \<Rightarrow> nat \<Rightarrow> nat \<Rightarrow> bool" where
  "chunk_checks data offset len \<longleftrightarrow> len = be_nat (sub data offset (offset + 4)) \<and> offset + 12 + len \<le> length data
     \<and> crc32 (sub data (offset + 4) (offset + 8) @ sub data (offset + 8) (offset + 8 + len))
         = be_nat (sub data (offset + 8 + len) (offset + 12 + len))"

definition chunk_at ::
  "(bytes \<Rightarrow> zlib_calls) \<Rightarrow> bytes \<Rightarrow> nat \<Rightarrow> nat \<Rightarrow> png \<Rightarrow> (status + png) result" where
  "chunk_at zlib data offset len st =
     png_chunk zlib (sub data (offset + 4) (offset + 8)) len (sub data (offset + 8) (offset + 8 + len))
       (offset + 12 + len = length data) st"

lemma png_loop_eq:
  "png_loop zlib data offset st =
     (if \<exists>len. chunk_checks data offset len then
        (let len = be_nat (sub data offset (offset + 4))
         in res_bind (chunk_at zlib data offset len st)
              (\<lambda>r. case r of Inl s \<Rightarrow> Inr s | Inr st' \<Rightarrow> png_loop zlib data (offset + 12 + len) st'))
      else Inr Invalid)"
  by (subst png_loop.simps)
    (auto simp: chunk_checks_def chunk_at_def Let_def unpack_be_def)

lemma png_loop_outcome:
  assumes "png_loop zlib data offset st = Inr s" "s \<noteq> Invalid"
  obtains len r where "chunk_checks data offset len" "chunk_at zlib data offset len st = Inr r"
    "(case r of Inl s \<Rightarrow> Inr s | Inr st' \<Rightarrow> png_loop zlib data (offset + 12 + len) st') = Inr s"
proof -
  obtain len where len: "chunk_checks data offset len" and "len = be_nat (sub data offset (offset + 4))"
    using assms by (subst (asm) png_loop_eq) (auto simp: chunk_checks_def split: if_splits)
  then have "png_loop zlib data offset st = res_bind (chunk_at zlib data offset len st)
      (\<lambda>r. case r of Inl s \<Rightarrow> Inr s | Inr st' \<Rightarrow> png_loop zlib data (offset + 12 + len) st')"
    by (subst png_loop_eq) (auto simp: Let_def)
  then have "res_bind (chunk_at zlib data offset len st)
      (\<lambda>r. case r of Inl s \<Rightarrow> Inr s | Inr st' \<Rightarrow> png_loop zlib data (offset + 12 + len) st') = Inr s"
    using assms(1) by simp
  then show ?thesis using len that by (auto simp: res_bind_eq_Inr)
qed

lemma png_loop_goes_on:
  "chunk_checks data offset len \<Longrightarrow> chunk_at zlib data offset len st = Inr (Inr st') \<Longrightarrow>
   png_loop zlib data offset st = png_loop zlib data (offset + 12 + len) st'"
  by (subst png_loop_eq) (auto simp: chunk_checks_def)

lemma png_chunk_valid:
  assumes "png_chunk zlib chunk_type len payload at_end st = Inr (Inl Valid)" "saw_ihdr st"
  shows "\<not> png_oversized st \<and>
    png_image_data_is_valid zlib (concat (idat_parts st)) (png_width st) (png_height st)
      (png_bit_depth st) (png_color_type st) (png_interlace st) = Inr True"
  using assms by (auto simp: png_chunk_def png_end_def res_bind_eq_Inr split: if_splits)

lemma png_loop_valid:
  "png_loop zlib data offset st = Inr Valid \<Longrightarrow> saw_ihdr st \<Longrightarrow>
   \<not> png_oversized st \<and> (\<exists>idat. png_image_data_is_valid zlib idat (png_width st) (png_height st)
     (png_bit_depth st) (png_color_type st) (png_interlace st) = Inr True)"
proof (induction "length data - offset" arbitrary: offset st rule: less_induct)
  case less
  obtain len r where r: "chunk_checks data offset len" "chunk_at zlib data offset len st = Inr r"
      "(case r of Inl s \<Rightarrow> Inr s | Inr st' \<Rightarrow> png_loop zlib data (offset + 12 + len) st') = Inr Valid"
    using png_loop_outcome [OF less(2)] by blast
  show ?case
  proof (cases r)
    case (Inl s)
    then have "chunk_at zlib data offset len st = Inr (Inl Valid)" using r by simp
    then show ?thesis using png_chunk_valid less(3) unfolding chunk_at_def by blast
  next
    case (Inr st')
    then have "same_header st st'" using r png_chunk_same_header less(3) unfolding chunk_at_def by blast
    moreover have "\<not> png_oversized st' \<and> (\<exists>idat. png_image_data_is_valid zlib idat (png_width st') (png_height st')
        (png_bit_depth st') (png_color_type st') (png_interlace st') = Inr True)"
      using r Inr less(3) \<open>same_header st st'\<close>
      by (intro less(1) [of "offset + 12 + len"]) (auto simp: same_header_def chunk_checks_def)
    ultimately show ?thesis by (simp add: same_header_def)
  qed
qed

text \<open>The first chunk of an accepted file is its header.\<close>

definition ihdr_width :: "bytes \<Rightarrow> nat" where "ihdr_width data = be_nat (sub data 16 20)"
definition ihdr_height :: "bytes \<Rightarrow> nat" where "ihdr_height data = be_nat (sub data 20 24)"

definition ihdr_byte :: "bytes \<Rightarrow> nat \<Rightarrow> nat" where "ihdr_byte data i = unat (data ! (24 + i))"

definition read_header :: "bytes \<Rightarrow> png" where
  "read_header data = new_png\<lparr>saw_ihdr := True,
     png_oversized := exceeds_caps (ihdr_width data) (ihdr_height data),
     png_width := ihdr_width data, png_height := ihdr_height data, png_bit_depth := ihdr_byte data 0,
     png_color_type := ihdr_byte data 1, png_interlace := ihdr_byte data 4\<rparr>"

lemma png_header_read:
  assumes "33 \<le> length data"
    and "png_header chunk_type 13 (sub data 16 29) new_png = Inr (Inr st)"
  shows "st = read_header data \<and> 0 < ihdr_width data \<and> 0 < ihdr_height data
    \<and> ihdr_byte data 0 \<in> valid_depths (ihdr_byte data 1) \<and> ihdr_byte data 4 \<in> {0, 1}"
proof -
  have "unat (sub data 16 29 ! (8 + i)) = ihdr_byte data i" if "i < 5" for i
    using that assms(1) by (simp add: ihdr_byte_def nth_slice)
  from this [of 0] this [of 1] this [of 4] show ?thesis
    using assms
    by (simp add: png_header_def Let_def res_bind_eq_Inr unpack_be_eq unpack_names_def sub_sub read_header_def
        ihdr_width_def ihdr_height_def split: if_splits)
qed

lemma detect_png_first_chunk:
  assumes "detect_png zlib data = Inr (Some s)" "s \<noteq> Invalid"
  shows "33 \<le> length data \<and> 0 < ihdr_width data \<and> 0 < ihdr_height data
    \<and> ihdr_byte data 0 \<in> valid_depths (ihdr_byte data 1) \<and> ihdr_byte data 4 \<in> {0, 1}
    \<and> (\<forall>zlib. detect_png zlib data = map_sum id Some (png_loop zlib data 33 (read_header data)))"
proof -
  have sig: "take 8 data = png_signature"
    using assms by (auto simp: detect_png_def split: if_splits)
  then have loop: "png_loop zlib data 8 new_png = Inr s"
    using assms by (cases "png_loop zlib data 8 new_png") (auto simp: detect_png_def)
  obtain len r where r: "chunk_checks data 8 len" "chunk_at zlib data 8 len new_png = Inr r"
      "(case r of Inl s \<Rightarrow> Inr s | Inr st' \<Rightarrow> png_loop zlib data (8 + 12 + len) st') = Inr s"
    using png_loop_outcome [OF loop assms(2)] by blast
  have hd: "chunk_at z data 8 len new_png = png_header (sub data 12 16) len (sub data 16 (16 + len)) new_png" for z
    by (simp add: chunk_at_def png_chunk_def new_png_def)
  obtain st where st: "r = Inr st" "len = 13"
    using r assms(2) unfolding hd
    by (auto simp: png_header_def res_bind_eq_Inr Let_def split: if_splits)
  have long: "33 \<le> length data" using r st by (simp add: chunk_checks_def)
  note read = png_header_read [OF long, of "sub data 12 16" st]
  have "chunk_at z data 8 13 new_png = Inr (Inr (read_header data))" for z
    using r st read hd [of z] hd [of zlib] by simp
  then have "detect_png z data = map_sum id Some (png_loop z data 33 (read_header data))" for z
    using png_loop_goes_on [of data 8 13 z new_png "read_header data"] r st sig by (simp add: detect_png_def)
  then show ?thesis using r st read long unfolding hd by simp
qed


section \<open>Concrete images\<close>

text \<open>A one-pixel grey image, its compressed data, and a decompressor that knows it.\<close>

definition pixel_idat :: bytes where
  "pixel_idat = [120, 156, 99, 248, 15, 0, 1, 1, 1, 0]"

definition pixel_zlib :: "bytes \<Rightarrow> zlib_calls" where
  "pixel_zlib c = (if c = pixel_idat
     then \<lparr>zc_decompress = [(Returned [0, 255], False)], zc_flush = [], zc_leftover = False\<rparr>
     else \<lparr>zc_decompress = [(ZlibError, False)], zc_flush = [], zc_leftover = False\<rparr>)"

definition pixel_png :: bytes where
  "pixel_png = [137, 80, 78, 71, 13, 10, 26, 10, 0, 0, 0, 13, 73, 72, 68, 82, 0, 0, 0, 1, 0, 0, 0, 1, 8, 0, 0,
     0, 0, 58, 126, 155, 85, 0, 0, 0, 10, 73, 68, 65, 84, 120, 156, 99, 248, 15, 0, 1, 1, 1, 0,
     177, 56, 246, 20, 0, 0, 0, 0, 73, 69, 78, 68, 174, 66, 96, 130]"

text \<open>The same image with a declared width of 9000.\<close>

definition wide_png :: bytes where
  "wide_png = [137, 80, 78, 71, 13, 10, 26, 10, 0, 0, 0, 13, 73, 72, 68, 82, 0, 0, 35, 40, 0, 0, 0, 1, 8, 0,
     0, 0, 0, 150, 72, 90, 153, 0, 0, 0, 10, 73, 68, 65, 84, 120, 156, 99, 248, 15, 0, 1, 1, 1, 0,
     177, 56, 246, 20, 0, 0, 0, 0, 73, 69, 78, 68, 174, 66, 96, 130]"

lemmas png_eval = png_loop.simps [of _ _ "numeral n" for n] Prelude.slice_def unpack_be_def unpack_names_def be_nat_def
  ascii_def of_char_def crc_eval png_chunk_def png_header_def png_end_def valid_depths_def byte_at_def
  exceeds_caps_def MAX_AVATAR_PIXELS_def MAX_AVATAR_SIDE_def new_png_def

lemma pixel_png_accepted:
  "detect_avatar pixel_zlib pixel_png = Inr \<lparr>det_mime = Some ''image/png'', det_reason = None\<rparr>"
proof -
  have "png_image_data_is_valid pixel_zlib pixel_idat 1 1 8 0 0 = Inr True"
    by (simp add: png_image_data_spec pixel_zlib_def zlib_clean_def zlib_stream_def row_bytes_iter_def
        png_passes_def pass_height_def pass_row_bytes_def pass_extent_def channels_def)
  then have "png_loop pixel_zlib pixel_png 8 new_png = Inr Valid"
    by (simp add: png_eval pixel_png_def pixel_idat_def Let_def)
  then show ?thesis
    by (simp add: detect_avatar_def detect_png_def pixel_png_def png_signature_def)
qed

section \<open>The properties\<close>

lemma detect_avatar_png:
  assumes "detect_avatar zlib data = Inr \<lparr>det_mime = Some ''image/png'', det_reason = r\<rparr>"
  shows "detect_png zlib data = Inr (Some (if r = None then Valid else TooLarge))"
proof -
  obtain s where s: "detect_png zlib data = Inr s"
    using detect_png_returns [of zlib data] by (auto simp: returns_def)
  obtain j w where "detect_jpeg data = Inr j" "detect_webp data = Inr w"
    using detect_jpeg_returns [of data] detect_webp_returns [of data] by (auto simp: returns_def)
  then show ?thesis
    using assms s by (auto simp: detect_avatar_def split: option.splits status.splits)
qed

text \<open>
  An accepted PNG is one the caps allow and whose image data is right: the width and height of
  its header are positive, neither is over 8192 and their product is at most 16,777,216; the colour
  type and depth are a pair the standard has; and its compressed data, inflated, is one filter byte
  and one row of bytes for every row of the image, with nothing before, between or after.
\<close>

theorem png_accepted:
  assumes "detect_avatar zlib data = Inr \<lparr>det_mime = Some ''image/png'', det_reason = None\<rparr>"
  shows "0 < ihdr_width data \<and> ihdr_width data \<le> 8192 \<and> 0 < ihdr_height data \<and> ihdr_height data \<le> 8192
    \<and> ihdr_width data * ihdr_height data \<le> 16777216
    \<and> ihdr_byte data 0 \<in> valid_depths (ihdr_byte data 1)
    \<and> (\<exists>idat. zlib_clean (zlib idat)
        \<and> rows_ok (row_bytes_iter (ihdr_width data) (ihdr_height data) (ihdr_byte data 0) (ihdr_byte data 1)
            (ihdr_byte data 4)) (zlib_stream (zlib idat)))"
proof -
  have png: "detect_png zlib data = Inr (Some Valid)" using detect_avatar_png [OF assms] by simp
  note first = detect_png_first_chunk [OF png]
  then have "map_sum id Some (png_loop zlib data 33 (read_header data)) = Inr (Some Valid)" using png by simp
  then have "png_loop zlib data 33 (read_header data) = Inr Valid"
    by (cases "png_loop zlib data 33 (read_header data)") auto
  from png_loop_valid [OF this] show ?thesis
    using first by (auto simp: read_header_def exceeds_caps_def MAX_AVATAR_PIXELS_def MAX_AVATAR_SIDE_def
        png_image_data_spec not_less)
qed

lemma chunk_at_oversized:
  "saw_ihdr st \<Longrightarrow> png_oversized st \<Longrightarrow> chunk_at zlib data offset len st = chunk_at zlib' data offset len st"
  by (simp add: chunk_at_def png_chunk_def png_end_def)

lemma png_loop_oversized:
  "saw_ihdr st \<Longrightarrow> png_oversized st \<Longrightarrow> png_loop zlib data offset st = png_loop zlib' data offset st"
proof (induction "length data - offset" arbitrary: offset st rule: less_induct)
  case less
  let ?len = "be_nat (sub data offset (offset + 4))"
  have step: "(case r of Inl s \<Rightarrow> Inr s | Inr st' \<Rightarrow> png_loop zlib data (offset + 12 + ?len) st')
      = (case r of Inl s \<Rightarrow> Inr s | Inr st' \<Rightarrow> png_loop zlib' data (offset + 12 + ?len) st')"
    if "chunk_at zlib data offset ?len st = Inr r" "chunk_checks data offset ?len" for r
  proof (cases r)
    case (Inr st')
    then have "same_header st st'"
      using that png_chunk_same_header less(2) unfolding chunk_at_def by blast
    then have "png_loop zlib data (offset + 12 + ?len) st' = png_loop zlib' data (offset + 12 + ?len) st'"
      using that less(2,3) by (intro less(1)) (auto simp: same_header_def chunk_checks_def)
    then show ?thesis using Inr by simp
  qed simp
  have same: "chunk_at zlib data offset ?len st = chunk_at zlib' data offset ?len st"
    by (rule chunk_at_oversized) (use less in simp_all)
  show ?case
  proof (cases "\<exists>len. chunk_checks data offset len")
    case True
    then have "chunk_checks data offset ?len" by (auto simp: chunk_checks_def)
    note step = step [OF _ this]
    have "res_bind (chunk_at zlib data offset ?len st)
        (\<lambda>r. case r of Inl s \<Rightarrow> Inr s | Inr st' \<Rightarrow> png_loop zlib data (offset + 12 + ?len) st')
      = res_bind (chunk_at zlib' data offset ?len st)
        (\<lambda>r. case r of Inl s \<Rightarrow> Inr s | Inr st' \<Rightarrow> png_loop zlib' data (offset + 12 + ?len) st')"
      using same by (rule res_bind_cong) (rule step, simp add: same)
    then show ?thesis
      using True by (simp add: png_loop_eq [of zlib data offset] png_loop_eq [of zlib' data offset] Let_def)
  next
    case False
    then show ?thesis by (simp add: png_loop_eq [of zlib data offset] png_loop_eq [of zlib' data offset])
  qed
qed

lemma detect_png_oversized:
  assumes "exceeds_caps (ihdr_width data) (ihdr_height data)"
  shows "detect_png zlib data = detect_png zlib' data \<and> detect_png zlib data \<noteq> Inr (Some Valid)"
proof (cases "\<exists>s z. s \<noteq> Invalid \<and> detect_png z data = Inr (Some s)")
  case True
  then obtain s z where s: "s \<noteq> Invalid" "detect_png z data = Inr (Some s)" by blast
  note first = detect_png_first_chunk [OF s(2,1)]
  have over: "saw_ihdr (read_header data)" "png_oversized (read_header data)"
    using assms by (simp_all add: read_header_def)
  have "detect_png zlib data \<noteq> Inr (Some Valid)"
  proof
    assume valid: "detect_png zlib data = Inr (Some Valid)"
    then have "map_sum id Some (png_loop zlib data 33 (read_header data)) = Inr (Some Valid)"
      using first by simp
    then have "png_loop zlib data 33 (read_header data) = Inr Valid"
      by (cases "png_loop zlib data 33 (read_header data)") auto
    then show False using png_loop_valid over by blast
  qed
  moreover have "png_loop zlib data 33 (read_header data) = png_loop zlib' data 33 (read_header data)"
    using over by (rule png_loop_oversized)
  ultimately show ?thesis using first by simp
next
  case False
  have eq: "detect_png z data = (if take 8 data = png_signature then Inr (Some Invalid) else Inr None)" for z
  proof -
    obtain r where r: "detect_png z data = Inr r" using detect_png_returns by (auto simp: returns_def)
    moreover have "s = Invalid" if "r = Some s" for s using False r that by blast
    ultimately have "r = (if take 8 data = png_signature then Some Invalid else None)"
      by (cases "png_loop z data 8 new_png") (auto simp: detect_png_def split: if_splits)
    then show ?thesis using r by simp
  qed
  show ?thesis by (simp add: eq)
qed

theorem png_accepted_witness:
  "0 < ihdr_width pixel_png \<and> zlib_clean (pixel_zlib pixel_idat) \<and> ihdr_byte pixel_png 0 \<in> valid_depths (ihdr_byte pixel_png 1)"
  using png_accepted [OF pixel_png_accepted] by (simp add: pixel_zlib_def zlib_clean_def)

text \<open>
  C27. An image over the caps costs no decompression: when the header's width and height exceed
  the caps, the outcome is the same whatever the decompressor would do, and it is not an acceptance
  as a PNG.
\<close>

theorem oversized_png_never_inflated:
  assumes "exceeds_caps (ihdr_width data) (ihdr_height data)"
  shows "detect_avatar zlib data = detect_avatar zlib' data
    \<and> detect_avatar zlib data \<noteq> Inr \<lparr>det_mime = Some ''image/png'', det_reason = None\<rparr>"
  using detect_png_oversized [OF assms, of zlib zlib'] detect_avatar_png [of zlib data None]
  by (auto simp: detect_avatar_def)

theorem oversized_png_never_inflated_witness:
  "detect_avatar pixel_zlib wide_png \<noteq> Inr \<lparr>det_mime = Some ''image/png'', det_reason = None\<rparr>"
proof -
  have "exceeds_caps (ihdr_width wide_png) (ihdr_height wide_png)"
    by (simp add: exceeds_caps_def ihdr_width_def ihdr_height_def wide_png_def Prelude.slice_def be_nat_def
        MAX_AVATAR_PIXELS_def MAX_AVATAR_SIDE_def)
  then show ?thesis using oversized_png_never_inflated by blast
qed

text \<open>
  C28. The check of the image data does not depend on how the decompressor cuts the stream: it is
  true exactly when no call failed, no call of \<open>flush\<close> was empty, nothing is left over, and the
  concatenated output is the image's rows; and it never raises.
\<close>

theorem png_rows_checked:
  "png_image_data_is_valid zlib compressed width height bit_depth color_type interlace =
     Inr (zlib_clean (zlib compressed)
       \<and> rows_ok (row_bytes_iter width height bit_depth color_type interlace) (zlib_stream (zlib compressed)))"
  by (rule png_image_data_spec)

text \<open>
  The rows counted are the PNG standard's exactly for images that are not interlaced or are at
  least five pixels wide. For a narrower interlaced image the check counts a filter byte for the
  rows of passes that have no columns, and every image whose data is the standard's rows is refused.
\<close>

theorem narrow_interlaced_refused:
  assumes "0 < width" "0 < height"
  shows "(row_bytes_iter width height bit_depth color_type interlace
      = standard_rows width height bit_depth color_type interlace \<longleftrightarrow> interlace = 0 \<or> 4 < width)
    \<and> (interlace \<noteq> 0 \<and> width \<le> 4
      \<and> rows_ok (standard_rows width height bit_depth color_type interlace) (zlib_stream (zlib compressed))
      \<longrightarrow> png_image_data_is_valid zlib compressed width height bit_depth color_type interlace = Inr False)"
proof -
  let ?rows = "row_bytes_iter width height bit_depth color_type interlace"
  let ?std = "standard_rows width height bit_depth color_type interlace"
  have narrow: "stream_size ?std < stream_size ?rows" if "interlace \<noteq> 0" "width \<le> 4"
    using standard_rows_narrow [OF assms that] by (simp add: row_bytes_iter_size)
  then have "?rows = ?std \<longleftrightarrow> interlace = 0 \<or> 4 < width"
    using standard_rows_wide [of width interlace height bit_depth color_type] assms(1) by fastforce
  moreover have "png_image_data_is_valid zlib compressed width height bit_depth color_type interlace = Inr False"
    if "interlace \<noteq> 0" "width \<le> 4" "rows_ok ?std (zlib_stream (zlib compressed))"
    using narrow [OF that(1,2)] rows_ok_length [OF that(3)] rows_ok_length [of ?rows]
    by (fastforce simp: png_image_data_spec)
  ultimately show ?thesis by blast
qed

theorem narrow_interlaced_refused_witness:
  "row_bytes_iter 1 1 8 0 1 \<noteq> standard_rows 1 1 8 0 1
   \<and> rows_ok (standard_rows 1 1 8 0 1) (zlib_stream (pixel_zlib pixel_idat))
   \<and> png_image_data_is_valid pixel_zlib pixel_idat 1 1 8 0 1 = Inr False"
proof -
  have "rows_ok (standard_rows 1 1 8 0 1) (zlib_stream (pixel_zlib pixel_idat))"
    by (simp add: standard_rows_def png_passes_def pass_height_def pass_row_bytes_def pass_extent_def channels_def
        zlib_stream_def pixel_zlib_def)
  then show ?thesis
    using narrow_interlaced_refused [of 1 1 8 0 1 pixel_zlib pixel_idat] by simp
qed

end
