(* ===== verification/Cursor.thy ===== *)
theory Cursor imports Sha256 begin

text \<open>
  \<open>app/api_cursor.py\<close>: the opaque cursor of a list endpoint, base64url over a fixed layout of
  version, kind, position and id, with a truncated SHA-256 of these and of the filters' digest.
  Then: decoding accepts exactly the encoded cursors, up to the four bits of the last character
  that carry no data.
\<close>

section \<open>base64url\<close>

definition b64_alphabet :: string where
  "b64_alphabet = ''ABCDEFGHIJKLMNOPQRSTUVWXYZabcdefghijklmnopqrstuvwxyz0123456789-_''"

definition b64_char :: "nat \<Rightarrow> char" where
  "b64_char n = b64_alphabet ! n"

definition b64_values :: "(char \<times> nat) list" where
  "b64_values = zip b64_alphabet [0..<64]"

definition b64_value :: "char \<Rightarrow> nat option" where
  "b64_value c = map_of b64_values c"

definition pad_char :: char where "pad_char = CHR ''=''"

text \<open>\<open>base64.urlsafe_b64encode\<close>, with padding.\<close>

fun urlsafe_b64encode :: "bytes \<Rightarrow> string" where
  "urlsafe_b64encode [] = ''''"
| "urlsafe_b64encode [a] =
     [b64_char (unat a div 4), b64_char (unat a mod 4 * 16), pad_char, pad_char]"
| "urlsafe_b64encode [a, b] =
     [b64_char (unat a div 4), b64_char (unat a mod 4 * 16 + unat b div 16), b64_char (unat b mod 16 * 4), pad_char]"
| "urlsafe_b64encode (a # b # c # bs) =
     [b64_char (unat a div 4), b64_char (unat a mod 4 * 16 + unat b div 16),
      b64_char (unat b mod 16 * 4 + unat c div 64), b64_char (unat c mod 64)] @ urlsafe_b64encode bs"

definition rstrip_padding :: "string \<Rightarrow> string" where
  "rstrip_padding s = rev (dropWhile ((=) pad_char) (rev s))"

text \<open>
  \<open>base64.urlsafe_b64decode\<close> of a text over the alphabet with padding at its end. The unused bits
  of the last character before the padding are ignored.
\<close>

definition b64_error :: py_error where "b64_error = ValueError ''binascii.Error''"

fun urlsafe_b64decode :: "string \<Rightarrow> bytes result" where
  "urlsafe_b64decode [] = Inr []"
| "urlsafe_b64decode (p # q # r # s # cs) =
     (case (b64_value p, b64_value q) of
        (Some i, Some j) \<Rightarrow>
          if r = pad_char \<and> s = pad_char \<and> cs = [] then Inr [of_nat (4 * i + j div 16)]
          else (case b64_value r of
                  None \<Rightarrow> Inl b64_error
                | Some k \<Rightarrow>
                    if s = pad_char \<and> cs = []
                    then Inr [of_nat (4 * i + j div 16), of_nat (16 * (j mod 16) + k div 4)]
                    else (case b64_value s of
                            None \<Rightarrow> Inl b64_error
                          | Some l \<Rightarrow> res_bind (urlsafe_b64decode cs) (\<lambda>bs.
                              Inr (of_nat (4 * i + j div 16) # of_nat (16 * (j mod 16) + k div 4)
                                   # of_nat (64 * (k mod 4) + l) # bs))))
      | _ \<Rightarrow> Inl b64_error)"
| "urlsafe_b64decode _ = Inl b64_error"

section \<open>The cursor\<close>

datatype cursor_kind = TripsCursor | ReviewCursor | ExpensesCursor

fun KINDS :: "cursor_kind \<Rightarrow> nat" where
  "KINDS TripsCursor = 1" | "KINDS ReviewCursor = 2" | "KINDS ExpensesCursor = 3"

definition CURSOR_VERSION :: nat where "CURSOR_VERSION = 1"
definition MAX_ID :: int where "MAX_ID = 2 ^ 63 - 1"
definition HEADER_SIZE :: nat where "HEADER_SIZE = 18"
definition LAYOUT_SIZE :: nat where "LAYOUT_SIZE = 34"

definition TEXT_LENGTH :: nat where
  "TEXT_LENGTH = length (rstrip_padding (urlsafe_b64encode (replicate LAYOUT_SIZE 0)))"

text \<open>The range of \<open>datetime\<close>, in microseconds since the epoch.\<close>

definition datetime_min :: instant where "datetime_min = -62135596800000000"
definition datetime_max :: instant where "datetime_max = 253402300799999999"

definition invalid_cursor :: py_error where "invalid_cursor = ValueError ''invalid_cursor''"

definition check_value :: "bytes \<Rightarrow> bytes \<Rightarrow> bytes" where
  "check_value header digest = take 16 (sha256 (header @ digest))"

definition pack_header :: "nat \<Rightarrow> nat \<Rightarrow> int \<Rightarrow> int \<Rightarrow> bytes result" where
  "pack_header version kind micros trip_id =
     res_bind (pack_be 1 (int version)) (\<lambda>v. res_bind (pack_be 1 (int kind)) (\<lambda>k.
       res_bind (pack_q micros) (\<lambda>m. res_bind (pack_q trip_id) (\<lambda>i. Inr (v @ k @ m @ i)))))"

definition encode_cursor :: "cursor_kind \<Rightarrow> instant \<times> int \<Rightarrow> bytes \<Rightarrow> string result" where
  "encode_cursor kind position digest =
     (case position of (started_at, trip_id) \<Rightarrow>
       res_bind (pack_header CURSOR_VERSION (KINDS kind) started_at trip_id) (\<lambda>header.
         Inr (rstrip_padding (urlsafe_b64encode (header @ check_value header digest)))))"

definition cursor_text :: "string \<Rightarrow> bool" where
  "cursor_text s \<longleftrightarrow> s \<noteq> [] \<and> list_all (\<lambda>c. b64_value c \<noteq> None) s"

definition decode_cursor :: "cursor_kind \<Rightarrow> string \<Rightarrow> bytes \<Rightarrow> (instant \<times> int) result" where
  "decode_cursor kind s digest =
     (if length s \<noteq> TEXT_LENGTH \<or> \<not> cursor_text s then Inl invalid_cursor
      else case urlsafe_b64decode (s @ replicate ((4 - length s mod 4) mod 4) pad_char) of
        Inl _ \<Rightarrow> Inl invalid_cursor
      | Inr raw \<Rightarrow>
          if length raw \<noteq> LAYOUT_SIZE then Inl invalid_cursor
          else (let version = unat (raw ! 0); cursor_kind = unat (raw ! 1);
                    micros = signed_q (sub raw 2 10); trip_id = signed_q (sub raw 10 18);
                    check = sub raw 18 34
                in if version \<noteq> CURSOR_VERSION \<or> cursor_kind \<noteq> KINDS kind
                      \<or> check \<noteq> check_value (take HEADER_SIZE raw) digest \<or> \<not> (1 \<le> trip_id \<and> trip_id \<le> MAX_ID)
                   then Inl invalid_cursor
                   else if micros < datetime_min \<or> datetime_max < micros then Inl invalid_cursor
                   else Inr (micros, trip_id)))"

section \<open>base64url, both ways\<close>

lemma b64_values_spec: "(c, n) \<in> set b64_values \<longleftrightarrow> n < 64 \<and> c = b64_alphabet ! n"
  by (auto simp: b64_values_def in_set_zip b64_alphabet_def)

lemma b64_distinct: "distinct b64_alphabet"
  by (simp add: b64_alphabet_def)

lemma b64_length [simp]: "length b64_alphabet = 64"
  by (simp add: b64_alphabet_def)

lemma b64_value_char [simp]: "n < 64 \<Longrightarrow> b64_value (b64_char n) = Some n"
proof -
  assume "n < 64"
  then have "(b64_char n, n) \<in> set b64_values" by (simp add: b64_values_spec b64_char_def)
  moreover have "distinct (map fst b64_values)" by (simp add: b64_values_def b64_distinct)
  ultimately show ?thesis by (simp add: b64_value_def)
qed

lemma b64_value_SomeD: "b64_value c = Some n \<Longrightarrow> n < 64 \<and> c = b64_char n"
  by (drule map_of_SomeD [OF b64_value_def [symmetric, THEN trans]]) (simp add: b64_values_spec b64_char_def)

lemma pad_no_value [simp]: "b64_value pad_char = None"
  by (simp add: b64_value_def b64_values_def pad_char_def b64_alphabet_def upt_rec)

lemma char_not_pad [simp]: "n < 64 \<Longrightarrow> b64_char n \<noteq> pad_char"
  using b64_value_char pad_no_value by fastforce

lemma b64_char_inject: "m < 64 \<Longrightarrow> n < 64 \<Longrightarrow> b64_char m = b64_char n \<longleftrightarrow> m = n"
  by (metis b64_value_char option.inject)

lemma unat8 [simp]: "unat (b :: 8 word) < 256"
  using unsigned_less [of b] by simp


lemma unat_of_nat8: "n < 256 \<Longrightarrow> unat (of_nat n :: 8 word) = n"
  by (simp add: unat_of_nat)

lemma of_nat_unat8: "n = unat b \<Longrightarrow> (of_nat n :: 8 word) = b"
  by simp

text \<open>The three bytes of four characters, and back.\<close>

lemma six_bits:
  fixes a b :: nat
  assumes "a < 256" "b < 256"
  shows "a div 4 < 64" and "a mod 64 < 64" and "a mod 4 * 16 < 64" and "a mod 4 * 16 + b div 16 < 64"
    and "a mod 16 * 4 + b div 64 < 64"
proof -
  show "a mod 4 * 16 + b div 16 < 64" "a mod 16 * 4 + b div 64 < 64"
    using assms less_mult_imp_div_less [of b 16 16] less_mult_imp_div_less [of b 4 64] by simp_all
qed (use assms in simp_all)

lemma quad_bytes:
  fixes a b c :: nat
  assumes "a < 256" "b < 256" "c < 256"
  shows "4 * (a div 4) + (a mod 4 * 16 + b div 16) div 16 = a"
    "16 * ((a mod 4 * 16 + b div 16) mod 16) + (b mod 16 * 4 + c div 64) div 4 = b"
    "64 * ((b mod 16 * 4 + c div 64) mod 4) + c mod 64 = c"
  using assms by (simp_all add: less_mult_imp_div_less)

lemma byte_quads:
  fixes i j k l :: nat
  assumes "i < 64" "j < 64" "k < 64" "l < 64"
  shows "(4 * i + j div 16) div 4 = i"
    "(4 * i + j div 16) mod 4 * 16 + (16 * (j mod 16) + k div 4) div 16 = j"
    "(16 * (j mod 16) + k div 4) mod 16 * 4 + (64 * (k mod 4) + l) div 64 = k"
    "(64 * (k mod 4) + l) mod 64 = l"
    "4 * i + j div 16 < 256" "16 * (j mod 16) + k div 4 < 256" "64 * (k mod 4) + l < 256"
  using assms by (simp_all add: less_mult_imp_div_less)

text \<open>The same for the last byte and its two characters.\<close>

lemma pair_byte: "4 * (a div 4) + a mod 4 * 16 div 16 = a" for a :: nat
  by simp

lemma byte_pair:
  fixes i j :: nat
  assumes "i < 64" "j < 64"
  shows "(4 * i + j div 16) div 4 = i" "(4 * i + j div 16) mod 4 * 16 = j div 16 * 16" "4 * i + j div 16 < 256"
  using assms by (simp_all add: less_mult_imp_div_less)

lemma cursor_text_simps [simp]:
  "cursor_text [c] \<longleftrightarrow> b64_value c \<noteq> None"
  "s \<noteq> [] \<Longrightarrow> cursor_text (c # s) \<longleftrightarrow> b64_value c \<noteq> None \<and> cursor_text s"
  by (auto simp: cursor_text_def)

lemma encode_shape:
  "length bs mod 3 = 1 \<Longrightarrow>
   \<exists>cs. urlsafe_b64encode bs = cs @ [pad_char, pad_char] \<and> cursor_text cs \<and> length cs = 4 * (length bs div 3) + 2"
proof (induction bs rule: urlsafe_b64encode.induct)
  case (2 a)
  show ?case using six_bits [OF unat8 [of a] unat8 [of a]] by simp
next
  case (4 a b c bs)
  have "length bs mod 3 = 1" using 4(2) by (simp add: mod_Suc split: if_splits)
  then obtain cs where cs: "urlsafe_b64encode bs = cs @ [pad_char, pad_char]" "cursor_text cs"
      "length cs = 4 * (length bs div 3) + 2"
    using 4(1) by blast
  have "cs \<noteq> []" using cs(3) by auto
  let ?q = "[b64_char (unat a div 4), b64_char (unat a mod 4 * 16 + unat b div 16),
      b64_char (unat b mod 16 * 4 + unat c div 64), b64_char (unat c mod 64)]"
  have "cursor_text (?q @ cs)"
    using cs(2) \<open>cs \<noteq> []\<close> six_bits [OF unat8 [of a] unat8 [of b]] six_bits [OF unat8 [of b] unat8 [of c]]
      six_bits [OF unat8 [of c] unat8 [of c]]
    by simp
  moreover have "length (?q @ cs) = 4 * (length (a # b # c # bs) div 3) + 2"
    using cs(3) by simp
  ultimately show ?case using cs(1) by (intro exI [of _ "?q @ cs"]) simp
qed simp_all

lemma rstrip_text: "cursor_text cs \<Longrightarrow> rstrip_padding (cs @ [pad_char, pad_char]) = cs"
  by (cases cs rule: rev_cases) (auto simp: cursor_text_def rstrip_padding_def)

lemma decode_encode: "length bs mod 3 = 1 \<Longrightarrow> urlsafe_b64decode (urlsafe_b64encode bs) = Inr bs"
proof (induction bs rule: urlsafe_b64encode.induct)
  case (2 a)
  have "of_nat (4 * (unat a div 4) + unat a mod 4 * 16 div 16) = a"
    by (rule of_nat_unat8) (rule pair_byte)
  then show ?case using six_bits [OF unat8 [of a] unat8 [of a]]
    by (simp del: of_nat_add of_nat_mult add: of_nat_unat8)
next
  case (4 a b c bs)
  have "length bs mod 3 = 1" using 4(2) by (simp add: mod_Suc split: if_splits)
  then have rest: "urlsafe_b64decode (urlsafe_b64encode bs) = Inr bs" using 4(1) by blast
  note q = quad_bytes [OF unat8 [of a] unat8 [of b] unat8 [of c], THEN of_nat_unat8]
  show ?case
    using rest six_bits [OF unat8 [of a] unat8 [of b]] six_bits [OF unat8 [of b] unat8 [of c]]
      six_bits [OF unat8 [of c] unat8 [of c]]
    by (simp only: urlsafe_b64encode.simps append.simps urlsafe_b64decode.simps b64_value_char option.case prod.case
        char_not_pad q) simp
qed simp_all

lemma decode_shape:
  "cursor_text s \<Longrightarrow> length s mod 4 = 2 \<Longrightarrow>
   \<exists>bs v. urlsafe_b64decode (s @ [pad_char, pad_char]) = Inr bs \<and> length bs = 3 * (length s div 4) + 1
     \<and> b64_value (last s) = Some v
     \<and> urlsafe_b64encode bs = butlast s @ [b64_char (v div 16 * 16), pad_char, pad_char]"
proof (induction "length s" arbitrary: s rule: less_induct)
  case less
  obtain p q t where s: "s = p # q # t" using less(3) by (cases s rule: urlsafe_b64decode.cases) auto
  then obtain i j where ij: "b64_value p = Some i" "b64_value q = Some j" using less(2) by (auto simp: cursor_text_def)
  show ?case
  proof (cases t)
    case Nil
    then show ?thesis
      using s ij b64_value_SomeD [OF ij(1)] b64_value_SomeD [OF ij(2)] byte_pair [of i j] by (simp add: unat_of_nat8 del: of_nat_add of_nat_mult)
  next
    case (Cons r t')
    then obtain u t2 where t': "t' = u # t2" using less(3) s by (cases t') auto
    obtain k l where kl: "b64_value r = Some k" "b64_value u = Some l"
      using less(2) s Cons t' by (auto simp: cursor_text_def)
    have t2: "cursor_text t2" "length t2 mod 4 = 2"
      using less(2,3) s Cons t' by (auto simp: cursor_text_def)
    then obtain bs v where bs: "urlsafe_b64decode (t2 @ [pad_char, pad_char]) = Inr bs"
        "length bs = 3 * (length t2 div 4) + 1" "b64_value (last t2) = Some v"
        "urlsafe_b64encode bs = butlast t2 @ [b64_char (v div 16 * 16), pad_char, pad_char]"
      using less(1) [of t2] s Cons t' by auto
    have not_pad: "r \<noteq> pad_char" "u \<noteq> pad_char" using kl by auto
    show ?thesis
      using ij kl bs not_pad s Cons t' t2(1) b64_value_SomeD [OF ij(1)] b64_value_SomeD [OF ij(2)]
        b64_value_SomeD [OF kl(1)] b64_value_SomeD [OF kl(2)] byte_quads [of i j k l]
      by (auto simp: unat_of_nat8 cursor_text_def simp del: of_nat_add of_nat_mult)
  qed
qed


section \<open>What decodes\<close>

lemma TEXT_LENGTH_46: "TEXT_LENGTH = 46"
proof -
  obtain cs where "urlsafe_b64encode (replicate LAYOUT_SIZE 0) = cs @ [pad_char, pad_char]" "cursor_text cs"
      "length cs = 4 * (34 div 3) + 2"
    using encode_shape [of "replicate LAYOUT_SIZE 0"] by (auto simp: LAYOUT_SIZE_def)
  then show ?thesis by (simp add: TEXT_LENGTH_def rstrip_text)
qed

text \<open>The text of a cursor up to the four bits of its last character that carry no data.\<close>

definition same_cursor :: "string \<Rightarrow> string \<Rightarrow> bool" where
  "same_cursor s s' \<longleftrightarrow> length s = length s' \<and> cursor_text s \<and> butlast s = butlast s'
     \<and> map_option (\<lambda>v. v div 16) (b64_value (last s)) = map_option (\<lambda>v. v div 16) (b64_value (last s'))"

lemma encode_text:
  assumes "length raw = 34"
  obtains s where "urlsafe_b64encode raw = s @ [pad_char, pad_char]" "rstrip_padding (urlsafe_b64encode raw) = s"
    "cursor_text s" "length s = 46" "urlsafe_b64decode (s @ [pad_char, pad_char]) = Inr raw"
  using encode_shape [of raw] decode_encode [of raw] assms by (auto simp: rstrip_text)

lemma decode_same_cursor:
  assumes "cursor_text s" "length s = 46" "length raw = 34"
  shows "urlsafe_b64decode (s @ [pad_char, pad_char]) = Inr raw
    \<longleftrightarrow> same_cursor s (rstrip_padding (urlsafe_b64encode raw))"
proof -
  obtain bs v where bs: "urlsafe_b64decode (s @ [pad_char, pad_char]) = Inr bs" "b64_value (last s) = Some v"
      "urlsafe_b64encode bs = butlast s @ [b64_char (v div 16 * 16), pad_char, pad_char]" "length bs = 34"
    using decode_shape [OF assms(1)] assms(2) by auto
  obtain s' where s': "urlsafe_b64encode raw = s' @ [pad_char, pad_char]" "rstrip_padding (urlsafe_b64encode raw) = s'"
      "cursor_text s'" "length s' = 46" "urlsafe_b64decode (s' @ [pad_char, pad_char]) = Inr raw"
    using encode_text [OF assms(3)] by blast
  obtain w where w: "b64_value (last s') = Some w"
      "urlsafe_b64encode raw = butlast s' @ [b64_char (w div 16 * 16), pad_char, pad_char]"
    using decode_shape [OF s'(3)] s'(4,5) by auto
  have small: "v div 16 * 16 < 64" "w div 16 * 16 < 64"
    using b64_value_SomeD [OF bs(2)] b64_value_SomeD [OF w(1)]
    by (meson div_times_less_eq_dividend le_less_trans)+
  have dec: "urlsafe_b64decode (urlsafe_b64encode bs) = Inr bs" "urlsafe_b64decode (urlsafe_b64encode raw) = Inr raw"
    by (rule decode_encode, simp add: bs(4) assms(3))+
  have enc_inj: "bs = raw \<longleftrightarrow> urlsafe_b64encode bs = urlsafe_b64encode raw"
    by (metis dec sum.inject(2))
  also have "\<dots> \<longleftrightarrow> butlast s = butlast s' \<and> b64_char (v div 16 * 16) = b64_char (w div 16 * 16)"
    unfolding bs(3) w(2) by auto
  also have "b64_char (v div 16 * 16) = b64_char (w div 16 * 16) \<longleftrightarrow> v div 16 = w div 16"
    by (simp add: b64_char_inject small)
  finally show ?thesis
    using bs(1,2) w(1) s' assms by (auto simp: same_cursor_def)
qed

lemma pack_header_Inr:
  "pack_header version kind micros i = Inr h \<longleftrightarrow>
     version < 256 \<and> kind < 256 \<and> (\<exists>m q. pack_q micros = Inr m \<and> pack_q i = Inr q
       \<and> h = [of_nat version, of_nat kind] @ m @ q)"
  by (auto simp: pack_header_def res_bind_eq_Inr pack_be_def)

lemma sub_full: "length xs = n \<Longrightarrow> a + b = n \<Longrightarrow> take a xs @ sub xs a n = xs"
  by (simp add: Prelude.slice_def)

lemma layout_read:
  assumes "length raw = 34" "v < 256" "k < 256"
  shows "unat (raw ! 0) = v \<and> unat (raw ! 1) = k \<and> signed_q (sub raw 2 10) = t \<and> signed_q (sub raw 10 18) = i
      \<and> sub raw 18 34 = check_value (take 18 raw) digest
    \<longleftrightarrow> (\<exists>h. pack_header v k t i = Inr h \<and> raw = h @ check_value h digest)" (is "?l \<longleftrightarrow> ?r")
proof
  assume l: ?l
  have "take 18 raw = take 10 raw @ sub raw 10 18"
    using take_add [of 10 8 raw] by (simp add: Prelude.slice_def)
  moreover have "take 10 raw = take 2 raw @ sub raw 2 10"
    using take_add [of 2 8 raw] by (simp add: Prelude.slice_def)
  moreover have "take 2 raw = [raw ! 0, raw ! 1]"
    using assms(1) by (cases raw; cases "tl raw") (auto simp: numeral_2_eq_2)
  ultimately have "take 18 raw = [raw ! 0, raw ! 1] @ sub raw 2 10 @ sub raw 10 18" by simp
  moreover have "pack_q (signed_q (sub raw 2 10)) = Inr (sub raw 2 10)"
      "pack_q (signed_q (sub raw 10 18)) = Inr (sub raw 10 18)"
    using assms(1) by (simp_all add: pack_signed_q)
  moreover have "raw ! 0 = of_nat v" "raw ! 1 = of_nat k" using l by auto
  ultimately have "pack_header v k t i = Inr (take 18 raw)"
    using l assms(2,3) by (simp add: pack_header_Inr)
  moreover have "check_value (take 18 raw) digest = sub raw 18 34" using l by simp
  then have "raw = take 18 raw @ check_value (take 18 raw) digest"
    using assms(1) by (simp add: Prelude.slice_def)
  ultimately show ?r by blast
next
  assume ?r
  then obtain m q where mq: "pack_q t = Inr m" "pack_q i = Inr q"
      "raw = ([of_nat v, of_nat k] @ m @ q) @ check_value ([of_nat v, of_nat k] @ m @ q) digest"
    by (auto simp: pack_header_Inr)
  have l: "length m = 8" "length q = 8" and s: "signed_q m = t" "signed_q q = i"
    using signed_q_pack mq(1,2) by auto
  have "take 18 raw = [of_nat v, of_nat k] @ m @ q" unfolding mq(3) using l by simp
  moreover have "sub raw 18 34 = check_value ([of_nat v, of_nat k] @ m @ q) digest"
    unfolding mq(3) using l by (simp add: Prelude.slice_def check_value_def)
  moreover have "sub raw 2 10 = m" "sub raw 10 18 = q"
    unfolding mq(3) using l by (simp_all add: Prelude.slice_def)
  moreover have "unat (raw ! 0) = v" "unat (raw ! 1) = k" unfolding mq(3) using assms by (simp_all add: unat_of_nat8)
  ultimately show ?l using s by simp
qed


lemma KINDS_small: "KINDS kind < 256"
  by (cases kind) simp_all

lemma decode_cursor_raw:
  "decode_cursor kind s digest = Inr (t, i) \<longleftrightarrow>
     length s = 46 \<and> cursor_text s \<and> 1 \<le> i \<and> i \<le> MAX_ID \<and> datetime_min \<le> t \<and> t \<le> datetime_max
     \<and> (\<exists>raw. urlsafe_b64decode (s @ [pad_char, pad_char]) = Inr raw \<and> length raw = 34
        \<and> unat (raw ! 0) = 1 \<and> unat (raw ! 1) = KINDS kind \<and> signed_q (sub raw 2 10) = t
        \<and> signed_q (sub raw 10 18) = i \<and> sub raw 18 34 = check_value (take 18 raw) digest)"
proof -
  have pads: "replicate 2 pad_char = [pad_char, pad_char]" by (simp add: numeral_2_eq_2)
  show ?thesis
    by (cases "urlsafe_b64decode (s @ [pad_char, pad_char])")
      (auto simp: decode_cursor_def TEXT_LENGTH_46 pads LAYOUT_SIZE_def HEADER_SIZE_def CURSOR_VERSION_def Let_def
        split: if_splits)
qed

lemma decode_cursor_iff:
  "decode_cursor kind s digest = Inr (t, i) \<longleftrightarrow>
     1 \<le> i \<and> i \<le> MAX_ID \<and> datetime_min \<le> t \<and> t \<le> datetime_max
     \<and> (\<exists>s'. encode_cursor kind (t, i) digest = Inr s' \<and> length s' = 46 \<and> same_cursor s s')"
    (is "_ \<longleftrightarrow> ?a \<and> ?b \<and> ?c \<and> ?d \<and> ?enc")
proof -
  have check: "length (h @ check_value h digest) = 34 \<longleftrightarrow> length h = 18" for h
    by (simp add: check_value_def)
  have header: "pack_header 1 (KINDS kind) t i = Inr h \<Longrightarrow> length h = 18" for h
    by (auto simp: pack_header_Inr dest!: signed_q_pack)
  have "(\<exists>raw. urlsafe_b64decode (s @ [pad_char, pad_char]) = Inr raw \<and> length raw = 34
        \<and> unat (raw ! 0) = 1 \<and> unat (raw ! 1) = KINDS kind \<and> signed_q (sub raw 2 10) = t
        \<and> signed_q (sub raw 10 18) = i \<and> sub raw 18 34 = check_value (take 18 raw) digest)
    \<longleftrightarrow> (\<exists>raw. urlsafe_b64decode (s @ [pad_char, pad_char]) = Inr raw \<and> length raw = 34
        \<and> (\<exists>h. pack_header 1 (KINDS kind) t i = Inr h \<and> raw = h @ check_value h digest))"
    by (intro ex_cong1 conj_cong refl layout_read KINDS_small) simp_all
  also have "\<dots> \<longleftrightarrow> (\<exists>h. pack_header 1 (KINDS kind) t i = Inr h
        \<and> urlsafe_b64decode (s @ [pad_char, pad_char]) = Inr (h @ check_value h digest))"
    using header check by blast
  finally have layouts: "(\<exists>raw. urlsafe_b64decode (s @ [pad_char, pad_char]) = Inr raw \<and> length raw = 34
        \<and> unat (raw ! 0) = 1 \<and> unat (raw ! 1) = KINDS kind \<and> signed_q (sub raw 2 10) = t
        \<and> signed_q (sub raw 10 18) = i \<and> sub raw 18 34 = check_value (take 18 raw) digest)
    \<longleftrightarrow> (\<exists>h. pack_header 1 (KINDS kind) t i = Inr h
        \<and> urlsafe_b64decode (s @ [pad_char, pad_char]) = Inr (h @ check_value h digest))" .
  have raw: "decode_cursor kind s digest = Inr (t, i) \<longleftrightarrow> length s = 46 \<and> cursor_text s \<and> ?a \<and> ?b \<and> ?c \<and> ?d
      \<and> (\<exists>h. pack_header 1 (KINDS kind) t i = Inr h
        \<and> urlsafe_b64decode (s @ [pad_char, pad_char]) = Inr (h @ check_value h digest))"
    by (simp only: decode_cursor_raw layouts conj_assoc)
  have "length s = 46 \<and> cursor_text s \<and> (\<exists>h. pack_header 1 (KINDS kind) t i = Inr h
        \<and> urlsafe_b64decode (s @ [pad_char, pad_char]) = Inr (h @ check_value h digest)) \<longleftrightarrow> ?enc"
  proof
    assume l: "length s = 46 \<and> cursor_text s \<and> (\<exists>h. pack_header 1 (KINDS kind) t i = Inr h
        \<and> urlsafe_b64decode (s @ [pad_char, pad_char]) = Inr (h @ check_value h digest))"
    then obtain h where h: "pack_header 1 (KINDS kind) t i = Inr h"
        "urlsafe_b64decode (s @ [pad_char, pad_char]) = Inr (h @ check_value h digest)" by blast
    have len: "length (h @ check_value h digest) = 34" using header [OF h(1)] check by blast
    have "same_cursor s (rstrip_padding (urlsafe_b64encode (h @ check_value h digest)))"
      using decode_same_cursor [OF _ _ len, of s] l h(2) by blast
    moreover have "length (rstrip_padding (urlsafe_b64encode (h @ check_value h digest))) = 46"
      using encode_text [OF len] by metis
    ultimately show ?enc using h(1) by (auto simp: encode_cursor_def CURSOR_VERSION_def)
  next
    assume ?enc
    then obtain h where h: "pack_header 1 (KINDS kind) t i = Inr h"
        "length (rstrip_padding (urlsafe_b64encode (h @ check_value h digest))) = 46"
        "same_cursor s (rstrip_padding (urlsafe_b64encode (h @ check_value h digest)))"
      by (auto simp: encode_cursor_def CURSOR_VERSION_def res_bind_eq_Inr)
    have len: "length (h @ check_value h digest) = 34" using header [OF h(1)] check by blast
    have s: "length s = 46" "cursor_text s" using h(2,3) by (auto simp: same_cursor_def)
    show "length s = 46 \<and> cursor_text s \<and> (\<exists>h. pack_header 1 (KINDS kind) t i = Inr h
        \<and> urlsafe_b64decode (s @ [pad_char, pad_char]) = Inr (h @ check_value h digest))"
      using decode_same_cursor [OF s(2,1) len] h s by blast
  qed
  then show ?thesis using raw by blast
qed

lemma cursor_roundtrip:
  assumes "encode_cursor kind (t, i) digest = Inr s" "1 \<le> i" "i \<le> MAX_ID" "datetime_min \<le> t" "t \<le> datetime_max"
  shows "decode_cursor kind s digest = Inr (t, i)"
proof -
  obtain h where h: "pack_header 1 (KINDS kind) t i = Inr h"
      "s = rstrip_padding (urlsafe_b64encode (h @ check_value h digest))"
    using assms(1) by (auto simp: encode_cursor_def CURSOR_VERSION_def res_bind_eq_Inr)
  then have "length (h @ check_value h digest) = 34"
    by (auto simp: pack_header_Inr check_value_def dest!: signed_q_pack)
  then have "length s = 46" "cursor_text s" using encode_text h(2) by metis+
  then show ?thesis using assms by (auto simp: decode_cursor_iff same_cursor_def)
qed

text \<open>
  C29. A text decodes to a position exactly when it is the cursor \<open>encode_cursor\<close> writes for that
  position under the same kind and filter digest, up to the four low bits of its last character:
  every encoded cursor of a representable position decodes to it (round trip), every truncated,
  edited, foreign-kind or foreign-filter text is refused unless it collides with one, and of the
  sixteen texts that share the data of a cursor all are accepted.
\<close>

theorem cursor_decodes_exactly:
  "decode_cursor kind s digest = Inr (t, i) \<longleftrightarrow>
     1 \<le> i \<and> i \<le> MAX_ID \<and> datetime_min \<le> t \<and> t \<le> datetime_max
     \<and> (\<exists>s'. encode_cursor kind (t, i) digest = Inr s' \<and> length s' = 46 \<and> same_cursor s s')"
  by (rule decode_cursor_iff)

end
