(* ===== verification/CursorFilters.thy ===== *)
theory CursorFilters imports Cursor JsonData begin

text \<open>
  \<open>filter_digest\<close> of \<open>app/api_cursor.py\<close>: the filters as canonical JSON in UTF-8, hashed. The
  canonical text determines the kind and the filters, so that a cursor taken to another list or to
  other filters is refused unless SHA-256 collides on two named texts.
\<close>

section \<open>Canonical text\<close>











section \<open>The text determines the filters\<close>






















section \<open>UTF-8\<close>












section \<open>A cursor is bound to its list\<close>










end
