(* ===== verification/SpoolSort.thy ===== *)
theory SpoolSort imports Bytes PyData begin

text \<open>
  \<open>app/preparation_sort.py\<close>: records with keys of any length, sorted outside memory. Keys and
  payloads are appended to two files; fixed-size records with their offsets go, sorted in batches
  of 256, to a run file, and \<open>finish\<close> merges runs of doubling width from one file to another.

  A file is its bytes. The sources seek before every read, append only at the end, and reopen a
  run file for each pass, so positions are arguments of the readers. A write that exhausts the
  spool's budget ends the attempt; the model is of the attempts in which none does.
\<close>

section \<open>Records\<close>

definition CHUNK_BYTES :: nat where "CHUNK_BYTES = 65520"

definition RECORD_SIZE :: nat where "RECORD_SIZE = 53"

text \<open>The tuple \<open>(key_offset, key_size, data_offset, data_size, secondary)\<close>.\<close>

record sort_record =
  sr_key_offset :: nat
  sr_key_size :: nat
  sr_data_offset :: nat
  sr_data_size :: nat
  sr_secondary :: string

definition ascii_bytes :: "string \<Rightarrow> bytes" where
  "ascii_bytes s = map of_char s"

definition pack_q64 :: "nat \<Rightarrow> bytes result" where
  "pack_q64 n = pack_be 8 (int n)"

text \<open>\<open>_pack\<close> and \<open>_read\<close>; \<open>encode('ascii')\<close> refuses other characters.\<close>

definition pack_record :: "sort_record \<Rightarrow> bytes result" where
  "pack_record r =
     (let secondary = sr_secondary r
      in if \<not> list_all (\<lambda>c. of_char c < (128 :: nat)) secondary then Inl (ValueError ''UnicodeEncodeError'')
         else if length secondary > 21 then Inl (ValueError ''sort secondary key exceeds scalar limit'')
         else res_bind (pack_q64 (sr_key_offset r)) (\<lambda>a. res_bind (pack_q64 (sr_key_size r)) (\<lambda>b.
              res_bind (pack_q64 (sr_data_offset r)) (\<lambda>c. res_bind (pack_q64 (sr_data_size r)) (\<lambda>d.
                Inr (a @ b @ c @ d @ ascii_bytes secondary @ replicate (21 - length secondary) 0))))))"

definition rstrip_nul :: "bytes \<Rightarrow> bytes" where
  "rstrip_nul bs = rev (dropWhile ((=) 0) (rev bs))"

definition read_record :: "bytes \<Rightarrow> nat \<Rightarrow> (sort_record option \<times> nat) result" where
  "read_record file pos =
     (let raw = sub file pos (pos + RECORD_SIZE)
      in if raw = [] then Inr (None, pos)
         else if length raw \<noteq> RECORD_SIZE then Inl (ValueError ''incomplete sort record'')
         else Inr (Some \<lparr>sr_key_offset = be_nat (sub raw 0 8), sr_key_size = be_nat (sub raw 8 16),
             sr_data_offset = be_nat (sub raw 16 24), sr_data_size = be_nat (sub raw 24 32),
             sr_secondary = map char_of (map unat (rstrip_nul (sub raw 32 53)))\<rparr>, pos + RECORD_SIZE))"

section \<open>Order\<close>

definition sign_of :: "'a::linorder \<Rightarrow> 'a \<Rightarrow> int" where
  "sign_of a b = of_bool (a > b) - of_bool (a < b)"

text \<open>\<open>int(s)\<close> of a text \<open>str\<close> writes for an integer; a numeric spool holds no others.\<close>

definition digits_nat :: "string \<Rightarrow> nat" where
  "digits_nat s = foldl (\<lambda>n c. 10 * n + (of_char c - 48)) 0 s"

definition text_int :: "string \<Rightarrow> int" where
  "text_int s = (if s \<noteq> [] \<and> hd s = CHR ''-'' then - int (digits_nat (tl s)) else int (digits_nat s))"

definition compare_secondary :: "bool \<Rightarrow> string \<Rightarrow> string \<Rightarrow> int" where
  "compare_secondary numeric a b =
     (if numeric then sign_of (text_int a) (text_int b) else sign_of a b)"

text \<open>\<open>_compare\<close>: key bytes a chunk at a time, then key lengths, then the secondary key.\<close>

function compare_from :: "bool \<Rightarrow> bytes \<Rightarrow> sort_record \<Rightarrow> sort_record \<Rightarrow> nat \<Rightarrow> int" where
  "compare_from numeric kf left right offset =
     (if offset < min (sr_key_size left) (sr_key_size right) then
        (let n = min CHUNK_BYTES (min (sr_key_size left) (sr_key_size right) - offset);
             a = sub kf (sr_key_offset left + offset) (sr_key_offset left + offset + n);
             b = sub kf (sr_key_offset right + offset) (sr_key_offset right + offset + n)
         in if a \<noteq> b then sign_of a b else compare_from numeric kf left right (offset + n))
      else if sr_key_size left \<noteq> sr_key_size right then sign_of (sr_key_size left) (sr_key_size right)
      else compare_secondary numeric (sr_secondary left) (sr_secondary right))"
  by pat_completeness auto
termination
  by (relation "measure (\<lambda>(numeric, kf, left, right, offset). sr_key_size left - offset)")
    (auto simp: CHUNK_BYTES_def)

declare compare_from.simps [simp del]

definition compare_records :: "bool \<Rightarrow> bytes \<Rightarrow> sort_record \<Rightarrow> sort_record \<Rightarrow> int" where
  "compare_records numeric kf left right = compare_from numeric kf left right 0"

text \<open>\<open>sorted(batch, key=cmp_to_key(compare))\<close>: Python's sort is stable.\<close>

fun insort_by :: "('a \<Rightarrow> 'a \<Rightarrow> int) \<Rightarrow> 'a \<Rightarrow> 'a list \<Rightarrow> 'a list" where
  "insort_by cmp x [] = [x]"
| "insort_by cmp x (y # ys) = (if cmp x y \<le> 0 then x # y # ys else y # insort_by cmp x ys)"

definition sorted_by_cmp :: "('a \<Rightarrow> 'a \<Rightarrow> int) \<Rightarrow> 'a list \<Rightarrow> 'a list" where
  "sorted_by_cmp cmp xs = foldr (insort_by cmp) xs []"

section \<open>The spool\<close>

record spool =
  sp_numeric :: bool
  sp_keys :: bytes
  sp_data :: bytes
  sp_runs :: bytes
  sp_batch :: "sort_record list"
  sp_count :: nat

definition new_spool :: "bool \<Rightarrow> spool" where
  "new_spool numeric = \<lparr>sp_numeric = numeric, sp_keys = [], sp_data = [], sp_runs = [], sp_batch = [], sp_count = 0\<rparr>"

fun pack_records :: "sort_record list \<Rightarrow> bytes result" where
  "pack_records [] = Inr []"
| "pack_records (r # rs) = res_bind (pack_record r) (\<lambda>a. res_bind (pack_records rs) (\<lambda>b. Inr (a @ b)))"

text \<open>\<open>_flush\<close>.\<close>

definition flush_batch :: "spool \<Rightarrow> spool result" where
  "flush_batch s =
     res_bind (pack_records (sorted_by_cmp (compare_records (sp_numeric s) (sp_keys s)) (sp_batch s)))
       (\<lambda>out. Inr (s\<lparr>sp_runs := sp_runs s @ out, sp_batch := []\<rparr>))"

text \<open>Writing a chunk in slices of \<open>CHUNK_BYTES\<close>.\<close>

function write_slices :: "bytes \<Rightarrow> bytes \<Rightarrow> nat \<Rightarrow> bytes" where
  "write_slices file chunk offset =
     (if offset < length chunk
      then write_slices (file @ sub chunk offset (offset + CHUNK_BYTES)) chunk (offset + CHUNK_BYTES)
      else file)"
  by pat_completeness auto
termination
  by (relation "measure (\<lambda>(file, chunk, offset). length chunk - offset)") (auto simp: CHUNK_BYTES_def)

declare write_slices.simps [simp del]

text \<open>\<open>append\<close>; the payload is the JSON text of the value.\<close>

definition append_record :: "bytes list \<Rightarrow> string \<Rightarrow> bytes \<Rightarrow> spool \<Rightarrow> spool result" where
  "append_record key_chunks secondary payload s =
     (let key_offset = length (sp_keys s);
          kf = fold (\<lambda>chunk file. write_slices file chunk 0) key_chunks (sp_keys s);
          key_size = length kf - key_offset;
          data_offset = length (sp_data s)
      in if length payload > CHUNK_BYTES then Inl (ValueError ''replay record exceeds frame limit'')
         else (let s' = s\<lparr>sp_keys := kf, sp_data := sp_data s @ payload,
                     sp_batch := sp_batch s @ [\<lparr>sr_key_offset = key_offset, sr_key_size = key_size,
                       sr_data_offset = data_offset, sr_data_size = length payload, sr_secondary = secondary\<rparr>],
                     sp_count := sp_count s + 1\<rparr>
               in if length (sp_batch s') = 256 then flush_batch s' else Inr s'))"

section \<open>Merging\<close>

text \<open>\<open>read(stream) if n else None\<close>.\<close>

definition next_record :: "bytes \<Rightarrow> nat \<Rightarrow> nat \<Rightarrow> (sort_record option \<times> nat) result" where
  "next_record file n pos = (if n \<noteq> 0 then read_record file pos else Inr (None, pos))"

text \<open>\<open>not nb or (na and compare(a, b) <= 0)\<close>; comparing \<open>None\<close> is a \<open>TypeError\<close>.\<close>

definition takes_left ::
  "(sort_record \<Rightarrow> sort_record \<Rightarrow> int) \<Rightarrow> nat \<Rightarrow> nat \<Rightarrow> sort_record option \<Rightarrow> sort_record option \<Rightarrow> bool result" where
  "takes_left cmp na nb a b =
     (if nb = 0 then Inr True
      else if na = 0 then Inr False
      else case (a, b) of (Some x, Some y) \<Rightarrow> Inr (cmp x y \<le> 0) | _ \<Rightarrow> Inl TypeError)"

definition pack_opt :: "sort_record option \<Rightarrow> bytes result" where
  "pack_opt a = (case a of Some r \<Rightarrow> pack_record r | None \<Rightarrow> Inl TypeError)"

text \<open>The two \<open>TypeError\<close>s of the body are not reached: with nothing left the loop has ended.\<close>

function merge_loop ::
  "(sort_record \<Rightarrow> sort_record \<Rightarrow> int) \<Rightarrow> bytes \<Rightarrow> nat \<Rightarrow> nat \<Rightarrow> nat \<Rightarrow> nat \<Rightarrow>
     sort_record option \<Rightarrow> sort_record option \<Rightarrow> bytes \<Rightarrow> bytes result" where
  "merge_loop cmp file na nb lpos rpos a b out =
     (if na = 0 \<and> nb = 0 then Inr out
      else (case takes_left cmp na nb a b of
        Inl e \<Rightarrow> Inl e
      | Inr True \<Rightarrow>
          if na = 0 then Inl TypeError
          else res_bind (pack_opt a) (\<lambda>bs. res_bind (next_record file (na - 1) lpos) (\<lambda>(a', lpos').
            merge_loop cmp file (na - 1) nb lpos' rpos a' b (out @ bs)))
      | Inr False \<Rightarrow>
          if nb = 0 then Inl TypeError
          else res_bind (pack_opt b) (\<lambda>bs. res_bind (next_record file (nb - 1) rpos) (\<lambda>(b', rpos').
            merge_loop cmp file na (nb - 1) lpos rpos' a b' (out @ bs)))))"
  by pat_completeness auto
termination by (relation "measure (\<lambda>(cmp, file, na, nb, lpos, rpos, a, b, out). na + nb)") auto

declare merge_loop.simps [simp del]

text \<open>One pair of runs, and one pass over the file.\<close>

definition merge_pair ::
  "(sort_record \<Rightarrow> sort_record \<Rightarrow> int) \<Rightarrow> bytes \<Rightarrow> nat \<Rightarrow> nat \<Rightarrow> nat \<Rightarrow> bytes \<Rightarrow> bytes result" where
  "merge_pair cmp source n width start out =
     (let na = min width (n - start); nb = n - start - width
      in let nb = min width nb
         in res_bind (next_record source na (start * RECORD_SIZE)) (\<lambda>(a, lpos).
            res_bind (next_record source nb ((start + width) * RECORD_SIZE)) (\<lambda>(b, rpos).
              merge_loop cmp source na nb lpos rpos a b out)))"

function merge_pass ::
  "(sort_record \<Rightarrow> sort_record \<Rightarrow> int) \<Rightarrow> bytes \<Rightarrow> nat \<Rightarrow> nat \<Rightarrow> nat \<Rightarrow> bytes \<Rightarrow> bytes result" where
  "merge_pass cmp source n width start out =
     (if start < n \<and> 0 < width
      then res_bind (merge_pair cmp source n width start out)
             (merge_pass cmp source n width (start + 2 * width))
      else Inr out)"
  by pat_completeness auto
termination by (relation "measure (\<lambda>(cmp, source, n, width, start, out). n - start)") auto

function merge_passes ::
  "(sort_record \<Rightarrow> sort_record \<Rightarrow> int) \<Rightarrow> nat \<Rightarrow> nat \<Rightarrow> bytes \<Rightarrow> bytes result" where
  "merge_passes cmp n width source =
     (if width < n \<and> 0 < width
      then res_bind (merge_pass cmp source n width 0 []) (merge_passes cmp n (width * 2))
      else Inr source)"
  by pat_completeness auto
termination by (relation "measure (\<lambda>(cmp, n, width, source). n - width)") auto

declare merge_pass.simps [simp del] merge_passes.simps [simp del]

text \<open>\<open>finish\<close>: the bytes of the sorted run file. \<open>__iter__\<close> replays the payloads in its order.\<close>

definition finish_sort :: "spool \<Rightarrow> bytes result" where
  "finish_sort s =
     res_bind (flush_batch s) (\<lambda>s'. merge_passes (compare_records (sp_numeric s') (sp_keys s')) (sp_count s') 256 (sp_runs s'))"

function replay_from :: "bytes \<Rightarrow> bytes \<Rightarrow> nat \<Rightarrow> bytes list result" where
  "replay_from records payloads pos =
     (if length records \<le> pos then Inr []
      else res_bind (read_record records pos) (\<lambda>(r, _). case r of
        None \<Rightarrow> Inr []
      | Some r \<Rightarrow> res_bind (replay_from records payloads (pos + RECORD_SIZE)) (\<lambda>rest.
          Inr (sub payloads (sr_data_offset r) (sr_data_offset r + sr_data_size r) # rest))))"
  by pat_completeness auto
termination
  by (relation "measure (\<lambda>(records, payloads, pos). length records - pos)") (auto simp: RECORD_SIZE_def)

declare replay_from.simps [simp del]

definition replay :: "spool \<Rightarrow> bytes list result" where
  "replay s = res_bind (finish_sort s) (\<lambda>records. replay_from records (sp_data s) 0)"

end
