(* ===== verification/SpoolOrder.thy ===== *)
theory SpoolOrder imports SpoolSort begin

text \<open>
  The order of the external sort, and stable sorting as such: the comparison of two records is the
  lexicographic order of their keys and secondary keys; merging the stable sorts of two halves is
  the stable sort of the whole, so passes of doubling width sort.
\<close>

section \<open>Lexicographic comparison\<close>

lemma lex_append_less:
  fixes a b x y :: "'a::linorder list"
  shows "length a = length b \<Longrightarrow> a \<noteq> b \<Longrightarrow> a @ x < b @ y \<longleftrightarrow> a < b"
proof (induction a b rule: list_induct2)
  case (Cons c a d b)
  then show ?case by (cases "c = d") auto
qed simp

lemma lex_prefix_less: "a @ x < a @ y \<longleftrightarrow> x < y" for x y :: "'a::linorder list"
  by (induction a) auto

lemma sign_of_le [simp]: "sign_of a b \<le> 0 \<longleftrightarrow> a \<le> b"
  by (auto simp: sign_of_def)

lemma sign_of_chunk:
  fixes a b x y :: "'a::linorder list" and t u :: "'b::linorder"
  assumes "length a = length b" "a \<noteq> b"
  shows "sign_of (a @ x, t) (b @ y, u) = sign_of a b"
  using lex_append_less [OF assms, of x y] lex_append_less [of b a y x] assms
  by (auto simp: sign_of_def less_prod_def')

lemma sign_of_prefix:
  fixes a x y :: "'a::linorder list" and t u :: "'b::linorder"
  shows "sign_of (a @ x, t) (a @ y, u) = sign_of (x, t) (y, u)"
  by (simp add: sign_of_def less_prod_def' lex_prefix_less)

text \<open>The sort key of a record: its key bytes, then the secondary key as a number or as text.\<close>

definition rec_key_bytes :: "bytes \<Rightarrow> sort_record \<Rightarrow> bytes" where
  "rec_key_bytes kf r = sub kf (sr_key_offset r) (sr_key_offset r + sr_key_size r)"

definition secondary_key :: "bool \<Rightarrow> string \<Rightarrow> int \<times> string" where
  "secondary_key numeric s = (if numeric then (text_int s, '''') else (0, s))"

definition rec_key :: "bool \<Rightarrow> bytes \<Rightarrow> sort_record \<Rightarrow> bytes \<times> int \<times> string" where
  "rec_key numeric kf r = (rec_key_bytes kf r, secondary_key numeric (sr_secondary r))"

definition key_inside :: "bytes \<Rightarrow> sort_record \<Rightarrow> bool" where
  "key_inside kf r \<longleftrightarrow> sr_key_offset r + sr_key_size r \<le> length kf"

lemma length_rec_key_bytes: "key_inside kf r \<Longrightarrow> length (rec_key_bytes kf r) = sr_key_size r"
  by (simp add: key_inside_def rec_key_bytes_def)

lemma compare_secondary_sign:
  "compare_secondary numeric a b = sign_of (secondary_key numeric a) (secondary_key numeric b)"
  by (auto simp: compare_secondary_def secondary_key_def sign_of_def less_prod_def')

lemma chunk_of_key:
  "key_inside kf r \<Longrightarrow> offset + n \<le> sr_key_size r \<Longrightarrow>
   sub kf (sr_key_offset r + offset) (sr_key_offset r + offset + n) = take n (drop offset (rec_key_bytes kf r))"
  using sub_sub [of "sr_key_offset r" "offset + n" "sr_key_offset r + sr_key_size r" kf offset]
  by (simp add: rec_key_bytes_def add.assoc) (simp add: Prelude.slice_def)

lemma compare_from_sign:
  assumes "key_inside kf l" "key_inside kf r"
  shows "offset \<le> min (sr_key_size l) (sr_key_size r) \<Longrightarrow>
    compare_from numeric kf l r offset
      = sign_of (drop offset (rec_key_bytes kf l), secondary_key numeric (sr_secondary l))
          (drop offset (rec_key_bytes kf r), secondary_key numeric (sr_secondary r))"
  using assms
proof (induction numeric kf l r offset rule: compare_from.induct)
  case (1 numeric kf l r offset)
  let ?L = "rec_key_bytes kf l" and ?R = "rec_key_bytes kf r"
  let ?m = "min (sr_key_size l) (sr_key_size r)"
  let ?n = "min CHUNK_BYTES (?m - offset)"
  let ?t = "secondary_key numeric (sr_secondary l)" and ?u = "secondary_key numeric (sr_secondary r)"
  have len: "length ?L = sr_key_size l" "length ?R = sr_key_size r"
    using 1(3,4) by (simp_all add: length_rec_key_bytes)
  show ?case
  proof (cases "offset < ?m")
    case True
    let ?a = "take ?n (drop offset ?L)" and ?b = "take ?n (drop offset ?R)"
    have n: "offset + ?n \<le> ?m" using True by linarith
    have ab: "sub kf (sr_key_offset l + offset) (sr_key_offset l + offset + ?n) = ?a"
        "sub kf (sr_key_offset r + offset) (sr_key_offset r + offset + ?n) = ?b"
      using n 1(3,4) by (simp_all add: chunk_of_key)
    have split: "drop offset ?L = ?a @ drop (offset + ?n) ?L" "drop offset ?R = ?b @ drop (offset + ?n) ?R"
      by (metis append_take_drop_id drop_drop add.commute)+
    have same: "length ?a = length ?b" using n len by simp
    show ?thesis
    proof (cases "?a = ?b")
      case False
      then have "sign_of (drop offset ?L, ?t) (drop offset ?R, ?u) = sign_of ?a ?b"
        using sign_of_chunk [OF same False] split by metis
      then show ?thesis using True False ab by (subst compare_from.simps) (simp add: Let_def)
    next
      case eq: True
      have "compare_from numeric kf l r offset = compare_from numeric kf l r (offset + ?n)"
        using True eq ab by (subst compare_from.simps) (simp add: Let_def)
      also have "\<dots> = sign_of (drop (offset + ?n) ?L, ?t) (drop (offset + ?n) ?R, ?u)"
        by (rule 1(1)) (use True eq ab n 1(3,4) in simp_all)
      also have "\<dots> = sign_of (drop offset ?L, ?t) (drop offset ?R, ?u)"
        using sign_of_prefix [of ?a] split eq by metis
      finally show ?thesis .
    qed
  next
    case False
    then have "offset = ?m" using 1(2) by linarith
    then show ?thesis
      using len 1(2)
      by (subst compare_from.simps)
        (auto simp: compare_secondary_sign sign_of_def less_prod_def' min_def list_less_def
          neq_Nil_conv [symmetric]
          split: if_splits)
  qed
qed

lemma compare_records_key:
  "key_inside kf l \<Longrightarrow> key_inside kf r \<Longrightarrow>
   compare_records numeric kf l r \<le> 0 \<longleftrightarrow> rec_key numeric kf l \<le> rec_key numeric kf r"
  by (simp add: compare_records_def compare_from_sign rec_key_def)


section \<open>Stable sorting and merging\<close>

lemma insort_by_key:
  "(\<And>y. y \<in> set ys \<Longrightarrow> cmp x y \<le> 0 \<longleftrightarrow> k x \<le> k y) \<Longrightarrow> insort_by cmp x ys = insort_key k x ys"
  by (induction ys) auto

lemma sorted_by_cmp_key:
  assumes "\<And>x y. x \<in> set xs \<Longrightarrow> y \<in> set xs \<Longrightarrow> cmp x y \<le> 0 \<longleftrightarrow> k x \<le> k y"
  shows "sorted_by_cmp cmp xs = sort_key k xs"
  using assms
proof (induction xs)
  case (Cons x xs)
  have "sorted_by_cmp cmp xs = sort_key k xs" by (rule Cons.IH) (use Cons.prems in auto)
  moreover have "insort_by cmp x (sort_key k xs) = insort_key k x (sort_key k xs)"
    by (rule insort_by_key) (use Cons.prems in auto)
  ultimately show ?case by (simp add: sorted_by_cmp_def)
qed (simp add: sorted_by_cmp_def)

lemma sort_key_cong_on:
  "(\<And>x. x \<in> set xs \<Longrightarrow> f x = g x) \<Longrightarrow> sort_key f xs = sort_key g xs"
proof (induction xs)
  case (Cons x xs)
  have ins: "(\<And>y. y \<in> set ys \<Longrightarrow> f y = g y) \<Longrightarrow> insort_key f x ys = insort_key g x ys" for ys
    using Cons.prems [of x] by (induction ys) auto
  have "sort_key f xs = sort_key g xs" by (rule Cons.IH) (use Cons.prems in auto)
  moreover have "insort_key f x (sort_key g xs) = insort_key g x (sort_key g xs)"
    by (rule ins) (use Cons.prems in auto)
  ultimately show ?case by simp
qed simp

lemma sort_key_map: "sort_key f (map g xs) = map g (sort_key (\<lambda>x. f (g x)) xs)"
proof (induction xs)
  case (Cons x xs)
  have "insort_key f (g x) (map g ys) = map g (insort_key (\<lambda>x. f (g x)) x ys)" for ys
    by (induction ys) auto
  then show ?case using Cons by simp
qed simp

text \<open>The merge of two runs, the left one first on equal keys.\<close>

fun merge_by :: "('a \<Rightarrow> 'k::linorder) \<Rightarrow> 'a list \<Rightarrow> 'a list \<Rightarrow> 'a list" where
  "merge_by k xs [] = xs"
| "merge_by k [] (y # ys) = y # ys"
| "merge_by k (x # xs) (y # ys) = (if k x \<le> k y then x # merge_by k xs (y # ys) else y # merge_by k (x # xs) ys)"

lemma merge_by_Nil [simp]: "merge_by k [] ys = ys"
  by (cases ys) simp_all

lemma mset_merge_by: "mset (merge_by k xs ys) = mset xs + mset ys"
  by (induction k xs ys rule: merge_by.induct) auto

lemma set_merge_by [simp]: "set (merge_by k xs ys) = set xs \<union> set ys"
  using mset_merge_by [of k xs ys] by (metis set_mset_mset set_mset_union)

lemma sorted_merge_by:
  "sorted (map k xs) \<Longrightarrow> sorted (map k ys) \<Longrightarrow> sorted (map k (merge_by k xs ys))"
  by (induction k xs ys rule: merge_by.induct) (auto simp: not_le intro: order.trans less_imp_le)

lemma filter_merge_by:
  "sorted (map k xs) \<Longrightarrow> sorted (map k ys) \<Longrightarrow>
   filter (\<lambda>x. k x = c) (merge_by k xs ys) = filter (\<lambda>x. k x = c) xs @ filter (\<lambda>x. k x = c) ys"
proof (induction k xs ys rule: merge_by.induct)
  case (3 k x xs y ys)
  show ?case
  proof (cases "k x \<le> k y")
    case False
    then have "k y < k z" if "z \<in> set (x # xs)" for z
      using 3(3) that by (auto intro: less_le_trans)
    then have "k y \<noteq> c \<or> (\<forall>z \<in> set (x # xs). k z \<noteq> c)" by (metis less_irrefl)
    then have "k y \<noteq> c \<or> filter (\<lambda>x. k x = c) (x # xs) = []" by (simp only: filter_empty_conv)
    then show ?thesis using 3 False by auto
  qed (use 3 in auto)
qed simp_all

lemma merge_sort_key: "merge_by k (sort_key k xs) (sort_key k ys) = sort_key k (xs @ ys)"
proof (rule properties_for_sort_key [symmetric])
  show "mset (merge_by k (sort_key k xs) (sort_key k ys)) = mset (xs @ ys)"
    by (simp add: mset_merge_by)
  show "filter (\<lambda>x. k z = k x) (merge_by k (sort_key k xs) (sort_key k ys)) = filter (\<lambda>x. k z = k x) (xs @ ys)" for z
    using filter_merge_by [of k "sort_key k xs" "sort_key k ys" "k z"]
    by (simp add: sort_key_stable [of k] eq_commute [of "k z"])
  show "sorted (map k (merge_by k (sort_key k xs) (sort_key k ys)))"
    by (rule sorted_merge_by) simp_all
qed

section \<open>Runs\<close>

text \<open>The list cut into runs of width \<open>w\<close>, each sorted; and one pass over such a list.\<close>

function sorted_runs :: "('a \<Rightarrow> 'k::linorder) \<Rightarrow> nat \<Rightarrow> 'a list \<Rightarrow> 'a list" where
  "sorted_runs k w xs = (if xs = [] \<or> w = 0 then [] else sort_key k (take w xs) @ sorted_runs k w (drop w xs))"
  by pat_completeness auto
termination by (relation "measure (\<lambda>(k, w, xs). length xs)") auto

function pass :: "('a \<Rightarrow> 'k::linorder) \<Rightarrow> nat \<Rightarrow> 'a list \<Rightarrow> 'a list" where
  "pass k w xs =
     (if xs = [] \<or> w = 0 then [] else merge_by k (take w xs) (take w (drop w xs)) @ pass k w (drop (2 * w) xs))"
  by pat_completeness auto
termination by (relation "measure (\<lambda>(k, w, xs). length xs)") auto

declare sorted_runs.simps [simp del] pass.simps [simp del]

lemma sorted_runs_Nil [simp]: "sorted_runs k w [] = []" "pass k w [] = []"
  by (simp_all add: sorted_runs.simps pass.simps)

lemma sorted_runs_short: "0 < w \<Longrightarrow> length xs \<le> w \<Longrightarrow> sorted_runs k w xs = sort_key k xs"
  by (cases "xs = []") (simp_all add: sorted_runs.simps [of k w xs])

lemma mset_sorted_runs: "0 < w \<Longrightarrow> mset (sorted_runs k w xs) = mset xs"
proof (induction k w xs rule: sorted_runs.induct)
  case (1 k w xs)
  show ?case
  proof (cases "xs = []")
    case False
    then have "mset (sorted_runs k w (drop w xs)) = mset (drop w xs)" using 1 by simp
    then show ?thesis
      using False 1(2) by (subst sorted_runs.simps) (simp, metis append_take_drop_id mset_append)
  qed simp
qed

lemma length_sorted_runs [simp]: "0 < w \<Longrightarrow> length (sorted_runs k w xs) = length xs"
  by (metis mset_sorted_runs size_mset)

lemma set_sorted_runs [simp]: "0 < w \<Longrightarrow> set (sorted_runs k w xs) = set xs"
  by (metis mset_sorted_runs set_mset_mset)

lemma sorted_runs_append:
  "w dvd length xs \<Longrightarrow> 0 < w \<Longrightarrow> sorted_runs k w (xs @ ys) = sorted_runs k w xs @ sorted_runs k w ys"
proof (induction "length xs" arbitrary: xs rule: less_induct)
  case less
  show ?case
  proof (cases "xs = []")
    case False
    then have w: "w \<le> length xs" using less(2) by (auto dest: dvd_imp_le)
    have "sorted_runs k w (drop w xs @ ys) = sorted_runs k w (drop w xs) @ sorted_runs k w ys"
      by (rule less(1)) (use less(2,3) w False in \<open>auto simp: dvd_diff_nat\<close>)
    then show ?thesis
      using w False less(3) sorted_runs.simps [of k w "xs @ ys"] sorted_runs.simps [of k w xs] by simp
  qed simp
qed

lemma sorted_runs_take_drop:
  assumes "0 < w"
  shows "take w (sorted_runs k w xs) = sort_key k (take w xs)"
    and "drop w (sorted_runs k w xs) = sorted_runs k w (drop w xs)"
proof -
  have "take w (sorted_runs k w xs) = sort_key k (take w xs) \<and> drop w (sorted_runs k w xs) = sorted_runs k w (drop w xs)"
  proof (cases "w \<le> length xs")
    case True
    then show ?thesis using assms by (auto simp: sorted_runs.simps [of k w xs])
  next
    case False
    then show ?thesis using assms by (simp add: sorted_runs_short)
  qed
  then show "take w (sorted_runs k w xs) = sort_key k (take w xs)"
    "drop w (sorted_runs k w xs) = sorted_runs k w (drop w xs)" by auto
qed

lemma pass_sorted_runs: "0 < w \<Longrightarrow> pass k w (sorted_runs k w xs) = sorted_runs k (2 * w) xs"
proof (induction "length xs" arbitrary: xs rule: less_induct)
  case less
  show ?case
  proof (cases "xs = []")
    case False
    let ?s = "sorted_runs k w xs"
    have ne: "?s \<noteq> []" using False less(2) by (metis length_0_conv length_sorted_runs)
    have parts: "take w ?s = sort_key k (take w xs)" "take w (drop w ?s) = sort_key k (take w (drop w xs))"
        "drop (2 * w) ?s = sorted_runs k w (drop (2 * w) xs)"
      using less(2) by (simp_all add: sorted_runs_take_drop mult_2 flip: drop_drop)
    have rest: "pass k w (sorted_runs k w (drop (2 * w) xs)) = sorted_runs k (2 * w) (drop (2 * w) xs)"
      by (rule less(1)) (use False less(2) in auto)
    have "pass k w ?s = merge_by k (take w ?s) (take w (drop w ?s)) @ pass k w (drop (2 * w) ?s)"
      using ne less(2) by (subst pass.simps) simp
    also have "\<dots> = sort_key k (take w xs @ take w (drop w xs)) @ sorted_runs k (2 * w) (drop (2 * w) xs)"
      by (simp only: parts rest merge_sort_key)
    also have "take w xs @ take w (drop w xs) = take (2 * w) xs"
      by (metis mult_2 take_add)
    finally show ?thesis using False less(2) by (subst sorted_runs.simps) simp
  qed simp
qed

end
