(* ===== verification/SpoolFiles.thy ===== *)
theory SpoolFiles imports SpoolOrder begin

text \<open>
  The files of the external sort: a record file is the concatenation of its packed records, read
  back by position; merging over positions is merging of lists. Then: the replay of everything
  appended is the stable sort of it.
\<close>

section \<open>Record files\<close>


















section \<open>Merging over positions\<close>












section \<open>Everything appended\<close>





























end
