(* ===== verification/Scheduler.thy ===== *)
theory Scheduler imports Prelude begin

text \<open>
  \<open>BackgroundScheduler\<close> of \<open>app/account_workers.py\<close>: one background turn at a time, in the order
  the worker types asked for it. A future is a number; the coroutines inside \<open>turn\<close> are the
  frames, in the order they entered. A frame whose task is cancelled has its future cancelled at
  once and runs its \<open>finally\<close> later, so that other frames can move in between.
\<close>

section \<open>Operations\<close>

record scheduler =
  bs_ready :: "(string \<times> nat) list"
  bs_registrations :: "string set"
  bs_active :: "string option"
  bs_cancelled :: "nat set"
  bs_resolved :: "nat set"

definition new_scheduler :: scheduler where
  "new_scheduler = \<lparr>bs_ready = [], bs_registrations = {}, bs_active = None, bs_cancelled = {}, bs_resolved = {}\<rparr>"

text \<open>\<open>_advance\<close>: the loop over the queue.\<close>

fun advance_queue :: "(string \<times> nat) list \<Rightarrow> scheduler \<Rightarrow> scheduler" where
  "advance_queue [] s = s\<lparr>bs_ready := []\<rparr>"
| "advance_queue ((label, ready) # queue) s =
     (if bs_active s \<noteq> None then s\<lparr>bs_ready := (label, ready) # queue\<rparr>
      else if ready \<in> bs_cancelled s then advance_queue queue s
      else s\<lparr>bs_ready := queue, bs_active := Some label, bs_resolved := insert ready (bs_resolved s)\<rparr>)"

definition advance :: "scheduler \<Rightarrow> scheduler" where
  "advance s = advance_queue (bs_ready s) s"

text \<open>\<open>turn\<close> up to \<open>await ready\<close>; \<open>f\<close> is the future it creates.\<close>

definition enter_turn :: "string \<Rightarrow> nat \<Rightarrow> scheduler \<Rightarrow> scheduler result" where
  "enter_turn label f s =
     (if label \<in> bs_registrations s then Inl (ValueError ''background type already registered'')
      else if card (bs_registrations s) \<ge> 7 then Inl (ValueError ''too many background worker types'')
      else Inr (advance (s\<lparr>bs_registrations := insert label (bs_registrations s),
                           bs_ready := bs_ready s @ [(label, f)]\<rparr>)))"

text \<open>Cancelling the task that awaits a future cancels the future.\<close>

definition cancel_turn :: "nat \<Rightarrow> scheduler \<Rightarrow> scheduler" where
  "cancel_turn f s = s\<lparr>bs_cancelled := insert f (bs_cancelled s)\<rparr>"

text \<open>The \<open>finally\<close> of \<open>turn\<close>.\<close>

definition leave_turn :: "string \<Rightarrow> nat \<Rightarrow> scheduler \<Rightarrow> scheduler" where
  "leave_turn label f s =
     (let s1 = s\<lparr>bs_registrations := bs_registrations s - {label}\<rparr>
      in advance (if bs_active s1 = Some label then s1\<lparr>bs_active := None\<rparr>
                  else s1\<lparr>bs_ready := filter (\<lambda>item. snd item \<noteq> f) (bs_ready s1)\<rparr>))"

section \<open>Runs\<close>

text \<open>
  The frames inside \<open>turn\<close> with their futures. A frame waits until its future is resolved or
  cancelled; only then does it reach its \<open>finally\<close>.
\<close>

type_synonym frames = "(string \<times> nat) list"

inductive sched_step :: "scheduler \<times> frames \<Rightarrow> scheduler \<times> frames \<Rightarrow> bool" where
  enters: "f \<notin> snd ` set fr \<Longrightarrow> f \<notin> bs_cancelled s \<Longrightarrow> f \<notin> bs_resolved s \<Longrightarrow>
    enter_turn label f s = Inr s' \<Longrightarrow> sched_step (s, fr) (s', fr @ [(label, f)])"
| cancels: "(label, f) \<in> set fr \<Longrightarrow> f \<notin> bs_resolved s \<Longrightarrow> sched_step (s, fr) (cancel_turn f s, fr)"
| leaves: "(label, f) \<in> set fr \<Longrightarrow> f \<in> bs_resolved s \<or> f \<in> bs_cancelled s \<Longrightarrow>
    sched_step (s, fr) (leave_turn label f s, filter (\<lambda>item. snd item \<noteq> f) fr)"

inductive sched_reachable :: "scheduler \<times> frames \<Rightarrow> bool" where
  start: "sched_reachable (new_scheduler, [])"
| step: "sched_reachable c \<Longrightarrow> sched_step c c' \<Longrightarrow> sched_reachable c'"

inductive_cases sched_stepE: "sched_step (s, fr) (s', fr')"

lemmas sched_step_cases = sched_stepE [consumes 1, case_names enters cancels leaves]

section \<open>Invariant\<close>

text \<open>
  Registrations are the labels of the frames, all different; the queue is a part of the frames in
  their order, without resolved futures, and holds every frame that still waits; the frame with a
  resolved future is the active one; and with no active turn the queue is empty.
\<close>

definition waiting :: "scheduler \<Rightarrow> frames \<Rightarrow> frames" where
  "waiting s fr = filter (\<lambda>x. snd x \<notin> bs_resolved s \<and> snd x \<notin> bs_cancelled s) fr"

definition sched_inv :: "scheduler \<times> frames \<Rightarrow> bool" where
  "sched_inv c = (case c of (s, fr) \<Rightarrow>
     distinct (map fst fr) \<and> distinct (map snd fr) \<and> bs_registrations s = fst ` set fr \<and> length fr \<le> 7
     \<and> filter (\<lambda>x. snd x \<notin> bs_cancelled s) (bs_ready s) = waiting s fr
     \<and> set (bs_ready s) \<subseteq> set fr \<and> snd ` set (bs_ready s) \<inter> bs_resolved s = {}
     \<and> bs_cancelled s \<inter> bs_resolved s = {}
     \<and> (\<forall>l f. (l, f) \<in> set fr \<longrightarrow> (f \<in> bs_resolved s \<longleftrightarrow> bs_active s = Some l))
     \<and> (\<forall>l. bs_active s = Some l \<longrightarrow> l \<in> fst ` set fr)
     \<and> (bs_active s = None \<longrightarrow> bs_ready s = []))"


text \<open>The invariant before \<open>_advance\<close> has run: all but the last conjunct.\<close>

definition sched_pre :: "scheduler \<Rightarrow> frames \<Rightarrow> bool" where
  "sched_pre s fr \<longleftrightarrow>
     distinct (map fst fr) \<and> distinct (map snd fr) \<and> bs_registrations s = fst ` set fr \<and> length fr \<le> 7
     \<and> filter (\<lambda>x. snd x \<notin> bs_cancelled s) (bs_ready s) = waiting s fr
     \<and> set (bs_ready s) \<subseteq> set fr \<and> snd ` set (bs_ready s) \<inter> bs_resolved s = {}
     \<and> bs_cancelled s \<inter> bs_resolved s = {}
     \<and> (\<forall>l f. (l, f) \<in> set fr \<longrightarrow> (f \<in> bs_resolved s \<longleftrightarrow> bs_active s = Some l))
     \<and> (\<forall>l. bs_active s = Some l \<longrightarrow> l \<in> fst ` set fr)"

lemma sched_inv_pre: "sched_inv (s, fr) \<longleftrightarrow> sched_pre s fr \<and> (bs_active s = None \<longrightarrow> bs_ready s = [])"
  by (auto simp: sched_inv_def sched_pre_def)

lemma advance_active: "bs_active s \<noteq> None \<Longrightarrow> advance s = s"
  unfolding advance_def by (cases "bs_ready s") (auto simp del: not_None_eq)

lemma advance_queue_idle:
  "bs_active s = None \<Longrightarrow> advance_queue q s =
    (case dropWhile (\<lambda>x. snd x \<in> bs_cancelled s) q of
       [] \<Rightarrow> s\<lparr>bs_ready := []\<rparr>
     | (l, f) # q' \<Rightarrow> s\<lparr>bs_ready := q', bs_active := Some l, bs_resolved := insert f (bs_resolved s)\<rparr>)"
  by (induction q) auto

lemma dropWhile_filter_not: "filter (\<lambda>x. \<not> P x) (dropWhile P xs) = filter (\<lambda>x. \<not> P x) xs"
  by (induction xs) auto

text \<open>What \<open>_advance\<close> does: nothing, or the first waiting frame is granted its turn.\<close>

lemma advance_cases:
  assumes "sched_pre s fr"
  obtains (same) "advance s = s" "bs_active s \<noteq> None"
    | (empty) "advance s = s\<lparr>bs_ready := []\<rparr>" "bs_active s = None" "waiting s fr = []"
    | (grant) l f q where
        "advance s = s\<lparr>bs_ready := q, bs_active := Some l, bs_resolved := insert f (bs_resolved s)\<rparr>"
        "bs_active s = None" "waiting s fr = (l, f) # filter (\<lambda>x. snd x \<notin> bs_cancelled s) q"
        "set ((l, f) # q) \<subseteq> set (bs_ready s)"
proof (cases "bs_active s")
  case None
  let ?P = "\<lambda>x. snd x \<in> bs_cancelled s"
  let ?d = "dropWhile ?P (bs_ready s)"
  have wait: "waiting s fr = filter (\<lambda>x. snd x \<notin> bs_cancelled s) ?d"
    using dropWhile_filter_not [of ?P "bs_ready s"] assms by (simp add: sched_pre_def)
  show ?thesis
  proof (cases ?d)
    case Nil
    have "advance s = s\<lparr>bs_ready := []\<rparr>" unfolding advance_def advance_queue_idle [OF None] Nil by simp
    moreover have "waiting s fr = []" unfolding wait Nil by simp
    ultimately show ?thesis using empty None by blast
  next
    case (Cons p q)
    obtain l f where p: "p = (l, f)" by fastforce
    have "f \<notin> bs_cancelled s"
      using hd_dropWhile [of ?P "bs_ready s"] Cons p by (cases "dropWhile ?P (bs_ready s)") auto
    moreover have "set (p # q) \<subseteq> set (bs_ready s)"
      using Cons set_dropWhileD [of _ ?P "bs_ready s"] by (metis subsetI)
    moreover have "advance s = s\<lparr>bs_ready := q, bs_active := Some l, bs_resolved := insert f (bs_resolved s)\<rparr>"
      unfolding advance_def advance_queue_idle [OF None] Cons p by simp
    ultimately show ?thesis using grant [where l = l and f = f and q = q] None wait Cons p by simp
  qed
qed (use same advance_active in auto)

lemma waiting_grant:
  assumes "distinct (map snd fr)" "waiting s fr = (l, f) # w"
  shows "waiting (s\<lparr>bs_ready := q, bs_active := a, bs_resolved := insert f (bs_resolved s)\<rparr>) fr = w"
proof -
  have "distinct (map snd (waiting s fr))" using assms(1) by (simp add: waiting_def distinct_map_filter)
  then have f: "f \<notin> snd ` set w" using assms(2) by simp
  have "waiting (s\<lparr>bs_ready := q, bs_active := a, bs_resolved := insert f (bs_resolved s)\<rparr>) fr
      = filter (\<lambda>x. snd x \<noteq> f) (waiting s fr)"
    by (simp add: waiting_def) (rule filter_cong, auto)
  also have "\<dots> = w" using assms(2) f by (force simp: filter_id_conv)
  finally show ?thesis .
qed

lemma frames_functional:
  "distinct (map fst fr) \<Longrightarrow> (l, f) \<in> set fr \<Longrightarrow> (l, g) \<in> set fr \<Longrightarrow> f = g"
  "distinct (map snd fr) \<Longrightarrow> (l, f) \<in> set fr \<Longrightarrow> (m, f) \<in> set fr \<Longrightarrow> l = m"
  by (auto simp: distinct_map inj_on_def split_paired_Ball_Sigma) (metis fst_conv snd_conv)+

lemma sched_advance:
  assumes "sched_pre s fr"
  shows "sched_inv (advance s, fr)"
  using assms
proof (cases rule: advance_cases)
  case same
  then show ?thesis using assms by (simp only: sched_inv_pre) simp
next
  case empty
  then show ?thesis using assms by (simp add: sched_inv_pre) (simp add: sched_pre_def waiting_def)
next
  case (grant l f q)
  have pre: "distinct (map fst fr)" "distinct (map snd fr)" "set (bs_ready s) \<subseteq> set fr"
      "snd ` set (bs_ready s) \<inter> bs_resolved s = {}" "bs_cancelled s \<inter> bs_resolved s = {}"
    using assms by (simp_all add: sched_pre_def)
  have lf: "(l, f) \<in> set fr" using grant(4) pre(3) by auto
  have w: "(l, f) \<in> set (waiting s fr)" using grant(3) by simp
  then have nf: "f \<notin> bs_cancelled s" "f \<notin> bs_resolved s" by (auto simp: waiting_def)
  have none: "(m, g) \<in> set fr \<Longrightarrow> g \<notin> bs_resolved s" for m g
    using assms grant(2) unfolding sched_pre_def by auto
  let ?s = "advance s"
  have fields: "bs_ready ?s = q" "bs_active ?s = Some l" "bs_resolved ?s = insert f (bs_resolved s)"
      "bs_cancelled ?s = bs_cancelled s" "bs_registrations ?s = bs_registrations s"
    by (simp_all add: grant(1))
  have waits: "waiting ?s fr = filter (\<lambda>x. snd x \<notin> bs_cancelled s) q"
    unfolding grant(1) by (rule waiting_grant [OF pre(2) grant(3)])
  have "distinct (map snd (waiting s fr))" using pre(2) by (simp add: waiting_def distinct_map_filter)
  then have "f \<notin> snd ` set (filter (\<lambda>x. snd x \<notin> bs_cancelled s) q)" unfolding grant(3) by simp
  then have fq: "f \<notin> snd ` set q" using nf(1) by force
  have sub: "set q \<subseteq> set fr" "snd ` set q \<inter> bs_resolved s = {}" using grant(4) pre(3,4) by auto
  have owner: "g \<in> insert f (bs_resolved s) \<longleftrightarrow> l = m" if "(m, g) \<in> set fr" for m g
    using that none [OF that] lf frames_functional(1) [OF pre(1) lf] frames_functional(2) [OF pre(2) lf] by blast
  show ?thesis
    unfolding sched_inv_pre sched_pre_def fields waits
  proof (intro conjI allI impI)
    show "snd ` set q \<inter> insert f (bs_resolved s) = {}" using sub(2) fq by blast
    show "bs_cancelled s \<inter> insert f (bs_resolved s) = {}" using pre(5) nf(1) by blast
    show "m \<in> fst ` set fr" if "Some l = Some m" for m using that lf by force
  qed (use assms owner sub in \<open>simp_all add: sched_pre_def\<close>)
qed


section \<open>Every step\<close>

lemma filter_ready_enter:
  "f \<notin> bs_cancelled s \<Longrightarrow> f \<notin> bs_resolved s \<Longrightarrow> waiting s (fr @ [(label, f)]) = waiting s fr @ [(label, f)]"
  by (simp add: waiting_def)

lemma sched_enter:
  assumes "sched_inv (s, fr)" "enter_turn label f s = Inr s'"
    and "f \<notin> snd ` set fr" "f \<notin> bs_cancelled s" "f \<notin> bs_resolved s"
  defines "s1 \<equiv> s\<lparr>bs_registrations := insert label (bs_registrations s), bs_ready := bs_ready s @ [(label, f)]\<rparr>"
  shows "s' = advance s1 \<and> sched_pre s1 (fr @ [(label, f)])"
proof -
  have inv: "distinct (map fst fr)" "distinct (map snd fr)" "bs_registrations s = fst ` set fr"
    using assms(1) by (simp_all add: sched_inv_pre sched_pre_def)
  have e: "s' = advance s1" "label \<notin> bs_registrations s" "card (bs_registrations s) < 7"
    using assms(2) by (auto simp: enter_turn_def s1_def split: if_splits)
  have "card (fst ` set fr) = length fr" using inv(1) by (metis distinct_card length_map set_map)
  then have len: "length fr < 7" using e(3) inv(3) by simp
  have w: "waiting s1 (fr @ [(label, f)]) = waiting s fr @ [(label, f)]"
    using filter_ready_enter [OF assms(4,5), of fr label] by (simp add: waiting_def s1_def)
  have "sched_pre s1 (fr @ [(label, f)])"
    unfolding sched_pre_def w
    using assms(1,3,4,5) e(2) inv(3) len
    by (auto simp: s1_def sched_inv_pre sched_pre_def)
  then show ?thesis using e(1) by blast
qed

lemma sched_cancel:
  assumes "sched_inv (s, fr)" "f \<notin> bs_resolved s"
  shows "sched_inv (cancel_turn f s, fr)"
proof -
  let ?c = "cancel_turn f s"
  have fields: "bs_ready ?c = bs_ready s" "bs_registrations ?c = bs_registrations s" "bs_active ?c = bs_active s"
      "bs_resolved ?c = bs_resolved s" "bs_cancelled ?c = insert f (bs_cancelled s)"
    by (simp_all add: cancel_turn_def)
  have w: "waiting ?c fr = filter (\<lambda>x. snd x \<noteq> f) (waiting s fr)"
    by (simp add: waiting_def fields) (rule filter_cong, auto)
  have e: "filter (\<lambda>x. snd x \<notin> bs_cancelled s) (bs_ready s) = waiting s fr"
    using assms(1) by (simp add: sched_inv_pre sched_pre_def)
  have "filter (\<lambda>x. snd x \<notin> bs_cancelled ?c) (bs_ready s) = waiting ?c fr"
    unfolding w e [symmetric] fields filter_filter by (rule filter_cong) auto
  then show ?thesis
    using assms unfolding sched_inv_pre sched_pre_def fields by auto
qed

lemma sched_leave:
  assumes "sched_inv (s, fr)" "(label, f) \<in> set fr" "f \<in> bs_resolved s \<or> f \<in> bs_cancelled s"
  defines "fr' \<equiv> filter (\<lambda>item. snd item \<noteq> f) fr"
  obtains s1 where "leave_turn label f s = advance s1" "sched_pre s1 fr'" "waiting s1 fr' = waiting s fr"
    "bs_resolved s1 = bs_resolved s"
    "bs_active s1 = (if bs_active s = Some label then None else bs_active s)"
proof -
  let ?a = "bs_active s = Some label"
  let ?s1 = "if ?a then s\<lparr>bs_registrations := bs_registrations s - {label}, bs_active := None\<rparr>
    else s\<lparr>bs_registrations := bs_registrations s - {label}, bs_ready := filter (\<lambda>item. snd item \<noteq> f) (bs_ready s)\<rparr>"
  have inv: "distinct (map fst fr)" "distinct (map snd fr)" "bs_registrations s = fst ` set fr" "length fr \<le> 7"
      "filter (\<lambda>x. snd x \<notin> bs_cancelled s) (bs_ready s) = waiting s fr" "set (bs_ready s) \<subseteq> set fr"
      "snd ` set (bs_ready s) \<inter> bs_resolved s = {}" "bs_cancelled s \<inter> bs_resolved s = {}"
      "\<And>l g. (l, g) \<in> set fr \<Longrightarrow> g \<in> bs_resolved s \<longleftrightarrow> bs_active s = Some l"
      "\<And>l. bs_active s = Some l \<Longrightarrow> l \<in> fst ` set fr"
    using assms(1) by (simp_all add: sched_inv_pre sched_pre_def)
  have res: "f \<in> bs_resolved s \<longleftrightarrow> ?a" using inv(9) [OF assms(2)] by simp
  have fields: "bs_cancelled ?s1 = bs_cancelled s" "bs_resolved ?s1 = bs_resolved s"
      "bs_registrations ?s1 = bs_registrations s - {label}"
      "bs_active ?s1 = (if ?a then None else bs_active s)"
      "bs_ready ?s1 = (if ?a then bs_ready s else filter (\<lambda>item. snd item \<noteq> f) (bs_ready s))"
    by simp_all
  have wait: "waiting ?s1 fr' = waiting s fr"
    unfolding waiting_def fr'_def fields filter_filter
    using assms(3) by (intro filter_cong) auto
  have fr': "x \<in> set fr' \<longleftrightarrow> x \<in> set fr \<and> fst x \<noteq> label" for x
    using frames_functional(1) [OF inv(1) assms(2)] frames_functional(2) [OF inv(2) assms(2)]
    by (cases x) (auto simp: fr'_def)
  have labels: "fst ` set fr' = fst ` set fr - {label}" using fr' by force
  have ready: "filter (\<lambda>x. snd x \<notin> bs_cancelled ?s1) (bs_ready ?s1) = waiting ?s1 fr'"
  proof (cases ?a)
    case False
    then have "f \<in> bs_cancelled s" using assms(3) res by simp
    then have "filter (\<lambda>x. snd x \<notin> bs_cancelled s) (filter (\<lambda>item. snd item \<noteq> f) (bs_ready s))
        = filter (\<lambda>x. snd x \<notin> bs_cancelled s) (bs_ready s)"
      unfolding filter_filter by (intro filter_cong) auto
    then show ?thesis unfolding wait fields using False inv(5) by simp
  qed (unfold wait fields, simp add: inv(5))
  have sub: "set (bs_ready ?s1) \<subseteq> set fr'"
    using inv(6,7) res unfolding fields fr'_def by (auto simp: image_iff)
  have pre: "sched_pre ?s1 fr'"
    unfolding sched_pre_def
  proof (intro conjI allI impI)
    show "distinct (map fst fr')" "distinct (map snd fr')"
      using inv(1,2) by (simp_all add: fr'_def distinct_map_filter)
    show "bs_registrations ?s1 = fst ` set fr'" unfolding labels inv(3) [symmetric] by (rule fields(3))
    show "length fr' \<le> 7" using inv(4) length_filter_le [of _ fr] unfolding fr'_def by (rule order.trans [rotated])
    show "snd ` set (bs_ready ?s1) \<inter> bs_resolved ?s1 = {}" using inv(7) unfolding fields by auto
    show "bs_cancelled ?s1 \<inter> bs_resolved ?s1 = {}" using inv(8) unfolding fields .
    show "g \<in> bs_resolved ?s1 \<longleftrightarrow> bs_active ?s1 = Some l" if "(l, g) \<in> set fr'" for l g
      using that inv(9) [of l g] fr' [of "(l, g)"] unfolding fields by auto
    show "l \<in> fst ` set fr'" if "bs_active ?s1 = Some l" for l
      using that inv(10) [of l] unfolding fields labels by (auto split: if_splits)
  qed (rule ready, rule sub)
  have "leave_turn label f s = advance ?s1" by (simp add: leave_turn_def)
  then show ?thesis using that [of ?s1] pre wait fields by blast
qed


lemma sched_step_inv: "sched_step c c' \<Longrightarrow> sched_inv c \<Longrightarrow> sched_inv c'"
proof (induction rule: sched_step.induct)
  case (enters f fr s label s')
  then show ?case using sched_enter [OF enters(5,4,1,2,3)] sched_advance by simp
next
  case (cancels label f fr s)
  then show ?case using sched_cancel by simp
next
  case (leaves label f fr s)
  show ?case by (rule sched_leave [OF leaves(3,1,2)]) (simp add: sched_advance)
qed

lemma sched_reachable_inv: "sched_reachable c \<Longrightarrow> sched_inv c"
proof (induction rule: sched_reachable.induct)
  case start
  then show ?case by (simp add: sched_inv_def new_scheduler_def waiting_def)
qed (rule sched_step_inv)

text \<open>Who waits after \<open>_advance\<close>: the same frames, without the first when it is granted its turn.\<close>

lemma waiting_advance:
  assumes "sched_pre s fr"
  shows "if bs_active s = None \<and> waiting s fr \<noteq> []
    then waiting (advance s) fr = tl (waiting s fr) \<and> bs_resolved (advance s) = insert (snd (hd (waiting s fr))) (bs_resolved s)
    else waiting (advance s) fr = waiting s fr \<and> bs_resolved (advance s) = bs_resolved s"
  using assms
proof (cases rule: advance_cases)
  case empty
  then show ?thesis by (simp add: waiting_def)
next
  case (grant l f q)
  have "distinct (map snd fr)" using assms by (simp add: sched_pre_def)
  from waiting_grant [OF this grant(3)] show ?thesis using grant by simp
qed auto

text \<open>How a step changes who waits: one joins at the end, or some leave, none overtakes another.\<close>

lemma sched_step_waiting:
  assumes "sched_step (s, fr) (s', fr')" "sched_inv (s, fr)"
  obtains (joins) label f w where "w = waiting s fr @ [(label, f)]"
      "if bs_active s = None then waiting s' fr' = tl w \<and> bs_resolved s' = insert (snd (hd w)) (bs_resolved s)
       else waiting s' fr' = w \<and> bs_resolved s' = bs_resolved s"
    | (withdraws) f where "waiting s' fr' = filter (\<lambda>x. snd x \<noteq> f) (waiting s fr)" "bs_resolved s' = bs_resolved s"
    | (ends) l where "bs_active s = Some l" "waiting s' fr' = tl (waiting s fr)"
      "bs_resolved s' = bs_resolved s \<union> snd ` set (take 1 (waiting s fr))"
    | (same) "waiting s' fr' = waiting s fr" "bs_resolved s' = bs_resolved s"
  using assms(1)
proof (cases rule: sched_step_cases)
  case (enters f label)
  let ?s1 = "s\<lparr>bs_registrations := insert label (bs_registrations s), bs_ready := bs_ready s @ [(label, f)]\<rparr>"
  note e = sched_enter [OF assms(2) enters(5,2,3,4)]
  have w: "waiting ?s1 fr' = waiting s fr @ [(label, f)]"
    using filter_ready_enter [OF enters(3,4), of fr label] by (simp add: waiting_def enters(1))
  have "sched_pre ?s1 fr'" using e enters(1) by simp
  from waiting_advance [OF this] show ?thesis
    using e by (intro joins [OF refl, of label f]) (simp add: w split: if_splits)
next
  case (cancels label f)
  have "waiting s' fr' = filter (\<lambda>x. snd x \<noteq> f) (waiting s fr)"
    using cancels by (simp add: waiting_def cancel_turn_def) (rule filter_cong, auto)
  then show ?thesis using cancels by (intro withdraws) (simp_all add: cancel_turn_def)
next
  case (leaves label f)
  obtain s1 where s1: "leave_turn label f s = advance s1" "sched_pre s1 fr'" "waiting s1 fr' = waiting s fr"
      "bs_resolved s1 = bs_resolved s" "bs_active s1 = (if bs_active s = Some label then None else bs_active s)"
    using sched_leave [OF assms(2) leaves(1,2)] leaves(3,4) by metis
  note a = waiting_advance [OF s1(2), unfolded s1(3,4)]
  show ?thesis
  proof (cases "bs_active s = Some label")
    case True
    then show ?thesis
      using a s1 leaves(3) by (intro ends [of label]) (cases "waiting s fr"; simp)+
  next
    case False
    show ?thesis
    proof (cases "bs_active s")
      case None
      then have "bs_ready s = []" using assms(2) by (simp add: sched_inv_pre)
      then have "waiting s fr = []" using assms(2) by (simp add: sched_inv_pre sched_pre_def)
      then show ?thesis using same a s1 leaves(3) False None by simp
    next
      case (Some m)
      then show ?thesis using same a s1 leaves(3) False by simp
    qed
  qed
qed


section \<open>First come, first served\<close>

lemma sched_no_overtaking:
  assumes "sched_step (s, fr) (s', fr')" "sched_inv (s, fr)" "x \<in> set (waiting s fr)" "x \<in> set (waiting s' fr')"
  shows "place_in x (waiting s' fr') \<le> place_in x (waiting s fr)
    \<and> (bs_resolved s' \<noteq> bs_resolved s \<longrightarrow> place_in x (waiting s' fr') < place_in x (waiting s fr))"
proof -
  have d: "distinct (waiting s fr)"
    using assms(2) by (auto simp: sched_inv_pre sched_pre_def waiting_def distinct_map)
  have ne: "waiting s fr \<noteq> []" using assms(3) by auto
  show ?thesis
    using assms(1,2)
  proof (cases rule: sched_step_waiting)
    case (joins label f w)
    have "bs_active s \<noteq> None"
      using ne assms(2) by (auto simp: sched_inv_pre sched_pre_def)
    then show ?thesis using joins assms(3) by (auto simp: place_in_append)
  next
    case (withdraws f)
    then show ?thesis using assms(4) place_in_filter [of "\<lambda>x. snd x \<noteq> f" x "waiting s fr"] by simp
  next
    case (ends l)
    then show ?thesis using assms(4) d place_in_tl [of x "waiting s fr"] by (simp add: less_imp_le)
  qed simp
qed

lemma sched_grants_first:
  assumes "sched_step (s, fr) (s', fr')" "sched_inv (s, fr)" "waiting s fr \<noteq> []"
  shows "bs_resolved s' \<subseteq> insert (snd (hd (waiting s fr))) (bs_resolved s)"
  using assms(1,2)
proof (cases rule: sched_step_waiting)
  case (joins label f w)
  have "bs_active s \<noteq> None" using assms(2,3) by (auto simp: sched_inv_pre sched_pre_def)
  then show ?thesis using joins by auto
next
  case (ends l)
  then show ?thesis using assms(3) by (cases "waiting s fr") auto
qed auto

text \<open>
  C32. Background turns are exclusive and first come, first served, in every reachable state: at
  most one frame holds a turn, never more than seven are registered, and while a frame waits some
  other holds the turn. A step grants a turn only to the frame that has waited longest; no step,
  a cancellation included, moves a waiting frame back, and every grant to another moves it forward,
  so a frame at position \<open>p\<close> gets its turn with the grant after at most \<open>p\<close> others.
\<close>

theorem scheduler_fifo:
  assumes "sched_reachable (s, fr)"
  shows "(\<forall>x \<in> set fr. \<forall>y \<in> set fr. snd x \<in> bs_resolved s \<longrightarrow> snd y \<in> bs_resolved s \<longrightarrow> x = y)
    \<and> length fr \<le> 7 \<and> (waiting s fr \<noteq> [] \<longrightarrow> (\<exists>x \<in> set fr. snd x \<in> bs_resolved s))
    \<and> (\<forall>s' fr'. sched_step (s, fr) (s', fr') \<longrightarrow>
        (waiting s fr \<noteq> [] \<longrightarrow> bs_resolved s' \<subseteq> insert (snd (hd (waiting s fr))) (bs_resolved s))
        \<and> (\<forall>x \<in> set (waiting s fr) \<inter> set (waiting s' fr').
            place_in x (waiting s' fr') \<le> place_in x (waiting s fr)
            \<and> (bs_resolved s' \<noteq> bs_resolved s \<longrightarrow> place_in x (waiting s' fr') < place_in x (waiting s fr))))"
proof -
  have inv: "sched_inv (s, fr)" by (rule sched_reachable_inv [OF assms])
  then have owner: "\<And>l f. (l, f) \<in> set fr \<Longrightarrow> f \<in> bs_resolved s \<longleftrightarrow> bs_active s = Some l"
    and frames: "distinct (map fst fr)" "length fr \<le> 7" "bs_active s = None \<Longrightarrow> waiting s fr = []"
      "\<And>l. bs_active s = Some l \<Longrightarrow> l \<in> fst ` set fr"
    by (auto simp: sched_inv_pre sched_pre_def)
  have one: "x = y" if "x \<in> set fr" "y \<in> set fr" "snd x \<in> bs_resolved s" "snd y \<in> bs_resolved s" for x y
  proof -
    have "fst x = fst y" using that owner [of "fst x" "snd x"] owner [of "fst y" "snd y"] by simp
    moreover have "(fst x, snd x) \<in> set fr" "(fst y, snd y) \<in> set fr" using that by simp_all
    ultimately have "snd x = snd y" using frames_functional(1) [OF frames(1)] by metis
    then show ?thesis using \<open>fst x = fst y\<close> by (simp add: prod_eq_iff)
  qed
  have held: "\<exists>x \<in> set fr. snd x \<in> bs_resolved s" if w: "waiting s fr \<noteq> []"
  proof -
    obtain l where l: "bs_active s = Some l" using w frames(3) by (cases "bs_active s") auto
    then obtain f where "(l, f) \<in> set fr" using frames(4) by fastforce
    then show ?thesis using owner l by force
  qed
  show ?thesis
    using one held frames(2) sched_no_overtaking [OF _ inv] sched_grants_first [OF _ inv] by blast
qed

definition two_frames :: "scheduler \<times> frames" where
  "two_frames =
     (\<lparr>bs_ready = [(''geocode'', 1)], bs_registrations = {''snap'', ''geocode''}, bs_active = Some ''snap'',
       bs_cancelled = {}, bs_resolved = {0}\<rparr>, [(''snap'', 0), (''geocode'', 1)])"

lemma two_frames_reachable: "sched_reachable two_frames"
proof -
  let ?s1 = "\<lparr>bs_ready = [], bs_registrations = {''snap''}, bs_active = Some ''snap'', bs_cancelled = {}, bs_resolved = {0}\<rparr>"
  have "sched_step (new_scheduler, []) (?s1, [] @ [(''snap'', 0)])"
    by (rule enters) (simp_all add: new_scheduler_def enter_turn_def advance_def)
  then have "sched_reachable (?s1, [(''snap'', 0)])" using step start by fastforce
  moreover have "sched_step (?s1, [(''snap'', 0)]) (fst two_frames, [(''snap'', 0)] @ [(''geocode'', 1)])"
    by (rule enters) (simp_all add: enter_turn_def advance_def two_frames_def insert_commute)
  ultimately have "sched_reachable (fst two_frames, [(''snap'', 0)] @ [(''geocode'', 1)])" using step by blast
  then show ?thesis by (simp add: two_frames_def)
qed

theorem scheduler_fifo_witness:
  "waiting (fst two_frames) (snd two_frames) = [(''geocode'', 1)] \<and> (\<exists>x \<in> set (snd two_frames). snd x \<in> bs_resolved (fst two_frames))"
proof -
  have r: "sched_reachable (fst two_frames, snd two_frames)" using two_frames_reachable by simp
  have w: "waiting (fst two_frames) (snd two_frames) = [(''geocode'', 1)]"
    by (simp add: waiting_def two_frames_def)
  then show ?thesis using scheduler_fifo [OF r] by simp
qed

end
