(* ===== verification/AccountWorker.thy ===== *)
theory AccountWorker imports PyData begin

text \<open>
  \<open>app/worker.py\<close> and \<open>AccountWorker\<close> of \<open>app/account_workers.py\<close>: the loop that wakes a worker
  on pokes, sweeps and continuations, and the rotation that gives every enabled account its turn.
  Clock readings, the enabled accounts and what a unit of work does are arguments; a principal is
  its account id.
\<close>

section \<open>Outcomes and status\<close>

record batch_outcome =
  bo_attempted :: nat
  bo_completed :: nat
  bo_failures :: nat
  bo_failure_type :: "string option"

definition no_batch :: batch_outcome where
  "no_batch = \<lparr>bo_attempted = 0, bo_completed = 0, bo_failures = 0, bo_failure_type = None\<rparr>"

definition add_batch :: "batch_outcome \<Rightarrow> batch_outcome \<Rightarrow> batch_outcome" where
  "add_batch a b = \<lparr>bo_attempted = bo_attempted a + bo_attempted b, bo_completed = bo_completed a + bo_completed b,
     bo_failures = bo_failures a + bo_failures b,
     bo_failure_type = (if bo_failure_type a \<noteq> None \<and> bo_failure_type a \<noteq> Some '''' then bo_failure_type a
                        else bo_failure_type b)\<rparr>"

text \<open>\<open>TurnOutcome\<close>; a cursor is whatever the inner worker put there.\<close>

record 'c unit_outcome =
  uo_batch :: batch_outcome
  uo_ready :: bool
  uo_deferred_until :: "real option"
  uo_cursor :: "'c option"
  uo_skipped :: bool

definition idle_outcome :: "'c unit_outcome" where
  "idle_outcome = \<lparr>uo_batch = no_batch, uo_ready = False, uo_deferred_until = None, uo_cursor = None, uo_skipped = False\<rparr>"

definition ready_outcome :: "'c option \<Rightarrow> 'c unit_outcome" where
  "ready_outcome cursor = idle_outcome\<lparr>uo_ready := True, uo_cursor := cursor\<rparr>"

record worker_status =
  ws_last_run :: "instant option"
  ws_last_success :: "instant option"
  ws_last_skip :: "instant option"
  ws_last_failure :: "instant option"
  ws_failure_type :: "string option"

definition new_status :: worker_status where
  "new_status = \<lparr>ws_last_run = None, ws_last_success = None, ws_last_skip = None, ws_last_failure = None,
     ws_failure_type = None\<rparr>"

definition record_run :: "instant \<Rightarrow> worker_status \<Rightarrow> worker_status" where
  "record_run now st = st\<lparr>ws_last_run := Some now\<rparr>"

definition record_success :: "instant \<Rightarrow> worker_status \<Rightarrow> worker_status" where
  "record_success now st = st\<lparr>ws_last_success := Some now\<rparr>"

definition record_skip :: "instant \<Rightarrow> worker_status \<Rightarrow> worker_status" where
  "record_skip now st = st\<lparr>ws_last_skip := Some now\<rparr>"

definition record_failure_type :: "instant \<Rightarrow> string \<Rightarrow> worker_status \<Rightarrow> worker_status" where
  "record_failure_type now ty st = st\<lparr>ws_last_failure := Some now, ws_failure_type := Some ty\<rparr>"

section \<open>The rotation of accounts\<close>

record 'c account_worker =
  aw_last_account :: "int option"
  aw_round :: "int list"
  aw_last_round :: "int option"
  aw_continuations :: "(int, 'c unit_outcome) dict"
  aw_continuation_at :: "real option"
  aw_last_outcome :: batch_outcome
  aw_produced :: bool
  aw_refresh_deferred :: bool
  aw_status :: worker_status

definition new_worker :: "bool \<Rightarrow> 'c account_worker" where
  "new_worker refresh = \<lparr>aw_last_account = None, aw_round = [], aw_last_round = None, aw_continuations = [],
     aw_continuation_at = None, aw_last_outcome = no_batch, aw_produced = False,
     aw_refresh_deferred = refresh, aw_status = new_status\<rparr>"

definition wake_cycle :: "'c account_worker \<Rightarrow> 'c account_worker" where
  "wake_cycle w = w\<lparr>aw_continuations := map (\<lambda>(owner, c).
     (owner, if uo_deferred_until c = None \<or> aw_refresh_deferred w then ready_outcome (uo_cursor c) else c))
     (aw_continuations w)\<rparr>"

definition continuation_deadline :: "real \<Rightarrow> 'c unit_outcome \<Rightarrow> real option" where
  "continuation_deadline now c = (if uo_ready c then Some now else uo_deferred_until c)"

definition schedule_continuation :: "real \<Rightarrow> 'c account_worker \<Rightarrow> 'c account_worker" where
  "schedule_continuation now w =
     (let deadlines = List.map_filter (\<lambda>(_, c). continuation_deadline now c) (aw_continuations w)
      in w\<lparr>aw_continuation_at := (if deadlines = [] then None else Some (Min (set deadlines)))\<rparr>)"

text \<open>Rotation: the accounts after \<open>last\<close>, then the others.\<close>

definition rotated :: "int option \<Rightarrow> int list \<Rightarrow> int list" where
  "rotated last_started ids =
     (case last_started of None \<Rightarrow> ids
      | Some l \<Rightarrow> filter (\<lambda>p. p > l) ids @ filter (\<lambda>p. p \<le> l) ids)"

definition is_due :: "real \<Rightarrow> 'c unit_outcome \<Rightarrow> bool" where
  "is_due now c \<longleftrightarrow> uo_ready c \<or> (case uo_deferred_until c of None \<Rightarrow> False | Some t \<Rightarrow> t \<le> now)"

text \<open>One principal of the new round: \<open>setdefault\<close>, then the queue when it is due.\<close>

definition enqueue :: "real \<Rightarrow> int \<Rightarrow> 'c account_worker \<Rightarrow> 'c account_worker" where
  "enqueue now p w =
     (case map_of (aw_continuations w) p of
        None \<Rightarrow> w\<lparr>aw_continuations := dset (aw_continuations w) p (ready_outcome None), aw_round := aw_round w @ [p]\<rparr>
      | Some c \<Rightarrow> if is_due now c then w\<lparr>aw_round := aw_round w @ [p]\<rparr> else w)"

definition start_round :: "real \<Rightarrow> int list \<Rightarrow> 'c account_worker \<Rightarrow> 'c account_worker" where
  "start_round now enabled w =
     (let w1 = w\<lparr>aw_continuations := filter (\<lambda>(owner, _). owner \<in> set enabled) (aw_continuations w)\<rparr>;
          w2 = fold (enqueue now) (rotated (aw_last_round w) enabled) w1
      in if aw_round w2 \<noteq> [] then w2\<lparr>aw_last_round := Some (hd (aw_round w2))\<rparr> else w2)"

text \<open>
  What running a unit comes to: the outcome; capacity busy or another exception, each with
  whether the scheduler had admitted the turn. A finished unit carries the last failure its inner
  worker noted in its own status.
\<close>

datatype 'c unit_result =
    UnitDone "'c unit_outcome" "(instant \<times> string option) option"
  | UnitBusy bool
  | UnitFailed bool string

definition was_admitted :: "'c unit_result \<Rightarrow> bool" where
  "was_admitted r = (case r of UnitDone _ _ \<Rightarrow> True | UnitBusy a \<Rightarrow> a | UnitFailed a _ \<Rightarrow> a)"

text \<open>The outcome a turn stores, and what it records in the status.\<close>

definition stored_outcome :: "'c option \<Rightarrow> 'c unit_result \<Rightarrow> 'c unit_outcome" where
  "stored_outcome cursor r =
     (case r of UnitDone c _ \<Rightarrow> c
      | UnitBusy admitted \<Rightarrow> idle_outcome\<lparr>uo_cursor := cursor, uo_skipped := \<not> admitted\<rparr>
      | UnitFailed _ _ \<Rightarrow> idle_outcome\<lparr>uo_cursor := cursor\<rparr>)"

definition failure_name :: "batch_outcome \<Rightarrow> string" where
  "failure_name b = (case bo_failure_type b of None \<Rightarrow> ''RetriableFailure''
     | Some t \<Rightarrow> if t = '''' then ''RetriableFailure'' else t)"

definition recorded :: "instant \<Rightarrow> 'c unit_result \<Rightarrow> worker_status \<Rightarrow> worker_status" where
  "recorded clock r st =
     (case r of
        UnitDone c inner \<Rightarrow>
          (let st1 = (case inner of None \<Rightarrow> st | Some (at_time, ty) \<Rightarrow> st\<lparr>ws_last_failure := Some at_time, ws_failure_type := ty\<rparr>)
           in if bo_failures (uo_batch c) > 0 then record_failure_type clock (failure_name (uo_batch c)) st1 else st1)
      | UnitBusy admitted \<Rightarrow> if admitted then record_failure_type clock ''CapacityBusy'' st else st
      | UnitFailed _ ty \<Rightarrow> record_failure_type clock ty st)"

text \<open>The inputs of one turn.\<close>

record 'c turn_input =
  ti_now :: real
  ti_later :: real
  ti_clock :: instant
  ti_enabled :: "int list"
  ti_unit :: "int \<Rightarrow> 'c option \<Rightarrow> 'c unit_result \<times> bool"

text \<open>\<open>run_turn\<close>: the outcome, the account it ran, and the new state.\<close>

definition run_unit :: "'c turn_input \<Rightarrow> 'c account_worker \<Rightarrow> ('c unit_outcome \<times> int \<times> 'c account_worker) result" where
  "run_unit inp w =
     (case aw_round w of
        [] \<Rightarrow> Inl IndexError
      | owner # rest \<Rightarrow>
          (case map_of (aw_continuations w) owner of
             None \<Rightarrow> Inl KeyError
           | Some previous \<Rightarrow>
               (let (r, produced) = ti_unit inp owner (uo_cursor previous);
                    outcome = stored_outcome (uo_cursor previous) r;
                    w1 = w\<lparr>aw_round := rest,
                      aw_last_account := (if was_admitted r then Some owner else aw_last_account w),
                      aw_produced := produced,
                      aw_last_outcome := (case r of UnitDone c _ \<Rightarrow> uo_batch c | _ \<Rightarrow> aw_last_outcome w),
                      aw_status := recorded (ti_clock inp) r (aw_status w),
                      aw_continuations := dset (aw_continuations w) owner outcome\<rparr>;
                    w2 = schedule_continuation (ti_later inp) w1
                in Inr (outcome, owner, if rest \<noteq> [] then w2\<lparr>aw_continuation_at := Some (ti_later inp)\<rparr> else w2))))"

definition worker_turn :: "'c turn_input \<Rightarrow> 'c account_worker \<Rightarrow> ('c unit_outcome \<times> int option \<times> 'c account_worker) result" where
  "worker_turn inp w =
     (let w0 = w\<lparr>aw_last_outcome := no_batch, aw_produced := False\<rparr>;
          w1 = (if aw_round w0 = [] then start_round (ti_now inp) (ti_enabled inp) w0 else w0)
      in if aw_round w1 = []
         then (let w2 = schedule_continuation (ti_now inp) w1
               in Inr (idle_outcome\<lparr>uo_deferred_until := aw_continuation_at w2\<rparr>, None, w2))
         else map_sum id (\<lambda>(outcome, owner, w2). (outcome, Some owner, w2)) (run_unit inp w1))"

section \<open>The admitted unit and the explicit sweep\<close>

text \<open>
  The values \<open>run_once\<close> of an inner worker returns, and what \<open>_default_admitted\<close> makes of a worker:
  none at all, one with \<open>run_turn\<close>, one with \<open>run_once\<close> only.
\<close>

datatype once_value = OnceNone | OnceBool bool | OnceSkipped | OnceBatch batch_outcome | OnceOther

definition did_not_run :: "once_value \<Rightarrow> bool" where
  "did_not_run v \<longleftrightarrow> v = OnceSkipped \<or> v = OnceBool False"

definition once_outcome :: "once_value \<Rightarrow> 'c unit_outcome" where
  "once_outcome v = idle_outcome\<lparr>uo_batch := (case v of OnceBatch b \<Rightarrow> b | _ \<Rightarrow> no_batch), uo_skipped := did_not_run v\<rparr>"

record 'c inner_worker =
  iw_run_turn :: "('c option \<Rightarrow> 'c unit_outcome) option"
  iw_run_once :: once_value
  iw_produced :: bool
  iw_failure :: "(instant \<times> string option) option"

definition default_admitted ::
  "bool \<Rightarrow> 'c inner_worker option \<Rightarrow> 'c option \<Rightarrow> bool \<Rightarrow> 'c unit_result \<times> bool" where
  "default_admitted legacy worker cursor produced =
     (case worker of
        None \<Rightarrow> (UnitDone (idle_outcome\<lparr>uo_skipped := legacy\<rparr>) None, produced)
      | Some iw \<Rightarrow>
          (let outcome = (case iw_run_turn iw of
                 Some turn \<Rightarrow> if \<not> legacy then turn cursor else once_outcome (iw_run_once iw)
               | None \<Rightarrow> once_outcome (iw_run_once iw))
           in (UnitDone outcome (iw_failure iw), if legacy then produced \<or> iw_produced iw else iw_produced iw)))"

text \<open>\<open>run_once\<close>: every account once, from the one after the last that started a sweep.\<close>

record sweep_flags =
  sf_ran :: bool
  sf_failed :: bool
  sf_first :: bool

definition sweep_account ::
  "instant \<Rightarrow> (int \<Rightarrow> bool \<Rightarrow> 'c unit_result \<times> bool) \<Rightarrow> int \<Rightarrow> sweep_flags \<times> 'c account_worker \<Rightarrow> sweep_flags \<times> 'c account_worker" where
  "sweep_account clock unit p c =
     (case c of (fl, w) \<Rightarrow>
       (let (r, produced) = unit p (aw_produced w);
            starts = was_admitted r \<and> sf_first fl;
            w1 = w\<lparr>aw_last_account := (if starts then Some p else aw_last_account w), aw_produced := produced,
                   aw_status := recorded clock r (aw_status w)\<rparr>;
            fl1 = fl\<lparr>sf_first := (sf_first fl \<and> \<not> starts)\<rparr>
        in case r of
             UnitDone c inner \<Rightarrow>
               (fl1\<lparr>sf_ran := (sf_ran fl \<or> \<not> uo_skipped c),
                    sf_failed := (sf_failed fl \<or> bo_failures (uo_batch c) > 0 \<or> inner \<noteq> None)\<rparr>,
                w1\<lparr>aw_last_outcome := add_batch (aw_last_outcome w) (uo_batch c)\<rparr>)
           | UnitBusy admitted \<Rightarrow> (fl1\<lparr>sf_failed := (sf_failed fl \<or> admitted)\<rparr>, w1)
           | UnitFailed _ _ \<Rightarrow> (fl1\<lparr>sf_failed := True\<rparr>, w1)))"

datatype sweep_result = PartialFailure | SweepRan | RunSkipped

definition sweep_once ::
  "instant \<Rightarrow> int list \<Rightarrow> (int \<Rightarrow> bool \<Rightarrow> 'c unit_result \<times> bool) \<Rightarrow> 'c account_worker \<Rightarrow> sweep_result \<times> 'c account_worker" where
  "sweep_once clock enabled unit w =
     (let w0 = w\<lparr>aw_last_outcome := no_batch, aw_produced := False\<rparr>;
          (fl, w1) = fold (sweep_account clock unit) (rotated (aw_last_account w0) enabled)
                       (\<lparr>sf_ran = False, sf_failed = False, sf_first = True\<rparr>, w0)
      in (if sf_failed fl then PartialFailure else if sf_ran fl then SweepRan else RunSkipped, w1))"

section \<open>The guarded run\<close>

text \<open>
  \<open>_run_guarded\<close> of \<open>AccountWorker\<close>; \<open>after_run\<close> is whether the hook is called, \<open>hook\<close> whether it
  raises and with what. An exception of \<open>run_turn\<close> itself is one of the enumeration.
\<close>

definition guarded_turn ::
  "(string option) \<Rightarrow> instant \<Rightarrow> 'c turn_input + string \<Rightarrow> 'c account_worker \<Rightarrow> bool \<times> 'c account_worker" where
  "guarded_turn hook clock attempt w =
     (let w0 = w\<lparr>aw_status := record_run clock (aw_status w)\<rparr>;
          last_failure = ws_last_failure (aw_status w0);
          fail = (\<lambda>ty v. v\<lparr>aw_status := record_failure_type clock ty (aw_status v)\<rparr>);
          succeed = (\<lambda>v. if ws_last_failure (aw_status v) = last_failure
                         then v\<lparr>aw_status := record_success clock (aw_status v)\<rparr> else v)
      in case attempt of
        Inr ty \<Rightarrow> (False, fail ty (w0\<lparr>aw_last_outcome := no_batch, aw_produced := False\<rparr>))
      | Inl inp \<Rightarrow>
          (case worker_turn inp w0 of
             Inl _ \<Rightarrow> (False, fail ''KeyError'' w0)
           | Inr (outcome, _, w1) \<Rightarrow>
               if uo_skipped outcome then (False, w1\<lparr>aw_status := record_skip clock (aw_status w1)\<rparr>)
               else if aw_produced w1
               then (case hook of None \<Rightarrow> (True, succeed w1) | Some ty \<Rightarrow> (True, fail ty w1))
               else (False, succeed w1)))"

section \<open>The loop\<close>

record worker_loop =
  wl_debounce :: real
  wl_sweep :: real
  wl_wake :: bool
  wl_deadline :: "real option"
  wl_next_sweep :: "real option"
  wl_continuation :: "real option"

definition poke :: "real \<Rightarrow> worker_loop \<Rightarrow> worker_loop" where
  "poke now l = l\<lparr>wl_deadline := (case wl_deadline l of None \<Rightarrow> Some (now + wl_debounce l) | d \<Rightarrow> d), wl_wake := True\<rparr>"

definition earliest :: "real \<Rightarrow> real option \<Rightarrow> real" where
  "earliest t d = (case d of None \<Rightarrow> t | Some u \<Rightarrow> min t u)"

text \<open>
  The moment the loop waits for, unless it is woken before; also the estimate of the next run.
  Before the first sweep is set there is none, and subtracting from it raises.
\<close>

definition next_run_estimate :: "worker_loop \<Rightarrow> real option" where
  "next_run_estimate l = map_option (\<lambda>sweep_at. earliest (earliest sweep_at (wl_deadline l)) (wl_continuation l)) (wl_next_sweep l)"

definition wait_until :: "worker_loop \<Rightarrow> real result" where
  "wait_until l = (case next_run_estimate l of None \<Rightarrow> Inl TypeError | Some t \<Rightarrow> Inr t)"

definition passed :: "real \<Rightarrow> real option \<Rightarrow> bool" where
  "passed now d = (case d of None \<Rightarrow> False | Some t \<Rightarrow> t \<le> now)"

text \<open>
  The body after the wait, at time \<open>now\<close>: whether the worker is due, whether a wake cycle begins,
  and the loop's variables before the run.
\<close>

definition loop_body :: "real \<Rightarrow> worker_loop \<Rightarrow> (bool \<times> bool \<times> worker_loop) result" where
  "loop_body now l =
     (let l0 = l\<lparr>wl_wake := False\<rparr>;
          poked = passed now (wl_deadline l0);
          l1 = (if poked then l0\<lparr>wl_deadline := None\<rparr> else l0)
      in case wl_next_sweep l1 of
           None \<Rightarrow> Inl TypeError
         | Some sweep_at \<Rightarrow>
             (let swept = sweep_at \<le> now;
                  l2 = (if swept then l1\<lparr>wl_next_sweep := Some (now + wl_sweep l1)\<rparr> else l1);
                  continued = passed now (wl_continuation l2);
                  l3 = (if continued then l2\<lparr>wl_continuation := None\<rparr> else l2)
              in Inr (poked \<or> swept \<or> continued, poked \<or> swept, l3)))"

text \<open>
  An iteration of the loop of an \<open>AccountWorker\<close>; the attribute \<open>_continuation_at\<close> is shared
  between the loop and the rotation, so it is copied at the two borders.
\<close>

record 'c guarded_input =
  gi_hook :: "string option"
  gi_clock :: instant
  gi_attempt :: "'c turn_input + string"

definition loop_iteration :: "'c guarded_input \<Rightarrow> real \<Rightarrow> worker_loop \<times> 'c account_worker \<Rightarrow> (worker_loop \<times> 'c account_worker) result" where
  "loop_iteration inp now c =
     (case c of (l, w) \<Rightarrow>
       res_bind (loop_body now l) (\<lambda>(due, woken, l1).
         let w0 = w\<lparr>aw_continuation_at := wl_continuation l1\<rparr>;
             w1 = (if woken then wake_cycle w0 else w0);
             w2 = (if due then snd (guarded_turn (gi_hook inp) (gi_clock inp) (gi_attempt inp) w1) else w1)
         in Inr (l1\<lparr>wl_continuation := aw_continuation_at w2\<rparr>, w2)))"

text \<open>The first run, before the first wait.\<close>

definition loop_start :: "'c guarded_input \<Rightarrow> real \<Rightarrow> worker_loop \<times> 'c account_worker \<Rightarrow> worker_loop \<times> 'c account_worker" where
  "loop_start inp now c =
     (case c of (l, w) \<Rightarrow>
       let w1 = snd (guarded_turn (gi_hook inp) (gi_clock inp) (gi_attempt inp) (w\<lparr>aw_continuation_at := wl_continuation l\<rparr>))
       in (l\<lparr>wl_next_sweep := Some (now + wl_sweep l), wl_continuation := aw_continuation_at w1\<rparr>, w1))"

end
