(* ===== verification/AccountRotation.thy ===== *)
theory AccountRotation imports AccountWorker begin

text \<open>
  What the rotation of \<open>AccountWorker\<close> and the loop around it guarantee: a turn never raises,
  no account waits longer than the accounts before it, the loop's wait ends no later than
  the first continuation, and pokes cannot push a run out.
\<close>

section \<open>The rotation's invariant\<close>

definition wk_inv :: "'c account_worker \<Rightarrow> bool" where
  "wk_inv w \<longleftrightarrow> wf_dict (aw_continuations w) \<and> distinct (aw_round w)
     \<and> set (aw_round w) \<subseteq> fst ` set (aw_continuations w)"

lemma wk_inv_new [simp]: "wk_inv (new_worker refresh)"
  by (simp add: wk_inv_def new_worker_def)

lemma wk_inv_fields [simp]:
  "wk_inv (w\<lparr>aw_last_account := x1\<rparr>) = wk_inv w" "wk_inv (w\<lparr>aw_last_round := x2\<rparr>) = wk_inv w"
  "wk_inv (w\<lparr>aw_continuation_at := x3\<rparr>) = wk_inv w" "wk_inv (w\<lparr>aw_last_outcome := x4\<rparr>) = wk_inv w"
  "wk_inv (w\<lparr>aw_produced := x5\<rparr>) = wk_inv w" "wk_inv (w\<lparr>aw_status := x6\<rparr>) = wk_inv w"
  by (simp_all add: wk_inv_def)



lemma is_due_ready [simp]: "is_due t (ready_outcome c)"
  by (simp add: is_due_def ready_outcome_def)


lemma rotated_props [simp]:
  "set (rotated l ids) = set ids" "length (rotated l ids) = length ids"
  "distinct (rotated l ids) = distinct ids"
proof -
  have "mset (rotated l ids) = mset ids"
  proof (cases l)
    case (Some x)
    have "filter (\<lambda>p. p \<le> x) ids = filter (\<lambda>p. \<not> x < p) ids" by (simp add: not_less)
    then show ?thesis using Some by (simp add: rotated_def multiset_partition [symmetric])
  qed (simp add: rotated_def)
  then show "set (rotated l ids) = set ids" "length (rotated l ids) = length ids"
    "distinct (rotated l ids) = distinct ids"
    by (auto dest: mset_eq_setD mset_eq_length mset_eq_imp_distinct_iff)
qed

section \<open>A new round\<close>










section \<open>A turn\<close>




definition opt_hd :: "'a list \<Rightarrow> 'a option" where
  "opt_hd xs = (case xs of [] \<Rightarrow> None | x # _ \<Rightarrow> Some x)"

lemma opt_hd_simps [simp]: "opt_hd [] = None" "opt_hd (x # xs) = Some x"
  by (simp_all add: opt_hd_def)



section \<open>Turns and wake cycles\<close>





lemma wake_cycle_fields [simp]:
  "aw_round (wake_cycle w) = aw_round w" "aw_continuation_at (wake_cycle w) = aw_continuation_at w"
  "wk_inv (wake_cycle w) = wk_inv w"
proof -
  have k: "keys (aw_continuations (wake_cycle w)) = keys (aw_continuations w)"
    by (simp add: wake_cycle_def case_prod_unfold)
  have r: "aw_round (wake_cycle w) = aw_round w" by (simp add: wake_cycle_def)
  have f: "fst ` set (aw_continuations (wake_cycle w)) = fst ` set (aw_continuations w)"
    using arg_cong [OF k, of set] by (simp only: list.set_map)
  show "wk_inv (wake_cycle w) = wk_inv w" unfolding wk_inv_def wf_dict_def k r f ..
qed (simp_all add: wake_cycle_def)


text \<open>The turns account \<open>a\<close> may still have to wait for, its own included.\<close>

definition need :: "nat \<Rightarrow> 'c account_worker \<Rightarrow> int \<Rightarrow> nat" where
  "need n w a = (if a \<in> set (aw_round w) then Suc (place_in a (aw_round w)) else length (aw_round w) + n)"

lemma need_wake [simp]: "need n (wake_cycle w) a = need n w a"
  by (cases "a \<in> set (aw_round w)") (simp_all add: need_def)






text \<open>The first account always has more work; the second still runs.\<close>

definition busy_turn :: "unit turn_input" where
  "busy_turn = \<lparr>ti_now = 10, ti_later = 11, ti_clock = 0, ti_enabled = [1, 2],
     ti_unit = (\<lambda>owner cursor. (if owner = 1 then UnitDone (ready_outcome cursor) None else UnitFailed True ''TimeoutError'', False))\<rparr>"


section \<open>The loop wakes for the work that is left\<close>






lemma loop_body_cases:
  "wl_next_sweep l = Some s \<Longrightarrow> loop_body now l
     = Inr (passed now (wl_deadline l) \<or> s \<le> now \<or> passed now (wl_continuation l), passed now (wl_deadline l) \<or> s \<le> now,
         l\<lparr>wl_wake := False, wl_deadline := (if passed now (wl_deadline l) then None else wl_deadline l),
           wl_next_sweep := Some (if s \<le> now then now + wl_sweep l else s),
           wl_continuation := (if passed now (wl_continuation l) then None else wl_continuation l)\<rparr>)"
  by (cases l) (auto simp: loop_body_def Let_def)

lemma wait_until_bounds:
  assumes "wl_next_sweep l = Some s"
  obtains u where "wait_until l = Inr u" "u \<le> s" "\<And>d. wl_deadline l = Some d \<Longrightarrow> u \<le> d" "\<And>c. wl_continuation l = Some c \<Longrightarrow> u \<le> c"
  by (rule that [of "earliest (earliest s (wl_deadline l)) (wl_continuation l)"])
    (auto simp: wait_until_def next_run_estimate_def assms earliest_def split: option.splits)



definition busy_loop :: worker_loop where
  "busy_loop = \<lparr>wl_debounce = 2, wl_sweep = 300, wl_wake = False, wl_deadline = None, wl_next_sweep = Some 10,
     wl_continuation = None\<rparr>"


section \<open>Pokes\<close>

text \<open>Pokes and iterations of the loop, in the order they happen.\<close>

datatype 'c loop_event = Poked real | Iterated "'c guarded_input" real

fun loop_events :: "'c loop_event list \<Rightarrow> worker_loop \<times> 'c account_worker \<Rightarrow> (worker_loop \<times> 'c account_worker) result" where
  "loop_events [] c = Inr c"
| "loop_events (Poked t # es) c = loop_events es (poke t (fst c), snd c)"
| "loop_events (Iterated g t # es) c = res_bind (loop_iteration g t c) (loop_events es)"

definition before :: "real \<Rightarrow> 'c loop_event \<Rightarrow> bool" where
  "before d e = (case e of Poked _ \<Rightarrow> True | Iterated _ t \<Rightarrow> t < d)"

lemma iteration_keeps_deadline:
  assumes "wl_next_sweep l = Some s" "wl_deadline l = Some d" "t < d"
  obtains l' w' s' where "loop_iteration g t (l, w) = Inr (l', w')" "wl_next_sweep l' = Some s'" "wl_deadline l' = Some d"
  using assms by (auto simp: loop_iteration_def loop_body_cases passed_def Let_def)

lemma events_keep_deadline:
  assumes "wl_next_sweep (fst c) = Some s" "wl_deadline (fst c) = Some d" "\<forall>e \<in> set es. before d e"
  shows "\<exists>c' s'. loop_events es c = Inr c' \<and> wl_next_sweep (fst c') = Some s' \<and> wl_deadline (fst c') = Some d"
  using assms
proof (induction es c arbitrary: s rule: loop_events.induct)
  case (2 t es c)
  then show ?case by (simp add: poke_def)
next
  case (3 g t es c)
  have "t < d" using 3(4) by (simp add: before_def)
  then obtain l' w' s' where i: "loop_iteration g t (fst c, snd c) = Inr (l', w')" "wl_next_sweep l' = Some s'" "wl_deadline l' = Some d"
    using iteration_keeps_deadline [OF 3(2,3), of t g "snd c"] by metis
  then show ?case using 3(1) [of "(l', w')" s'] 3(4) by simp
qed simp

text \<open>
  C35. Pokes cannot push a run out. The first poke since the last run sets a deadline one debounce
  period ahead; whatever pokes and iterations follow before it, none raises and the deadline stays.
  The loop waits no longer than it, and an iteration at or after it finds the worker due, begins a
  wake cycle and clears the deadline, so the next poke starts a new period.
\<close>

theorem pokes_are_served:
  assumes "wl_next_sweep (fst c) = Some s" "wl_deadline (fst c) = None" "\<forall>e \<in> set es. before (t + wl_debounce (fst c)) e"
  shows "\<exists>l w. loop_events (Poked t # es) c = Inr (l, w) \<and> wl_deadline l = Some (t + wl_debounce (fst c))
    \<and> (\<exists>u. wait_until l = Inr u \<and> u \<le> t + wl_debounce (fst c))
    \<and> (\<forall>now \<ge> t + wl_debounce (fst c). \<exists>l2. loop_body now l = Inr (True, True, l2) \<and> wl_deadline l2 = None)"
proof -
  have c0: "wl_next_sweep (fst (poke t (fst c), snd c)) = Some s"
    "wl_deadline (fst (poke t (fst c), snd c)) = Some (t + wl_debounce (fst c))"
    using assms(1,2) by (simp_all add: poke_def)
  obtain l w s' where l: "loop_events es (poke t (fst c), snd c) = Inr (l, w)" "wl_next_sweep l = Some s'"
    "wl_deadline l = Some (t + wl_debounce (fst c))"
    using events_keep_deadline [OF c0 assms(3)] by force
  obtain u where u: "wait_until l = Inr u" "u \<le> t + wl_debounce (fst c)"
    using wait_until_bounds [OF l(2)] l(3) by metis
  show ?thesis using l u by (auto simp: loop_body_cases [OF l(2)] passed_def)
qed

theorem pokes_are_served_witness:
  "\<exists>l w. loop_events [Poked 4, Poked 5, Iterated \<lparr>gi_hook = None, gi_clock = 0, gi_attempt = Inl busy_turn\<rparr> 5] (busy_loop, new_worker False) = Inr (l, w)
     \<and> wl_deadline l = Some 6"
  using pokes_are_served [of "(busy_loop, new_worker False)" 10 "[Poked 5, Iterated \<lparr>gi_hook = None, gi_clock = 0, gi_attempt = Inl busy_turn\<rparr> 5]" 4]
  by (auto simp: busy_loop_def before_def simp del: loop_events.simps)

section \<open>The explicit sweep\<close>

text \<open>The results of the units in order; each sees whether one before it produced work.\<close>

fun unit_results :: "(int \<Rightarrow> bool \<Rightarrow> 'c unit_result \<times> bool) \<Rightarrow> int list \<Rightarrow> bool \<Rightarrow> (int \<times> 'c unit_result) list" where
  "unit_results unit [] produced = []"
| "unit_results unit (p # ps) produced = (p, fst (unit p produced)) # unit_results unit ps (snd (unit p produced))"

definition unit_failed :: "'c unit_result \<Rightarrow> bool" where
  "unit_failed r = (case r of UnitDone c inner \<Rightarrow> bo_failures (uo_batch c) > 0 \<or> inner \<noteq> None
     | UnitBusy admitted \<Rightarrow> admitted | UnitFailed _ _ \<Rightarrow> True)"

definition unit_ran :: "'c unit_result \<Rightarrow> bool" where
  "unit_ran r = (case r of UnitDone c _ \<Rightarrow> \<not> uo_skipped c | _ \<Rightarrow> False)"

definition first_started :: "(int \<times> 'c unit_result) list \<Rightarrow> int option" where
  "first_started rs = map_option fst (List.find (\<lambda>(_, r). was_admitted r) rs)"

lemma account_sweep_fold:
  "fold (sweep_account clock unit) ps (fl, w) = (fl', w') \<Longrightarrow>
     (sf_failed fl' \<longleftrightarrow> sf_failed fl \<or> (\<exists>r \<in> set (unit_results unit ps (aw_produced w)). unit_failed (snd r)))
   \<and> (sf_ran fl' \<longleftrightarrow> sf_ran fl \<or> (\<exists>r \<in> set (unit_results unit ps (aw_produced w)). unit_ran (snd r)))
   \<and> aw_last_account w' = (if sf_first fl \<and> first_started (unit_results unit ps (aw_produced w)) \<noteq> None
       then first_started (unit_results unit ps (aw_produced w)) else aw_last_account w)"
proof (induction ps arbitrary: fl w)
  case (Cons p ps)
  obtain r produced where u: "unit p (aw_produced w) = (r, produced)" by fastforce
  obtain fl1 w1 where s: "sweep_account clock unit p (fl, w) = (fl1, w1)" by fastforce
  have f: "sf_failed fl1 \<longleftrightarrow> sf_failed fl \<or> unit_failed r" "sf_ran fl1 \<longleftrightarrow> sf_ran fl \<or> unit_ran r"
    "aw_produced w1 = produced" "sf_first fl1 \<longleftrightarrow> sf_first fl \<and> \<not> was_admitted r"
    "aw_last_account w1 = (if was_admitted r \<and> sf_first fl then Some p else aw_last_account w)"
    using s u by (auto simp: sweep_account_def Let_def unit_failed_def unit_ran_def split: unit_result.splits)
  have rest: "fold (sweep_account clock unit) ps (fl1, w1) = (fl', w')" using Cons.prems s by simp
  show ?case using Cons.IH [OF rest] by (auto simp: f u first_started_def)
qed (simp add: first_started_def)

text \<open>
  The sweep tries every enabled account once, whatever the others do; it reports a failure exactly
  when some unit failed, and a skip only when none failed and none ran. The next sweep begins after
  the first account that was admitted.
\<close>

lemma sweep_once_result:
  assumes "sweep_once clock enabled unit w = (result, w')"
  defines "rs \<equiv> unit_results unit (rotated (aw_last_account w) enabled) False"
  shows "result = PartialFailure \<longleftrightarrow> (\<exists>r \<in> set rs. unit_failed (snd r))"
    and "result = RunSkipped \<longleftrightarrow> (\<forall>r \<in> set rs. \<not> unit_failed (snd r) \<and> \<not> unit_ran (snd r))"
    and "aw_last_account w' = (if first_started rs = None then aw_last_account w else first_started rs)"
proof -
  let ?w0 = "w\<lparr>aw_last_outcome := no_batch, aw_produced := False\<rparr>" and ?fl0 = "\<lparr>sf_ran = False, sf_failed = False, sf_first = True\<rparr>"
  obtain fl v where f: "fold (sweep_account clock unit) (rotated (aw_last_account w) enabled) (?fl0, ?w0) = (fl, v)" by fastforce
  have r: "result = (if sf_failed fl then PartialFailure else if sf_ran fl then SweepRan else RunSkipped)" "w' = v"
    using assms(1) f by (simp_all add: sweep_once_def Let_def)
  note s = account_sweep_fold [OF f]
  show "result = PartialFailure \<longleftrightarrow> (\<exists>r \<in> set rs. unit_failed (snd r))"
    "result = RunSkipped \<longleftrightarrow> (\<forall>r \<in> set rs. \<not> unit_failed (snd r) \<and> \<not> unit_ran (snd r))"
    "aw_last_account w' = (if first_started rs = None then aw_last_account w else first_started rs)"
    using s by (auto simp: r rs_def split: if_splits)
qed

end
