(* ===== verification/SnapMatch.thy ===== *)
theory SnapMatch imports JsonData begin

text \<open>
  The pure part of \<open>app/snap.py\<close>: thinning a trip's fixes, the search radiuses, and reading
  the answers of OSRM's \<open>/match\<close> and \<open>/route\<close>. A decoded body is a JSON value; the reason of a
  result, which is only logged, is kept as its parts.
\<close>

section \<open>Thinning\<close>

record match_point =
  mp_t :: instant
  mp_lat :: real
  mp_lon :: real
  mp_accuracy_m :: "real option"

definition sample_step :: "int \<Rightarrow> int \<Rightarrow> real" where
  "sample_step n interior = of_int (n - 2) / of_int (interior + 1)"

definition sample_index :: "int \<Rightarrow> int \<Rightarrow> int \<Rightarrow> int" where
  "sample_index n interior k = min (max (round_half_even (of_int k * sample_step n interior)) 1) (n - 2)"

text \<open>The first point of each timestamp.\<close>

fun first_of_times :: "instant list \<Rightarrow> match_point list \<Rightarrow> match_point list" where
  "first_of_times seen [] = []"
| "first_of_times seen (p # ps) =
     (if mp_t p \<in> set seen then first_of_times seen ps else p # first_of_times (mp_t p # seen) ps)"

definition downsample :: "match_point list \<Rightarrow> int \<Rightarrow> match_point list" where
  "downsample points max_coords =
     (let n = int (length points)
      in if n \<le> max_coords \<or> max_coords < 2 then points
         else let keep_interior = max_coords - 2;
                  thinned = (if keep_interior \<le> 0 then [hd points, last points]
                    else hd points # map (\<lambda>k. points ! nat (sample_index n keep_interior k)) [1..keep_interior] @ [last points])
              in sort_key mp_t (first_of_times [] thinned))"

definition sample_ordinals :: "int \<Rightarrow> int \<Rightarrow> int list result" where
  "sample_ordinals n max_coords =
     (if n \<le> max_coords then Inr [0..n - 1]
      else if max_coords < 2 then Inl (ValueError ''max_coords must be at least 2'')
      else Inr (0 # map (sample_index n (max_coords - 2)) [1..max_coords - 2] @ [n - 1]))"

definition radius_of :: "real \<Rightarrow> real \<Rightarrow> match_point \<Rightarrow> real" where
  "radius_of min_r max_r p = (case mp_accuracy_m p of None \<Rightarrow> max_r | Some a \<Rightarrow> min (max a min_r) max_r)"

definition radiuses :: "match_point list \<Rightarrow> real list" where
  "radiuses points = map (radius_of 20 50) points"

section \<open>JSON as Python reads it\<close>

text \<open>Truth of a value, and \<open>v or default\<close>.\<close>

definition truthy :: "json \<Rightarrow> bool" where
  "truthy v = (case v of JNull \<Rightarrow> False | JBool b \<Rightarrow> b | JInt i \<Rightarrow> i \<noteq> 0 | JFloat x \<Rightarrow> x \<noteq> Fin 0
     | JStr s \<Rightarrow> s \<noteq> [] | JArr xs \<Rightarrow> xs \<noteq> [] | JObj d \<Rightarrow> d \<noteq> [])"

definition json_or :: "json \<Rightarrow> json \<Rightarrow> json" where
  "json_or v dflt = (if truthy v then v else dflt)"

abbreviation jstr :: "string \<Rightarrow> json" where
  "jstr s \<equiv> JStr (ustr s)"

text \<open>
  Arithmetic on a member: a finite number. Non-finite numbers and booleans do not occur after the
  validation below.
\<close>

definition finite_number :: "json \<Rightarrow> real result" where
  "finite_number v = (case v of
     JInt i \<Rightarrow> if \<bar>i\<bar> < float_limit then Inr (of_int i) else Inl OverflowError
   | JFloat (Fin r) \<Rightarrow> Inr r
   | _ \<Rightarrow> Inl TypeError)"

section \<open>The match\<close>

datatype snap_reason =
    NotMatched json nat
  | ShortOf real
  | Shaky real
  | FewTracepoints real

record match_result =
  mr_status :: string
  mr_path :: "json option"
  mr_distance_m :: "real option"
  mr_reason :: "snap_reason option"

text \<open>One matching: its line if it has one, its distance and its confidence.\<close>

definition matching_leg :: "json \<Rightarrow> (json list \<times> real \<times> real) result" where
  "matching_leg m = (case m of
     JObj d \<Rightarrow>
       (case json_or (jget d ''geometry'') (JObj []) of
          JObj g \<Rightarrow>
            (let leg_coords = json_or (jget g ''coordinates'') (JArr [])
             in res_bind (finite_number (jget_or d ''distance'' (JFloat (Fin 0)))) (\<lambda>distance.
                res_bind (finite_number (jget_or d ''confidence'' (JFloat (Fin 0)))) (\<lambda>confidence.
                  Inr (if truthy leg_coords then [leg_coords] else [], distance, confidence))))
        | _ \<Rightarrow> Inl AttributeError)
   | _ \<Rightarrow> Inl AttributeError)"

text \<open>\<open>lines\<close>, \<open>total_distance\<close> and \<open>worst_confidence\<close> after the loop.\<close>

fun sum_matchings :: "json list \<Rightarrow> json list \<times> real \<times> real \<Rightarrow> (json list \<times> real \<times> real) result" where
  "sum_matchings [] acc = Inr acc"
| "sum_matchings (m # ms) (lines, total_distance, worst_confidence) =
     res_bind (matching_leg m) (\<lambda>(leg, distance, confidence).
       sum_matchings ms (lines @ leg, total_distance + distance, min worst_confidence confidence))"

definition MIN_COVERAGE :: real where "MIN_COVERAGE = 85 / 100"

definition elements :: "json \<Rightarrow> json list result" where
  "elements v = (case v of JArr xs \<Rightarrow> Inr xs | JObj d \<Rightarrow> Inr (map (\<lambda>(k, _). JStr k) d)
     | JStr s \<Rightarrow> Inr (map (\<lambda>c. JStr [c]) s) | _ \<Rightarrow> Inl TypeError)"

definition multi_line :: "json list \<Rightarrow> json" where
  "multi_line lines = JObj [(ustr ''type'', jstr ''MultiLineString''), (ustr ''coordinates'', JArr lines)]"

text \<open>The three gates, once the matchings are summed.\<close>

definition gate_match ::
  "real \<Rightarrow> nat \<Rightarrow> real option \<Rightarrow> json list \<Rightarrow> json list \<times> real \<times> real \<Rightarrow> match_result" where
  "gate_match min_confidence input_count raw_distance_m tracepoints acc =
     (case acc of (lines, total_distance, worst_confidence) \<Rightarrow>
       (let matched_count = length (filter (\<lambda>tp. tp \<noteq> JNull) tracepoints);
            match_fraction = (if input_count \<noteq> 0 then of_nat matched_count / of_nat input_count else 0);
            coverage = (case raw_distance_m of None \<Rightarrow> 1 | Some raw \<Rightarrow> if raw > 0 then total_distance / raw else 1);
            covers_trip = (coverage \<ge> MIN_COVERAGE);
            low_conf = (\<not> covers_trip \<or> worst_confidence < min_confidence \<or> match_fraction < 8 / 10)
        in \<lparr>mr_status = (if low_conf then ''low_confidence'' else ''ok''),
            mr_path = (if lines \<noteq> [] then Some (multi_line lines) else None),
            mr_distance_m = (if covers_trip then Some total_distance else None),
            mr_reason = (if \<not> covers_trip then Some (ShortOf coverage)
              else if worst_confidence < min_confidence then Some (Shaky worst_confidence)
              else if low_conf then Some (FewTracepoints match_fraction) else None)\<rparr>))"

definition parse_match_response ::
  "(ustr \<times> json) list \<Rightarrow> real \<Rightarrow> nat \<Rightarrow> real option \<Rightarrow> match_result result" where
  "parse_match_response body min_confidence input_count raw_distance_m =
     (let code = jget body ''code''
      in res_bind (elements (json_or (jget body ''matchings'') (JArr []))) (\<lambda>matchings.
         if code \<noteq> jstr ''Ok'' \<or> matchings = []
         then Inr \<lparr>mr_status = ''failed'', mr_path = None, mr_distance_m = None,
                   mr_reason = Some (NotMatched code (length matchings))\<rparr>
         else res_bind (sum_matchings matchings ([], 0, 1)) (\<lambda>acc.
              res_bind (elements (json_or (jget body ''tracepoints'') (JArr []))) (\<lambda>tracepoints.
                Inr (gate_match min_confidence input_count raw_distance_m tracepoints acc)))))"

section \<open>Validation before it\<close>

definition PROVIDER_ROUTE_MAX_VERTICES :: nat where "PROVIDER_ROUTE_MAX_VERTICES = 100000"

definition too_large :: py_error where
  "too_large = ValueError ''provider route exceeds 100000 vertices''"

text \<open>A pair in range, as the two numbers.\<close>

definition lonlat_pair :: "json \<Rightarrow> (real \<times> real) option result" where
  "lonlat_pair c = (case c of
     JArr [x, y] \<Rightarrow>
       res_bind (parse_finite_number x (Some (- 180)) (Some 180)) (\<lambda>lon.
       res_bind (if lon = None then Inr None else parse_finite_number y (Some (- 90)) (Some 90)) (\<lambda>lat.
         Inr (case (lon, lat) of (Some a, Some b) \<Rightarrow> Some (a, b) | _ \<Rightarrow> None)))
   | _ \<Rightarrow> Inr None)"

fun check_coordinates :: "json list \<Rightarrow> unit result" where
  "check_coordinates [] = Inr ()"
| "check_coordinates (c # cs) = res_bind (lonlat_pair c) (\<lambda>p.
     if p = None then Inl (ValueError ''invalid OSRM coordinate'') else check_coordinates cs)"

definition check_matching :: "nat \<Rightarrow> json \<Rightarrow> nat result" where
  "check_matching vertices m = (case m of
     JObj d \<Rightarrow>
       res_bind (parse_finite_number (jget_or d ''distance'' (JInt 0)) (Some 0) None) (\<lambda>distance.
       res_bind (if distance = None then Inr None
                 else parse_finite_number (jget_or d ''confidence'' (JInt 0)) (Some 0) (Some 1)) (\<lambda>confidence.
         if distance = None \<or> confidence = None then Inl (ValueError ''invalid OSRM distance or confidence'')
         else case json_or (jget d ''geometry'') (JObj []) of
             JObj g \<Rightarrow>
               (case json_or (jget g ''coordinates'') (JArr []) of
                  JArr coordinates \<Rightarrow>
                    (let vertices1 = vertices + length coordinates
                     in if vertices1 > PROVIDER_ROUTE_MAX_VERTICES then Inl too_large
                        else res_bind (check_coordinates coordinates) (\<lambda>_. Inr vertices1))
                | _ \<Rightarrow> Inl (ValueError ''malformed OSRM coordinates''))
           | _ \<Rightarrow> Inl (ValueError ''malformed OSRM geometry'')))
   | _ \<Rightarrow> Inl (ValueError ''malformed OSRM matching''))"

fun check_matchings :: "nat \<Rightarrow> json list \<Rightarrow> unit result" where
  "check_matchings vertices [] = Inr ()"
| "check_matchings vertices (m # ms) = res_bind (check_matching vertices m) (\<lambda>v. check_matchings v ms)"

definition parse_and_serialize_match ::
  "(ustr \<times> json) list \<Rightarrow> real \<Rightarrow> nat \<Rightarrow> real option \<Rightarrow> match_result result" where
  "parse_and_serialize_match body min_confidence input_count raw_distance_m =
     (case (json_or (jget body ''matchings'') (JArr []), json_or (jget body ''tracepoints'') (JArr [])) of
        (JArr matchings, JArr tracepoints) \<Rightarrow>
          res_bind (check_matchings 0 matchings) (\<lambda>_.
            parse_match_response body min_confidence input_count raw_distance_m)
      | _ \<Rightarrow> Inl (ValueError ''malformed OSRM match response''))"

section \<open>A routed line\<close>

record routed_line =
  rl_distance_m :: real
  rl_coordinates :: "(real \<times> real) list"

text \<open>Both coordinates are parsed before either is looked at.\<close>

definition route_pair :: "json \<Rightarrow> (real \<times> real) option result" where
  "route_pair c = (case c of
     JArr [x, y] \<Rightarrow>
       res_bind (parse_finite_number x (Some (- 180)) (Some 180)) (\<lambda>lon.
       res_bind (parse_finite_number y (Some (- 90)) (Some 90)) (\<lambda>lat.
         Inr (case (lon, lat) of (Some a, Some b) \<Rightarrow> Some (a, b) | _ \<Rightarrow> None)))
   | _ \<Rightarrow> Inr None)"

fun route_coordinates :: "json list \<Rightarrow> (real \<times> real) list option result" where
  "route_coordinates [] = Inr (Some [])"
| "route_coordinates (c # cs) = res_bind (route_pair c) (\<lambda>p.
     case p of None \<Rightarrow> Inr None
     | Some q \<Rightarrow> res_bind (route_coordinates cs) (\<lambda>qs. Inr (map_option (\<lambda>l. q # l) qs)))"

text \<open>\<open>routes[0]\<close> of a value that is true, and \<open>.get\<close> of it.\<close>

definition first_route :: "json \<Rightarrow> (ustr \<times> json) list result" where
  "first_route v = (case v of
     JArr (JObj d # _) \<Rightarrow> Inr d
   | JArr _ \<Rightarrow> Inl AttributeError
   | JStr _ \<Rightarrow> Inl AttributeError
   | JObj _ \<Rightarrow> Inl KeyError
   | _ \<Rightarrow> Inl TypeError)"

definition parse_route_line :: "(ustr \<times> json) list \<Rightarrow> routed_line option result" where
  "parse_route_line body =
     (let routes = json_or (jget body ''routes'') (JArr [])
      in if jget body ''code'' \<noteq> jstr ''Ok'' \<or> \<not> truthy routes then Inr None
         else res_bind (first_route routes) (\<lambda>route.
              res_bind (parse_finite_number (jget route ''distance'') (Some 0) None) (\<lambda>distance.
                case distance of None \<Rightarrow> Inr None
                | Some metres \<Rightarrow>
                    if metres = 0 then Inr None
                    else (case jget route ''geometry'' of
                      JObj geometry \<Rightarrow>
                        if jget geometry ''type'' \<noteq> jstr ''LineString'' then Inr None
                        else (case jget geometry ''coordinates'' of
                            JArr coordinates \<Rightarrow>
                              if length coordinates < 2 then Inr None
                              else if length coordinates > PROVIDER_ROUTE_MAX_VERTICES then Inl too_large
                              else res_bind (route_coordinates coordinates) (\<lambda>cs.
                                Inr (map_option (\<lambda>l. \<lparr>rl_distance_m = metres, rl_coordinates = l\<rparr>) cs))
                          | _ \<Rightarrow> Inr None)
                    | _ \<Rightarrow> Inr None))))"

end
