(* ===== verification/SnapWorker.thy ===== *)
theory SnapWorker imports SnapMatch RunnerTypes AccountWorker begin

text \<open>
  \<open>SnapWorker\<close> of \<open>app/snap.py\<close>: one pending trip per turn. The state is the part of one account's
  tables it reads and writes; every transaction is a function on it. Between two transactions
  of a turn other connections commit (\<open>sx_others\<close>), the database's clock moves on (\<open>sx_now\<close>) and
  OSRM answers (\<open>sx_reply\<close>). \<open>sx_bytes\<close> stands for PostGIS' size of a geometry and \<open>sx_refused\<close> for
  the quota trigger; other database errors abort the turn and are left out.
\<close>

section \<open>Tables\<close>

record snap_trip =
  sg_id :: int
  sg_device :: "int option"
  sg_source :: string
  sg_imported :: bool
  sg_started_at :: instant
  sg_ended_at :: instant
  sg_created_at :: instant
  sg_updated_at :: instant
  sg_distance_m :: real
  sg_status :: "string option"
  sg_needed_bytes :: int
  sg_attempted_at :: "instant option"
  sg_path :: "json option"
  sg_distance_snapped_m :: "real option"
  sg_snapped_at :: "instant option"

record snap_device =
  sd_id :: int
  sd_generation :: int
  sd_enabled :: bool
  sd_revoked_at :: "instant option"

record usage_row =
  us_used_bytes :: int
  us_enhancement_bytes :: int
  us_account_limit :: "int option"
  us_enhancement_limit :: "int option"

record snap_db =
  sb_trips :: "snap_trip list"
  sb_devices :: "snap_device list"
  sb_fixes :: "fix_row list"
  sb_usage :: "usage_row option"
  sb_next_trip_id :: int

record snap_config =
  sc_osrm_url :: string
  sc_min_confidence :: real
  sc_max_coords :: int
  sc_retry :: int

datatype provider_reply = NoReply string | Reply json

record snap_world =
  sx_others :: "nat \<Rightarrow> snap_db \<Rightarrow> snap_db"
  sx_now :: "nat \<Rightarrow> instant"
  sx_loop :: real
  sx_reply :: "string \<Rightarrow> provider_reply"
  sx_bytes :: "json \<Rightarrow> int"
  sx_refused :: bool

definition transact :: "snap_world \<Rightarrow> (instant \<Rightarrow> snap_db \<Rightarrow> 'a \<times> snap_db) \<Rightarrow> nat \<times> snap_db \<Rightarrow> 'a \<times> nat \<times> snap_db" where
  "transact w f s = (case s of (n, db) \<Rightarrow>
     let (x, db') = f (sx_now w n) (sx_others w n db) in (x, Suc n, db'))"

section \<open>Which trip is next\<close>

definition live_device :: "snap_db \<Rightarrow> int option \<Rightarrow> snap_device option" where
  "live_device db device = (case device of None \<Rightarrow> None
     | Some i \<Rightarrow> List.find (\<lambda>d. sd_id d = i \<and> sd_enabled d \<and> sd_revoked_at d = None) (sb_devices db))"

definition snap_pending :: "snap_trip \<Rightarrow> bool" where
  "snap_pending t \<longleftrightarrow> sg_status t = Some ''pending'' \<and> sg_source t = ''detected'' \<and> \<not> sg_imported t"

definition snap_eligible :: "snap_db \<Rightarrow> snap_trip \<Rightarrow> bool" where
  "snap_eligible db t \<longleftrightarrow> snap_pending t \<and> live_device db (sg_device t) \<noteq> None"

text \<open>\<open>COALESCE(snap_attempted_at, created_at), id\<close>.\<close>

definition snap_age :: "snap_trip \<Rightarrow> instant \<times> int" where
  "snap_age t = ((case sg_attempted_at t of None \<Rightarrow> sg_created_at t | Some u \<Rightarrow> u), sg_id t)"

definition in_backoff :: "int \<Rightarrow> instant \<Rightarrow> snap_trip \<Rightarrow> bool" where
  "in_backoff retry now t = (case sg_attempted_at t of None \<Rightarrow> False | Some u \<Rightarrow> u + retry > now)"

text \<open>\<open>GREATEST(0, EXTRACT(EPOCH FROM snap_attempted_at + retry - now()))\<close>.\<close>

definition snap_delay :: "int \<Rightarrow> instant \<Rightarrow> snap_trip \<Rightarrow> real" where
  "snap_delay retry now t = (case sg_attempted_at t of None \<Rightarrow> 0 | Some u \<Rightarrow> max 0 (total_seconds (u + retry - now)))"

type_synonym snap_cursor = "instant \<times> int"

definition next_trip :: "int \<Rightarrow> snap_cursor option \<Rightarrow> instant \<Rightarrow> snap_db \<Rightarrow> snap_trip option" where
  "next_trip retry cursor now db =
     (case sort_key (\<lambda>t. (in_backoff retry now t, snap_age t))
             (filter (\<lambda>t. snap_eligible db t \<and> (case cursor of None \<Rightarrow> True | Some c \<Rightarrow> c < snap_age t)) (sb_trips db)) of
        [] \<Rightarrow> None | t # _ \<Rightarrow> Some t)"

section \<open>The transactions of one attempt\<close>

text \<open>The fixes of a trip, \<open>ORDER BY recorded_at\<close>, and the sampled ones.\<close>

definition snap_fixes :: "snap_db \<Rightarrow> snap_trip \<Rightarrow> fix_row list" where
  "snap_fixes db t =
     sort_key fx_recorded_at
       (filter (\<lambda>p. sg_device t = Some (fx_device p) \<and> sg_started_at t \<le> fx_recorded_at p
          \<and> fx_recorded_at p \<le> sg_ended_at t \<and> fx_trip_id p \<noteq> None) (sb_fixes db))"

definition match_point_of :: "fix_row \<Rightarrow> match_point" where
  "match_point_of p = \<lparr>mp_t = fx_recorded_at p, mp_lat = fx_lat p, mp_lon = fx_lon p, mp_accuracy_m = fx_accuracy_m p\<rparr>"

definition load_snap_points :: "int \<Rightarrow> snap_db \<Rightarrow> snap_trip \<Rightarrow> match_point list result" where
  "load_snap_points max_coords db t =
     (let ranked = snap_fixes db t
      in res_bind (sample_ordinals (int (length ranked)) max_coords) (\<lambda>ordinals.
         Inr (if ordinals = [] then []
              else map (\<lambda>k. match_point_of (ranked ! k)) (filter (\<lambda>k. int k \<in> set ordinals) [0..<length ranked]))))"

record snap_token =
  tk_generation :: instant
  tk_raw_distance_m :: real
  tk_device :: "int option"
  tk_device_generation :: int
  tk_needed_bytes :: int
  tk_points :: "match_point list"

definition load_snap :: "int \<Rightarrow> int \<Rightarrow> snap_db \<Rightarrow> snap_token option result" where
  "load_snap max_coords i db =
     (case List.find (\<lambda>t. sg_id t = i \<and> snap_eligible db t) (sb_trips db) of
        None \<Rightarrow> Inr None
      | Some t \<Rightarrow>
          (case live_device db (sg_device t) of
             None \<Rightarrow> Inr None
           | Some d \<Rightarrow>
               res_bind (load_snap_points max_coords db t) (\<lambda>points.
                 Inr (Some \<lparr>tk_generation = sg_updated_at t, tk_raw_distance_m = sg_distance_m t, tk_device = sg_device t,
                   tk_device_generation = sd_generation d, tk_needed_bytes = sg_needed_bytes t, tk_points = points\<rparr>))))"

definition lock_device_generation :: "int option \<Rightarrow> int \<Rightarrow> snap_db \<Rightarrow> bool" where
  "lock_device_generation device generation db =
     list_ex (\<lambda>d. device = Some (sd_id d) \<and> sd_generation d = generation \<and> sd_enabled d \<and> sd_revoked_at d = None)
       (sb_devices db)"

text \<open>An \<open>UPDATE trips\<close>: the new state, and whether it touched a row.\<close>

definition update_snap :: "(snap_trip \<Rightarrow> bool) \<Rightarrow> (snap_trip \<Rightarrow> snap_trip) \<Rightarrow> snap_db \<Rightarrow> bool \<times> snap_db" where
  "update_snap sel f db =
     (list_ex sel (sb_trips db), db\<lparr>sb_trips := map (\<lambda>t. if sel t then f t else t) (sb_trips db)\<rparr>)"

definition same_generation :: "int \<Rightarrow> snap_token \<Rightarrow> snap_trip \<Rightarrow> bool" where
  "same_generation i tk t \<longleftrightarrow> sg_id t = i \<and> sg_updated_at t = tk_generation tk"

definition pending_generation :: "int \<Rightarrow> snap_token \<Rightarrow> snap_trip \<Rightarrow> bool" where
  "pending_generation i tk t \<longleftrightarrow> same_generation i tk t \<and> sg_device t = tk_device tk \<and> snap_pending t"

text \<open>\<open>if not await lock_device_generation(...)\<close> around the write: nothing is written without the lock.\<close>

definition if_locked :: "snap_token \<Rightarrow> (snap_db \<Rightarrow> bool \<times> snap_db) \<Rightarrow> snap_db \<Rightarrow> bool \<times> snap_db" where
  "if_locked tk f db =
     (if lock_device_generation (tk_device tk) (tk_device_generation tk) db then f db else (False, db))"

definition fail_short :: "int \<Rightarrow> snap_token \<Rightarrow> instant \<Rightarrow> snap_db \<Rightarrow> bool \<times> snap_db" where
  "fail_short i tk now = if_locked tk (update_snap (same_generation i tk)
     (\<lambda>t. t\<lparr>sg_status := Some ''failed'', sg_snapped_at := Some now, sg_needed_bytes := 0\<rparr>))"

definition pause_for_capacity :: "int \<Rightarrow> snap_token \<Rightarrow> int \<Rightarrow> instant \<Rightarrow> snap_db \<Rightarrow> bool \<times> snap_db" where
  "pause_for_capacity i tk needed now = if_locked tk (update_snap (pending_generation i tk)
     (\<lambda>t. t\<lparr>sg_needed_bytes := needed, sg_attempted_at := Some now\<rparr>))"

definition mark_attempt :: "int \<Rightarrow> snap_token \<Rightarrow> instant \<Rightarrow> snap_db \<Rightarrow> bool \<times> snap_db" where
  "mark_attempt i tk now = if_locked tk (update_snap (pending_generation i tk)
     (\<lambda>t. t\<lparr>sg_attempted_at := Some now, sg_needed_bytes := 0\<rparr>))"

definition store_match :: "int \<Rightarrow> snap_token \<Rightarrow> match_result \<Rightarrow> instant \<Rightarrow> snap_db \<Rightarrow> bool \<times> snap_db" where
  "store_match i tk r now = if_locked tk (update_snap (same_generation i tk)
     (\<lambda>t. t\<lparr>sg_path := mr_path r, sg_distance_snapped_m := mr_distance_m r, sg_status := Some (mr_status r),
            sg_snapped_at := Some now, sg_needed_bytes := 0\<rparr>))"

text \<open>\<open>app/storage.py\<close>: a limit that is \<open>NULL\<close> does not limit.\<close>

definition within_limit :: "int \<Rightarrow> int option \<Rightarrow> bool" where
  "within_limit bytes limit = (case limit of None \<Rightarrow> True | Some l \<Rightarrow> bytes \<le> l)"

definition enhancement_available :: "int \<Rightarrow> int \<Rightarrow> snap_db \<Rightarrow> bool result" where
  "enhancement_available needed credit db =
     (if needed < 0 \<or> credit < 0 then Inl (ValueError ''storage capacity check requires nonnegative bytes'')
      else case sb_usage db of
          None \<Rightarrow> Inl (RuntimeError ''storage allowance unavailable'')
        | Some u \<Rightarrow> Inr (within_limit (us_used_bytes u + needed - credit) (us_account_limit u)
            \<and> within_limit (us_enhancement_bytes u + needed) (us_enhancement_limit u)))"

section \<open>The request\<close>

text \<open>\<open>int(t.timestamp())\<close> truncates towards zero.\<close>

definition whole_seconds :: "instant \<Rightarrow> int" where
  "whole_seconds t = (if 0 \<le> t then t div 1000000 else - (- t div 1000000))"

definition rstrip_slash :: "string \<Rightarrow> string" where
  "rstrip_slash s = rev (dropWhile (\<lambda>c. c = CHR ''/'') (rev s))"

definition match_url :: "string \<Rightarrow> match_point list \<Rightarrow> string" where
  "match_url osrm_url sampled =
     (let coords = join '';'' (map (\<lambda>p. fixed 6 (mp_lon p) @ '','' @ fixed 6 (mp_lat p)) sampled);
          timestamps = join '';'' (map (\<lambda>p. dec_int (whole_seconds (mp_t p))) sampled);
          radii = join '';'' (map (fixed 1) (radiuses sampled))
      in rstrip_slash osrm_url @ ''/match/v1/car/'' @ coords
         @ ''?geometries=geojson&overview=full&steps=false&annotations=false''
         @ ''&gaps=ignore&tidy=false&timestamps='' @ timestamps @ ''&radiuses='' @ radii)"

section \<open>One attempt\<close>

definition SNAP_MIN_ROUTE_BYTES :: int where "SNAP_MIN_ROUTE_BYTES = 54"

definition attempted :: batch_outcome where
  "attempted = no_batch\<lparr>bo_attempted := 1\<rparr>"

definition finished :: batch_outcome where
  "finished = attempted\<lparr>bo_completed := 1\<rparr>"

definition retriable :: "string \<Rightarrow> batch_outcome" where
  "retriable name = attempted\<lparr>bo_failures := 1, bo_failure_type := Some name\<rparr>"

text \<open>\<open>type(exc).__name__\<close> of the exceptions the parser can raise.\<close>

definition exception_name :: "py_error \<Rightarrow> string" where
  "exception_name e = (case e of
     ValueError msg \<Rightarrow> if e = too_large then ''ProviderOutputTooLarge'' else ''ValueError''
   | TypeError \<Rightarrow> ''TypeError'' | OverflowError \<Rightarrow> ''OverflowError'' | IndexError \<Rightarrow> ''IndexError''
   | ZeroDivisionError \<Rightarrow> ''ZeroDivisionError'' | AttributeError \<Rightarrow> ''AttributeError'' | KeyError \<Rightarrow> ''KeyError''
   | RuntimeError _ \<Rightarrow> ''RuntimeError'')"

definition caught :: "py_error \<Rightarrow> bool" where
  "caught e = (case e of TypeError \<Rightarrow> True | ValueError _ \<Rightarrow> True | KeyError \<Rightarrow> True | _ \<Rightarrow> False)"

type_synonym snap_state = "nat \<times> snap_db"

text \<open>After the request: what the reply comes to, and the write.\<close>

definition read_reply :: "snap_config \<Rightarrow> snap_token \<Rightarrow> match_point list \<Rightarrow> provider_reply \<Rightarrow> batch_outcome + match_result result" where
  "read_reply cfg tk sampled reply =
     (case reply of
        NoReply name \<Rightarrow> Inl (retriable name)
      | Reply (JObj body) \<Rightarrow>
          if map_of body (ustr ''code'') = None then Inl (retriable ''UnrecognizedResponse'')
          else (case parse_and_serialize_match body (sc_min_confidence cfg) (length sampled) (Some (tk_raw_distance_m tk)) of
                  Inl e \<Rightarrow> if caught e then Inl (retriable (exception_name e)) else Inr (Inl e)
                | Inr r \<Rightarrow> Inr (Inr r))
      | Reply _ \<Rightarrow> Inl (retriable ''UnrecognizedResponse''))"

text \<open>The terminal write; the quota trigger can refuse a row, which undoes the transaction.\<close>

datatype write_outcome = Stored | Discarded | Refused

definition write_match :: "snap_world \<Rightarrow> int \<Rightarrow> snap_token \<Rightarrow> match_result \<Rightarrow> instant \<Rightarrow> snap_db \<Rightarrow> write_outcome \<times> snap_db" where
  "write_match w i tk r now db =
     (let (hit, db') = store_match i tk r now db
      in if \<not> hit then (Discarded, db') else if sx_refused w then (Refused, db) else (Stored, db'))"

definition store_result :: "snap_world \<Rightarrow> int \<Rightarrow> snap_token \<Rightarrow> match_result \<Rightarrow> snap_state \<Rightarrow> batch_outcome \<times> snap_state" where
  "store_result w i tk r s =
     (let (bytes, s1) = (case mr_path r of None \<Rightarrow> (0, s) | Some g \<Rightarrow> transact w (\<lambda>now db. (sx_bytes w g, db)) s);
          (out, s2) = transact w (write_match w i tk r) s1
      in case out of
           Stored \<Rightarrow> (finished, s2)
         | Discarded \<Rightarrow> (attempted, s2)
         | Refused \<Rightarrow> (let (_, s3) = transact w (pause_for_capacity i tk bytes) s2 in (attempted, s3)))"

definition request_match :: "snap_config \<Rightarrow> snap_world \<Rightarrow> int \<Rightarrow> snap_token \<Rightarrow> snap_state \<Rightarrow> batch_outcome result \<times> snap_state" where
  "request_match cfg w i tk s =
     (let sampled = downsample (tk_points tk) (sc_max_coords cfg);
          (marked, s1) = transact w (mark_attempt i tk) s
      in if \<not> marked then (Inr no_batch, s1)
         else (case read_reply cfg tk sampled (sx_reply w (match_url (sc_osrm_url cfg) sampled)) of
                 Inl outcome \<Rightarrow> (Inr outcome, s1)
               | Inr (Inl e) \<Rightarrow> (Inl e, s1)
               | Inr (Inr r) \<Rightarrow> (let (outcome, s2) = store_result w i tk r s1 in (Inr outcome, s2))))"

definition snap_one :: "snap_config \<Rightarrow> snap_world \<Rightarrow> int \<Rightarrow> snap_state \<Rightarrow> batch_outcome result \<times> snap_state" where
  "snap_one cfg w i s =
     (let (loaded, s1) = transact w (\<lambda>now db. (load_snap (sc_max_coords cfg) i db, db)) s
      in case loaded of
           Inl e \<Rightarrow> (Inl e, s1)
         | Inr None \<Rightarrow> (Inr no_batch, s1)
         | Inr (Some tk) \<Rightarrow>
             if length (tk_points tk) < 2
             then (let (stored, s2) = transact w (fail_short i tk) s1 in (Inr (if stored then finished else no_batch), s2))
             else (let needed = max SNAP_MIN_ROUTE_BYTES (tk_needed_bytes tk);
                       (can_snap, s2) = transact w (\<lambda>now db. (enhancement_available needed 0 db, db)) s1
                   in case can_snap of
                        Inl e \<Rightarrow> (Inl e, s2)
                      | Inr False \<Rightarrow> (let (_, s3) = transact w (pause_for_capacity i tk needed) s2 in (Inr no_batch, s3))
                      | Inr True \<Rightarrow> request_match cfg w i tk s2))"

section \<open>A turn\<close>

definition defer_until :: "batch_outcome \<Rightarrow> real \<Rightarrow> snap_cursor unit_outcome" where
  "defer_until batch t = idle_outcome\<lparr>uo_batch := batch, uo_deferred_until := Some t\<rparr>"

definition look :: "snap_config \<Rightarrow> snap_world \<Rightarrow> snap_cursor option \<Rightarrow> snap_state \<Rightarrow> (snap_trip \<times> real) option \<times> snap_state" where
  "look cfg w cursor s = transact w (\<lambda>now db.
     (map_option (\<lambda>t. (t, snap_delay (sc_retry cfg) now t)) (next_trip (sc_retry cfg) cursor now db), db)) s"

text \<open>Nothing is left past the cursor: wait, when something is left before it.\<close>

definition wrap_around ::
  "snap_config \<Rightarrow> snap_world \<Rightarrow> snap_cursor option \<Rightarrow> batch_outcome \<Rightarrow> snap_state \<Rightarrow> snap_cursor unit_outcome \<times> snap_state" where
  "wrap_around cfg w cursor batch s =
     (if cursor = None then (idle_outcome\<lparr>uo_batch := batch\<rparr>, s)
      else let (again, s1) = look cfg w None s
           in (if again = None then idle_outcome\<lparr>uo_batch := batch\<rparr>
               else defer_until batch (sx_loop w + total_seconds (sc_retry cfg)), s1))"

definition snap_turn :: "snap_config \<Rightarrow> snap_world \<Rightarrow> snap_cursor option \<Rightarrow> snap_state \<Rightarrow> snap_cursor unit_outcome result \<times> snap_state" where
  "snap_turn cfg w cursor s =
     (let (row, s1) = look cfg w cursor s
      in case row of
           None \<Rightarrow> (let (outcome, s2) = wrap_around cfg w cursor no_batch s1 in (Inr outcome, s2))
         | Some (t, delay) \<Rightarrow>
             if delay > 0 then (Inr (defer_until no_batch (sx_loop w + delay)), s1)
             else (case snap_one cfg w (sg_id t) s1 of
                     (Inl e, s2) \<Rightarrow> (Inl e, s2)
                   | (Inr outcome, s2) \<Rightarrow>
                       (let cursor1 = (if bo_attempted outcome = 0 then Some (snap_age t) else cursor);
                            (next_row, s3) = look cfg w cursor1 s2
                        in case next_row of
                             None \<Rightarrow> (let (out, s4) = wrap_around cfg w cursor1 outcome s3 in (Inr out, s4))
                           | Some (_, delay1) \<Rightarrow>
                               (Inr (if delay1 > 0 then defer_until outcome (sx_loop w + delay1)
                                     else (ready_outcome cursor1)\<lparr>uo_batch := outcome\<rparr>), s3))))"

end
