(* ===== verification/SnapChecks.thy ===== *)
theory SnapChecks imports SnapMatch begin

text \<open>
  What the pure part of \<open>app/snap.py\<close> guarantees: thinning keeps the ends and is even, and a match
  or route that gets through has finite coordinates in range and a distance only where the match
  covers the trip.
\<close>

section \<open>Sampling\<close>

lemma round_half_even_near: "\<bar>of_int (round_half_even x) - x\<bar> \<le> 1 / 2"
proof -
  have "of_int \<lfloor>x\<rfloor> \<le> x" "x < of_int \<lfloor>x\<rfloor> + 1" by linarith+
  then show ?thesis by (auto simp: round_half_even_def Let_def)
qed

lemma round_half_even_int [simp]: "round_half_even (of_int k) = k"
  by (simp add: round_half_even_def Let_def)

text \<open>The sampled positions as one function of \<open>0..interior + 1\<close>.\<close>

definition ordinal_at :: "int \<Rightarrow> int \<Rightarrow> int \<Rightarrow> int" where
  "ordinal_at n interior k = (if k = interior + 1 then n - 1 else round_half_even (of_int k * sample_step n interior))"

definition thins :: "int \<Rightarrow> int \<Rightarrow> bool" where
  "thins n interior \<longleftrightarrow> interior + 1 \<le> n - 2 \<and> 0 \<le> interior"

lemma step_ge1: "thins n interior \<Longrightarrow> 1 \<le> sample_step n interior"
  by (simp add: sample_step_def thins_def)

lemma step_total: "thins n interior \<Longrightarrow> of_int (interior + 1) * sample_step n interior = of_int (n - 2)"
  by (simp add: sample_step_def thins_def)

lemma step_inside:
  assumes room: "thins n interior" and k: "1 \<le> k" "k \<le> interior"
  shows "1 \<le> round_half_even (of_int k * sample_step n interior)" "round_half_even (of_int k * sample_step n interior) \<le> n - 3"
proof -
  let ?s = "sample_step n interior" and ?r = "round_half_even (of_int k * sample_step n interior)"
  have "(1::real) * 1 \<le> of_int k * ?s" using k(1) step_ge1 [OF room] by (intro mult_mono) auto
  moreover have "of_int k * ?s \<le> of_int interior * ?s" using k(2) step_ge1 [OF room] by (intro mult_right_mono) auto
  moreover have "of_int interior * ?s = of_int (n - 2) - ?s" using step_total [OF room] by (simp add: algebra_simps)
  ultimately have "(1::real) \<le> of_int k * ?s" "of_int k * ?s \<le> of_int (n - 3)" using step_ge1 [OF room] by auto
  with round_half_even_near [of "of_int k * ?s"] show "1 \<le> ?r" "?r \<le> n - 3" by linarith+
qed

lemma sample_index_inside: "thins n interior \<Longrightarrow> 1 \<le> k \<Longrightarrow> k \<le> interior \<Longrightarrow> sample_index n interior k = ordinal_at n interior k"
  using step_inside [of n interior k] by (simp add: sample_index_def ordinal_at_def)

lemma ordinals_as_map:
  assumes room: "thins n interior"
  shows "0 # map (sample_index n interior) [1..interior] @ [n - 1] = map (ordinal_at n interior) [0..interior + 1]"
proof -
  have "[0..interior + 1] = 0 # [1..interior] @ [interior + 1]"
    using room by (simp add: thins_def upto_rec1 [of 0] upto_rec2 [of 1 "interior + 1"])
  moreover have "map (sample_index n interior) [1..interior] = map (ordinal_at n interior) [1..interior]"
    by (rule map_cong) (simp_all add: sample_index_inside [OF room])
  ultimately show ?thesis
    using room by (simp add: thins_def ordinal_at_def round_half_even_int [of 0, simplified])
qed

lemma ordinal_less:
  assumes room: "thins n interior" and k: "0 \<le> j" "j < k" "k \<le> interior + 1"
  shows "ordinal_at n interior j < ordinal_at n interior k"
proof (cases "k = interior + 1")
  case True
  have "round_half_even (of_int j * sample_step n interior) \<le> n - 3 \<or> j = 0"
    using step_inside [OF room, of j] k True by auto
  then show ?thesis using k True room [unfolded thins_def] round_half_even_int [of 0] by (auto simp: ordinal_at_def)
next
  case False
  let ?s = "sample_step n interior"
  have "?s * 1 \<le> ?s * of_int (k - j)" using k step_ge1 [OF room] by (intro mult_left_mono) auto
  then have gap: "of_int j * ?s + ?s \<le> of_int k * ?s" by (simp add: algebra_simps)
  show ?thesis
  proof (cases "?s = 1")
    case True
    then show ?thesis using k False by (simp add: ordinal_at_def)
  next
    case s: False
    then have "round_half_even (of_int j * ?s) < round_half_even (of_int k * ?s)"
      using gap step_ge1 [OF room] round_half_even_near [of "of_int j * ?s"] round_half_even_near [of "of_int k * ?s"] by linarith
    then show ?thesis using k False by (simp add: ordinal_at_def)
  qed
qed

lemma ordinal_near:
  assumes room: "thins n interior" and k: "0 \<le> k" "k \<le> interior + 1"
  shows "of_int k * sample_step n interior - 1 / 2 \<le> of_int (ordinal_at n interior k)"
    "of_int (ordinal_at n interior k) \<le> of_int k * sample_step n interior + 1"
proof -
  let ?x = "of_int k * sample_step n interior"
  have "\<bar>of_int (round_half_even ?x) - ?x\<bar> \<le> 1 / 2" by (rule round_half_even_near)
  then have near: "?x - 1 / 2 \<le> of_int (round_half_even ?x)" "of_int (round_half_even ?x) \<le> ?x + 1 / 2"
    by linarith+
  show "?x - 1 / 2 \<le> of_int (ordinal_at n interior k)" "of_int (ordinal_at n interior k) \<le> ?x + 1"
    using near step_total [OF room] by (auto simp: ordinal_at_def)
qed

lemma ordinal_gap:
  assumes "thins n interior" "0 \<le> k" "k \<le> interior"
  shows "of_int (ordinal_at n interior (k + 1) - ordinal_at n interior k) \<le> sample_step n interior + 3 / 2"
  using ordinal_near(1) [OF assms(1,2)] ordinal_near(2) [OF assms(1), of "k + 1"] assms(2,3) by (simp add: algebra_simps)

lemma pairs_map_upto:
  "(a, b) \<in> set (pairs (map f [0..m])) \<Longrightarrow> \<exists>k. 0 \<le> k \<and> k < m \<and> a = f k \<and> b = f (k + 1)"
proof -
  assume "(a, b) \<in> set (pairs (map f [0..m]))"
  then obtain i where "Suc i < length [0..m]" "a = f ([0..m] ! i)" "b = f ([0..m] ! Suc i)"
    by (auto simp: pairs_mem_nth)
  then show ?thesis by (intro exI [of _ "int i"]) (auto simp: nth_upto add.commute)
qed

lemma sorted_wrt_map_upto:
  "(\<And>j k. 0 \<le> j \<Longrightarrow> j < k \<Longrightarrow> k \<le> m \<Longrightarrow> f j < f k) \<Longrightarrow> sorted_wrt (<) (map (f :: int \<Rightarrow> int) [0..m])"
  by (auto simp: sorted_wrt_iff_nth_less nth_upto)

lemma first_of_times_distinct:
  "distinct (map mp_t ps) \<Longrightarrow> set (map mp_t ps) \<inter> set seen = {} \<Longrightarrow> first_of_times seen ps = ps"
  by (induction ps arbitrary: seen) auto

lemma in_time_order_id:
  assumes "sorted_wrt (<) (map mp_t ps)"
  shows "sort_key mp_t (first_of_times [] ps) = ps"
proof -
  have "distinct (map mp_t ps)" "sorted (map mp_t ps)" using assms by (simp_all add: strict_sorted_iff)
  then show ?thesis by (simp add: first_of_times_distinct sort_key_id_if_sorted)
qed

lemma sampled_in_order:
  assumes "sorted_wrt (<) (map mp_t ps)" "sorted_wrt (<) is" "set is \<subseteq> {0..int (length ps) - 1}"
  shows "sorted_wrt (<) (map mp_t (map (\<lambda>i. ps ! nat i) is))"
  using assms(2,3)
proof (induction "is")
  case (Cons i "is")
  have "mp_t (ps ! nat i) < mp_t (ps ! nat j)" if "j \<in> set is" for j
  proof -
    have ij: "i < j" "0 \<le> i" "j < int (length ps)" using Cons.prems that by auto
    then have "map mp_t ps ! nat i < map mp_t ps ! nat j"
      using assms(1) by (intro sorted_wrt_nth_less [OF assms(1)]) auto
    then show ?thesis using ij by simp
  qed
  then show ?case using Cons by auto
qed simp

lemma sample_ordinals_thin:
  assumes "2 \<le> m" "m < n"
  shows "sample_ordinals n m = Inr (map (ordinal_at n (m - 2)) [0..m - 1])"
proof -
  have t: "thins n (m - 2)" using assms by (simp add: thins_def)
  show ?thesis using ordinals_as_map [OF t] assms by (simp add: sample_ordinals_def)
qed

lemma ordinal_range:
  assumes "2 \<le> m" "m < n" "0 \<le> k" "k \<le> m - 1"
  shows "0 \<le> ordinal_at n (m - 2) k" "ordinal_at n (m - 2) k \<le> n - 1"
proof -
  have t: "thins n (m - 2)" using assms by (simp add: thins_def)
  have "ordinal_at n (m - 2) 0 = 0" "ordinal_at n (m - 2) (m - 1) = n - 1"
    using assms round_half_even_int [of 0] by (simp_all add: ordinal_at_def)
  note ends = this
  have "k = 0 \<or> ordinal_at n (m - 2) 0 < ordinal_at n (m - 2) k"
    using ordinal_less [OF t, of 0 k] assms(3,4) by linarith
  then show "0 \<le> ordinal_at n (m - 2) k" using ends by auto
  have "k = m - 1 \<or> ordinal_at n (m - 2) k < ordinal_at n (m - 2) (m - 1)"
    using ordinal_less [OF t, of k "m - 1"] assms(3,4) by linarith
  then show "ordinal_at n (m - 2) k \<le> n - 1" using ends by auto
qed

text \<open>
  C38. Thinning keeps both ends and is even. For fixes in strictly increasing time order and a cap
  of at least two, \<open>sample_ordinals\<close> and \<open>downsample\<close> select the same fixes: at most the cap, at
  strictly increasing positions, the first and the last among them, and no gap between neighbours
  larger than the uniform stride by more than one and a half. A trip within the cap is kept whole.
\<close>

theorem thinning_even:
  assumes "2 \<le> m" "sorted_wrt (<) (map mp_t ps)"
  shows "\<exists>is. sample_ordinals (int (length ps)) m = Inr is \<and> downsample ps m = map (\<lambda>i. ps ! nat i) is
    \<and> int (length is) = min (int (length ps)) m \<and> sorted_wrt (<) is \<and> set is \<subseteq> {0..int (length ps) - 1}
    \<and> (ps \<noteq> [] \<longrightarrow> hd is = 0 \<and> last is = int (length ps) - 1)
    \<and> (\<forall>(a, b) \<in> set (pairs is). of_int (b - a) \<le> sample_step (int (length ps)) (m - 2) + 3 / 2)"
proof (cases "int (length ps) \<le> m")
  case True
  let ?is = "[0..int (length ps) - 1]"
  have "map (\<lambda>i. ps ! nat i) ?is = ps" by (rule nth_equalityI) (simp_all add: nth_upto)
  moreover have "sorted_wrt (<) (map (\<lambda>i. i) ?is)" by (rule sorted_wrt_map_upto)
  moreover have "real_of_int (b - a) \<le> sample_step (int (length ps)) (m - 2) + 3 / 2" if ab: "(a, b) \<in> set (pairs ?is)" for a b
  proof -
    have "(a, b) \<in> set (pairs (map (\<lambda>i. i) ?is))" using ab by simp
    then obtain k where "0 \<le> k" "k < int (length ps) - 1" "a = k" "b = k + 1" by (blast dest: pairs_map_upto)
    moreover have "0 \<le> sample_step (int (length ps)) (m - 2)"
      using assms(1) \<open>0 \<le> k\<close> \<open>k < int (length ps) - 1\<close> by (simp add: sample_step_def)
    ultimately show ?thesis by simp
  qed
  moreover have "ps \<noteq> [] \<longrightarrow> hd ?is = 0 \<and> last ?is = int (length ps) - 1"
  proof
    assume "ps \<noteq> []"
    then have "?is \<noteq> []" "int (length ps - 1) = int (length ps) - 1" by (cases ps; simp)+
    then show "hd ?is = 0 \<and> last ?is = int (length ps) - 1" by (simp add: hd_conv_nth last_conv_nth nth_upto)
  qed
  ultimately show ?thesis using True
    by (intro exI [of _ ?is]) (auto simp: sample_ordinals_def downsample_def Let_def)
next
  case False
  let ?n = "int (length ps)"
  let ?f = "ordinal_at ?n (m - 2)"
  let ?is = "map ?f [0..m - 1]"
  have t: "thins ?n (m - 2)" using assms False by (simp add: thins_def)
  have so: "sample_ordinals ?n m = Inr ?is" using sample_ordinals_thin assms(1) False by simp
  have inc: "sorted_wrt (<) ?is"
    by (rule sorted_wrt_map_upto) (rule ordinal_less [OF t], simp_all)
  have range: "set ?is \<subseteq> {0..?n - 1}" using ordinal_range [of m ?n] assms(1) False by auto
  have ends: "?f 0 = 0" "?f (m - 1) = ?n - 1"
    using assms round_half_even_int [of 0] by (simp_all add: ordinal_at_def)
  have ne: "ps \<noteq> []" using False assms(1) by auto
  have pts: "hd ps = ps ! nat 0" "last ps = ps ! nat (?n - 1)"
    using ne by (simp_all add: hd_conv_nth last_conv_nth nat_diff_distrib nat_minus_as_int)
  have "downsample ps m = sort_key mp_t (first_of_times [] (map (\<lambda>i. ps ! nat i)
      (0 # map (sample_index ?n (m - 2)) [1..m - 2] @ [?n - 1])))"
    using False assms(1) pts by (auto simp: downsample_def Let_def comp_def)
  also have "\<dots> = map (\<lambda>i. ps ! nat i) ?is"
    using sampled_in_order [OF assms(2) inc range] ordinals_as_map [OF t] by (simp add: in_time_order_id)
  finally have ds: "downsample ps m = map (\<lambda>i. ps ! nat i) ?is" .
  have gaps: "real_of_int (b - a) \<le> sample_step ?n (m - 2) + 3 / 2" if ab: "(a, b) \<in> set (pairs ?is)" for a b
    using pairs_map_upto [OF ab] ordinal_gap [OF t] by auto
  have hl: "hd ?is = 0" "last ?is = ?n - 1"
    using ends assms(1) by (simp_all add: upto_rec1 [of 0] hd_map last_map last_conv_nth nth_upto)
  show ?thesis using so ds inc range gaps hl False assms(1) by (intro exI [of _ ?is]) auto
qed

definition tick :: "instant \<Rightarrow> match_point" where
  "tick t = \<lparr>mp_t = t, mp_lat = 50, mp_lon = 8, mp_accuracy_m = None\<rparr>"

theorem thinning_even_witness:
  "\<exists>is. sample_ordinals 4 3 = Inr is \<and> downsample (map tick [0, 5, 9, 20]) 3 = map (\<lambda>i. map tick [0, 5, 9, 20] ! nat i) is
     \<and> hd is = 0 \<and> last is = 3"
  using thinning_even [of 3 "map tick [0, 5, 9, 20]"] by (auto simp: tick_def)

section \<open>A match\<close>

definition in_range_pair :: "json \<Rightarrow> bool" where
  "in_range_pair c \<longleftrightarrow> (\<exists>x y lon lat. c = JArr [x, y] \<and> num_value x = Fin lon \<and> num_value y = Fin lat
     \<and> - 180 \<le> lon \<and> lon \<le> 180 \<and> - 90 \<le> lat \<and> lat \<le> 90)"

text \<open>The line, distance and confidence of a matching that passes the validation.\<close>

definition line_of :: "json \<Rightarrow> json list" where
  "line_of m = (case m of
     JObj d \<Rightarrow> (case json_or (jget d ''geometry'') (JObj []) of
       JObj g \<Rightarrow> (case json_or (jget g ''coordinates'') (JArr []) of JArr cs \<Rightarrow> cs | _ \<Rightarrow> [])
     | _ \<Rightarrow> [])
   | _ \<Rightarrow> [])"

definition number_of :: "string \<Rightarrow> json \<Rightarrow> real" where
  "number_of k m = (case m of
     JObj d \<Rightarrow> (case num_value (jget_or d k (JInt 0)) of Fin r \<Rightarrow> r | _ \<Rightarrow> 0) | _ \<Rightarrow> 0)"

lemma finite_number_parsed:
  "parse_finite_number (jget_or d k (JInt 0)) lo hi = Inr (Some r) \<Longrightarrow>
     finite_number (jget_or d k (JFloat (Fin 0))) = Inr r \<and> number_of k (JObj d) = r"
  unfolding jget_or_def dget_def
  by (cases "map_of d (ustr k)")
    (auto simp: parse_finite_number_def finite_number_def number_of_def jget_or_def dget_def is_number_def to_float_def num_value_def
      float_limit_def split: json.splits pyfloat.splits if_splits option.splits)

lemma lonlat_pair_Some: "lonlat_pair c = Inr (Some p) \<Longrightarrow> in_range_pair c"
proof -
  assume p: "lonlat_pair c = Inr (Some p)"
  then obtain x y where c: "c = JArr [x, y]"
    by (auto simp: lonlat_pair_def split: json.splits list.splits)
  with p obtain lon lat where "parse_finite_number x (Some (- 180)) (Some 180) = Inr (Some lon)"
    "parse_finite_number y (Some (- 90)) (Some 90) = Inr (Some lat)"
    by (auto simp: lonlat_pair_def res_bind_def split: sum.splits if_splits option.splits)
  then show ?thesis using c by (auto simp: in_range_pair_def dest!: parse_finite_number_Some)
qed

lemma check_coordinates_ok: "check_coordinates cs = Inr u \<Longrightarrow> \<forall>c \<in> set cs. in_range_pair c"
  by (induction cs) (auto simp: res_bind_def lonlat_pair_Some split: sum.splits if_splits)

definition plain_error :: "py_error \<Rightarrow> bool" where
  "plain_error e \<longleftrightarrow> (\<exists>msg. e = ValueError msg) \<or> e = OverflowError"

lemma plain_error_simps [simp]: "plain_error (ValueError msg)" "plain_error OverflowError" "plain_error too_large"
  by (simp_all add: plain_error_def too_large_def)

lemma parse_finite_number_plain: "parse_finite_number v lo hi = Inl e \<Longrightarrow> plain_error e"
  by (auto simp: plain_error_def dest: parse_finite_number_error)

lemma lonlat_pair_plain: "lonlat_pair c = Inl e \<Longrightarrow> plain_error e"
  by (auto simp: lonlat_pair_def res_bind_def parse_finite_number_plain split: json.splits list.splits sum.splits if_splits)

lemma check_coordinates_plain: "check_coordinates cs = Inl e \<Longrightarrow> plain_error e"
  by (induction cs) (auto simp: res_bind_def lonlat_pair_plain split: sum.splits if_splits)

lemma check_matching_plain: "check_matching v m = Inl e \<Longrightarrow> plain_error e"
  by (auto simp: check_matching_def res_bind_def Let_def parse_finite_number_plain check_coordinates_plain
      split: json.splits sum.splits if_splits)

lemma check_matchings_plain: "check_matchings v ms = Inl e \<Longrightarrow> plain_error e"
  by (induction ms arbitrary: v) (auto simp: res_bind_def check_matching_plain split: sum.splits)

lemma check_matching_ok:
  assumes "check_matching v m = Inr v'"
  shows "v' = v + length (line_of m)" "v' \<le> PROVIDER_ROUTE_MAX_VERTICES" "\<forall>c \<in> set (line_of m). in_range_pair c"
    "matching_leg m = Inr (if line_of m = [] then [] else [JArr (line_of m)], number_of ''distance'' m, number_of ''confidence'' m)"
    "0 \<le> number_of ''distance'' m" "0 \<le> number_of ''confidence'' m" "number_of ''confidence'' m \<le> 1"
proof -
  obtain d where m: "m = JObj d" using assms by (auto simp: check_matching_def split: json.splits)
  obtain distance where d: "parse_finite_number (jget_or d ''distance'' (JInt 0)) (Some 0) None = Inr (Some distance)"
    using assms by (auto simp: m check_matching_def res_bind_def split: sum.splits if_splits)
  obtain confidence where c: "parse_finite_number (jget_or d ''confidence'' (JInt 0)) (Some 0) (Some 1) = Inr (Some confidence)"
    using assms by (auto simp: m check_matching_def res_bind_def d split: sum.splits if_splits)
  obtain g where g: "json_or (jget d ''geometry'') (JObj []) = JObj g"
    using assms by (auto simp: m check_matching_def d c split: json.splits)
  obtain cs where cs: "json_or (jget g ''coordinates'') (JArr []) = JArr cs"
    using assms by (auto simp: m check_matching_def d c g split: json.splits)
  have line: "line_of m = cs" by (simp add: line_of_def m g cs)
  have rest: "v' = v + length cs" "v' \<le> PROVIDER_ROUTE_MAX_VERTICES" "\<exists>u. check_coordinates cs = Inr u"
    using assms by (auto simp: m check_matching_def d c g cs res_bind_def Let_def split: sum.splits if_splits)
  show "v' = v + length (line_of m)" "v' \<le> PROVIDER_ROUTE_MAX_VERTICES" using rest line by auto
  show "\<forall>c \<in> set (line_of m). in_range_pair c" using rest(3) check_coordinates_ok line by blast
  note nums = finite_number_parsed [OF d] finite_number_parsed [OF c]
  show "matching_leg m = Inr (if line_of m = [] then [] else [JArr (line_of m)], number_of ''distance'' m, number_of ''confidence'' m)"
    unfolding line using nums by (simp add: matching_leg_def m g cs truthy_def)
  show "0 \<le> number_of ''distance'' m" "0 \<le> number_of ''confidence'' m" "number_of ''confidence'' m \<le> 1"
    using nums parse_finite_number_Some [OF d] parse_finite_number_Some [OF c] m by auto
qed

lemma check_matchings_ok:
  "check_matchings v ms = Inr u \<Longrightarrow> v \<le> PROVIDER_ROUTE_MAX_VERTICES \<Longrightarrow>
     (\<forall>m \<in> set ms. \<exists>w w'. check_matching w m = Inr w') \<and> v + sum_list (map (\<lambda>m. length (line_of m)) ms) \<le> PROVIDER_ROUTE_MAX_VERTICES"
proof (induction ms arbitrary: v)
  case (Cons m ms)
  then obtain w where w: "check_matching v m = Inr w" "check_matchings w ms = Inr u"
    by (auto simp: res_bind_def split: sum.splits)
  note cm = check_matching_ok [OF w(1)]
  show ?case using Cons.IH [OF w(2) cm(2)] w(1) cm(1) by auto
qed simp

lemma sum_matchings_ok:
  "\<forall>m \<in> set ms. \<exists>w w'. check_matching w m = Inr w' \<Longrightarrow>
     sum_matchings ms (lines, total_d, worst) = Inr (lines @ map JArr (filter (\<lambda>l. l \<noteq> []) (map line_of ms)),
       total_d + sum_list (map (number_of ''distance'') ms), foldl min worst (map (number_of ''confidence'') ms))"
proof (induction ms arbitrary: lines total_d worst)
  case (Cons m ms)
  then obtain w w' where "check_matching w m = Inr w'" by auto
  note leg = check_matching_ok(4) [OF this]
  show ?case using Cons by (simp add: leg add.assoc)
qed simp

definition summed :: "json list \<Rightarrow> json list \<times> real \<times> real" where
  "summed ms = (map JArr (filter (\<lambda>l. l \<noteq> []) (map line_of ms)), sum_list (map (number_of ''distance'') ms),
     foldl min 1 (map (number_of ''confidence'') ms))"

lemma foldl_min_bound: "minc \<le> foldl min (w :: real) cs \<longleftrightarrow> minc \<le> w \<and> (\<forall>c \<in> set cs. minc \<le> c)"
  by (induction cs arbitrary: w) auto

lemma sum_list_filter_ne: "sum_list (map length (filter (\<lambda>l. l \<noteq> []) xs)) = sum_list (map length xs)"
  by (induction xs) auto

text \<open>What the three gates make of matchings that passed the validation.\<close>

lemma gate_match_sound:
  fixes min_confidence :: real and n :: nat and raw :: "real option" and tps :: "json list"
  assumes "(\<forall>m \<in> set ms. \<exists>w w'. check_matching w m = Inr w') \<and> sum_list (map (\<lambda>m. length (line_of m)) ms) \<le> PROVIDER_ROUTE_MAX_VERTICES"
  defines "lines \<equiv> filter (\<lambda>l. l \<noteq> []) (map line_of ms)" and "metres \<equiv> sum_list (map (number_of ''distance'') ms)"
    and "covered \<equiv> \<lambda>raw. (case raw of None \<Rightarrow> True | Some x \<Rightarrow> x \<le> 0 \<or> 85 / 100 * x \<le> sum_list (map (number_of ''distance'') ms))"
  defines "r \<equiv> gate_match min_confidence n raw tps (summed ms)"
  shows "mr_path r = (if lines = [] then None else Some (multi_line (map JArr lines)))"
    "sum_list (map length lines) \<le> 100000" "\<forall>l \<in> set lines. \<forall>c \<in> set l. in_range_pair c"
    "mr_distance_m r = (if covered raw then Some metres else None)" "0 \<le> metres"
    "mr_status r = ''ok'' \<longleftrightarrow> covered raw \<and> min_confidence \<le> 1
       \<and> (\<forall>m \<in> set ms. min_confidence \<le> number_of ''confidence'' m)
       \<and> 0 < n \<and> 8 / 10 * of_nat n \<le> real (length (filter (\<lambda>tp. tp \<noteq> JNull) tps))"
    "mr_status r \<in> {''ok'', ''low_confidence''}"
proof -
  let ?worst = "foldl min 1 (map (number_of ''confidence'') ms)"
  have r: "r = gate_match min_confidence n raw tps (map JArr lines, metres, ?worst)"
    by (simp add: r_def summed_def lines_def metres_def)
  show small: "sum_list (map length lines) \<le> 100000"
    using assms(1) by (simp add: lines_def sum_list_filter_ne comp_def PROVIDER_ROUTE_MAX_VERTICES_def)
  show "\<forall>l \<in> set lines. \<forall>c \<in> set l. in_range_pair c"
    using assms(1) check_matching_ok(3) by (fastforce simp: lines_def)
  show "0 \<le> metres" unfolding metres_def
    using assms(1) check_matching_ok(5) by (intro sum_list_nonneg) fastforce
  have cov: "(case raw of None \<Rightarrow> (1::real) | Some x \<Rightarrow> if 0 < x then metres / x else 1) \<ge> MIN_COVERAGE \<longleftrightarrow> covered raw"
    by (auto simp: covered_def metres_def MIN_COVERAGE_def pos_le_divide_eq not_less split: option.splits)
  have frac: "(if n \<noteq> 0 then real k / real n else 0) < 8 / 10 \<longleftrightarrow> \<not> (0 < n \<and> 8 / 10 * real n \<le> real k)" for k
    by (auto simp: pos_divide_less_eq not_le)
  have conf: "?worst < min_confidence \<longleftrightarrow> \<not> (min_confidence \<le> 1 \<and> (\<forall>m \<in> set ms. min_confidence \<le> number_of ''confidence'' m))"
    by (subst not_le [symmetric], subst foldl_min_bound) auto
  show "mr_path r = (if lines = [] then None else Some (multi_line (map JArr lines)))"
    by (simp add: r gate_match_def Let_def)
  show "mr_distance_m r = (if covered raw then Some metres else None)"
    by (simp add: r gate_match_def Let_def cov)
  show "mr_status r = ''ok'' \<longleftrightarrow> covered raw \<and> min_confidence \<le> 1
       \<and> (\<forall>m \<in> set ms. min_confidence \<le> number_of ''confidence'' m)
       \<and> 0 < n \<and> 8 / 10 * of_nat n \<le> real (length (filter (\<lambda>tp. tp \<noteq> JNull) tps))"
    by (simp only: r gate_match_def Let_def prod.case cov frac conf) auto
  show "mr_status r \<in> {''ok'', ''low_confidence''}"
    by (simp add: r gate_match_def Let_def)
qed

text \<open>
  C37. An answer of OSRM either fails with a plain error (never on a member of the wrong type) or
  gives a sound result. The result is failed, with neither path nor distance, exactly when the code
  is not Ok or there is no matching. Otherwise the path holds exactly the non-empty lines of the
  matchings in order, at most 100000 vertices, each a pair of numbers in range; the distance is the
  sum over the matchings and is given exactly when the raw distance is unknown, not positive, or
  covered to at least 85 percent; and the status is ok exactly when it is given, every confidence
  reaches the minimum and at least 80 percent of the inputs have a tracepoint.
\<close>

theorem match_result_sound:
  "case parse_and_serialize_match body min_confidence n raw of
     Inl e \<Rightarrow> plain_error e
   | Inr r \<Rightarrow> \<exists>ms tps. json_or (jget body ''matchings'') (JArr []) = JArr ms
       \<and> json_or (jget body ''tracepoints'') (JArr []) = JArr tps
       \<and> (if jget body ''code'' \<noteq> jstr ''Ok'' \<or> ms = []
          then mr_status r = ''failed'' \<and> mr_path r = None \<and> mr_distance_m r = None
          else (let lines = filter (\<lambda>l. l \<noteq> []) (map line_of ms);
                    metres = sum_list (map (number_of ''distance'') ms);
                    covered = (case raw of None \<Rightarrow> True | Some x \<Rightarrow> x \<le> 0 \<or> 85 / 100 * x \<le> metres)
            in mr_path r = (if lines = [] then None else Some (multi_line (map JArr lines)))
              \<and> sum_list (map length lines) \<le> 100000 \<and> (\<forall>l \<in> set lines. \<forall>c \<in> set l. in_range_pair c)
              \<and> mr_distance_m r = (if covered then Some metres else None) \<and> 0 \<le> metres
              \<and> (mr_status r = ''ok'' \<longleftrightarrow> covered \<and> min_confidence \<le> 1
                   \<and> (\<forall>m \<in> set ms. min_confidence \<le> number_of ''confidence'' m)
                   \<and> 0 < n \<and> 8 / 10 * of_nat n \<le> real (length (filter (\<lambda>tp. tp \<noteq> JNull) tps)))
              \<and> mr_status r \<in> {''ok'', ''low_confidence''}))"
proof -
  have "parse_and_serialize_match body min_confidence n raw = Inl (ValueError ''malformed OSRM match response'')
    \<or> (\<exists>ms tps. json_or (jget body ''matchings'') (JArr []) = JArr ms \<and> json_or (jget body ''tracepoints'') (JArr []) = JArr tps)"
    by (auto simp: parse_and_serialize_match_def split: json.split)
  then consider (bad) "parse_and_serialize_match body min_confidence n raw = Inl (ValueError ''malformed OSRM match response'')"
    | (lists) ms tps where "json_or (jget body ''matchings'') (JArr []) = JArr ms" "json_or (jget body ''tracepoints'') (JArr []) = JArr tps"
    by blast
  then show ?thesis
  proof cases
    case bad
    then show ?thesis by simp
  next
    case lists
    have p: "parse_and_serialize_match body min_confidence n raw
      = res_bind (check_matchings 0 ms) (\<lambda>_. parse_match_response body min_confidence n raw)"
      by (simp add: parse_and_serialize_match_def lists)
    show ?thesis
    proof (cases "check_matchings 0 ms")
      case (Inl e)
      then show ?thesis by (simp add: p check_matchings_plain)
    next
      case (Inr u)
      note ok = check_matchings_ok [OF Inr le0, unfolded add_0]
      show ?thesis
      proof (cases "jget body ''code'' \<noteq> jstr ''Ok'' \<or> ms = []")
        case True
        then show ?thesis using lists by (simp add: p Inr parse_match_response_def elements_def Let_def)
      next
        case False
        have sm: "sum_matchings ms ([], 0, 1) = Inr (summed ms)"
          using sum_matchings_ok [of ms "[]" 0 1] ok by (simp add: summed_def)
        have r: "parse_and_serialize_match body min_confidence n raw = Inr (gate_match min_confidence n raw tps (summed ms))"
          using False lists sm by (simp add: p Inr parse_match_response_def elements_def Let_def)
        show ?thesis
          unfolding r sum.case
          by (rule exI [of _ ms], rule exI [of _ tps])
            (use gate_match_sound(1,4,6,7) [OF ok, of min_confidence n raw tps] gate_match_sound(2,3,5) [OF ok] lists False in \<open>simp add: Let_def\<close>)
      qed
    qed
  qed
qed

text \<open>A reply that matches two fixes.\<close>

definition sample_body :: "(ustr \<times> json) list" where
  "sample_body = [(ustr ''code'', jstr ''Ok''),
     (ustr ''matchings'', JArr [JObj [(ustr ''distance'', JInt 120), (ustr ''confidence'', JFloat (Fin (9 / 10))),
        (ustr ''geometry'', JObj [(ustr ''coordinates'', JArr [JArr [JInt 8, JInt 50], JArr [JInt 9, JInt 51]])])]]),
     (ustr ''tracepoints'', JArr [JBool True, JBool True])]"

lemmas json_reading = jget_def jget_or_def dget_def json_or_def truthy_def parse_finite_number_def is_number_def
  to_float_def finite_number_def float_limit_def elements_def

lemma sample_parsed:
  "\<exists>r. parse_and_serialize_match sample_body (1 / 2) 2 (Some 100) = Inr r \<and> mr_status r = ''ok'' \<and> mr_distance_m r = Some 120"
  by (simp add: parse_and_serialize_match_def parse_match_response_def sample_body_def check_matching_def lonlat_pair_def
      matching_leg_def gate_match_def PROVIDER_ROUTE_MAX_VERTICES_def MIN_COVERAGE_def Let_def json_reading)

theorem match_result_sound_witness:
  "\<exists>r. parse_and_serialize_match sample_body (1 / 2) 2 (Some 100) = Inr r \<and> mr_status r = ''ok''
     \<and> (\<exists>ms. json_or (jget sample_body ''matchings'') (JArr []) = JArr ms \<and> length ms = 1
          \<and> mr_path r = Some (multi_line (map JArr (map line_of ms))))"
  using match_result_sound [where body = sample_body and min_confidence = "1 / 2" and n = 2 and raw = "Some 100"] sample_parsed
  by (auto simp: sample_body_def json_reading line_of_def Let_def)

section \<open>A routed line\<close>

lemma route_pair_Some:
  "route_pair c = Inr (Some (lon, lat)) \<Longrightarrow> - 180 \<le> lon \<and> lon \<le> 180 \<and> - 90 \<le> lat \<and> lat \<le> 90
     \<and> (\<exists>x y. c = JArr [x, y] \<and> num_value x = Fin lon \<and> num_value y = Fin lat)"
proof -
  assume p: "route_pair c = Inr (Some (lon, lat))"
  then obtain x y where c: "c = JArr [x, y]" by (auto simp: route_pair_def split: json.splits list.splits)
  with p have "parse_finite_number x (Some (- 180)) (Some 180) = Inr (Some lon)"
    "parse_finite_number y (Some (- 90)) (Some 90) = Inr (Some lat)"
    by (auto simp: route_pair_def res_bind_def split: sum.splits if_splits option.splits)
  then show ?thesis using c by (auto dest!: parse_finite_number_Some)
qed

lemma route_coordinates_Some:
  "route_coordinates cs = Inr (Some ps) \<Longrightarrow> list_all2 (\<lambda>c p. route_pair c = Inr (Some p)) cs ps"
  by (induction cs arbitrary: ps) (auto simp: res_bind_def split: sum.splits option.splits)

text \<open>
  A line that is returned has a positive distance and at least two vertices in range, the ones of
  the response: nothing else of the body reaches the result.
\<close>

lemma route_line_valid:
  assumes "parse_route_line body = Inr (Some r)"
  shows "0 < rl_distance_m r" "2 \<le> length (rl_coordinates r)" "length (rl_coordinates r) \<le> PROVIDER_ROUTE_MAX_VERTICES"
    "\<forall>(lon, lat) \<in> set (rl_coordinates r). - 180 \<le> lon \<and> lon \<le> 180 \<and> - 90 \<le> lat \<and> lat \<le> 90"
proof -
  obtain metres coordinates ps lo where r: "parse_finite_number lo (Some 0) None = Inr (Some metres)" "metres \<noteq> 0"
    "2 \<le> length coordinates" "length coordinates \<le> PROVIDER_ROUTE_MAX_VERTICES" "route_coordinates coordinates = Inr (Some ps)"
    "r = \<lparr>rl_distance_m = metres, rl_coordinates = ps\<rparr>"
    using assms by (auto simp: parse_route_line_def Let_def res_bind_def not_less
      split: if_splits sum.splits option.splits json.splits)
  note ps = route_coordinates_Some [OF r(5)]
  show "0 < rl_distance_m r" using r(2,6) parse_finite_number_Some [OF r(1)] by auto
  show "2 \<le> length (rl_coordinates r)" "length (rl_coordinates r) \<le> PROVIDER_ROUTE_MAX_VERTICES"
    using list_all2_lengthD [OF ps] r by auto
  show "\<forall>(lon, lat) \<in> set (rl_coordinates r). - 180 \<le> lon \<and> lon \<le> 180 \<and> - 90 \<le> lat \<and> lat \<le> 90"
    using ps r(6) route_pair_Some by (fastforce simp: list_all2_conv_all_nth in_set_conv_nth)
qed

text \<open>A body whose routes are an object raises, where the documentation promises no route.\<close>

lemma route_line_raises:
  "parse_route_line [(ustr ''code'', jstr ''Ok''), (ustr ''routes'', JObj [(ustr ''distance'', JInt 5)])] = Inl KeyError"
  by code_simp

end
