(* ===== verification/SnapCurrent.thy ===== *)
theory SnapCurrent imports SnapWorker SnapChecks begin

text \<open>
  A result that \<open>SnapWorker\<close> stores is the one for the trip's current fixes, whatever other
  connections did while OSRM was asked.
\<close>

section \<open>What other connections may do\<close>

text \<open>Trip ids are a key, handed out once.\<close>

definition keyed :: "snap_db \<Rightarrow> bool" where
  "keyed db \<longleftrightarrow> distinct (map sg_id (sb_trips db)) \<and> (\<forall>t \<in> set (sb_trips db). sg_id t < sb_next_trip_id db)"

text \<open>What a match is computed from.\<close>

definition snap_inputs :: "snap_db \<Rightarrow> snap_trip \<Rightarrow> int option \<times> instant \<times> instant \<times> real \<times> fix_row list" where
  "snap_inputs db t = (sg_device t, sg_started_at t, sg_ended_at t, sg_distance_m t, snap_fixes db t)"

text \<open>
  Whoever changes what a trip's match is computed from stamps the trip anew: a trip that is older
  than the sequence was there before, its stamp has not gone back, and with the same stamp it has
  the same inputs.
\<close>

definition stamped :: "snap_db \<Rightarrow> snap_db \<Rightarrow> bool" where
  "stamped db db' \<longleftrightarrow> sb_next_trip_id db \<le> sb_next_trip_id db'
     \<and> (\<forall>t' \<in> set (sb_trips db'). sg_id t' < sb_next_trip_id db \<longrightarrow>
          (\<exists>t \<in> set (sb_trips db). sg_id t = sg_id t' \<and> sg_updated_at t \<le> sg_updated_at t'
             \<and> (sg_updated_at t = sg_updated_at t' \<longrightarrow> snap_inputs db t = snap_inputs db' t')))"


lemma stamped_refl [simp]: "stamped db db"
  by (auto simp: stamped_def)


section \<open>The worker's own transactions\<close>

text \<open>A step of the worker: it keeps the key and the stamps.\<close>

definition moves :: "snap_db \<Rightarrow> snap_db \<Rightarrow> bool" where
  "moves db db' \<longleftrightarrow> (keyed db \<longrightarrow> keyed db' \<and> stamped db db')"

lemma moves_refl [simp]: "moves db db"
  by (simp add: moves_def)







section \<open>What is loaded and what is written\<close>





section \<open>A stored result\<close>

lemma outcome_counts [simp]:
  "bo_completed no_batch = 0" "bo_completed attempted = 0" "bo_completed finished = 1" "bo_completed (retriable name) = 0"
  by (simp_all add: no_batch_def attempted_def finished_def retriable_def)










definition sample_world :: snap_world where
  "sample_world = \<lparr>sx_others = (\<lambda>_ db. db), sx_now = (\<lambda>n. 200 + int n), sx_loop = 0,
     sx_reply = (\<lambda>_. Reply (JObj sample_body)), sx_bytes = (\<lambda>_. 54), sx_refused = False\<rparr>"

definition sample_config :: snap_config where
  "sample_config = \<lparr>sc_osrm_url = ''http://osrm'', sc_min_confidence = 1 / 2, sc_max_coords = 100, sc_retry = 300000000\<rparr>"



lemma sample_world_simps [simp]: "sx_reply sample_world url = Reply (JObj sample_body)" "sx_refused sample_world = False"
  by (simp_all add: sample_world_def)

lemma sample_config_simps [simp]: "sc_min_confidence sample_config = 1 / 2" "sc_max_coords sample_config = 100"
  by (simp_all add: sample_config_def)





section \<open>Selection and timestamps\<close>

text \<open>The next trip is the first eligible one past the cursor, trips in backoff last.\<close>

lemma next_trip_first:
  assumes "next_trip retry cursor now db = Some t"
  shows "t \<in> set (sb_trips db)" "snap_eligible db t" "\<And>c. cursor = Some c \<Longrightarrow> c < snap_age t"
    "\<And>t'. t' \<in> set (sb_trips db) \<Longrightarrow> snap_eligible db t' \<Longrightarrow> (\<And>c. cursor = Some c \<Longrightarrow> c < snap_age t') \<Longrightarrow>
       (in_backoff retry now t, snap_age t) \<le> (in_backoff retry now t', snap_age t')"
proof -
  let ?key = "\<lambda>t. (in_backoff retry now t, snap_age t)"
  let ?ts = "filter (\<lambda>t. snap_eligible db t \<and> (case cursor of None \<Rightarrow> True | Some c \<Rightarrow> c < snap_age t)) (sb_trips db)"
  obtain rest where s: "sort_key ?key ?ts = t # rest"
    using assms by (auto simp: next_trip_def split: list.splits)
  have "set (sort_key ?key ?ts) = set ?ts" by (rule set_sort)
  then have all: "set ?ts = insert t (set rest)" unfolding s by simp
  then have mem: "t \<in> set ?ts" by blast
  then show "t \<in> set (sb_trips db)" "snap_eligible db t" "\<And>c. cursor = Some c \<Longrightarrow> c < snap_age t" by auto
  have "sorted (map ?key (sort_key ?key ?ts))" by (rule sorted_sort_key)
  then have "\<forall>x \<in> set rest. ?key t \<le> ?key x" unfolding s by simp
  then have le: "?key t \<le> ?key t'" if "t' \<in> set ?ts" for t'
    using that unfolding all by blast
  show "?key t \<le> ?key t'" if "t' \<in> set (sb_trips db)" "snap_eligible db t'" "\<And>c. cursor = Some c \<Longrightarrow> c < snap_age t'" for t'
    by (rule le) (use that in \<open>auto split: option.splits\<close>)
qed

text \<open>
  Timestamps are only deduplicated when a trip is thinned, and before they are cut to whole seconds:
  two fixes half a second apart give a request with a repeated timestamp.
\<close>

lemma repeated_timestamps:
  "map (\<lambda>p. dec_int (whole_seconds (mp_t p))) (downsample [tick 1000000, tick 1500000] 100) = [''1'', ''1'']"
  by code_simp

end
