(* ===== verification/Pacer.thy ===== *)
theory Pacer imports Prelude begin

text \<open>
  \<open>ProviderPacer\<close> of \<open>app/provider_pacing.py\<close>: first come, first served pacing of provider requests.
  A ticket is the number of its arrival. The coroutines inside \<open>wait_ready\<close> are the waiters, each
  about to look at the queue or asleep, with a timer or without; a ticket it has returned is held
  until it is started or closed. \<open>_changed.set()\<close> wakes every sleeper.
\<close>

section \<open>Operations\<close>

record pacer =
  pc_interval :: real
  pc_next_start :: real
  pc_tickets :: "nat list"
  pc_closed :: "nat set"

definition new_pacer :: "real \<Rightarrow> pacer" where
  "new_pacer interval = \<lparr>pc_interval = max 0 interval, pc_next_start = 0, pc_tickets = [], pc_closed = {}\<rparr>"

datatype phase = Looking | Asleep "real option"

type_synonym waiters = "(nat \<times> phase) list"

definition wake_all :: "waiters \<Rightarrow> waiters" where
  "wake_all ws = map (\<lambda>(t, ph). (t, Looking)) ws"

text \<open>\<open>PacingTicket.close\<close>.\<close>

definition close_ticket :: "nat \<Rightarrow> pacer \<Rightarrow> pacer" where
  "close_ticket t p =
     (if t \<in> pc_closed p then p else p\<lparr>pc_closed := insert t (pc_closed p), pc_tickets := remove1 t (pc_tickets p)\<rparr>)"

definition open_ticket :: "nat \<Rightarrow> pacer \<Rightarrow> pacer" where
  "open_ticket t p = p\<lparr>pc_tickets := pc_tickets p @ [t]\<rparr>"

text \<open>One pass of the loop: \<open>None\<close> returns the ticket, otherwise the waiter goes to sleep.\<close>

definition look_at_queue :: "real \<Rightarrow> nat \<Rightarrow> pacer \<Rightarrow> phase option result" where
  "look_at_queue now t p =
     (let remaining = pc_next_start p - now
      in case pc_tickets p of
           [] \<Rightarrow> Inl IndexError
         | first # _ \<Rightarrow>
             if first = t \<and> remaining \<le> 0 then Inr None
             else Inr (Some (Asleep (if first = t then Some (now + remaining) else None))))"

definition try_start :: "real \<Rightarrow> nat \<Rightarrow> pacer \<Rightarrow> (bool \<times> pacer) result" where
  "try_start now t p =
     (if t \<in> pc_closed p then Inr (False, p)
      else case pc_tickets p of
             [] \<Rightarrow> Inl IndexError
           | first # _ \<Rightarrow>
               if first \<noteq> t \<or> now < pc_next_start p then Inr (False, p)
               else Inr (True, close_ticket t (p\<lparr>pc_next_start := now + pc_interval p\<rparr>)))"

text \<open>The body of \<open>request\<close> after \<open>wait_ready\<close> has returned.\<close>

definition request_start :: "real \<Rightarrow> nat \<Rightarrow> pacer \<Rightarrow> pacer result" where
  "request_start now t p = res_bind (try_start now t p) (\<lambda>(started, p1).
     if started then Inr p1 else Inl (RuntimeError ''ready provider ticket lost its FIFO position''))"

section \<open>Runs\<close>

record pacing =
  pg_pacer :: pacer
  pg_clock :: real
  pg_arrivals :: nat
  pg_waiters :: waiters
  pg_held :: "nat set"
  pg_starts :: "(nat \<times> real) list"

definition start_pacing :: "real \<Rightarrow> real \<Rightarrow> pacing" where
  "start_pacing interval clock =
     \<lparr>pg_pacer = new_pacer interval, pg_clock = clock, pg_arrivals = 0, pg_waiters = [], pg_held = {}, pg_starts = []\<rparr>"

definition without :: "nat \<Rightarrow> waiters \<Rightarrow> waiters" where
  "without t ws = filter (\<lambda>w. fst w \<noteq> t) ws"

text \<open>
  A caller arrives, or comes back with a held ticket that is still open; a waiter looks, is woken
  by its timer or is cancelled; a held ticket is started or closed.
\<close>

inductive pace :: "pacing \<Rightarrow> pacing \<Rightarrow> bool" where
  arrives: "pg_clock g \<le> now \<Longrightarrow>
    pace g (g\<lparr>pg_clock := now, pg_pacer := open_ticket (pg_arrivals g) (pg_pacer g), pg_arrivals := Suc (pg_arrivals g),
      pg_waiters := wake_all (pg_waiters g) @ [(pg_arrivals g, Looking)]\<rparr>)"
| returns_to: "t \<in> pg_held g \<Longrightarrow> pg_clock g \<le> now \<Longrightarrow>
    pace g (g\<lparr>pg_clock := now, pg_held := pg_held g - {t}, pg_waiters := pg_waiters g @ [(t, Looking)]\<rparr>)"
| looks: "(t, Looking) \<in> set (pg_waiters g) \<Longrightarrow> pg_clock g \<le> now \<Longrightarrow> look_at_queue now t (pg_pacer g) = Inr (Some ph) \<Longrightarrow>
    pace g (g\<lparr>pg_clock := now, pg_waiters := without t (pg_waiters g) @ [(t, ph)]\<rparr>)"
| ready: "(t, Looking) \<in> set (pg_waiters g) \<Longrightarrow> pg_clock g \<le> now \<Longrightarrow> look_at_queue now t (pg_pacer g) = Inr None \<Longrightarrow>
    pace g (g\<lparr>pg_clock := now, pg_waiters := without t (pg_waiters g), pg_held := insert t (pg_held g)\<rparr>)"
| timer: "(t, Asleep (Some d)) \<in> set (pg_waiters g) \<Longrightarrow> pg_clock g \<le> now \<Longrightarrow> d \<le> now \<Longrightarrow>
    pace g (g\<lparr>pg_clock := now, pg_waiters := without t (pg_waiters g) @ [(t, Looking)]\<rparr>)"
| cancelled: "(t, ph) \<in> set (pg_waiters g) \<Longrightarrow> pg_clock g \<le> now \<Longrightarrow>
    pace g (g\<lparr>pg_clock := now, pg_pacer := close_ticket t (pg_pacer g), pg_waiters := wake_all (without t (pg_waiters g))\<rparr>)"
| starts: "t \<in> pg_held g \<Longrightarrow> pg_clock g \<le> now \<Longrightarrow> try_start now t (pg_pacer g) = Inr (True, p) \<Longrightarrow>
    pace g (g\<lparr>pg_clock := now, pg_pacer := p, pg_held := pg_held g - {t}, pg_waiters := wake_all (pg_waiters g),
      pg_starts := pg_starts g @ [(t, now)]\<rparr>)"
| closes: "t \<in> pg_held g \<Longrightarrow> pg_clock g \<le> now \<Longrightarrow>
    pace g (g\<lparr>pg_clock := now, pg_pacer := close_ticket t (pg_pacer g), pg_held := pg_held g - {t},
      pg_waiters := wake_all (pg_waiters g)\<rparr>)"

inductive paced :: "real \<Rightarrow> pacing \<Rightarrow> bool" for interval where
  opened: "paced interval (start_pacing interval clock)"
| step: "paced interval g \<Longrightarrow> pace g g' \<Longrightarrow> paced interval g'"

section \<open>The invariant\<close>

text \<open>The tickets in arrival order, the waiters and held ones, and the starts so far.\<close>

definition queue_ok :: "nat set \<Rightarrow> nat list \<Rightarrow> nat list \<Rightarrow> nat \<Rightarrow> bool" where
  "queue_ok shut tickets started n \<longleftrightarrow> shut \<inter> set tickets = {} \<and> sorted_wrt (<) (started @ tickets)
     \<and> (\<forall>t \<in> set tickets \<union> shut \<union> set started. t < n)"

definition tickets_ok :: "pacing \<Rightarrow> bool" where
  "tickets_ok g \<longleftrightarrow> queue_ok (pc_closed (pg_pacer g)) (pc_tickets (pg_pacer g)) (map fst (pg_starts g)) (pg_arrivals g)"

definition callers_ok :: "pacing \<Rightarrow> bool" where
  "callers_ok g \<longleftrightarrow> distinct (map fst (pg_waiters g)) \<and> fst ` set (pg_waiters g) \<inter> pg_held g = {}
     \<and> fst ` set (pg_waiters g) \<union> pg_held g = set (pc_tickets (pg_pacer g))"

definition first_ok :: "pacing \<Rightarrow> bool" where
  "first_ok g \<longleftrightarrow> (\<forall>t \<in> pg_held g. t = hd (pc_tickets (pg_pacer g)) \<and> pc_next_start (pg_pacer g) \<le> pg_clock g)
     \<and> (\<forall>(t, ph) \<in> set (pg_waiters g). ph \<in> {Looking, Asleep (if t = hd (pc_tickets (pg_pacer g)) then Some (pc_next_start (pg_pacer g)) else None)})"

definition starts_ok :: "real \<Rightarrow> pacing \<Rightarrow> bool" where
  "starts_ok interval g \<longleftrightarrow> pc_interval (pg_pacer g) = max 0 interval
     \<and> sorted_wrt (\<lambda>a b. snd a + max 0 interval \<le> snd b) (pg_starts g)
     \<and> (\<forall>a \<in> set (pg_starts g). snd a + max 0 interval \<le> pc_next_start (pg_pacer g))"

definition pace_inv :: "real \<Rightarrow> pacing \<Rightarrow> bool" where
  "pace_inv interval g \<longleftrightarrow> tickets_ok g \<and> callers_ok g \<and> first_ok g \<and> starts_ok interval g"

lemma map_fst_wake_all [simp]: "map fst (wake_all ws) = map fst ws"
  by (auto simp: wake_all_def)

lemma fst_wake_all [simp]: "fst ` set (wake_all ws) = fst ` set ws"
  by (metis list.set_map map_fst_wake_all)

lemma set_wake_all: "set (wake_all ws) = (\<lambda>t. (t, Looking)) ` fst ` set ws"
  by (force simp: wake_all_def)

lemma without_simps [simp]:
  "fst ` set (without t ws) = fst ` set ws - {t}" "distinct (map fst ws) \<Longrightarrow> distinct (map fst (without t ws))"
  "set (without t ws) = {w \<in> set ws. fst w \<noteq> t}"
  by (auto simp: without_def distinct_map_filter)

lemma pace_inv_start: "pace_inv interval (start_pacing interval clock)"
  by (simp add: pace_inv_def tickets_ok_def queue_ok_def callers_ok_def first_ok_def starts_ok_def start_pacing_def new_pacer_def)

lemma waiter_open: "(t, ph) \<in> set ws \<Longrightarrow> fst ` set ws \<union> held = set ts \<Longrightarrow> t \<in> set ts"
  by force

lemma sorted_remove1:
  assumes "sorted_wrt (<) (xs @ ts)"
  shows "sorted_wrt (<) (xs @ remove1 (t :: nat) ts)"
proof -
  have "sorted_wrt (<) ts \<Longrightarrow> sorted_wrt (<) (remove1 t ts)"
    by (induction ts) (auto dest: notin_set_remove1)
  then show ?thesis using assms by (auto simp: sorted_wrt_append dest: notin_set_remove1)
qed

lemma look_at_queue_cases:
  "look_at_queue now t p = Inr None \<Longrightarrow> pc_tickets p \<noteq> [] \<and> hd (pc_tickets p) = t \<and> pc_next_start p \<le> now"
  "look_at_queue now t p = Inr (Some ph) \<Longrightarrow> pc_tickets p \<noteq> []
     \<and> ph = Asleep (if hd (pc_tickets p) = t then Some (pc_next_start p) else None)"
  by (auto simp: look_at_queue_def Let_def split: list.splits if_splits)

lemma close_open_ticket:
  "t \<notin> pc_closed p \<Longrightarrow> close_ticket t p = p\<lparr>pc_closed := insert t (pc_closed p), pc_tickets := remove1 t (pc_tickets p)\<rparr>"
  by (simp add: close_ticket_def)

lemma try_start_True:
  assumes "try_start now t p = Inr (True, p')"
  obtains rest where "pc_tickets p = t # rest" "t \<notin> pc_closed p" "pc_next_start p \<le> now"
    "p' = p\<lparr>pc_next_start := now + pc_interval p, pc_closed := insert t (pc_closed p), pc_tickets := rest\<rparr>"
  using assms by (auto simp: try_start_def close_open_ticket not_less split: if_splits list.splits)

lemma hd_remove1_other: "t \<noteq> hd ts \<Longrightarrow> ts \<noteq> [] \<Longrightarrow> hd (remove1 t ts) = hd ts"
  by (cases ts) auto

lemma queue_ok_steps:
  "queue_ok shut tickets started n \<Longrightarrow> queue_ok shut (tickets @ [n]) started (Suc n)"
  "queue_ok shut tickets started n \<Longrightarrow> t \<in> set tickets \<Longrightarrow> queue_ok (insert t shut) (remove1 t tickets) started n"
  "queue_ok shut (t # rest) started n \<Longrightarrow> queue_ok (insert t shut) rest (started @ [t]) n"
  "queue_ok shut tickets started n \<Longrightarrow> distinct tickets"
  "queue_ok shut tickets started n \<Longrightarrow> n \<notin> set tickets"
proof -
  assume ok: "queue_ok shut tickets started n"
  show "queue_ok shut (tickets @ [n]) started (Suc n)"
    using ok by (auto simp: queue_ok_def sorted_wrt_append less_Suc_eq)
  show d: "distinct tickets" using ok by (simp add: queue_ok_def sorted_wrt_append strict_sorted_iff)
  show "n \<notin> set tickets" using ok by (auto simp: queue_ok_def)
  show "queue_ok (insert t shut) (remove1 t tickets) started n" if "t \<in> set tickets"
    using ok that d sorted_remove1 [of started tickets t] by (auto simp: queue_ok_def)
qed (auto simp: queue_ok_def sorted_wrt_append)

lemma tickets_distinct: "tickets_ok g \<Longrightarrow> distinct (pc_tickets (pg_pacer g))"
  unfolding tickets_ok_def by (rule queue_ok_steps)

text \<open>Closing a ticket that is in the queue.\<close>

lemma close_queued:
  assumes "tickets_ok g" "t \<in> set (pc_tickets (pg_pacer g))"
  shows "close_ticket t (pg_pacer g) = (pg_pacer g)\<lparr>pc_closed := insert t (pc_closed (pg_pacer g)),
      pc_tickets := remove1 t (pc_tickets (pg_pacer g))\<rparr>"
  using assms by (intro close_open_ticket) (auto simp: tickets_ok_def queue_ok_def)

lemma caller_queued:
  "callers_ok g \<Longrightarrow> (t, ph) \<in> set (pg_waiters g) \<Longrightarrow> t \<in> set (pc_tickets (pg_pacer g)) \<and> t \<notin> pg_held g"
  "callers_ok g \<Longrightarrow> t \<in> pg_held g \<Longrightarrow> t \<in> set (pc_tickets (pg_pacer g))"
  by (force simp: callers_ok_def)+

lemma pace_tickets:
  assumes "pace g g'" "tickets_ok g" "callers_ok g"
  shows "tickets_ok g'"
  using assms(1)
proof (cases rule: pace.cases)
  case (arrives now)
  then show ?thesis using queue_ok_steps(1) assms(2) by (simp add: tickets_ok_def open_ticket_def)
next
  case (cancelled t ph now)
  have t: "t \<in> set (pc_tickets (pg_pacer g))" using caller_queued(1) [OF assms(3)] cancelled by blast
  then show ?thesis using cancelled queue_ok_steps(2) assms(2)
    by (simp add: close_queued [OF assms(2) t]) (simp add: tickets_ok_def)
next
  case (starts t now p)
  obtain rest where p: "pc_tickets (pg_pacer g) = t # rest"
    "p = (pg_pacer g)\<lparr>pc_next_start := now + pc_interval (pg_pacer g), pc_closed := insert t (pc_closed (pg_pacer g)), pc_tickets := rest\<rparr>"
    using try_start_True [OF starts(4)] by metis
  then show ?thesis using starts queue_ok_steps(3) assms(2) by (simp add: tickets_ok_def)
next
  case (closes t now)
  have t: "t \<in> set (pc_tickets (pg_pacer g))" using caller_queued(2) [OF assms(3)] closes by blast
  then show ?thesis using closes queue_ok_steps(2) assms(2)
    by (simp add: close_queued [OF assms(2) t]) (simp add: tickets_ok_def)
qed (use assms(2) in \<open>simp_all add: tickets_ok_def\<close>)

lemma pace_callers:
  assumes "pace g g'" "tickets_ok g" "callers_ok g"
  shows "callers_ok g'"
proof -
  note d = tickets_distinct [OF assms(2)]
  have c: "distinct (map fst (pg_waiters g))" "fst ` set (pg_waiters g) \<inter> pg_held g = {}"
    "fst ` set (pg_waiters g) \<union> pg_held g = set (pc_tickets (pg_pacer g))"
    using assms(3) by (simp_all add: callers_ok_def)
  show ?thesis
    using assms(1)
  proof (cases rule: pace.cases)
    case (arrives now)
    have "pg_arrivals g \<notin> set (pc_tickets (pg_pacer g))" using queue_ok_steps(5) assms(2) by (simp add: tickets_ok_def)
    then have n: "pg_arrivals g \<notin> fst ` set (pg_waiters g)" "pg_arrivals g \<notin> pg_held g" using c(3) by blast+
    show ?thesis using arrives c n by (auto simp: callers_ok_def open_ticket_def)
  next
    case (returns_to t now)
    have "t \<notin> fst ` set (pg_waiters g)" using returns_to c(2) by blast
    then show ?thesis using returns_to c by (auto simp: callers_ok_def)
  next
    case (looks t now ph)
    have "t \<in> fst ` set (pg_waiters g)" using looks by force
    then show ?thesis using looks c by (auto simp: callers_ok_def simp del: without_simps(3))
  next
    case (ready t now)
    have "t \<in> fst ` set (pg_waiters g)" using ready by force
    then show ?thesis using ready c by (auto simp: callers_ok_def simp del: without_simps(3))
  next
    case (timer t d now)
    have "t \<in> fst ` set (pg_waiters g)" using timer by force
    then show ?thesis using timer c by (auto simp: callers_ok_def simp del: without_simps(3))
  next
    case (cancelled t ph now)
    have t: "t \<in> set (pc_tickets (pg_pacer g))" "t \<notin> pg_held g" using caller_queued(1) [OF assms(3)] cancelled by blast+
    show ?thesis using cancelled c d t(2)
      by (auto simp: close_queued [OF assms(2) t(1)] callers_ok_def simp del: without_simps(3))
  next
    case (starts t now p)
    obtain rest where p: "pc_tickets (pg_pacer g) = t # rest"
      "p = (pg_pacer g)\<lparr>pc_next_start := now + pc_interval (pg_pacer g), pc_closed := insert t (pc_closed (pg_pacer g)), pc_tickets := rest\<rparr>"
      using try_start_True [OF starts(4)] by metis
    have t: "t \<in> pg_held g" "t \<notin> set rest" using starts d p by simp_all
    have "t \<notin> fst ` set (pg_waiters g)" using c(2) t(1) by blast
    then have "fst ` set (pg_waiters g) \<union> (pg_held g - {t}) = fst ` set (pg_waiters g) \<union> pg_held g - {t}" by blast
    then have "fst ` set (pg_waiters g) \<union> (pg_held g - {t}) = set rest" using t(2) unfolding c(3) p(1) by simp
    moreover have "fst ` set (pg_waiters g) \<inter> (pg_held g - {t}) = {}" using c(2) by blast
    ultimately show ?thesis using starts(1) c(1) by (simp add: callers_ok_def p(2))
  next
    case (closes t now)
    have t: "t \<in> set (pc_tickets (pg_pacer g))" using caller_queued(2) [OF assms(3)] closes by blast
    show ?thesis using closes c d by (auto simp: close_queued [OF assms(2) t] callers_ok_def)
  qed
qed

text \<open>The first ticket stays first until it is closed.\<close>

lemma pace_first:
  assumes "pace g g'" "tickets_ok g" "callers_ok g" "first_ok g"
  shows "first_ok g'"
proof -
  note d = tickets_distinct [OF assms(2)]
  have late: "\<forall>t \<in> pg_held g. t = hd (pc_tickets (pg_pacer g)) \<and> pc_next_start (pg_pacer g) \<le> now" if "pg_clock g \<le> now" for now
    using assms(4) that by (fastforce simp: first_ok_def)
  have h: "\<And>t. t \<in> pg_held g \<Longrightarrow> t = hd (pc_tickets (pg_pacer g)) \<and> pc_next_start (pg_pacer g) \<le> pg_clock g"
    "\<And>t ph. (t, ph) \<in> set (pg_waiters g) \<Longrightarrow>
       ph \<in> {Looking, Asleep (if t = hd (pc_tickets (pg_pacer g)) then Some (pc_next_start (pg_pacer g)) else None)}"
    using assms(4) by (auto simp: first_ok_def)
  show ?thesis
    using assms(1)
  proof (cases rule: pace.cases)
    case (arrives now)
    have "hd (pc_tickets (pg_pacer g) @ [pg_arrivals g]) = hd (pc_tickets (pg_pacer g))" if "t \<in> pg_held g" for t
      using caller_queued(2) [OF assms(3) that] by (cases "pc_tickets (pg_pacer g)") auto
    then show ?thesis using arrives h(1) by (fastforce simp: first_ok_def open_ticket_def set_wake_all)
  next
    case (returns_to t now)
    then have "pg_held g - {t} = {}" using h(1) by blast
    then show ?thesis using returns_to assms(4) by (auto simp: first_ok_def)
  next
    case (looks t now ph)
    note q = look_at_queue_cases(2) [OF looks(4)]
    show ?thesis using looks late [OF looks(3)] assms(4) q by (auto simp: first_ok_def)
  next
    case (ready t now)
    note q = look_at_queue_cases(1) [OF ready(4)]
    show ?thesis using ready late [OF ready(3)] assms(4) q by (auto simp: first_ok_def)
  next
    case (timer t d now)
    then show ?thesis using late [OF timer(3)] assms(4) by (auto simp: first_ok_def)
  next
    case (cancelled t ph now)
    have t: "t \<in> set (pc_tickets (pg_pacer g))" "t \<notin> pg_held g" using caller_queued(1) [OF assms(3)] cancelled by blast+
    have "hd (remove1 t (pc_tickets (pg_pacer g))) = hd (pc_tickets (pg_pacer g))" if "s \<in> pg_held g" for s
      using h(1) [OF that] t that by (intro hd_remove1_other) auto
    then show ?thesis using cancelled h(1) by (fastforce simp: close_queued [OF assms(2) t(1)] first_ok_def set_wake_all)
  next
    case (starts t now p)
    then have "pg_held g - {t} = {}" using h(1) by blast
    then show ?thesis using starts by (auto simp: first_ok_def set_wake_all)
  next
    case (closes t now)
    then have "pg_held g - {t} = {}" using h(1) by blast
    then show ?thesis using closes by (auto simp: first_ok_def set_wake_all)
  qed
qed

lemma pace_starts:
  assumes "pace g g'" "starts_ok interval g"
  shows "starts_ok interval g'"
  using assms(1)
proof (cases rule: pace.cases)
  case (starts t now p)
  show ?thesis using starts(4)
    by (rule try_start_True) (use starts assms(2) in \<open>fastforce simp: starts_ok_def sorted_wrt_append\<close>)
qed (use assms(2) in \<open>auto simp: starts_ok_def open_ticket_def close_ticket_def\<close>)

lemma paced_inv: "paced interval g \<Longrightarrow> pace_inv interval g"
proof (induction rule: paced.induct)
  case (step g g')
  then show ?case using pace_tickets pace_callers pace_first pace_starts unfolding pace_inv_def by blast
qed (rule pace_inv_start)

text \<open>
  C39. Provider requests are paced and first come, first served, whatever callers arrive, come back,
  are cancelled or give up. In every reachable state the requests started so far began in order of
  arrival and at least the interval apart; a ticket that \<open>wait_ready\<close> has returned can be started
  at any later time, so \<open>request\<close> never raises; a waiter's look at the queue never raises; and the
  first ticket in the queue is held, about to look, or asleep with a timer that ends when it may
  start, so the queue cannot stall.
\<close>

theorem pacing_sound:
  assumes "paced interval g"
  shows "sorted_wrt (\<lambda>(a, u) (b, v). a < b \<and> u + max 0 interval \<le> v) (pg_starts g)
    \<and> (\<forall>t \<in> pg_held g. \<forall>now \<ge> pg_clock g. \<exists>p. request_start now t (pg_pacer g) = Inr p)
    \<and> (\<forall>(t, ph) \<in> set (pg_waiters g). \<forall>now. \<exists>r. look_at_queue now t (pg_pacer g) = Inr r)
    \<and> (\<forall>t ts. pc_tickets (pg_pacer g) = t # ts \<longrightarrow> t \<in> pg_held g \<or> (t, Looking) \<in> set (pg_waiters g)
         \<or> (t, Asleep (Some (pc_next_start (pg_pacer g)))) \<in> set (pg_waiters g))"
proof -
  have ok: "tickets_ok g" "callers_ok g" "first_ok g" "starts_ok interval g"
    using paced_inv [OF assms] by (simp_all add: pace_inv_def)
  have "sorted_wrt (<) (map fst (pg_starts g))" using ok(1) by (simp add: tickets_ok_def queue_ok_def sorted_wrt_append)
  moreover have "sorted_wrt (\<lambda>a b. snd a + max 0 interval \<le> snd b) (pg_starts g)" using ok(4) by (simp add: starts_ok_def)
  ultimately have "sorted_wrt (\<lambda>(a, u) (b, v). a < b \<and> u + max 0 interval \<le> v) (pg_starts g)"
    by (auto simp: sorted_wrt_iff_nth_less case_prod_unfold)
  moreover have "\<exists>p. request_start now t (pg_pacer g) = Inr p" if t: "t \<in> pg_held g" and now: "pg_clock g \<le> now" for t now
  proof -
    have q: "t \<in> set (pc_tickets (pg_pacer g))" by (rule caller_queued(2) [OF ok(2) t])
    have "t = hd (pc_tickets (pg_pacer g))" "pc_next_start (pg_pacer g) \<le> now" using ok(3) t now by (auto simp: first_ok_def)
    moreover have "t \<notin> pc_closed (pg_pacer g)" using ok(1) q by (auto simp: tickets_ok_def queue_ok_def)
    ultimately show ?thesis using q by (cases "pc_tickets (pg_pacer g)") (auto simp: request_start_def try_start_def)
  qed
  moreover have "\<exists>r. look_at_queue now t (pg_pacer g) = Inr r" if "(t, ph) \<in> set (pg_waiters g)" for t ph now
    using caller_queued(1) [OF ok(2) that] by (cases "pc_tickets (pg_pacer g)") (auto simp: look_at_queue_def Let_def)
  moreover have "t \<in> pg_held g \<or> (t, Looking) \<in> set (pg_waiters g) \<or> (t, Asleep (Some (pc_next_start (pg_pacer g)))) \<in> set (pg_waiters g)"
    if ts: "pc_tickets (pg_pacer g) = t # ts" for t ts
  proof (cases "t \<in> pg_held g")
    case False
    then have "t \<in> fst ` set (pg_waiters g)" using ok(2) ts by (auto simp: callers_ok_def)
    then obtain ph where "(t, ph) \<in> set (pg_waiters g)" by auto
    then show ?thesis using ok(3) ts by (fastforce simp: first_ok_def)
  qed simp
  ultimately show ?thesis by blast
qed

definition after_start :: pacing where
  "after_start = \<lparr>pg_pacer = \<lparr>pc_interval = 2, pc_next_start = 8, pc_tickets = [1], pc_closed = {0}\<rparr>, pg_clock = 6,
     pg_arrivals = 2, pg_waiters = [(1, Looking)], pg_held = {}, pg_starts = [(0, 6)]\<rparr>"

lemma after_start_reachable: "paced 2 after_start"
proof -
  define p0 where "p0 = \<lparr>pc_interval = (2::real), pc_next_start = 0, pc_tickets = [0], pc_closed = {}\<rparr>"
  define g1 where "g1 = \<lparr>pg_pacer = p0, pg_clock = 5, pg_arrivals = 1, pg_waiters = [(0, Looking)], pg_held = {}, pg_starts = []\<rparr>"
  define g2 where "g2 = g1\<lparr>pg_waiters := [], pg_held := {0}\<rparr>"
  define g3 where "g3 = g2\<lparr>pg_pacer := open_ticket 1 p0, pg_arrivals := 2, pg_waiters := [(1, Looking)]\<rparr>"
  have "pace (start_pacing 2 5) g1"
    using pace.arrives [of "start_pacing 2 5" 5] by (simp add: start_pacing_def new_pacer_def open_ticket_def wake_all_def g1_def p0_def)
  then have g1: "paced 2 g1" using paced.step [OF paced.opened] by blast
  have "pace g1 g2"
    using pace.ready [of 0 g1 5] by (simp add: g1_def g2_def p0_def look_at_queue_def without_def)
  then have g2: "paced 2 g2" by (rule paced.step [OF g1])
  have "pace g2 g3"
    using pace.arrives [of g2 5] by (simp add: g1_def g2_def g3_def wake_all_def numeral_2_eq_2)
  then have g3: "paced 2 g3" by (rule paced.step [OF g2])
  have "pace g3 after_start"
    using pace.starts [of 0 g3 6] by (simp add: g1_def g2_def g3_def p0_def open_ticket_def try_start_def close_ticket_def wake_all_def after_start_def)
  then show ?thesis by (rule paced.step [OF g3])
qed

theorem pacing_sound_witness:
  "pg_starts after_start = [(0, 6)] \<and> ((1, Looking) \<in> set (pg_waiters after_start)
     \<and> (\<forall>now. \<exists>r. look_at_queue now 1 (pg_pacer after_start) = Inr r))"
  using pacing_sound [OF after_start_reachable] by (simp add: after_start_def)

end
