(* ===== verification/StorageLimits.thy ===== *)
theory StorageLimits imports PyData begin

text \<open>
  The arithmetic of \<open>app/storage_limits.py\<close>: the sizes an administrator enters, in GiB with at most
  two places, and the checks before the control functions are called. A \<open>Decimal\<close> is a real: on
  amounts within bigint the 28 digits of the default context leave every product, floor and
  rounding here as it is on reals. The SQL functions and their outcomes are arguments.
\<close>

section \<open>Entered sizes\<close>

definition GIB :: int where "GIB = 2 ^ 30"

definition MIN_CUSTOM_LIMIT_GIB :: real where "MIN_CUSTOM_LIMIT_GIB = 1 / 100"

definition MIN_CUSTOM_LIMIT_BYTES :: int where "MIN_CUSTOM_LIMIT_BYTES = \<lfloor>MIN_CUSTOM_LIMIT_GIB * of_int GIB\<rfloor>"

definition ascii_digit :: "char \<Rightarrow> bool" where
  "ascii_digit c \<longleftrightarrow> 48 \<le> (of_char c :: int) \<and> (of_char c :: int) \<le> 57"

definition digit_value :: "char \<Rightarrow> int" where
  "digit_value c = of_char c - 48"

definition digits_number :: "string \<Rightarrow> int" where
  "digits_number s = foldl (\<lambda>n c. 10 * n + digit_value c) 0 s"

text \<open>\<open>[0-9]{1,9}(\.[0-9]{1,2})?\<close>: the whole digits and the places, none without a point.\<close>

definition split_gib :: "string \<Rightarrow> (string \<times> string) option" where
  "split_gib s =
     (let whole = takeWhile ascii_digit s
      in if whole = [] \<or> length whole > 9 then None
         else case dropWhile ascii_digit s of
             [] \<Rightarrow> Some (whole, [])
           | point # places \<Rightarrow>
               if point = CHR ''.'' \<and> places \<noteq> [] \<and> length places \<le> 2 \<and> list_all ascii_digit places
               then Some (whole, places) else None)"

definition gib_value :: "string \<times> string \<Rightarrow> real" where
  "gib_value d = of_int (digits_number (fst d)) + of_int (digits_number (snd d)) / 10 ^ length (snd d)"

definition parse_custom_gib :: "string \<Rightarrow> int option" where
  "parse_custom_gib s =
     (case split_gib s of
        None \<Rightarrow> None
      | Some d \<Rightarrow> if gib_value d < MIN_CUSTOM_LIMIT_GIB then None else Some \<lfloor>gib_value d * of_int GIB\<rfloor>)"

definition max_custom_gib :: "int \<Rightarrow> real" where
  "max_custom_gib fundable_bytes = of_int (max (((fundable_bytes + 1) * 100 - 1) div GIB) 0) / 100"

definition limit_gib :: "int \<Rightarrow> real" where
  "limit_gib limit_bytes = of_int (round_half_even (of_int limit_bytes / of_int GIB * 100)) / 100"

section \<open>Checks before the call\<close>

datatype limit_error = StorageLimitUnavailable | StorageLimitBusy | StorageLimitUnfunded

text \<open>An administrator's session row, where present: id and authentication version of the right type.\<close>

record admin_user =
  ad_is_admin :: bool
  ad_is_enabled :: bool
  ad_id :: "int option"
  ad_auth_version :: "int option"

definition BIGINT_MAX :: int where "BIGINT_MAX = 2 ^ 63 - 1"

definition in_bigint :: "int option \<Rightarrow> bool" where
  "in_bigint v = (case v of None \<Rightarrow> False | Some i \<Rightarrow> 1 \<le> i \<and> i \<le> BIGINT_MAX)"

definition admin_identity :: "admin_user \<Rightarrow> limit_error + (int \<times> int)" where
  "admin_identity u =
     (if \<not> ad_is_admin u \<or> \<not> ad_is_enabled u \<or> \<not> in_bigint (ad_id u) \<or> \<not> in_bigint (ad_auth_version u)
      then Inl StorageLimitUnavailable
      else case (ad_id u, ad_auth_version u) of (Some i, Some v) \<Rightarrow> Inr (i, v) | _ \<Rightarrow> Inl StorageLimitUnavailable)"

definition LIMIT_MODES :: "string list" where
  "LIMIT_MODES = [''default'', ''custom'', ''unlimited'']"

text \<open>What the control function comes to: an SQL state and whether it is a capacity refusal, or a row.\<close>

datatype grant_reply = SqlError string bool | Outcome string

definition BUSY_SQLSTATES :: "string list" where "BUSY_SQLSTATES = [''55P03'', ''40P01'']"

definition set_account_storage_limit ::
  "(int \<Rightarrow> int \<Rightarrow> int \<Rightarrow> string \<Rightarrow> int option \<Rightarrow> grant_reply) \<Rightarrow> admin_user \<Rightarrow> int \<Rightarrow> string \<Rightarrow> int option \<Rightarrow> limit_error + string"
where
  "set_account_storage_limit set_grant u target mode account_bytes =
     (case admin_identity u of
        Inl e \<Rightarrow> Inl e
      | Inr (actor_id, auth_version) \<Rightarrow>
          if \<not> (1 \<le> target \<and> target \<le> BIGINT_MAX) \<or> mode \<notin> set LIMIT_MODES
             \<or> (mode = ''custom'') \<noteq> (account_bytes \<noteq> None)
             \<or> (case account_bytes of None \<Rightarrow> False | Some b \<Rightarrow> \<not> (MIN_CUSTOM_LIMIT_BYTES \<le> b \<and> b \<le> BIGINT_MAX))
          then Inl StorageLimitUnavailable
          else (case set_grant actor_id auth_version target mode account_bytes of
                  SqlError state refused \<Rightarrow>
                    Inl (if state \<in> set BUSY_SQLSTATES then StorageLimitBusy
                         else if refused then StorageLimitUnfunded else StorageLimitUnavailable)
                | Outcome outcome \<Rightarrow>
                    if outcome \<in> {''changed'', ''unchanged''} then Inr outcome else Inl StorageLimitUnavailable))"

record storage_grant =
  gr_is_admin :: bool
  gr_limit_mode :: string
  gr_account_limit_bytes :: "int option"
  gr_default_limit_bytes :: int
  gr_used_bytes :: int
  gr_fundable_bytes :: int

definition list_account_storage ::
  "(int \<Rightarrow> int \<Rightarrow> string + (int \<times> storage_grant) list) \<Rightarrow> admin_user \<Rightarrow> limit_error + (int \<rightharpoonup> storage_grant)"
where
  "list_account_storage list_grants u =
     (case admin_identity u of
        Inl e \<Rightarrow> Inl e
      | Inr (actor_id, auth_version) \<Rightarrow>
          (case list_grants actor_id auth_version of
             Inl state \<Rightarrow> Inl (if state \<in> set BUSY_SQLSTATES then StorageLimitBusy else StorageLimitUnavailable)
           | Inr rows \<Rightarrow> Inr (foldl (\<lambda>m row. m(fst row \<mapsto> snd row)) Map.empty rows)))"

section \<open>Properties\<close>

lemma digits_number_bound: "list_all ascii_digit s \<Longrightarrow> 0 \<le> digits_number s \<and> digits_number s < 10 ^ length s"
proof (induction s rule: rev_induct)
  case (snoc c s)
  have "0 \<le> digit_value c" "digit_value c \<le> 9" using snoc.prems by (simp_all add: ascii_digit_def digit_value_def)
  then show ?case using snoc by (simp add: digits_number_def)
qed (simp add: digits_number_def)

text \<open>An accepted entry is a whole number of hundredths, with at most nine whole digits.\<close>

lemma split_gib_hundredths:
  assumes "split_gib s = Some d"
  obtains k where "gib_value d = of_int k / 100" "0 \<le> k" "k < 100000000000"
proof -
  let ?w = "digits_number (fst d)" and ?p = "digits_number (snd d)"
  have d: "list_all ascii_digit (fst d)" "length (fst d) \<le> 9" "list_all ascii_digit (snd d)" "length (snd d) \<le> 2"
    using assms by (auto simp: split_gib_def Let_def list_all_iff dest: set_takeWhileD split: if_splits list.splits)
  note w = digits_number_bound [OF d(1)] and p = digits_number_bound [OF d(3)]
  have "(10::int) ^ length (fst d) \<le> 10 ^ 9" using d(2) by (intro power_increasing) auto
  then have wb: "0 \<le> ?w" "?w < 1000000000" using w by simp_all
  have "length (snd d) = 0 \<or> length (snd d) = 1 \<or> length (snd d) = 2" using d(4) by linarith
  then show ?thesis
  proof (elim disjE)
    assume l: "length (snd d) = 0"
    then have "?p = 0" using p by simp
    then show ?thesis using that [of "100 * ?w"] l wb by (simp add: gib_value_def)
  next
    assume l: "length (snd d) = 1"
    then show ?thesis using that [of "100 * ?w + 10 * ?p"] p wb by (simp add: gib_value_def)
  next
    assume l: "length (snd d) = 2"
    then show ?thesis using that [of "100 * ?w + ?p"] p wb by (simp add: gib_value_def field_simps)
  qed
qed

lemma floor_hundredths: "\<lfloor>(of_int k / 100) * of_int GIB :: real\<rfloor> = k * GIB div 100"
  using floor_divide_of_int_eq [of "k * GIB" 100] by simp

lemma round_half_even_unique:
  assumes "\<bar>x - of_int k\<bar> < 1 / 2"
  shows "round_half_even x = k"
proof -
  have "\<lfloor>x\<rfloor> = k \<or> \<lfloor>x\<rfloor> = k - 1" using assms by linarith
  then show ?thesis using assms by (auto simp: round_half_even_def Let_def)
qed

lemma limit_gib_floor: "limit_gib (k * GIB div 100) = of_int k / 100"
proof -
  let ?b = "k * GIB div 100"
  define g where "g = real_of_int GIB"
  have g: "200 < g" by (simp add: g_def GIB_def)
  have "100 * ?b \<le> k * GIB" "k * GIB < 100 * ?b + 100" by linarith+
  then have "real_of_int (100 * ?b) \<le> of_int (k * GIB)" "real_of_int (k * GIB) < of_int (100 * ?b + 100)"
    by (simp_all only: of_int_le_iff of_int_less_iff)
  then have m: "100 * real_of_int ?b \<le> of_int k * g" "of_int k * g < 100 * real_of_int ?b + 100"
    by (simp_all add: g_def)
  have "of_int k - 1 / 2 < 100 * real_of_int ?b / g" using m g by (simp add: field_simps)
  moreover have "100 * real_of_int ?b / g \<le> of_int k" using m g by (simp add: field_simps)
  ultimately have "\<bar>100 * real_of_int ?b / g - (of_int k :: real)\<bar> < 1 / 2" by linarith
  then show ?thesis by (simp add: limit_gib_def round_half_even_unique g_def mult.commute)
qed

lemma le_div_pos:
  fixes k x g :: int
  assumes "0 < g"
  shows "k * g \<le> x \<longleftrightarrow> k \<le> x div g"
proof
  assume "k * g \<le> x"
  then have "k * g div g \<le> x div g" using assms by (rule zdiv_mono1)
  then show "k \<le> x div g" using assms by simp
next
  assume "k \<le> x div g"
  then have "k * g \<le> x div g * g" using assms by (simp add: mult_right_mono)
  also have "\<dots> \<le> x" using assms pos_mod_sign [of g x] div_mult_mod_eq [of x g] by linarith
  finally show "k * g \<le> x" .
qed

lemma hundred_le:
  fixes x b f :: int
  assumes "100 * b \<le> x" "x < 100 * b + 100"
  shows "b \<le> f \<longleftrightarrow> x \<le> (f + 1) * 100 - 1"
  using assms by auto

text \<open>
  C40. A size an administrator can enter survives storing: the byte count is within bigint and at
  least the smallest limit the database accepts, shown again it is exactly the entered size, and it
  can be funded exactly when the entered size does not exceed the largest size shown as fundable.
\<close>

theorem custom_gib_roundtrip:
  assumes "parse_custom_gib s = Some b" "0 \<le> fundable"
  shows "\<exists>d. split_gib s = Some d \<and> limit_gib b = gib_value d \<and> MIN_CUSTOM_LIMIT_BYTES \<le> b \<and> b \<le> BIGINT_MAX
    \<and> (b \<le> fundable \<longleftrightarrow> gib_value d \<le> max_custom_gib fundable)"
proof -
  obtain d where d: "split_gib s = Some d" "MIN_CUSTOM_LIMIT_GIB \<le> gib_value d" "b = \<lfloor>gib_value d * of_int GIB\<rfloor>"
    using assms(1) by (auto simp: parse_custom_gib_def not_less split: option.splits if_splits)
  obtain k where k: "gib_value d = of_int k / 100" "0 \<le> k" "k < 100000000000"
    by (rule split_gib_hundredths [OF d(1)])
  have b: "b = k * GIB div 100" using d(3) by (simp only: k(1) floor_hundredths)
  have "1 \<le> k" using d(2) k(1) by (simp add: MIN_CUSTOM_LIMIT_GIB_def)
  have "MIN_CUSTOM_LIMIT_BYTES \<le> b"
    unfolding d(3) MIN_CUSTOM_LIMIT_BYTES_def by (intro floor_mono mult_right_mono d(2)) (simp add: GIB_def)
  moreover have "b \<le> BIGINT_MAX" using k(3) by (simp add: b GIB_def BIGINT_MAX_def)
  moreover have "b \<le> fundable \<longleftrightarrow> k \<le> max (((fundable + 1) * 100 - 1) div GIB) 0"
  proof -
    have "b \<le> fundable \<longleftrightarrow> k * GIB \<le> (fundable + 1) * 100 - 1"
    proof -
      have m: "100 * b \<le> k * GIB" "k * GIB < 100 * b + 100" unfolding b by linarith+
      show ?thesis by (rule hundred_le [OF m])
    qed
    also have "\<dots> \<longleftrightarrow> k \<le> ((fundable + 1) * 100 - 1) div GIB" by (rule le_div_pos) (simp add: GIB_def)
    also have "\<dots> \<longleftrightarrow> k \<le> max (((fundable + 1) * 100 - 1) div GIB) 0" using \<open>1 \<le> k\<close> by linarith
    finally show ?thesis .
  qed
  ultimately show ?thesis
    using d(1) limit_gib_floor [of k] k(1) by (auto simp: b max_custom_gib_def divide_le_cancel)
qed

theorem custom_gib_roundtrip_witness:
  "\<exists>b. parse_custom_gib ''2.5'' = Some b \<and> limit_gib b = 5 / 2"
proof -
  have p: "parse_custom_gib ''2.5'' = Some 2684354560"
    by (simp add: parse_custom_gib_def split_gib_def ascii_digit_def digits_number_def digit_value_def gib_value_def
        MIN_CUSTOM_LIMIT_GIB_def GIB_def)
  have "split_gib ''2.5'' = Some (''2'', ''5'')" by (simp add: split_gib_def ascii_digit_def)
  then show ?thesis using custom_gib_roundtrip [OF p order_refl] p
    by (simp add: gib_value_def digits_number_def digit_value_def)
qed

text \<open>A limit only reaches the database when administrator, account, mode and size are in order.\<close>

lemma set_limit_checked:
  assumes "set_account_storage_limit set_grant u target mode bytes = Inr outcome"
  shows "ad_is_admin u \<and> ad_is_enabled u \<and> mode \<in> set LIMIT_MODES \<and> (mode = ''custom'' \<longleftrightarrow> bytes \<noteq> None)
    \<and> 1 \<le> target \<and> target \<le> BIGINT_MAX \<and> (\<forall>b. bytes = Some b \<longrightarrow> MIN_CUSTOM_LIMIT_BYTES \<le> b \<and> b \<le> BIGINT_MAX)
    \<and> outcome \<in> {''changed'', ''unchanged''}"
  using assms by (auto simp: set_account_storage_limit_def admin_identity_def split: sum.splits if_splits option.splits grant_reply.splits)

end
