(* ===== verification/Forwarded.thy ===== *)
theory Forwarded imports StorageLimits begin

text \<open>
  \<open>app/forwarded.py\<close>: the client address from \<open>X-Forwarded-For\<close> when every proxy is trusted. Header
  lines are decoded as latin-1, so a text is a list of 8-bit characters.
\<close>

section \<open>Text as Python reads it\<close>

text \<open>\<open>str.strip\<close> on latin-1 text, \<open>str.split\<close> on a character, and \<open>int\<close> of a text.\<close>

definition latin_space :: "char \<Rightarrow> bool" where
  "latin_space c \<longleftrightarrow> is_space c \<or> c = CHR 0x85 \<or> c = CHR 0xA0"

definition strip_text :: "string \<Rightarrow> string" where
  "strip_text s = rev (dropWhile latin_space (rev (dropWhile latin_space s)))"

fun split_on :: "char \<Rightarrow> string \<Rightarrow> string list" where
  "split_on c [] = [[]]"
| "split_on c (x # xs) = (if x = c then [] # split_on c xs
     else (case split_on c xs of [] \<Rightarrow> [[x]] | y # ys \<Rightarrow> (x # y) # ys))"

fun grouped_digits :: "string \<Rightarrow> bool" where
  "grouped_digits [] = False"
| "grouped_digits [c] = ascii_digit c"
| "grouped_digits (c # d # s) = (ascii_digit c \<and> (if d = CHR ''_'' then grouped_digits s else grouped_digits (d # s)))"

definition unsigned_int :: "string \<Rightarrow> int option" where
  "unsigned_int s = (if grouped_digits s \<and> length (filter ascii_digit s) \<le> 4300 then Some (digits_number (filter ascii_digit s)) else None)"

definition parse_int :: "string \<Rightarrow> int option" where
  "parse_int s =
     (case strip_text s of
        [] \<Rightarrow> None
      | c # t \<Rightarrow> if c = CHR ''-'' then map_option uminus (unsigned_int t)
                 else if c = CHR ''+'' then unsigned_int t else unsigned_int (c # t))"

section \<open>The middleware\<close>

definition wildcard_trust :: "string \<Rightarrow> bool" where
  "wildcard_trust forwarded_allow_ips \<longleftrightarrow> forwarded_allow_ips = ''*''"

definition parse_host_port :: "string \<Rightarrow> string \<times> int" where
  "parse_host_port value =
     (if take 1 value = ''['' then
        (if CHR '']'' \<notin> set value then (value, 0)
         else (let host = takeWhile (\<lambda>c. c \<noteq> CHR '']'') (drop 1 value);
                   remainder = drop 1 (dropWhile (\<lambda>c. c \<noteq> CHR '']'') value)
               in if remainder = [] then (host, 0)
                  else if take 1 remainder \<noteq> '':'' then (value, 0)
                  else (case parse_int (drop 1 remainder) of None \<Rightarrow> (host, 0) | Some port \<Rightarrow> (host, port))))
      else if length (filter (\<lambda>c. c = CHR '':'') value) = 1 then
        (case parse_int (drop 1 (dropWhile (\<lambda>c. c \<noteq> CHR '':'') value)) of
           None \<Rightarrow> (value, 0) | Some port \<Rightarrow> (takeWhile (\<lambda>c. c \<noteq> CHR '':'') value, port))
      else (value, 0))"

definition last_entry :: "string list \<Rightarrow> string option" where
  "last_entry entries = List.find (\<lambda>e. e \<noteq> []) (map strip_text (rev entries))"

definition rightmost_forwarded_for :: "string list \<Rightarrow> (string \<times> int) option" where
  "rightmost_forwarded_for lines =
     map_option (\<lambda>entry. let (host, port) = parse_host_port entry in (if host = [] then entry else host, port))
       (last_entry (split_on (CHR '','') (join '', '' lines)))"

record scope =
  sc_type :: string
  sc_headers :: "(string \<times> string) list"
  sc_client :: "(string \<times> int) option"

definition forwarded_call :: "scope \<Rightarrow> scope" where
  "forwarded_call s =
     (if sc_type s \<in> {''http'', ''websocket''}
      then (let lines = map snd (filter (\<lambda>h. fst h = ''x-forwarded-for'') (sc_headers s))
            in if lines = [] then s
               else case rightmost_forwarded_for lines of None \<Rightarrow> s | Some client \<Rightarrow> s\<lparr>sc_client := Some client\<rparr>)
      else s)"

section \<open>The sender cannot choose the address\<close>

lemma split_on_ne [simp]: "split_on c s \<noteq> []"
  by (cases s) (auto split: list.splits)

lemma split_on_single: "c \<notin> set v \<Longrightarrow> split_on c v = [v]"
  by (induction v) auto

lemma split_on_append: "c \<notin> set v \<Longrightarrow> split_on c (s @ c # v) = split_on c s @ [v]"
  by (induction s) (auto simp: split_on_single split: list.splits)

lemma strip_text_space: "strip_text (CHR '' '' # v) = strip_text v"
  by (simp add: strip_text_def latin_space_def is_space_def)

lemma join_snoc: "lines \<noteq> [] \<Longrightarrow> join sep (lines @ [v]) = join sep lines @ sep @ v"
  by (induction sep lines rule: join.induct) auto

lemma last_entry_snoc: "strip_text v \<noteq> [] \<Longrightarrow> last_entry (entries @ [v]) = Some (strip_text v)"
  by (simp add: last_entry_def)

lemma last_value_wins:
  assumes "CHR '','' \<notin> set v" "strip_text v \<noteq> []"
  shows "last_entry (split_on (CHR '','') (join '', '' (lines @ [prefix @ '', '' @ v]))) = Some (strip_text v)"
    "last_entry (split_on (CHR '','') (join '', '' (lines @ [v]))) = Some (strip_text v)"
proof -
  have sp: "CHR '','' \<notin> set (CHR '' '' # v)" "strip_text (CHR '' '' # v) \<noteq> []" using assms strip_text_space [of v] by auto
  have split: "split_on (CHR '','') (s @ '', '' @ v) = split_on (CHR '','') s @ [CHR '' '' # v]" for s
    using split_on_append [OF sp(1), of s] by simp
  have one: "last_entry (split_on (CHR '','') (s @ '', '' @ v)) = Some (strip_text v)" for s
    unfolding split using last_entry_snoc [OF sp(2)] strip_text_space by simp
  show "last_entry (split_on (CHR '','') (join '', '' (lines @ [prefix @ '', '' @ v]))) = Some (strip_text v)"
  proof (cases "lines = []")
    case False
    have "join '', '' (lines @ [prefix @ '', '' @ v]) = (join '', '' lines @ '', '' @ prefix) @ '', '' @ v"
      by (simp only: join_snoc [OF False] append_assoc)
    then show ?thesis using one by metis
  qed (use one [of prefix] in simp)
  show "last_entry (split_on (CHR '','') (join '', '' (lines @ [v]))) = Some (strip_text v)"
  proof (cases "lines = []")
    case False
    then show ?thesis using one [of "join '', '' lines"] by (simp only: join_snoc [OF False])
  qed (use assms in \<open>simp add: split_on_single last_entry_def\<close>)
qed

text \<open>
  The sender of a request cannot choose the client address. Whatever header lines and entries it
  sends, once the trusted proxy has appended the address it saw, as a further entry of the last line
  or as a line of its own, the address the application sees is that one and depends on nothing else.
\<close>

theorem forwarded_address_trusted:
  assumes "CHR '','' \<notin> set v" "strip_text v \<noteq> []"
  shows "rightmost_forwarded_for (lines @ [prefix @ '', '' @ v]) = rightmost_forwarded_for [v]
    \<and> rightmost_forwarded_for (lines @ [v]) = rightmost_forwarded_for [v] \<and> rightmost_forwarded_for [v] \<noteq> None"
  using last_value_wins(1) [OF assms, of lines prefix] last_value_wins(2) [OF assms, of lines] last_value_wins(2) [OF assms, of "[]"]
  by (simp add: rightmost_forwarded_for_def)

theorem forwarded_address_trusted_witness:
  "rightmost_forwarded_for [''1.2.3.4, 10.0.0.1'', ''evil, 203.0.113.7:4711''] = Some (''203.0.113.7'', 4711)"
proof -
  have v: "CHR '','' \<notin> set ''203.0.113.7:4711''" "strip_text ''203.0.113.7:4711'' \<noteq> []"
    by (simp_all add: strip_text_def latin_space_def is_space_def)
  have "rightmost_forwarded_for [''203.0.113.7:4711''] = Some (''203.0.113.7'', 4711)"
    by (simp add: rightmost_forwarded_for_def last_entry_def strip_text_def latin_space_def is_space_def parse_host_port_def
        parse_int_def unsigned_int_def ascii_digit_def digits_number_def digit_value_def)
  then show ?thesis
    using forwarded_address_trusted [OF v, of "[''1.2.3.4, 10.0.0.1'']" "''evil''"] by simp
qed

end
