(* ===== verification/Spec2Isabelle.thy ===== *)
theory Spec2Isabelle imports Detector Reconcile Autotag MergePlan Report Odometer Expenses TripWarnings Limiter Ingest Capacity PortableImport DetectorSchedule AvatarChecks CursorFilters SpoolFiles Scheduler AccountRotation SnapCurrent Pacer Forwarded begin

text \<open>
  Odograph is a self-hosted mileage logger. A phone posts location fixes to
  \<open>src/app/ingest.py\<close>; a detector (\<open>src/app/detector/core.py\<close>) turns an account's fixes
  into stays and trips, \<open>detector/reconcile.py\<close> matches them to the stored trips so that
  tags survive, and \<open>autotag.py\<close> categorises them by rules; \<open>report.py\<close>, \<open>rates.py\<close>,
  \<open>odometer.py\<close> and \<open>expenses.py\<close> turn the trips of a range into a mileage and expense
  report; \<open>portable/\<close> exports an account as a JSON bundle and imports it elsewhere; and
  \<open>capacity.py\<close> decides which request may use the database. This development models
  these parts in HOL, one theory per part, and proves what makes each of them correct.

  \<^bold>\<open>Theories\<close>

  \<^item> \<open>Prelude\<close>: instants (integer microseconds), the result type \<open>error + 'a\<close> with
    \<open>res_bind\<close>, list lemmas. \<open>PyData\<close>: insertion-ordered dictionaries, tallies (locale
    \<open>tally\<close>), integer text. \<open>JsonData\<close>: decoded JSON values.
  \<^item> \<open>DetectorTypes\<close>, \<open>DetectorStays\<close>, \<open>DetectorFind\<close>, \<open>DetectorTrips\<close>: \<open>detector/core.py\<close>
    in its order, \<open>haversine_m\<close>, \<open>filter_points\<close>, \<open>_stationary_ranges\<close>, \<open>_on_foot_ranges\<close>,
    \<open>_union_ranges\<close>, \<open>_merge_jitter\<close>, \<open>find_stays\<close>, the override steps, \<open>assemble_trips\<close>,
    \<open>detect\<close>. \<open>Detector\<close> holds its properties. The locale \<open>geo_distance\<close> is what the
    algorithms need of a distance; \<open>range_pass\<close> is the contract of the two stay passes and
    \<open>two_passes\<close> what their union promises.
  \<^item> \<open>RunnerTypes\<close>, \<open>Runner\<close>, \<open>RunnerInv\<close>, \<open>RunnerRuns\<close>: \<open>detector/runner.py\<close>, a run of one
    device as a transaction on the account's tables (fixes, stays, trips, expenses, overrides,
    places, rules, checkpoints). \<open>RunnerTypes\<close> has the tables, the SQL statements and the run;
    \<open>Runner\<close> what each statement does to a row; \<open>RunnerInv\<close> that references stay valid;
    \<open>RunnerRuns\<close> the properties of a run. \<open>DetectorSchedule\<close>: which device runs when, the
    in-memory deferrals, one background turn, the sweep and the operator run.
  \<^item> \<open>Reconcile\<close> (\<open>plan_reconcile\<close>), \<open>Autotag\<close> (\<open>match_rule\<close>, \<open>plan_autotag\<close>), \<open>MergePlan\<close>
    (\<open>plan_merge_selected\<close>): the pure planners around the detector.
  \<^item> \<open>Calendar\<close>, \<open>Rates\<close>, \<open>ReportTypes\<close>, \<open>Report\<close>, \<open>Odometer\<close>, \<open>Expenses\<close>: \<open>range_report\<close>,
    \<open>annual_report\<close>, \<open>rate_for\<close>, \<open>reconcile_odometer\<close>, the expense report and their texts.
  \<^item> \<open>TripWarnings\<close>: \<open>missing_trip_badge\<close>, warning fingerprints and acknowledgements.
  \<^item> \<open>Limiter\<close>: \<open>FailedAuthLimiter\<close> as a state machine. \<open>Ingest\<close>: body reader, validation,
    storability and the two ingest handlers over the two tables they write.
  \<^item> \<open>CapacityTypes\<close>, \<open>CapacityConfig\<close>, \<open>Capacity\<close>: \<open>validate_capacity_config\<close> and
    \<open>AdmissionManager\<close> as a state machine over lanes, tickets and owners.
  \<^item> \<open>PortableTypes\<close>, \<open>Normalize\<close>, \<open>Export\<close>, \<open>Portable\<close>, \<open>PortableBundle\<close>, \<open>Importer\<close>,
    \<open>PortableImport\<close>: \<open>normalize_bundle\<close>, the shaping of an export, and the import. Every row
    reader of \<open>normalize.py\<close> is an interpretation of the locale \<open>row_reader\<close>.
  \<^item> \<open>AvatarTypes\<close>, \<open>Avatar\<close>, \<open>AvatarRows\<close>, \<open>AvatarChecks\<close>: \<open>avatar_images.py\<close>, the PNG, JPEG and
    WebP parsers over lists of bytes, and \<open>detect_avatar\<close>. \<open>Bytes\<close>: bytes and \<open>struct\<close> as the
    binary formats use them, with the rules of the predicate \<open>returns\<close>.
  \<^item> \<open>Sha256\<close> (FIPS 180-4, what \<open>hashlib\<close> computes), \<open>Cursor\<close>, \<open>CursorFilters\<close>: \<open>api_cursor.py\<close>, the
    opaque page cursors of the API and the digest of the filters they are bound to.
  \<^item> \<open>SpoolSort\<close>, \<open>SpoolOrder\<close>, \<open>SpoolFiles\<close>: \<open>preparation_sort.py\<close>, the external merge sort over
    its key, data and run files.
  \<^item> \<open>Scheduler\<close>: \<open>BackgroundScheduler\<close> with its frames and cancellations. \<open>AccountWorker\<close>,
    \<open>AccountRotation\<close>: \<open>worker.py\<close> and \<open>AccountWorker\<close>, the rotation of accounts and the loop of
    pokes, sweeps and continuations around it.
  \<^item> \<open>SnapMatch\<close>, \<open>SnapChecks\<close>: the pure part of \<open>snap.py\<close>, thinning and the OSRM parsers.
    \<open>SnapWorker\<close>, \<open>SnapCurrent\<close>: its worker, one function per transaction, with what other
    connections commit in between as an argument.
  \<^item> \<open>Pacer\<close>: \<open>provider_pacing.py\<close> as a step relation. \<open>StorageLimits\<close>: the sizes and checks of
    \<open>storage_limits.py\<close>. \<open>Forwarded\<close>: \<open>forwarded.py\<close>.

  \<^bold>\<open>How the model corresponds to the code\<close>

  A dataclass or row is a record with its fields prefixed; a dictionary is an association
  list in insertion order; an exception is \<open>Inl\<close> of an \<open>error\<close>; Python's integers are
  \<open>int\<close>; an instant is an \<open>int\<close> of microseconds. Floats and \<open>Decimal\<close>s are reals: rounding
  is not modelled, and no property depends on it. A loop over a list is a \<open>fold\<close> or a
  structural recursion, an index loop a function with a measure, so every modelled loop
  terminates and no fuel is used. The state machines (\<open>Limiter\<close>, \<open>Capacity\<close>, \<open>Scheduler\<close>, \<open>Pacer\<close>) are inductive
  step relations over the operations, cut at the points where the code awaits, over a
  clock that does not run backwards.

  Parameters stand for what is not in \<open>src/\<close>: the timezone database (\<open>loc\<close>, \<open>midnight\<close>),
  Python's ISO date and decimal readers (\<open>py_text\<close>), the ids PostgreSQL returns and the
  faults a statement can raise (\<open>import_env\<close>, \<open>env\<close>), PostGIS distances and simplification,
  URL decoding, the database's jsonb rendering, what zlib's decompressor returns, what a background unit does with its account, OSRM's replies and
  what other connections commit. Their laws are named hypotheses, instantiated in the witnesses.

  \<^bold>\<open>What the lemmas show\<close>

  The detector never fails on the overrides the application writes, its trips are ordered,
  disjoint and bounded by stays, and each durable edit (merge, split, delete) holds on every
  run; a committed run replaces exactly the window it detected, keeps the tables consistent and
  every human tag, touches no other device, and a late fix is picked up by a later one; a wake
  cycle ends and a sweep drains the queue; no upload makes the image check raise, an accepted
  PNG is within the caps with exactly its rows as data; the planners are total, one-to-one and idempotent; every figure of a report is a sum
  over the trips it names, whichever way it is broken down; a bundle is accepted only when
  well formed, a well-formed account survives export and import up to a renaming of ids;
  what ingest stores is storable, unique per stream and time, and redelivery changes
  nothing; limiter and admission manager keep to their bounds in every reachable state; a
  cursor is accepted exactly when it was written for the same list and, short of a collision, the
  same filters; the external sort is the stable sort; background turns are first come, first
  served, no account waits for more turns than there are accounts, and the loop wakes in time; a
  snapped route is stored only when it is the one for the trip's current fixes; provider requests
  start in order of arrival and an interval apart; a size limit survives storing; and the sender of
  a request cannot choose its client address.

  \<^bold>\<open>Not modelled\<close>

  SQL, HTTP routing, templates, subprocesses, sockets and files; float and \<open>Decimal\<close>
  rounding; the wording of validation issues where it only interpolates values. Of
  \<open>capacity.py\<close> the borrowing of pooled connections, of \<open>ingest.py\<close> the extraction of
  credentials from headers, of \<open>portable/\<close> the SQL that reads and inserts rows.
  Authentication, account administration, geocoding, notifications and the mail and
  report renderers are mostly glue around the database and other processes.
\<close>

end
